(* ===== verification/Prelude.thy ===== *)
theory Prelude
  imports Main "HOL-Library.Word" "HOL-Library.AList" "HOL-Library.Sublist"
begin

unbundle bit_operations_syntax

text \<open>
  Shared vocabulary of the development: bytes and big-endian encodings, hexadecimal strings, Go
  maps, and the lemma collections the component theories use.

  A Go map is an association list with distinct keys. Go iterates over a map in an unspecified
  order; here it is the order of the list, and every theorem quantifies over the lists that
  enumerate a map, so it holds for each iteration order.
\<close>

named_theorems gomap "lookup, update and deletion on Go maps"

subsection \<open>Bytes\<close>

type_synonym byte = "8 word"
type_synonym u16 = "16 word"
type_synonym u32 = "32 word"
type_synonym u64 = "64 word"

definition be32 :: "u32 \<Rightarrow> byte list" where
  "be32 x = [ucast (drop_bit 24 x), ucast (drop_bit 16 x), ucast (drop_bit 8 x), ucast x]"

definition be64 :: "u64 \<Rightarrow> byte list" where
  "be64 x = [ucast (drop_bit 56 x), ucast (drop_bit 48 x), ucast (drop_bit 40 x),
             ucast (drop_bit 32 x), ucast (drop_bit 24 x), ucast (drop_bit 16 x),
             ucast (drop_bit 8 x), ucast x]"

definition be16 :: "u16 \<Rightarrow> byte list" where
  "be16 x = [ucast (drop_bit 8 x), ucast x]"

lemma length_be [simp]: "length (be16 x) = 2" "length (be32 y) = 4" "length (be64 z) = 8"
  by (simp_all add: be16_def be32_def be64_def)

subsection \<open>Go maps\<close>

type_synonym ('k, 'v) gomap = "('k \<times> 'v) list"

definition gm_set :: "'k \<Rightarrow> 'v \<Rightarrow> ('k, 'v) gomap \<Rightarrow> ('k, 'v) gomap" where
  "gm_set k v m = AList.update k v m"

definition gm_del :: "'k \<Rightarrow> ('k, 'v) gomap \<Rightarrow> ('k, 'v) gomap" where
  "gm_del k m = AList.delete k m"

text \<open>Reading a missing key gives the zero value of the element type.\<close>

definition gm_get :: "'v \<Rightarrow> ('k, 'v) gomap \<Rightarrow> 'k \<Rightarrow> 'v" where
  "gm_get z m k = (case map_of m k of None \<Rightarrow> z | Some v \<Rightarrow> v)"

abbreviation gm_keys :: "('k, 'v) gomap \<Rightarrow> 'k list" where "gm_keys m \<equiv> map fst m"

abbreviation gm_wf :: "('k, 'v) gomap \<Rightarrow> bool" where "gm_wf m \<equiv> distinct (gm_keys m)"

lemma map_of_gm_set [simp, gomap]: "map_of (gm_set k v m) = (map_of m)(k \<mapsto> v)"
  by (simp add: gm_set_def update_conv')

lemma map_of_gm_del [simp, gomap]: "map_of (gm_del k m) = (map_of m)(k := None)"
  by (simp add: gm_del_def delete_conv')

lemma gm_get_set [simp, gomap]: "gm_get z (gm_set k v m) k' = (if k' = k then v else gm_get z m k')"
  by (simp add: gm_get_def)

lemma gm_get_del [simp, gomap]: "gm_get z (gm_del k m) k' = (if k' = k then z else gm_get z m k')"
  by (simp add: gm_get_def)

lemma gm_get_Nil [simp, gomap]: "gm_get z [] k = z"
  by (simp add: gm_get_def)

lemma gm_wf_set [simp, intro]: "gm_wf m \<Longrightarrow> gm_wf (gm_set k v m)"
  by (simp add: gm_set_def distinct_update)

lemma gm_wf_del [simp, intro]: "gm_wf m \<Longrightarrow> gm_wf (gm_del k m)"
  by (simp add: gm_del_def distinct_delete)

lemma set_gm_keys: "set (gm_keys m) = dom (map_of m)"
  by (simp add: dom_map_of_conv_image_fst)

lemma gm_keys_set: "set (gm_keys (gm_set k v m)) = insert k (set (gm_keys m))"
  by (simp add: set_gm_keys del: set_map)

lemma gm_keys_del: "set (gm_keys (gm_del k m)) = set (gm_keys m) - {k}"
  by (auto simp: set_gm_keys simp del: set_map)

lemma gm_mem_wf: "gm_wf m \<Longrightarrow> (k, v) \<in> set m \<longleftrightarrow> map_of m k = Some v"
  by (auto simp: map_of_eq_Some_iff)


text \<open>The sum of the values of a map.\<close>

definition gm_sum :: "('k, 'v::comm_monoid_add) gomap \<Rightarrow> 'v" where
  "gm_sum m = (\<Sum>k \<in> set (gm_keys m). gm_get 0 m k)"

lemma gm_get_notin: "k \<notin> set (gm_keys m) \<Longrightarrow> gm_get z m k = z"
  by (metis domIff gm_get_def option.simps(4) set_gm_keys)

lemma gm_sum_add: "gm_sum (gm_set k (gm_get 0 m k + w) m) = gm_sum m + w"
proof -
  let ?K = "set (gm_keys m)"
  have "gm_sum (gm_set k (gm_get 0 m k + w) m)
      = (\<Sum>x \<in> insert k ?K. if x = k then gm_get 0 m k + w else gm_get 0 m x)"
    by (simp add: gm_sum_def gm_keys_set del: set_map)
  also have "\<dots> = (gm_get 0 m k + w) + (\<Sum>x \<in> ?K - {k}. if x = k then gm_get 0 m k + w else gm_get 0 m x)"
    by (subst sum.insert_remove) (simp_all del: set_map)
  also have "(\<Sum>x \<in> ?K - {k}. if x = k then gm_get 0 m k + w else gm_get 0 m x) = (\<Sum>x \<in> ?K - {k}. gm_get 0 m x)"
    by (rule sum.cong) auto
  also have "(gm_get 0 m k + w) + \<dots> = gm_sum m + w"
  proof (cases "k \<in> ?K")
    case True
    then show ?thesis unfolding gm_sum_def by (subst sum.remove[OF _ True]) (simp_all add: ac_simps del: set_map)
  next
    case False
    then show ?thesis by (simp add: gm_sum_def gm_get_notin ac_simps del: set_map)
  qed
  finally show ?thesis .
qed

end
