(* ===== verification/Float64.thy ===== *)
theory Float64
  imports Prelude "HOL-Library.Log_Nat"
begin

text \<open>
  Go's \<open>float64\<close> and \<open>math/big.Float\<close> arithmetic, as the share difficulty code uses it.
  A finite floating-point number is a rational; every operation computes the exact rational
  result and rounds it to nearest, ties to even. \<open>f64\<close> is the rounding of \<open>float64\<close>
  (53 bits of precision, gradual underflow at \<open>2 powi (-1074)\<close>), \<open>big_round p\<close> that of a
  \<open>big.Float\<close> of precision \<open>p\<close>, whose exponent is unbounded. Overflow to an infinity is
  not modelled: the difficulties of the code are at most \<open>2 ^ 232\<close>.
\<close>

subsection \<open>Rounding to an integer and to a multiple of a power of two\<close>

definition rne :: "rat \<Rightarrow> int" where
  "rne x = (let f = \<lfloor>x\<rfloor>; d = x - of_int f
            in if d < 1 / 2 then f else if 1 / 2 < d then f + 1
               else if even f then f else f + 1)"

definition rnd_at :: "int \<Rightarrow> rat \<Rightarrow> rat" where
  "rnd_at e x = of_int (rne (x / 2 powi e)) * 2 powi e"

text \<open>The exponent of the leading bit of a positive rational.\<close>

definition ilog2 :: "rat \<Rightarrow> int" where
  "ilog2 x = (if 1 \<le> x then int (floorlog 2 (nat \<lfloor>x\<rfloor>)) - 1
              else - int (floorlog 2 (nat (\<lceil>1 / x\<rceil> - 1))))"

definition f64_exp :: "rat \<Rightarrow> int" where
  "f64_exp x = max (ilog2 \<bar>x\<bar> - 52) (-1074)"

definition f64 :: "rat \<Rightarrow> rat" where
  "f64 x = (if x = 0 then 0 else rnd_at (f64_exp x) x)"

definition big_round :: "nat \<Rightarrow> rat \<Rightarrow> rat" where
  "big_round p x = (if x = 0 then 0 else rnd_at (ilog2 \<bar>x\<bar> + 1 - int p) x)"

abbreviation fadd :: "rat \<Rightarrow> rat \<Rightarrow> rat" where "fadd x y \<equiv> f64 (x + y)"
abbreviation fsub :: "rat \<Rightarrow> rat \<Rightarrow> rat" where "fsub x y \<equiv> f64 (x - y)"
abbreviation fmul :: "rat \<Rightarrow> rat \<Rightarrow> rat" where "fmul x y \<equiv> f64 (x * y)"
abbreviation fdiv :: "rat \<Rightarrow> rat \<Rightarrow> rat" where "fdiv x y \<equiv> f64 (x / y)"

subsection \<open>Rounding to nearest is monotone, odd and exact on integers\<close>

lemma rne_bounds: "\<lfloor>x\<rfloor> \<le> rne x" "rne x \<le> \<lfloor>x\<rfloor> + 1"
  by (auto simp: rne_def Let_def)

lemma rne_mono: assumes "x \<le> y" shows "rne x \<le> rne y"
proof (cases "\<lfloor>x\<rfloor> = \<lfloor>y\<rfloor>")
  case True
  then show ?thesis using assms by (auto simp: rne_def Let_def)
next
  case False
  then have "\<lfloor>x\<rfloor> + 1 \<le> \<lfloor>y\<rfloor>" using floor_mono[OF assms] by linarith
  then show ?thesis using rne_bounds(2)[of x] rne_bounds(1)[of y] by linarith
qed

lemma rne_of_int [simp]: "rne (of_int n) = n"
  by (simp add: rne_def)

lemma rne_minus: "rne (- x) = - rne x"
proof (cases "x = of_int \<lfloor>x\<rfloor>")
  case True
  then show ?thesis by (metis rne_of_int of_int_minus)
next
  case False
  have "\<lceil>x\<rceil> = \<lfloor>x\<rfloor> + 1"
    using False by (metis ceiling_altdef of_int_floor_cancel)
  then have fl: "\<lfloor>- x\<rfloor> = - \<lfloor>x\<rfloor> - 1" by (simp add: floor_minus)
  show ?thesis unfolding rne_def Let_def fl by auto
qed

lemma rnd_at_mono: "x \<le> y \<Longrightarrow> rnd_at e x \<le> rnd_at e y"
  by (auto simp: rnd_at_def intro!: mult_right_mono rne_mono divide_right_mono)

lemma rnd_at_minus: "rnd_at e (- x) = - rnd_at e x"
  by (simp add: rnd_at_def rne_minus)

lemma rnd_at_exact: "rnd_at e (of_int n * 2 powi e) = of_int n * 2 powi e"
  by (simp add: rnd_at_def)

lemma powi_split: assumes "e \<le> k" shows "\<exists>n. (2::rat) powi k = of_int n * 2 powi e"
proof -
  have "(2::rat) powi (k - e) = 2 ^ nat (k - e)" using assms by (simp add: power_int_def)
  moreover have "(2::rat) powi k = 2 powi (k - e) * 2 powi e" by (simp add: power_int_diff)
  ultimately have "(2::rat) powi k = of_int (2 ^ nat (k - e)) * 2 powi e" by simp
  then show ?thesis by blast
qed

lemma rnd_at_pow: "e \<le> k \<Longrightarrow> rnd_at e (2 powi k) = 2 powi k"
  using powi_split[of e k] rnd_at_exact by metis

lemma rnd_at_0 [simp]: "rnd_at e 0 = 0"
  using rnd_at_exact[of e 0] by simp

subsection \<open>The leading exponent\<close>

lemma ilog2_bounds_ge1: assumes "1 \<le> x" shows "2 powi (ilog2 x) \<le> x" "x < 2 powi (ilog2 x + 1)"
proof -
  define n where "n = nat \<lfloor>x\<rfloor>"
  define k where "k = floorlog 2 n"
  have n: "1 \<le> n" "of_nat n \<le> x" "x < of_nat n + 1"
    using assms by (auto simp: n_def le_nat_iff) linarith+
  have b: "2 ^ (k - 1) \<le> n" "n < 2 ^ k"
    using floorlog_bounds[of n 2] n by (auto simp: k_def)
  have k: "1 \<le> k" using b(2) n(1) by (cases k) auto
  have il: "ilog2 x = int (k - 1)" using assms k by (simp add: ilog2_def n_def k_def of_nat_diff)
  have "2 powi (ilog2 x) = rat_of_nat (2 ^ (k - 1))" by (simp add: il)
  also have "\<dots> \<le> of_nat n" using b(1) by (simp only: of_nat_le_iff)
  finally show "2 powi (ilog2 x) \<le> x" using n(2) by simp
  have "x < of_nat (n + 1)" using n(3) by simp
  also have "\<dots> \<le> rat_of_nat (2 ^ k)" using b(2) by (simp only: of_nat_le_iff Suc_eq_plus1[symmetric] Suc_le_eq)
  also have "\<dots> = 2 powi (ilog2 x + 1)"
    using k by (simp add: il of_nat_diff)
  finally show "x < 2 powi (ilog2 x + 1)" .
qed

lemma ilog2_bounds_lt1:
  assumes "0 < x" "x < 1" shows "2 powi (ilog2 x) \<le> x" "x < 2 powi (ilog2 x + 1)"
proof -
  define n where "n = nat \<lceil>1 / x\<rceil>"
  define k where "k = floorlog 2 (n - 1)"
  have y: "1 < 1 / x" using assms by simp
  have "1 < \<lceil>1 / x\<rceil>" using y by (simp add: less_ceiling_iff)
  then have n: "2 \<le> n" "1 / x \<le> of_nat n" "of_nat n - 1 < 1 / x"
    using y by (auto simp: n_def le_of_int_ceiling) linarith+
  have b: "2 ^ (k - 1) \<le> n - 1" "n - 1 < 2 ^ k"
    using floorlog_bounds[of "n - 1" 2] n by (auto simp: k_def)
  have k: "1 \<le> k" using b(2) n(1) by (cases k) auto
  have nn: "nat (\<lceil>1 / x\<rceil> - 1) = n - 1" by (simp add: n_def nat_diff_distrib')
  have il: "ilog2 x = - int k" using assms by (simp add: ilog2_def k_def nn)
  have "1 / x \<le> rat_of_nat (2 ^ k)"
  proof -
    have "n \<le> 2 ^ k" using b(2) n(1) by linarith
    then have "rat_of_nat n \<le> rat_of_nat (2 ^ k)" by (simp only: of_nat_le_iff)
    with n(2) show ?thesis by (rule order_trans)
  qed
  then have "1 \<le> x * 2 ^ k" using assms(1) by (simp add: divide_le_eq mult.commute)
  then show "2 powi (ilog2 x) \<le> x" by (simp add: il power_int_minus field_simps)
  have "rat_of_nat (2 ^ (k - 1)) \<le> of_nat (n - 1)" using b(1) by (simp only: of_nat_le_iff)
  also have "\<dots> < 1 / x" using n(1,3) by (simp add: of_nat_diff)
  finally have "x * 2 ^ (k - 1) < 1" using assms(1) by (simp add: less_divide_eq mult.commute)
  moreover have "ilog2 x + 1 = - int (k - 1)" using k by (simp add: il of_nat_diff)
  ultimately show "x < 2 powi (ilog2 x + 1)" by (simp add: power_int_minus field_simps)
qed

lemma ilog2_bounds: assumes "0 < x" shows "2 powi (ilog2 x) \<le> x" "x < 2 powi (ilog2 x + 1)"
  using assms ilog2_bounds_ge1 ilog2_bounds_lt1 by (meson not_le)+

lemma powi_mono2: "e \<le> k \<Longrightarrow> (2::rat) powi e \<le> 2 powi k"
  by (simp add: power_int_increasing)

lemma ilog2_mono: assumes "0 < x" "x \<le> y" shows "ilog2 x \<le> ilog2 y"
proof (rule ccontr)
  assume "\<not> ilog2 x \<le> ilog2 y"
  then have "(2::rat) powi (ilog2 y + 1) \<le> 2 powi (ilog2 x)" by (intro powi_mono2) simp
  moreover have "0 < y" using assms by simp
  ultimately show False
    using assms ilog2_bounds(1)[of x] ilog2_bounds(2)[of y] by linarith
qed

lemma ilog2_jump: assumes "0 < x" "0 < y" "ilog2 x < ilog2 y" shows "x < 2 powi (ilog2 y)"
proof -
  have "(2::rat) powi (ilog2 x + 1) \<le> 2 powi (ilog2 y)" using assms(3) by (intro powi_mono2) simp
  then show ?thesis using ilog2_bounds(2)[OF assms(1)] by linarith
qed

subsection \<open>The contract of a rounding, and the clients' facts about it\<close>

text \<open>
  What the difficulty code relies on: rounding is monotone, idempotent, odd and keeps zero.
  A value is representable when rounding leaves it alone.
\<close>

locale rounding =
  fixes rnd :: "rat \<Rightarrow> rat"
  assumes rnd_mono: "x \<le> y \<Longrightarrow> rnd x \<le> rnd y"
    and rnd_idem: "rnd (rnd x) = rnd x"
    and rnd_minus: "rnd (- x) = - rnd x"
begin

lemma zero: "rnd 0 = 0"
  using rnd_minus[of 0] by simp

lemma nonneg: "0 \<le> x \<Longrightarrow> 0 \<le> rnd x"
  using rnd_mono[of 0 x] zero by simp

lemma nonpos: "x \<le> 0 \<Longrightarrow> rnd x \<le> 0"
  using rnd_mono[of x 0] zero by simp

lemma ge_rep: "rnd a = a \<Longrightarrow> a \<le> x \<Longrightarrow> a \<le> rnd x"
  using rnd_mono[of a x] by simp

lemma le_rep: "rnd a = a \<Longrightarrow> x \<le> a \<Longrightarrow> rnd x \<le> a"
  using rnd_mono[of x a] by simp

lemma add_grows: "rnd a = a \<Longrightarrow> 0 \<le> d \<Longrightarrow> a \<le> rnd (a + d)"
  by (rule ge_rep) simp_all

lemma pos_rep: "rnd a = a \<Longrightarrow> 0 < a \<Longrightarrow> a \<le> x \<Longrightarrow> 0 < rnd x"
  using ge_rep by force

end

text \<open>
  A floating-point format rounds to a multiple of \<open>2 powi (ex x)\<close>. The two laws say that the
  exponent grows with the value and only steps up at a power of two that the new exponent divides.
\<close>

locale float_format =
  fixes ex :: "rat \<Rightarrow> int" and rnd :: "rat \<Rightarrow> rat"
  assumes rnd_eq: "rnd x = (if x = 0 then 0 else rnd_at (ex \<bar>x\<bar>) x)"
    and ex_mono: "0 < x \<Longrightarrow> x \<le> y \<Longrightarrow> ex x \<le> ex y"
    and ex_jump: "0 < x \<Longrightarrow> 0 < y \<Longrightarrow> ex x < ex y \<Longrightarrow> \<exists>k. ex y \<le> k \<and> x < 2 powi k \<and> 2 powi k \<le> y"
begin

lemma fmt_minus: "rnd (- x) = - rnd x"
  by (simp add: rnd_eq rnd_at_minus)

lemma fmt_nonneg: "0 \<le> x \<Longrightarrow> 0 \<le> rnd x"
  using rnd_at_mono[of 0 x "ex \<bar>x\<bar>"] by (simp add: rnd_eq)

lemma fmt_mono_pos: assumes "0 < x" "x \<le> y" shows "rnd x \<le> rnd y"
proof (cases "ex x = ex y")
  case True
  then show ?thesis using assms rnd_at_mono by (simp add: rnd_eq)
next
  case False
  then have lt: "ex x < ex y" using ex_mono[OF assms] by simp
  have y: "0 < y" using assms by simp
  obtain k where k: "ex y \<le> k" "x < 2 powi k" "2 powi k \<le> y" using ex_jump[OF assms(1) y lt] by blast
  have "rnd_at (ex x) x \<le> 2 powi k"
    using rnd_at_mono[of x "2 powi k" "ex x"] rnd_at_pow[of "ex x" k] k lt by simp
  also have "\<dots> \<le> rnd_at (ex y) y"
    using rnd_at_mono[OF k(3), of "ex y"] rnd_at_pow[OF k(1)] by simp
  finally show ?thesis using assms y by (simp add: rnd_eq)
qed

lemma fmt_mono: assumes "x \<le> y" shows "rnd x \<le> rnd y"
proof -
  consider "0 < x" | "x \<le> 0" "0 \<le> y" | "y < 0" using assms by linarith
  then show ?thesis
  proof cases
    case 1 then show ?thesis using fmt_mono_pos assms by simp
  next
    case 2
    then have "rnd x \<le> 0" using fmt_nonneg[of "- x"] fmt_minus by simp
    then show ?thesis using fmt_nonneg[OF 2(2)] by simp
  next
    case 3
    then have "rnd (- y) \<le> rnd (- x)" using assms by (intro fmt_mono_pos) simp_all
    then show ?thesis by (simp add: fmt_minus)
  qed
qed

lemma fmt_idem_pos: assumes "0 < x" shows "rnd (rnd x) = rnd x"
proof (cases "rnd x = 0")
  case True
  then show ?thesis by (simp add: rnd_eq)
next
  case False
  then have y: "0 < rnd x" using fmt_nonneg[of x] assms by simp
  have rx: "rnd x = rnd_at (ex x) x" using assms by (simp add: rnd_eq)
  obtain n where n: "rnd x = of_int n * 2 powi (ex (rnd x))"
  proof (cases "ex (rnd x) \<le> ex x")
    case True
    then obtain m where "(2::rat) powi (ex x) = of_int m * 2 powi (ex (rnd x))"
      using powi_split by blast
    then have "rnd x = of_int (rne (x / 2 powi ex x) * m) * 2 powi (ex (rnd x))"
      unfolding rx rnd_at_def by simp
    then show ?thesis by (rule that)
  next
    case False
    then obtain k where k: "ex (rnd x) \<le> k" "x < 2 powi k" "2 powi k \<le> rnd x"
      using ex_jump[OF assms y] by force
    have "rnd x \<le> 2 powi k"
      using rnd_at_mono[of x "2 powi k" "ex x"] rnd_at_pow[of "ex x" k] k False rx by simp
    then have "rnd x = 2 powi k" using k by simp
    then show ?thesis using powi_split[OF k(1)] that by metis
  qed
  have "rnd (rnd x) = rnd_at (ex (rnd x)) (rnd x)" using y by (simp add: rnd_eq)
  also have "\<dots> = rnd x" using n rnd_at_exact by metis
  finally show ?thesis .
qed

lemma fmt_idem: "rnd (rnd x) = rnd x"
proof -
  consider "0 < x" | "x = 0" | "0 < - x" by linarith
  then show ?thesis
  proof cases
    case 1 then show ?thesis by (rule fmt_idem_pos)
  next
    case 2 then show ?thesis by (simp add: rnd_eq)
  next
    case 3 then show ?thesis using fmt_idem_pos[OF 3] by (simp add: fmt_minus)
  qed
qed

end

sublocale float_format \<subseteq> rounding rnd
  by unfold_locales (rule fmt_mono fmt_idem fmt_minus, assumption?)+

lemma f64_exp_jump:
  assumes "0 < x" "0 < y" "f64_exp x < f64_exp y"
  shows "\<exists>k. f64_exp y \<le> k \<and> x < 2 powi k \<and> 2 powi k \<le> y"
proof (intro exI conjI)
  have "ilog2 x < ilog2 y" using assms by (auto simp: f64_exp_def)
  then show "x < 2 powi (ilog2 y)" using assms ilog2_jump by blast
  show "2 powi (ilog2 y) \<le> y" using ilog2_bounds(1)[OF assms(2)] .
  show "f64_exp y \<le> ilog2 y" using assms by (auto simp: f64_exp_def)
qed

interpretation f64: float_format f64_exp f64
proof
  show "f64 x = (if x = 0 then 0 else rnd_at (f64_exp \<bar>x\<bar>) x)" for x
    by (simp add: f64_def f64_exp_def)
  show "0 < x \<Longrightarrow> x \<le> y \<Longrightarrow> f64_exp x \<le> f64_exp y" for x y
    using ilog2_mono[of x y] by (auto simp: f64_exp_def)
qed (rule f64_exp_jump)

interpretation big256: float_format "\<lambda>x. ilog2 x + 1 - int 256" "big_round 256"
proof
  fix x y :: rat
  show "big_round 256 x = (if x = 0 then 0 else rnd_at (ilog2 \<bar>x\<bar> + 1 - int 256) x)"
    by (simp add: big_round_def)
  show "0 < x \<Longrightarrow> x \<le> y \<Longrightarrow> ilog2 x + 1 - int 256 \<le> ilog2 y + 1 - int 256"
    using ilog2_mono[of x y] by simp
  assume xy: "0 < x" "0 < y" "ilog2 x + 1 - int 256 < ilog2 y + 1 - int 256"
  then show "\<exists>k. ilog2 y + 1 - int 256 \<le> k \<and> x < 2 powi k \<and> 2 powi k \<le> y"
    using ilog2_jump[of x y] ilog2_bounds(1)[of y] by (intro exI[of _ "ilog2 y"]) simp
qed

text \<open>A value is a \<open>float64\<close> when rounding leaves it alone.\<close>

abbreviation is_f64 :: "rat \<Rightarrow> bool" where "is_f64 x \<equiv> f64 x = x"

lemmas f64_simps [simp] = f64.rnd_idem f64.zero

subsection \<open>Rounding errors and exact values\<close>

lemma rne_err: "\<bar>of_int (rne x) - x\<bar> \<le> 1 / 2"
proof -
  have "of_int \<lfloor>x\<rfloor> \<le> x" "x < of_int \<lfloor>x\<rfloor> + 1" by linarith+
  then show ?thesis by (auto simp: rne_def Let_def)
qed

lemma rnd_at_err: "\<bar>rnd_at e x - x\<bar> \<le> 2 powi e / 2"
proof -
  have p: "(0::rat) < 2 powi e" by simp
  have "rnd_at e x - x = (of_int (rne (x / 2 powi e)) - x / 2 powi e) * 2 powi e"
    by (simp add: rnd_at_def left_diff_distrib)
  then have "\<bar>rnd_at e x - x\<bar> = \<bar>of_int (rne (x / 2 powi e)) - x / 2 powi e\<bar> * 2 powi e"
    using p by (simp add: abs_mult)
  also have "\<dots> \<le> 1 / 2 * 2 powi e" using rne_err p by (intro mult_right_mono) auto
  finally show ?thesis by simp
qed

lemma big256_err: "\<bar>big_round 256 x - x\<bar> \<le> \<bar>x\<bar> / 2 ^ 256"
proof (cases "x = 0")
  case False
  have "\<bar>big_round 256 x - x\<bar> \<le> 2 powi (ilog2 \<bar>x\<bar> + 1 - int 256) / 2"
    using False rnd_at_err by (simp add: big_round_def)
  also have "\<dots> = 2 powi (ilog2 \<bar>x\<bar>) / 2 ^ 256"
    by (simp add: power_int_diff power_int_add)
  also have "\<dots> \<le> \<bar>x\<bar> / 2 ^ 256" using ilog2_bounds(1)[of "\<bar>x\<bar>"] False by (simp add: divide_right_mono)
  finally show ?thesis .
qed (simp add: big_round_def)

lemma ilog2_ge: assumes "2 powi k \<le> x" shows "k \<le> ilog2 x"
proof (rule ccontr)
  have x: "0 < x" using assms by (rule less_le_trans[rotated]) simp
  assume "\<not> k \<le> ilog2 x"
  then have "(2::rat) powi (ilog2 x + 1) \<le> 2 powi k" by (intro powi_mono2) simp
  then show False using ilog2_bounds(2)[OF x] assms by linarith
qed

lemma ilog2_le: assumes "0 < x" "x < 2 powi (k + 1)" shows "ilog2 x \<le> k"
proof (rule ccontr)
  assume "\<not> ilog2 x \<le> k"
  then have "(2::rat) powi (k + 1) \<le> 2 powi ilog2 x" by (intro powi_mono2) simp
  then show False using ilog2_bounds(1)[OF assms(1)] assms(2) by linarith
qed

lemma f64_err: assumes "x \<noteq> 0" "-1022 \<le> ilog2 \<bar>x\<bar>" shows "\<bar>f64 x - x\<bar> \<le> \<bar>x\<bar> / 2 ^ 53"
proof -
  have e: "f64_exp x = ilog2 \<bar>x\<bar> - 52" using assms(2) by (simp add: f64_exp_def)
  have "\<bar>f64 x - x\<bar> \<le> 2 powi (ilog2 \<bar>x\<bar> - 52) / 2"
    using assms(1) rnd_at_err[of "f64_exp x" x] by (simp add: f64_def e)
  also have "\<dots> = 2 powi (ilog2 \<bar>x\<bar>) / 2 ^ 53" by (simp add: power_int_diff)
  also have "\<dots> \<le> \<bar>x\<bar> / 2 ^ 53" using ilog2_bounds(1)[of "\<bar>x\<bar>"] assms(1) by (simp add: divide_right_mono)
  finally show ?thesis .
qed

text \<open>Relative errors of at most one millionth are all the difficulty bounds need.\<close>

lemma big256_ppm:
  assumes "0 \<le> x"
  shows "x * (999999 / 1000000) \<le> big_round 256 x" "big_round 256 x \<le> x * (1000001 / 1000000)"
proof -
  have "\<bar>x\<bar> / 2 ^ 256 \<le> \<bar>x\<bar> / 1000000" by (rule divide_left_mono) simp_all
  then have "\<bar>big_round 256 x - x\<bar> \<le> x / 1000000" using big256_err[of x] assms by linarith
  then show "x * (999999 / 1000000) \<le> big_round 256 x" "big_round 256 x \<le> x * (1000001 / 1000000)"
    by linarith+
qed

lemma f64_ppm:
  assumes "2 powi (-100) \<le> x"
  shows "x * (999999 / 1000000) \<le> f64 x" "f64 x \<le> x * (1000001 / 1000000)"
proof -
  have x: "0 < x" using assms by (rule less_le_trans[rotated]) simp
  have "-100 \<le> ilog2 x" using assms by (rule ilog2_ge)
  then have "\<bar>f64 x - x\<bar> \<le> \<bar>x\<bar> / 2 ^ 53" using x by (intro f64_err) simp_all
  moreover have "\<bar>x\<bar> / 2 ^ 53 \<le> \<bar>x\<bar> / 1000000" by (rule divide_left_mono) simp_all
  ultimately have "\<bar>f64 x - x\<bar> \<le> x / 1000000" using x by linarith
  then show "x * (999999 / 1000000) \<le> f64 x" "f64 x \<le> x * (1000001 / 1000000)" by linarith+
qed

text \<open>A rational with at most 53 significant bits is exact.\<close>

lemma big256_pow [simp]: "big_round 256 (2 powi k) = 2 powi k"
proof -
  have "ilog2 (2 powi k) \<le> k" by (rule ilog2_le) (simp_all add: power_int_add)
  then show ?thesis using rnd_at_pow[of "ilog2 (2 powi k) + 1 - int 256" k] by (simp add: big_round_def)
qed

lemma f64_pow: assumes "-1074 \<le> k" shows "f64 (2 powi k) = 2 powi k"
proof -
  have "ilog2 (2 powi k) \<le> k" by (rule ilog2_le) (simp_all add: power_int_add)
  then have "f64_exp (2 powi k) \<le> k" using assms by (simp add: f64_exp_def)
  then show ?thesis using rnd_at_pow by (simp add: f64_def)
qed

lemma f64_dyadic:
  assumes "\<bar>n\<bar> \<le> 2 ^ 53" "-1074 \<le> e" shows "f64 (of_int n * 2 powi e) = of_int n * 2 powi e"
proof -
  let ?x = "of_int n * 2 powi e :: rat"
  have p: "(0::rat) < 2 powi e" by simp
  consider "n = 0" | "\<bar>n\<bar> = 2 ^ 53" | "n \<noteq> 0" "\<bar>n\<bar> < 2 ^ 53" using assms(1) by linarith
  then show ?thesis
  proof cases
    case 1 then show ?thesis by simp
  next
    case 2
    then have "n = 2 ^ 53 \<or> n = - (2 ^ 53)" by linarith
    then have "?x = 2 powi (e + 53) \<or> ?x = - (2 powi (e + 53))" by (auto simp: power_int_add)
    then show ?thesis
    proof
      assume x: "?x = 2 powi (e + 53)"
      show ?thesis unfolding x using assms(2) by (intro f64_pow) simp
    next
      assume x: "?x = - (2 powi (e + 53))"
      show ?thesis unfolding x f64.rnd_minus using assms(2) by (subst f64_pow) simp_all
    qed
  next
    case 3
    have "\<bar>?x\<bar> = of_int \<bar>n\<bar> * 2 powi e" by (simp add: abs_mult)
    moreover have "rat_of_int \<bar>n\<bar> < of_int (2 ^ 53)" using 3(2) by (simp only: of_int_less_iff)
    ultimately have "\<bar>?x\<bar> < of_int (2 ^ 53) * 2 powi e"
      using mult_strict_right_mono[OF _ p] by metis
    then have lt: "\<bar>?x\<bar> < 2 powi (e + 53)" by (simp add: power_int_add mult.commute)
    have x: "?x \<noteq> 0" using 3 p by simp
    have "ilog2 \<bar>?x\<bar> \<le> e + 52" using x lt by (intro ilog2_le) (simp_all add: algebra_simps)
    then have le: "f64_exp ?x \<le> e" using assms(2) by (simp add: f64_exp_def)
    obtain m where m: "(2::rat) powi e = of_int m * 2 powi f64_exp ?x" using powi_split[OF le] by blast
    have "rnd_at (f64_exp ?x) (of_int (n * m) * 2 powi f64_exp ?x) = of_int (n * m) * 2 powi f64_exp ?x"
      by (rule rnd_at_exact)
    moreover have y: "of_int (n * m) * 2 powi f64_exp ?x = ?x" using m by simp
    ultimately have "rnd_at (f64_exp ?x) ?x = ?x" unfolding y by simp
    then show ?thesis using x by (simp add: f64_def)
  qed
qed

lemma f64_int: "\<bar>n\<bar> \<le> 2 ^ 53 \<Longrightarrow> f64 (of_int n) = of_int n"
  using f64_dyadic[of n 0] by simp

lemma f64_1 [simp]: "f64 1 = 1" using f64_int[of 1] by simp

lemma f64_numeral: "numeral k \<le> (2::int) ^ 53 \<Longrightarrow> f64 (numeral k) = numeral k"
  using f64_int[of "numeral k"] by simp

lemma f64_half [simp]: "f64 (1 / 2) = 1 / 2"
  using f64_dyadic[of 1 "-1"] by (simp add: power_int_minus)

end
