(* ===== verification/Fips180.thy ===== *)
theory Fips180
  imports Prelude
begin

text \<open>
  SHA-256 as FIPS 180-4 writes it, apart from the code that computes it: the constants are the
  first 32 bits of the fractional parts of the cube roots (\<open>fips_K\<close>) and square roots
  (\<open>fips_H0\<close>) of the first primes (4.2.2, 5.3.3), the functions are those of 4.1.2, the message is
  padded as in 5.1.1, and the rounds of 6.2.2 run over a schedule given by its recurrence.
  \<open>sha256_spec\<close> also stands for Go's \<open>crypto/sha256\<close>, which the program calls directly.
\<close>

type_synonym chain = "u32 \<times> u32 \<times> u32 \<times> u32 \<times> u32 \<times> u32 \<times> u32 \<times> u32"

definition fips_primes :: "nat list" where
  "fips_primes = [
    2, 3, 5, 7, 11, 13, 17, 19, 23, 29, 31, 37, 41, 43, 47, 53,
    59, 61, 67, 71, 73, 79, 83, 89, 97, 101, 103, 107, 109, 113, 127, 131,
    137, 139, 149, 151, 157, 163, 167, 173, 179, 181, 191, 193, 197, 199, 211, 223,
    227, 229, 233, 239, 241, 251, 257, 263, 269, 271, 277, 281, 283, 293, 307, 311]"

text \<open>\<open>\<lfloor>p\<^sup>1\<^sup>/\<^sup>k \<cdot> 2\<^sup>3\<^sup>2\<rfloor>\<close>: its low 32 bits are the first 32 bits of the fractional part of the root.\<close>

definition fips_root :: "nat \<Rightarrow> nat \<Rightarrow> nat" where
  "fips_root k p = (GREATEST r. r ^ k \<le> p * 2 ^ (32 * k))"

definition fips_K :: "nat \<Rightarrow> u32" where
  "fips_K t = of_nat (fips_root 3 (fips_primes ! t))"

definition fips_H0 :: chain where
  "fips_H0 = (let r = (\<lambda>i. of_nat (fips_root 2 (fips_primes ! i)))
     in (r 0, r 1, r 2, r 3, r 4, r 5, r 6, r 7))"

definition ROTR :: "nat \<Rightarrow> u32 \<Rightarrow> u32" where
  "ROTR n x = drop_bit n x OR push_bit (32 - n) x"

definition Ch :: "u32 \<Rightarrow> u32 \<Rightarrow> u32 \<Rightarrow> u32" where
  "Ch x y z = (x AND y) XOR (NOT x AND z)"

definition Maj :: "u32 \<Rightarrow> u32 \<Rightarrow> u32 \<Rightarrow> u32" where
  "Maj x y z = (x AND y) XOR (x AND z) XOR (y AND z)"

definition Sigma0 :: "u32 \<Rightarrow> u32" where
  "Sigma0 x = ROTR 2 x XOR ROTR 13 x XOR ROTR 22 x"

definition Sigma1 :: "u32 \<Rightarrow> u32" where
  "Sigma1 x = ROTR 6 x XOR ROTR 11 x XOR ROTR 25 x"

definition sigma0 :: "u32 \<Rightarrow> u32" where
  "sigma0 x = ROTR 7 x XOR ROTR 18 x XOR drop_bit 3 x"

definition sigma1 :: "u32 \<Rightarrow> u32" where
  "sigma1 x = ROTR 17 x XOR ROTR 19 x XOR drop_bit 10 x"

text \<open>The schedule \<open>W\<^sub>t\<close> of a block \<open>M\<close>, and one round.\<close>

function fips_W :: "(nat \<Rightarrow> u32) \<Rightarrow> nat \<Rightarrow> u32" where
  "fips_W M t = (if t < 16 then M t
     else sigma1 (fips_W M (t - 2)) + fips_W M (t - 7) + sigma0 (fips_W M (t - 15)) + fips_W M (t - 16))"
  by pat_completeness auto
termination
  by (relation "measure snd") auto

declare fips_W.simps [simp del]

fun fips_step :: "(nat \<Rightarrow> u32) \<Rightarrow> chain \<Rightarrow> nat \<Rightarrow> chain" where
  "fips_step M (a, b, c, d, e, f, g, h) t =
     (let T1 = h + Sigma1 e + Ch e f g + fips_K t + fips_W M t;
          T2 = Sigma0 a + Maj a b c
      in (T1 + T2, a, b, c, d + T1, e, f, g))"

fun chain_add :: "chain \<Rightarrow> chain \<Rightarrow> chain" where
  "chain_add (a, b, c, d, e, f, g, h) (a', b', c', d', e', f', g', h') =
     (a + a', b + b', c + c', d + d', e + e', f + f', g + g', h + h')"

definition fips_compress :: "(nat \<Rightarrow> u32) \<Rightarrow> chain \<Rightarrow> chain" where
  "fips_compress M H = chain_add H (foldl (fips_step M) H [0..<64])"

text \<open>Padding, the big-endian words of the padded message, and the digest.\<close>

definition fips_pad :: "byte list \<Rightarrow> byte list" where
  "fips_pad m = m @ [0x80] @ replicate (nat ((55 - int (length m)) mod 64)) 0 @ be64 (of_nat (8 * length m))"

definition fips_word :: "byte list \<Rightarrow> nat \<Rightarrow> u32" where
  "fips_word p i = 2 ^ 24 * ucast (p ! (4 * i)) + 2 ^ 16 * ucast (p ! (4 * i + 1))
     + 2 ^ 8 * ucast (p ! (4 * i + 2)) + ucast (p ! (4 * i + 3))"

definition fips_hash :: "byte list \<Rightarrow> chain \<Rightarrow> chain" where
  "fips_hash p H = foldl (\<lambda>H i. fips_compress (\<lambda>t. fips_word p (16 * i + t)) H) H [0..<length p div 64]"

fun chain_words :: "chain \<Rightarrow> u32 list" where
  "chain_words (a, b, c, d, e, f, g, h) = [a, b, c, d, e, f, g, h]"

definition sha256_spec :: "byte list \<Rightarrow> byte list" where
  "sha256_spec m = concat (map be32 (chain_words (fips_hash (fips_pad m) fips_H0)))"

subsection \<open>The constants\<close>

lemma fips_root_eq:
  assumes "r ^ k \<le> p * 2 ^ (32 * k)" "p * 2 ^ (32 * k) < (Suc r) ^ k" shows "fips_root k p = r"
  unfolding fips_root_def
proof (rule Greatest_equality)
  show "r ^ k \<le> p * 2 ^ (32 * k)" by (rule assms)
  fix y assume "y ^ k \<le> p * 2 ^ (32 * k)"
  then have "y ^ k < Suc r ^ k" using assms(2) by simp
  then show "y \<le> r" using power_less_imp_less_base by fastforce
qed

lemma fips_roots:
  assumes "list_all2 (\<lambda>p r. r ^ k \<le> p * 2 ^ (32 * k) \<and> p * 2 ^ (32 * k) < (Suc r) ^ k) ps rs"
  shows "map (fips_root k) ps = rs"
  using assms by (induction rule: list_all2_induct) (simp_all add: fips_root_eq)

lemma cube_roots: "map (fips_root 3) fips_primes = [
    5411319704, 6194414737, 7344290767, 8215976869, 9551921755, 10098905585, 11043570340, 11460697813,
    12214315672, 13195500289, 13492127166, 14311783875, 14809980276, 15046980094, 15499789991, 16133124468,
    16720292289, 16907126662, 17444216262, 17784676812, 17950125167, 18429019306, 18734950876, 19175934170,
    19734090066, 20001703533, 20132865992, 20390182855, 20516441075, 20764397895, 21588763473, 21813078375,
    22141143685, 22248366392, 22769593852, 22871018771, 23170020180, 23461497531, 23651862830, 23931792517,
    24205322401, 24295138891, 24734567280, 24820601251, 24990902297, 25075189284, 25569408389, 26045227120,
    26200031510, 26276752392, 26428864332, 26653801653, 26727943347, 27092625994, 27306805839, 27517677555,
    27725365998, 27793908591, 27997534228, 28131656200, 28198240250, 28526537963, 28973835255, 29099129074]"
  by (rule fips_roots) (simp add: fips_primes_def)

lemma square_roots: "map (fips_root 2) (take 8 fips_primes) = [
    6074000999, 7439101573, 9603838834, 11363415354,
    14244795007, 15485724812, 17708603819, 18721328409]"
  by (rule fips_roots) (simp add: fips_primes_def)

end
