(* ===== verification/Sha256.thy ===== *)
theory Sha256
  imports Fips180
begin

text \<open>
  The streaming SHA-256 of \<open>util/sha256.go\<close>, a copy of Go's \<open>crypto/sha256\<close>: the digest
  record, \<open>Reset\<close>, \<open>Write\<close>, \<open>checkSum\<close>, \<open>Sum\<close>, \<open>Sum256\<close>, the binary
  marshalling of a digest and \<open>CalcMidState\<close>. The theorems refine it to \<open>sha256_spec\<close>, the
  standard as \<open>Fips180\<close> states it: constants, schedule, rounds, padding and block order.
\<close>

record Sha256Digest =
  d_h :: "u32 list"
  d_x :: "byte list"
  d_nx :: nat
  d_len :: u64

definition sha_init :: "u32 list" where
  "sha_init = [0x6A09E667, 0xBB67AE85, 0x3C6EF372, 0xA54FF53A,
               0x510E527F, 0x9B05688C, 0x1F83D9AB, 0x5BE0CD19]"

definition sha_K :: "u32 list" where
  "sha_K = concat [
    [0x428a2f98, 0x71374491, 0xb5c0fbcf, 0xe9b5dba5],
    [0x3956c25b, 0x59f111f1, 0x923f82a4, 0xab1c5ed5],
    [0xd807aa98, 0x12835b01, 0x243185be, 0x550c7dc3],
    [0x72be5d74, 0x80deb1fe, 0x9bdc06a7, 0xc19bf174],
    [0xe49b69c1, 0xefbe4786, 0x0fc19dc6, 0x240ca1cc],
    [0x2de92c6f, 0x4a7484aa, 0x5cb0a9dc, 0x76f988da],
    [0x983e5152, 0xa831c66d, 0xb00327c8, 0xbf597fc7],
    [0xc6e00bf3, 0xd5a79147, 0x06ca6351, 0x14292967],
    [0x27b70a85, 0x2e1b2138, 0x4d2c6dfc, 0x53380d13],
    [0x650a7354, 0x766a0abb, 0x81c2c92e, 0x92722c85],
    [0xa2bfe8a1, 0xa81a664b, 0xc24b8b70, 0xc76c51a3],
    [0xd192e819, 0xd6990624, 0xf40e3585, 0x106aa070],
    [0x19a4c116, 0x1e376c08, 0x2748774c, 0x34b0bcb5],
    [0x391c0cb3, 0x4ed8aa4a, 0x5b9cca4f, 0x682e6ff3],
    [0x748f82ee, 0x78a5636f, 0x84c87814, 0x8cc70208],
    [0x90befffa, 0xa4506ceb, 0xbef9a3f7, 0xc67178f2]]"

subsection \<open>The block function\<close>

fun be_words :: "byte list \<Rightarrow> u32 list" where
  "be_words (a # b # c # d # p) =
     (push_bit 24 (ucast a) OR push_bit 16 (ucast b) OR push_bit 8 (ucast c) OR ucast d) # be_words p"
| "be_words _ = []"

text \<open>One more word of the schedule, from the last sixteen.\<close>

definition sha_next_w :: "u32 list \<Rightarrow> u32" where
  "sha_next_w w =
     (let i = length w;
          v1 = w ! (i - 2);
          t1 = word_rotr 17 v1 XOR word_rotr 19 v1 XOR drop_bit 10 v1;
          v2 = w ! (i - 15);
          t2 = word_rotr 7 v2 XOR word_rotr 18 v2 XOR drop_bit 3 v2
      in t1 + w ! (i - 7) + t2 + w ! (i - 16))"

fun sha_schedule :: "nat \<Rightarrow> u32 list \<Rightarrow> u32 list" where
  "sha_schedule 0 w = w"
| "sha_schedule (Suc n) w = sha_schedule n (w @ [sha_next_w w])"

fun sha_round :: "u32 list \<Rightarrow> u32 \<times> u32 \<Rightarrow> u32 list" where
  "sha_round [a, b, c, d, e, f, g, h] (k, w) =
     (let t1 = h + (word_rotr 6 e XOR word_rotr 11 e XOR word_rotr 25 e)
               + ((e AND f) XOR (NOT e AND g)) + k + w;
          t2 = (word_rotr 2 a XOR word_rotr 13 a XOR word_rotr 22 a)
               + ((a AND b) XOR (a AND c) XOR (b AND c))
      in [t1 + t2, a, b, c, d + t1, e, f, g])"
| "sha_round s _ = s"

definition sha_compress :: "u32 list \<Rightarrow> byte list \<Rightarrow> u32 list" where
  "sha_compress h p =
     map2 (+) h (foldl sha_round h (zip sha_K (sha_schedule 48 (be_words (take 64 p)))))"

function block :: "u32 list \<Rightarrow> byte list \<Rightarrow> u32 list" where
  "block h p = (if 64 \<le> length p then block (sha_compress h p) (drop 64 p) else h)"
  by pat_completeness auto
termination
  by (relation "measure (\<lambda>(h, p). length p)") auto

declare block.simps [simp del]

subsection \<open>The streaming digest\<close>

definition Reset :: "Sha256Digest \<Rightarrow> Sha256Digest" where
  "Reset d = d\<lparr>d_h := sha_init, d_nx := 0, d_len := 0\<rparr>"

definition NewSha256 :: Sha256Digest where
  "NewSha256 = Reset \<lparr>d_h = replicate 8 0, d_x = replicate 64 0, d_nx = 0, d_len = 0\<rparr>"

text \<open>The three parts of \<open>Write\<close>: fill the buffered block, hash whole blocks, buffer the rest.\<close>

definition write_fill :: "Sha256Digest \<Rightarrow> byte list \<Rightarrow> Sha256Digest \<times> byte list" where
  "write_fill d p =
     (if 0 < d_nx d then
        let n = min (64 - d_nx d) (length p);
            x = take (d_nx d) (d_x d) @ take n p @ drop (d_nx d + n) (d_x d);
            nx = d_nx d + n
        in (if nx = 64 then d\<lparr>d_h := block (d_h d) x, d_x := x, d_nx := 0\<rparr>
            else d\<lparr>d_x := x, d_nx := nx\<rparr>, drop n p)
      else (d, p))"

definition write_blocks :: "Sha256Digest \<Rightarrow> byte list \<Rightarrow> Sha256Digest \<times> byte list" where
  "write_blocks d p =
     (if 64 \<le> length p then
        let n = length p - length p mod 64
        in (d\<lparr>d_h := block (d_h d) (take n p)\<rparr>, drop n p)
      else (d, p))"

definition write_rest :: "Sha256Digest \<Rightarrow> byte list \<Rightarrow> Sha256Digest" where
  "write_rest d p =
     (if 0 < length p then
        let n = min 64 (length p) in d\<lparr>d_x := take n p @ drop n (d_x d), d_nx := n\<rparr>
      else d)"

definition Write :: "Sha256Digest \<Rightarrow> byte list \<Rightarrow> Sha256Digest" where
  "Write d p =
     (let d0 = d\<lparr>d_len := d_len d + of_nat (length p)\<rparr>;
          (d1, p1) = write_fill d0 p;
          (d2, p2) = write_blocks d1 p1
      in write_rest d2 p2)"

text \<open>\<open>checkSum\<close> panics (\<open>None\<close>) if the padding leaves a partial block.\<close>

definition checkSum :: "Sha256Digest \<Rightarrow> byte list option" where
  "checkSum d =
     (let len = d_len d;
          r = unat (len mod 64);
          tmp = 0x80 # replicate 63 0;
          d1 = (if r < 56 then Write d (take (56 - r) tmp) else Write d (take (64 + 56 - r) tmp));
          d2 = Write d1 (be64 (push_bit 3 len))
      in if d_nx d2 \<noteq> 0 then None else Some (concat (map be32 (d_h d2))))"

definition Sum :: "Sha256Digest \<Rightarrow> byte list \<Rightarrow> byte list option" where
  "Sum d inp = map_option (\<lambda>hash. inp @ hash) (checkSum d)"

definition Sum256 :: "byte list \<Rightarrow> byte list option" where
  "Sum256 data = checkSum (Write (Reset \<lparr>d_h = replicate 8 0, d_x = replicate 64 0, d_nx = 0, d_len = 0\<rparr>) data)"

subsection \<open>Marshalling and mid-states\<close>

definition consumeUint32 :: "byte list \<Rightarrow> byte list \<times> u32" where
  "consumeUint32 b =
     (drop 4 b, ucast (b ! 3) OR push_bit 8 (ucast (b ! 2)) OR push_bit 16 (ucast (b ! 1))
                OR push_bit 24 (ucast (b ! 0)))"

definition consumeUint64 :: "byte list \<Rightarrow> byte list \<times> u64" where
  "consumeUint64 b =
     (drop 8 b, ucast (b ! 7) OR push_bit 8 (ucast (b ! 6)) OR push_bit 16 (ucast (b ! 5))
                OR push_bit 24 (ucast (b ! 4)) OR push_bit 32 (ucast (b ! 3))
                OR push_bit 40 (ucast (b ! 2)) OR push_bit 48 (ucast (b ! 1))
                OR push_bit 56 (ucast (b ! 0)))"

definition appendUint32 :: "byte list \<Rightarrow> u32 \<Rightarrow> byte list" where
  "appendUint32 b x = b @ be32 x"

definition appendUint64 :: "byte list \<Rightarrow> u64 \<Rightarrow> byte list" where
  "appendUint64 b x = b @ be64 x"

definition magic256 :: "byte list" where
  "magic256 = [0x73, 0x68, 0x61, 0x03]"

definition marshaledSize :: nat where
  "marshaledSize = length magic256 + 8 * 4 + 64 + 8"

definition MarshalBinary :: "Sha256Digest \<Rightarrow> byte list" where
  "MarshalBinary d =
     (let b = foldl appendUint32 magic256 (d_h d);
          b = b @ take (d_nx d) (d_x d);
          b = b @ replicate (64 - d_nx d) 0
      in appendUint64 b (d_len d))"

datatype sha_error = InvalidIdentifier | InvalidSize

text \<open>\<open>n\<close> successive \<open>consumeUint32\<close> calls.\<close>

fun consume_words :: "nat \<Rightarrow> byte list \<Rightarrow> byte list \<times> u32 list" where
  "consume_words 0 b = (b, [])"
| "consume_words (Suc n) b =
     (let (b1, x) = consumeUint32 b; (b2, xs) = consume_words n b1 in (b2, x # xs))"

definition UnmarshalBinary :: "Sha256Digest \<Rightarrow> byte list \<Rightarrow> sha_error + Sha256Digest" where
  "UnmarshalBinary d b =
     (if length b < length magic256 \<or> take (length magic256) b \<noteq> magic256 then Inl InvalidIdentifier
      else if length b \<noteq> marshaledSize then Inl InvalidSize
      else let b1 = drop (length magic256) b;
               (b2, h) = consume_words 8 b1;
               (b3, x) = (drop 64 b2, take 64 b2);
               (b4, len) = consumeUint64 b3
           in Inr (d\<lparr>d_h := h, d_x := x, d_len := len, d_nx := unat (len mod 64)\<rparr>))"

definition CalcMidState :: "Sha256Digest \<Rightarrow> byte list \<Rightarrow> byte list \<Rightarrow> byte list \<Rightarrow> u64 \<Rightarrow> byte list option" where
  "CalcMidState d data state buf len =
     (let (_, h) = consume_words 8 state;
          n = min 64 (length buf);
          d1 = d\<lparr>d_h := h, d_len := len, d_x := take n buf @ drop n (d_x d),
                 d_nx := unat (len mod 64)\<rparr>
      in checkSum (Write d1 data))"

subsection \<open>The padded message\<close>

definition sha_pad :: "byte list \<Rightarrow> byte list" where
  "sha_pad m =
     (let r = length m mod 64; z = (if r < 56 then 55 - r else 119 - r)
      in m @ 0x80 # replicate z 0 @ be64 (of_nat (8 * length m)))"

text \<open>
  The bytes of a message after its last whole block, the digests that hold a hash state and such
  a rest, and the digests that stand for the message written so far.
\<close>

definition partial :: "byte list \<Rightarrow> byte list" where
  "partial m = drop (length m - length m mod 64) m"

definition tail_of :: "u32 list \<Rightarrow> byte list \<Rightarrow> Sha256Digest \<Rightarrow> bool" where
  "tail_of h r d \<longleftrightarrow> d_h d = h \<and> d_nx d = length r \<and> length r < 64 \<and> length (d_x d) = 64 \<and>
     take (length r) (d_x d) = r"

definition digest_of :: "byte list \<Rightarrow> Sha256Digest \<Rightarrow> bool" where
  "digest_of m d \<longleftrightarrow> tail_of (block sha_init m) (partial m) d \<and> d_len d = of_nat (length m)"

subsection \<open>The block function is the standard's\<close>

lemma rotr_bits: assumes "n < 32" shows "word_rotr n (x::u32) = ROTR n x"
proof (rule bit_word_eqI)
  fix i assume i: "i < LENGTH(32)"
  show "bit (word_rotr n x) i = bit (ROTR n x) i"
  proof (cases "i + n < 32")
    case True
    then show ?thesis using assms i by (auto simp: bit_word_rotr_iff ROTR_def bit_simps add.commute)
  next
    case False
    then have "(i + n) mod 32 = i + n - 32" using assms i by (simp add: mod_if)
    then show ?thesis using False assms i
      by (auto simp: bit_word_rotr_iff ROTR_def bit_simps dest: bit_imp_le_length)
  qed
qed

lemma sha_K_fips: "sha_K = map fips_K [0..<64]"
proof -
  have "map fips_K [0..<64] = map of_nat (map (fips_root 3) fips_primes)"
  proof (rule nth_equalityI)
    show "length (map fips_K [0..<64]) = length (map of_nat (map (fips_root 3) fips_primes) :: u32 list)"
      by (simp add: fips_primes_def)
    have "length fips_primes = 64" by (simp add: fips_primes_def)
    then show "map fips_K [0..<64] ! i = (map of_nat (map (fips_root 3) fips_primes) :: u32 list) ! i"
      if "i < length (map fips_K [0..<64])" for i
      using that by (simp add: fips_K_def)
  qed
  also have "\<dots> = sha_K" unfolding cube_roots by (simp add: sha_K_def)
  finally show ?thesis by simp
qed

lemma sha_init_fips: "sha_init = chain_words fips_H0"
proof -
  have "chain_words fips_H0 = map of_nat (map (fips_root 2) (take 8 fips_primes))"
    by (simp add: fips_H0_def fips_primes_def Let_def)
  also have "\<dots> = sha_init" unfolding square_roots by (simp add: sha_init_def)
  finally show ?thesis by simp
qed

text \<open>Sixteen words grow into the schedule of the recurrence.\<close>

lemma sha_next_w_fips:
  "16 \<le> n \<Longrightarrow> sha_next_w (map (fips_W M) [0..<n]) = fips_W M n"
  by (subst fips_W.simps) (simp add: sha_next_w_def Let_def sigma0_def sigma1_def rotr_bits add_ac)

lemma sha_schedule_fips:
  "16 \<le> n \<Longrightarrow> sha_schedule k (map (fips_W M) [0..<n]) = map (fips_W M) [0..<n + k]"
proof (induction k arbitrary: n)
  case 0
  then show ?case by simp
next
  case (Suc k)
  have "map (fips_W M) [0..<n] @ [sha_next_w (map (fips_W M) [0..<n])] = map (fips_W M) [0..<Suc n]"
    using Suc.prems by (simp add: sha_next_w_fips)
  then show ?case using Suc.IH[of "Suc n"] Suc.prems by simp
qed

lemma be_word: "(push_bit 24 (ucast (a::byte)) OR push_bit 16 (ucast b) OR push_bit 8 (ucast c) OR ucast d :: u32)
  = 2 ^ 24 * ucast (a::byte) + 2 ^ 16 * ucast (b::byte) + 2 ^ 8 * ucast (c::byte) + ucast (d::byte)"
proof -
  have d: "(push_bit 24 (ucast a) :: u32) AND (push_bit 16 (ucast b) OR push_bit 8 (ucast c) OR ucast d) = 0"
    "(push_bit 16 (ucast b) :: u32) AND (push_bit 8 (ucast c) OR ucast d) = 0"
    "(push_bit 8 (ucast c) :: u32) AND ucast d = 0"
    by (rule bit_word_eqI; auto simp: bit_simps dest: bit_imp_le_length)+
  show ?thesis
    using d[THEN disjunctive_add_eq_or] by (simp only: push_bit_eq_mult add.assoc mult.commute[of _ "2 ^ _"])
qed

lemma be_words_fips: "be_words p = map (fips_word p) [0..<length p div 4]"
proof (induction p rule: be_words.induct)
  case (1 a b c d p)
  have "map (fips_word (a # b # c # d # p)) [0..<Suc (length p div 4)]
      = fips_word (a # b # c # d # p) 0 # map (\<lambda>i. fips_word (a # b # c # d # p) (Suc i)) [0..<length p div 4]"
    by (simp add: map_upt_Suc del: upt_Suc)
  moreover have "fips_word (a # b # c # d # p) (Suc i) = fips_word p i" for i
    by (simp add: fips_word_def add.commute)
  moreover have "fips_word (a # b # c # d # p) 0
      = 2 ^ 24 * ucast a + 2 ^ 16 * ucast b + 2 ^ 8 * ucast c + ucast d"
    by (simp add: fips_word_def)
  moreover have "length (a # b # c # d # p) div 4 = Suc (length p div 4)" by simp
  ultimately show ?case using 1 by (simp only: be_word be_words.simps)
qed simp_all

lemma sha_round_fips:
  "sha_round (chain_words s) (fips_K t, fips_W M t) = chain_words (fips_step M s t)"
  by (cases s rule: chain_words.cases) (simp add: Let_def rotr_bits Sigma0_def Sigma1_def Ch_def Maj_def add_ac)

lemma sha_rounds_fips:
  "foldl sha_round (chain_words s) (map (\<lambda>t. (fips_K t, fips_W M t)) ts) = chain_words (foldl (fips_step M) s ts)"
  by (induction ts arbitrary: s) (simp_all add: sha_round_fips)

lemma map2_chain: "map2 (+) (chain_words s) (chain_words s') = chain_words (chain_add s s')"
  by (cases s rule: chain_words.cases; cases s' rule: chain_words.cases) simp

lemma sha_compress_fips:
  assumes "64 \<le> length p"
  shows "sha_compress (chain_words H) p = chain_words (fips_compress (fips_word p) H)"
proof -
  let ?M = "fips_word p"
  have "be_words (take 64 p) = map (fips_word (take 64 p)) [0..<16]" using assms by (simp add: be_words_fips)
  also have "\<dots> = map (fips_W ?M) [0..<16]"
    by (rule map_cong) (auto simp: fips_W.simps[of _ "_::nat"] fips_word_def)
  finally have w: "sha_schedule 48 (be_words (take 64 p)) = map (fips_W ?M) [0..<64]"
    using sha_schedule_fips[of 16 48 ?M] by simp
  have "zip sha_K (map (fips_W ?M) [0..<64]) = map (\<lambda>t. (fips_K t, fips_W ?M t)) [0..<64]"
    unfolding sha_K_fips by (simp only: zip_map1 zip_map2 zip_same_conv_map map_map comp_def case_prod_conv)
  then show ?thesis unfolding sha_compress_def w fips_compress_def by (simp only: sha_rounds_fips map2_chain)
qed

lemma fips_hash_step:
  assumes "64 \<le> length p"
  shows "fips_hash p H = fips_hash (drop 64 p) (fips_compress (fips_word p) H)"
proof -
  have n: "length p div 64 = Suc (length (drop 64 p) div 64)" using assms
    by (simp add: le_div_geq)
  have w: "fips_word (drop 64 p) (16 * i + t) = fips_word p (16 * Suc i + t)" for i t
    using assms by (simp add: fips_word_def add_ac)
  have "foldl g H [0..<Suc k] = foldl (\<lambda>H i. g H (Suc i)) (g H 0) [0..<k]" for g :: "chain \<Rightarrow> nat \<Rightarrow> chain" and k
    by (simp add: upt_conv_Cons map_Suc_upt[symmetric] foldl_map del: upt_Suc)
  then show ?thesis unfolding fips_hash_def n w by (simp del: upt_Suc)
qed

lemma block_fips: "block (chain_words H) p = chain_words (fips_hash p H)"
proof (induction "length p" arbitrary: p H rule: less_induct)
  case less
  show ?case
  proof (cases "64 \<le> length p")
    case True
    then have "block (chain_words H) p = block (chain_words (fips_compress (fips_word p) H)) (drop 64 p)"
      by (subst block.simps) (simp add: sha_compress_fips)
    also have "\<dots> = chain_words (fips_hash (drop 64 p) (fips_compress (fips_word p) H))"
      using True by (intro less) simp
    finally show ?thesis by (simp add: fips_hash_step[OF True])
  next
    case False
    then show ?thesis by (subst block.simps) (simp add: fips_hash_def)
  qed
qed

lemma sha_pad_fips: "sha_pad m = fips_pad m"
proof -
  have "(if length m mod 64 < 56 then 55 - length m mod 64 else 119 - length m mod 64)
      = nat ((55 - int (length m)) mod 64)"
  proof -
    define r where "r = length m mod 64"
    have r: "(55 - int (length m)) mod 64 = (55 - int r) mod 64" "r < 64"
      by (simp_all add: r_def zmod_int mod_diff_right_eq)
    have "(55 - int r) mod 64 = (if r < 56 then 55 - int r else 119 - int r)"
    proof (cases "r < 56")
      case False
      have "(55 - int r) mod 64 = (64 + (55 - int r)) mod 64" by (simp only: mod_add_self1)
      also have "\<dots> = 119 - int r" using False r(2) by (simp add: mod_pos_pos_trivial)
      finally show ?thesis using False by simp
    qed (simp add: mod_pos_pos_trivial)
    then show ?thesis unfolding r(1) r_def[symmetric] using r(2) by auto
  qed
  then show ?thesis by (simp add: sha_pad_def fips_pad_def Let_def)
qed

lemma sha256_spec_block: "sha256_spec m = concat (map be32 (block sha_init (sha_pad m)))"
  by (simp add: sha256_spec_def sha_init_fips sha_pad_fips block_fips)

declare sha256_spec_block [code]

subsection \<open>Hashing whole blocks\<close>

lemma block_short: "length p < 64 \<Longrightarrow> block h p = h"
  by (subst block.simps) simp

lemma sha_compress_append: "64 \<le> length p \<Longrightarrow> sha_compress h (p @ q) = sha_compress h p"
  by (simp add: sha_compress_def)

lemma block_append: "length p mod 64 = 0 \<Longrightarrow> block h (p @ q) = block (block h p) q"
proof (induction h p rule: block.induct)
  case (1 h p)
  show ?case
  proof (cases "64 \<le> length p")
    case True
    have "length (drop 64 p) mod 64 = 0"
      using True "1.prems" by (metis length_drop mod_if le_mod_geq)
    then have IH: "block (sha_compress h p) (drop 64 p @ q) = block (block (sha_compress h p) (drop 64 p)) q"
      using "1.IH"[OF True] by simp
    have "block h (p @ q) = block (sha_compress h p) (drop 64 p @ q)"
      using True by (subst block.simps) (simp add: sha_compress_append)
    also have "\<dots> = block (block h p) q"
      unfolding IH using True by (subst (3) block.simps) simp
    finally show ?thesis .
  next
    case False
    then have "p = []" using "1.prems" by auto
    then show ?thesis by (simp add: block_short)
  qed
qed

lemma whole_length: "(length m - length m mod 64) mod 64 = (0::nat)"
  by (metis minus_mod_eq_mult_div mod_mult_self1_is_0)

text \<open>The state after \<open>m\<close> only depends on its whole blocks, and writing more continues from there.\<close>

lemma block_whole: "block h m = block h (take (length m - length m mod 64) m)"
proof -
  let ?n = "length m - length m mod 64"
  have len: "length (take ?n m) = ?n" by simp
  have "block h (take ?n m @ drop ?n m) = block (block h (take ?n m)) (drop ?n m)"
    by (rule block_append) (simp only: len whole_length)
  moreover have "block (block h (take ?n m)) (drop ?n m) = block h (take ?n m)"
    by (rule block_short) simp
  ultimately show ?thesis by simp
qed

lemma length_partial [simp]: "length (partial m) = length m mod 64"
  by (simp add: partial_def)

lemma partial_append: assumes "length x mod 64 = 0" shows "partial (x @ p) = partial p"
proof -
  have "(length x + length p) mod 64 = length p mod 64" using assms by (metis mod_add_left_eq add_0)
  then show ?thesis by (simp add: partial_def)
qed

lemma partial_split:
  obtains x where "m = x @ partial m" "length x mod 64 = 0"
  by (rule that[of "take (length m - length m mod 64) m"]) (simp_all add: partial_def whole_length)

lemma partial_continue: "partial (m @ p) = partial (partial m @ p)"
  by (metis partial_split partial_append append_assoc)

lemma block_continue: "block h (m @ p) = block (block h m) (partial m @ p)"
proof -
  obtain x where x: "m = x @ partial m" "length x mod 64 = 0" by (rule partial_split)
  have "block h m = block h x"
    using block_append[OF x(2), of h "partial m"] x(1) by (simp add: block_short)
  then show ?thesis using block_append[OF x(2), of h "partial m @ p"] x(1)
    by (metis append_assoc)
qed

subsection \<open>Writing extends the message\<close>

text \<open>The last two parts of \<open>Write\<close>, on a digest with an empty buffer.\<close>

lemma write_aligned:
  assumes "tail_of h [] d"
  shows "tail_of (block h p) (partial p) (case write_blocks d p of (d2, p2) \<Rightarrow> write_rest d2 p2)"
proof (cases "64 \<le> length p")
  case True
  then show ?thesis using assms
    by (auto simp: block_whole[of h p, symmetric] tail_of_def write_blocks_def write_rest_def partial_def Let_def)
next
  case False
  then show ?thesis using assms
    by (auto simp: tail_of_def write_blocks_def write_rest_def partial_def Let_def block_short)
qed

lemma write_fill_full:
  assumes "tail_of h r d" "r \<noteq> []" "64 - length r \<le> length p"
  shows "tail_of (block h (r @ take (64 - length r) p)) [] (fst (write_fill d p))"
    and "snd (write_fill d p) = drop (64 - length r) p"
  using assms by (auto simp: tail_of_def write_fill_def Let_def min_def)

lemma Write_fill_short:
  assumes "tail_of h r d" "r \<noteq> []" "length p < 64 - length r"
  shows "tail_of h (r @ p) (fst (write_fill d p)) \<and> snd (write_fill d p) = []"
  using assms by (auto simp: tail_of_def write_fill_def Let_def)

lemma tail_of_len [simp]: "tail_of h r (d\<lparr>d_len := n\<rparr>) = tail_of h r d"
  by (simp add: tail_of_def)

lemma Write_tail:
  assumes "tail_of h r d" shows "tail_of (block h (r @ p)) (partial (r @ p)) (Write d p)"
proof -
  define d0 where "d0 = d\<lparr>d_len := d_len d + of_nat (length p)\<rparr>"
  have d0: "tail_of h r d0" using assms by (simp add: d0_def)
  have W: "Write d p = (case write_blocks (fst (write_fill d0 p)) (snd (write_fill d0 p)) of
      (d2, p2) \<Rightarrow> write_rest d2 p2)"
    by (simp add: Write_def d0_def Let_def split: prod.splits)
  consider "r = []" | "r \<noteq> []" "length p < 64 - length r" | "r \<noteq> []" "64 - length r \<le> length p"
    by linarith
  then show ?thesis
  proof cases
    case 1
    then have "write_fill d0 p = (d0, p)" using d0 by (simp add: write_fill_def tail_of_def)
    then show ?thesis using write_aligned[of h d0 p] d0 1 W by simp
  next
    case 2
    have t: "tail_of h (r @ p) (fst (write_fill d0 p))" and e: "snd (write_fill d0 p) = []"
      using Write_fill_short[OF d0 2] by auto
    have "length (r @ p) < 64" using 2(2) by simp
    then have "block h (r @ p) = h" "partial (r @ p) = r @ p"
      by (simp_all add: block_short partial_def)
    then show ?thesis using t W e by (simp add: write_blocks_def write_rest_def)
  next
    case 3
    define x where "x = r @ take (64 - length r) p"
    have "length r < 64" using d0 by (simp add: tail_of_def)
    then have x: "length x mod 64 = 0" "r @ p = x @ drop (64 - length r) p"
      using 3 by (simp_all add: x_def)
    note f = write_fill_full[OF d0 3, folded x_def]
    show ?thesis unfolding W f(2) x(2) block_append[OF x(1)] partial_append[OF x(1)]
      by (rule write_aligned[OF f(1)])
  qed
qed

lemma d_len_Write [simp]: "d_len (Write d p) = d_len d + of_nat (length p)"
proof -
  have "d_len (fst (write_fill d' q)) = d_len d'" for d' q by (simp add: write_fill_def Let_def)
  moreover have "d_len (fst (write_blocks d' q)) = d_len d'" for d' q by (simp add: write_blocks_def Let_def)
  moreover have "d_len (write_rest d' q) = d_len d'" for d' q by (simp add: write_rest_def Let_def)
  ultimately show ?thesis by (simp add: Write_def Let_def case_prod_beta)
qed

lemma digest_of_Write: "digest_of m d \<Longrightarrow> digest_of (m @ p) (Write d p)"
  using Write_tail[of "block sha_init m" "partial m" d p]
  by (simp add: digest_of_def block_continue[symmetric] partial_continue[symmetric])

lemma digest_of_Reset: "length (d_x d) = 64 \<Longrightarrow> digest_of [] (Reset d)"
  by (simp add: digest_of_def tail_of_def Reset_def partial_def block_short)

subsection \<open>The checksum is the padded one-shot hash\<close>

lemma unat_len_mod: "unat ((of_nat n :: u64) mod 64) = n mod 64"
  by (simp add: unat_mod unat_of_nat mod_mod_cancel)

lemma push_bit_3_of_nat: "push_bit 3 (of_nat n :: u64) = of_nat (8 * n)"
  by (simp add: push_bit_eq_mult)

lemma sha_pad_aligned: "length (sha_pad m) mod 64 = 0"
proof -
  let ?r = "length m mod 64"
  let ?z = "if ?r < 56 then 55 - ?r else 119 - ?r"
  have "length (sha_pad m) = length m + 9 + ?z" by (simp add: sha_pad_def Let_def)
  moreover have "(length m + 9 + ?z) mod 64 = (?r + (9 + ?z)) mod 64"
    by (simp only: add.assoc mod_add_left_eq)
  moreover have "(?r + (9 + ?z)) mod 64 = 0"
  proof (cases "?r < 56")
    case True then show ?thesis by simp
  next
    case False
    moreover have "?r < 64" by simp
    ultimately have "?r + (9 + ?z) = 128" by simp
    then show ?thesis by simp
  qed
  ultimately show ?thesis by simp
qed

theorem checkSum_refines: assumes "digest_of m d" shows "checkSum d = Some (sha256_spec m)"
proof -
  let ?r = "length m mod 64"
  have len: "d_len d = of_nat (length m)" using assms by (simp add: digest_of_def)
  define p where "p = take (if ?r < 56 then 56 - ?r else 120 - ?r) (0x80 # replicate 63 (0::byte))"
  have r64: "?r < 64" by simp
  have p: "p = 0x80 # replicate (if ?r < 56 then 55 - ?r else 119 - ?r) 0"
  proof (cases "?r < 56")
    case True
    then have "56 - ?r = Suc (55 - ?r)" by simp
    then show ?thesis using True by (simp add: p_def take_replicate min_def)
  next
    case False
    then have "120 - ?r = Suc (119 - ?r)" using r64 by simp
    then show ?thesis using False by (simp add: p_def take_replicate min_def)
  qed
  have c: "checkSum d = (let d2 = Write (Write d p) (be64 (of_nat (8 * length m)))
      in if d_nx d2 \<noteq> 0 then None else Some (concat (map be32 (d_h d2))))"
    by (simp add: checkSum_def len unat_len_mod push_bit_3_of_nat p_def Let_def)
  have pad: "sha_pad m = (m @ p) @ be64 (of_nat (8 * length m))"
    by (simp add: sha_pad_def p Let_def)
  have "digest_of (sha_pad m) (Write (Write d p) (be64 (of_nat (8 * length m))))"
    unfolding pad by (intro digest_of_Write assms)
  then have "d_nx (Write (Write d p) (be64 (of_nat (8 * length m)))) = 0"
    "d_h (Write (Write d p) (be64 (of_nat (8 * length m)))) = block sha_init (sha_pad m)"
    by (simp_all add: digest_of_def tail_of_def sha_pad_aligned)
  then show ?thesis unfolding c Let_def by (simp add: sha256_spec_block)
qed

subsection \<open>Reading back what was written\<close>

text \<open>Byte \<open>k div 8\<close> of a word, put back in its place.\<close>

lemma bit_byte_of:
  fixes x :: "'a::len word"
  assumes "n < LENGTH('a)" "8 \<le> LENGTH('a)"
  shows "bit (push_bit k (ucast (ucast (drop_bit k x) :: byte)) :: 'a word) n \<longleftrightarrow> k \<le> n \<and> n < k + 8 \<and> bit x n"
  using assms by (auto simp: bit_simps less_diff_conv2)

lemma bit_byte_of_0:
  fixes x :: "'a::len word"
  assumes "n < LENGTH('a)" "8 \<le> LENGTH('a)"
  shows "bit (ucast (ucast x :: byte) :: 'a word) n \<longleftrightarrow> n < 8 \<and> bit x n"
  using assms by (auto simp: bit_simps)

lemma bytes32: "(ucast (ucast x :: byte) OR push_bit 8 (ucast (ucast (drop_bit 8 x) :: byte))
     OR push_bit 16 (ucast (ucast (drop_bit 16 x) :: byte))
     OR push_bit 24 (ucast (ucast (drop_bit 24 x) :: byte)) :: u32) = x"
  by (rule bit_word_eqI) (simp only: bit_or_iff bit_byte_of bit_byte_of_0 len_num1 len_bit0, auto)

lemma bytes64: "(ucast (ucast x :: byte) OR push_bit 8 (ucast (ucast (drop_bit 8 x) :: byte))
     OR push_bit 16 (ucast (ucast (drop_bit 16 x) :: byte))
     OR push_bit 24 (ucast (ucast (drop_bit 24 x) :: byte))
     OR push_bit 32 (ucast (ucast (drop_bit 32 x) :: byte))
     OR push_bit 40 (ucast (ucast (drop_bit 40 x) :: byte))
     OR push_bit 48 (ucast (ucast (drop_bit 48 x) :: byte))
     OR push_bit 56 (ucast (ucast (drop_bit 56 x) :: byte)) :: u64) = x"
proof (rule bit_word_eqI)
  fix n assume n: "n < LENGTH(64)"
  then have "n < 64" by simp
  then have "(n < 8 \<or> (8 \<le> n \<and> n < 8+8) \<or> (16 \<le> n \<and> n < 16+8) \<or> (24 \<le> n \<and> n < 24+8) \<or> (32 \<le> n \<and> n < 32+8)
    \<or> (40 \<le> n \<and> n < 40+8) \<or> (48 \<le> n \<and> n < 48+8) \<or> (56 \<le> n \<and> n < 56+8))" by linarith
  then show "bit (ucast (ucast x :: byte) OR push_bit 8 (ucast (ucast (drop_bit 8 x) :: byte))
     OR push_bit 16 (ucast (ucast (drop_bit 16 x) :: byte))
     OR push_bit 24 (ucast (ucast (drop_bit 24 x) :: byte))
     OR push_bit 32 (ucast (ucast (drop_bit 32 x) :: byte))
     OR push_bit 40 (ucast (ucast (drop_bit 40 x) :: byte))
     OR push_bit 48 (ucast (ucast (drop_bit 48 x) :: byte))
     OR push_bit 56 (ucast (ucast (drop_bit 56 x) :: byte)) :: u64) n = bit x n"
    unfolding bit_or_iff by (subst bit_byte_of bit_byte_of_0, use n in simp, simp)+ blast
qed

lemma consumeUint32_be32: "consumeUint32 (be32 x @ b) = (b, x)"
  using bytes32[of x] by (simp add: consumeUint32_def be32_def)

lemma be64_nth:
  "(be64 x @ b) ! 0 = ucast (drop_bit 56 x)" "(be64 x @ b) ! 1 = ucast (drop_bit 48 x)"
  "(be64 x @ b) ! 2 = ucast (drop_bit 40 x)" "(be64 x @ b) ! 3 = ucast (drop_bit 32 x)"
  "(be64 x @ b) ! 4 = ucast (drop_bit 24 x)" "(be64 x @ b) ! 5 = ucast (drop_bit 16 x)"
  "(be64 x @ b) ! 6 = ucast (drop_bit 8 x)" "(be64 x @ b) ! 7 = ucast x"
  by (simp_all add: be64_def)

lemma consumeUint64_be64: "consumeUint64 (be64 x @ b) = (b, x)"
proof -
  have "fst (consumeUint64 (be64 x @ b)) = b" by (simp add: consumeUint64_def)
  moreover have "snd (consumeUint64 (be64 x @ b)) = x"
    unfolding consumeUint64_def snd_conv be64_nth by (rule bytes64)
  ultimately show ?thesis by (metis prod.collapse)
qed

lemma consume_words_be32: "length h = n \<Longrightarrow> consume_words n (concat (map be32 h) @ b) = (b, h)"
proof (induction n arbitrary: h)
  case 0
  then show ?case by simp
next
  case (Suc n)
  then obtain x h' where h: "h = x # h'" "length h' = n" by (cases h) auto
  show ?case using Suc.IH[OF h(2)] h(1) by (simp add: consumeUint32_be32)
qed

lemma foldl_appendUint32: "foldl appendUint32 b h = b @ concat (map be32 h)"
  by (induction h arbitrary: b) (simp_all add: appendUint32_def)

lemma length_be_words_digest: "length (concat (map be32 h)) = 4 * length h"
  by (induction h) simp_all

lemma sha_round_length: "length (sha_round s kw) = length s"
  by (cases "(s, kw)" rule: sha_round.cases) (simp_all add: Let_def)

lemma foldl_sha_round_length: "length (foldl sha_round s kws) = length s"
  by (induction kws arbitrary: s) (simp_all add: sha_round_length)

lemma block_length [simp]: "length (block h p) = length h"
  by (induction h p rule: block.induct)
     (subst block.simps, simp add: sha_compress_def foldl_sha_round_length)


text \<open>The one-block example of the standard, the message \<open>abc\<close>.\<close>

lemma sha256_abc: "sha256_spec [0x61, 0x62, 0x63] =
  [0xba, 0x78, 0x16, 0xbf, 0x8f, 0x01, 0xcf, 0xea, 0x41, 0x41, 0x40, 0xde, 0x5d, 0xae, 0x22, 0x23,
   0xb0, 0x03, 0x61, 0xa3, 0x96, 0x17, 0x7a, 0x9c, 0xb4, 0x10, 0xff, 0x61, 0xf2, 0x00, 0x15, 0xad]"
  by code_simp

subsection \<open>Properties\<close>

text \<open>C40: for every message, \<open>Sum256\<close> (reset, write, pad, compress through the buffered digest)
  returns the SHA-256 of FIPS 180-4: the standard's constants from the roots of the primes, its
  schedule, round functions, padding and block order, and its big-endian output; the digest
  never reaches the panic on a partial last block.\<close>

theorem Sum256_refines: "Sum256 data = Some (sha256_spec data)"
proof -
  have "digest_of ([] @ data) (Write (Reset \<lparr>d_h = replicate 8 0, d_x = replicate 64 0, d_nx = 0, d_len = 0\<rparr>) data)"
    by (intro digest_of_Write digest_of_Reset) simp
  then show ?thesis unfolding Sum256_def by (simp add: checkSum_refines)
qed

lemma digest_of_writes: "digest_of m d \<Longrightarrow> digest_of (m @ concat ps) (foldl Write d ps)"
proof (induction ps arbitrary: m d)
  case Nil
  then show ?case by simp
next
  case (Cons p ps)
  then show ?case using Cons.IH[of "m @ p" "Write d p"] by (simp add: digest_of_Write)
qed

text \<open>how a message is cut into \<open>Write\<close> calls does not change its hash.\<close>

theorem writes_refine: "Sum (foldl Write NewSha256 ps) inp = Some (inp @ sha256_spec (concat ps))"
proof -
  have "digest_of ([] @ concat ps) (foldl Write NewSha256 ps)"
    unfolding NewSha256_def by (intro digest_of_writes digest_of_Reset) simp
  then show ?thesis by (simp add: Sum_def checkSum_refines)
qed

text \<open>a mid-state (the hash state, the buffered bytes and the length of a prefix) resumes
  the hash: \<open>CalcMidState\<close> of the prefix's mid-state and the rest of the message is the hash
  of the whole message.\<close>

theorem CalcMidState_refines:
  assumes "length (d_x d) = 64"
  shows "CalcMidState d data (concat (map be32 (block sha_init m))) (partial m) (of_nat (length m))
         = Some (sha256_spec (m @ data))"
proof -
  have h: "consume_words 8 (concat (map be32 (block sha_init m))) = ([], block sha_init m)"
    using consume_words_be32[of "block sha_init m" 8 "[]"] by (simp add: sha_init_def)
  define d1 where "d1 = d\<lparr>d_h := block sha_init m, d_len := of_nat (length m),
      d_x := partial m @ drop (length m mod 64) (d_x d), d_nx := length m mod 64\<rparr>"
  have "digest_of m d1" using assms by (simp add: d1_def digest_of_def tail_of_def)
  then have "checkSum (Write d1 data) = Some (sha256_spec (m @ data))"
    by (intro checkSum_refines digest_of_Write)
  moreover have "CalcMidState d data (concat (map be32 (block sha_init m))) (partial m) (of_nat (length m))
      = checkSum (Write d1 data)"
  proof -
    have "length m mod 64 < 64" by simp
    then show ?thesis by (simp add: CalcMidState_def h unat_len_mod d1_def Let_def)
  qed
  ultimately show ?thesis by simp
qed

text \<open>marshalling a digest and unmarshalling it into any digest gives a digest that stands
  for the same message, so hashing can resume after a round trip through the binary format.\<close>

theorem Marshal_roundtrip:
  assumes "digest_of m d"
  shows "\<exists>d'. UnmarshalBinary d0 (MarshalBinary d) = Inr d' \<and> digest_of m d' \<and> d_h d' = d_h d \<and> d_len d' = d_len d"
proof -
  let ?hb = "concat (map be32 (d_h d))"
  let ?xb = "take (d_nx d) (d_x d) @ replicate (64 - d_nx d) 0"
  have inv: "length (d_h d) = 8" "d_nx d = length m mod 64" "length (d_x d) = 64"
    "d_len d = of_nat (length m)" "take (length m mod 64) (d_x d) = partial m" "d_h d = block sha_init m"
    using assms by (simp_all add: digest_of_def tail_of_def sha_init_def)
  have nx: "d_nx d < 64" using inv(2) by simp
  have lx: "length ?xb = 64" using inv nx by simp
  have b: "MarshalBinary d = magic256 @ (?hb @ (?xb @ (be64 (d_len d) @ [])))"
    by (simp add: MarshalBinary_def foldl_appendUint32 appendUint64_def Let_def)
  have len: "length (MarshalBinary d) = marshaledSize"
    using inv nx by (simp add: b marshaledSize_def length_be_words_digest magic256_def)
  have cw: "consume_words 8 (?hb @ (?xb @ (be64 (d_len d) @ []))) = (?xb @ (be64 (d_len d) @ []), d_h d)"
    using consume_words_be32 inv(1) by blast
  have c64: "consumeUint64 (be64 (d_len d) @ []) = ([], d_len d)" by (rule consumeUint64_be64)
  define d' where "d' = d0\<lparr>d_h := d_h d, d_x := ?xb, d_len := d_len d, d_nx := unat (d_len d mod 64)\<rparr>"
  have dt: "drop 64 (?xb @ (be64 (d_len d) @ [])) = be64 (d_len d) @ []"
    "take 64 (?xb @ (be64 (d_len d) @ [])) = ?xb"
    using inv(3) nx by simp_all
  have hd: "\<not> (length (MarshalBinary d) < length magic256 \<or> take (length magic256) (MarshalBinary d) \<noteq> magic256)"
    "\<not> length (MarshalBinary d) \<noteq> marshaledSize"
    "drop (length magic256) (MarshalBinary d) = ?hb @ (?xb @ (be64 (d_len d) @ []))"
    using len by (simp_all add: b)
  have "UnmarshalBinary d0 (MarshalBinary d) = Inr d'"
    unfolding UnmarshalBinary_def Let_def d'_def
    by (simp only: hd cw dt c64 if_False case_prod_conv prod.case not_True_eq_False)
  moreover have "digest_of m d'"
    using inv nx by (simp add: d'_def digest_of_def tail_of_def unat_len_mod)
  ultimately show ?thesis by (auto simp: d'_def)
qed

theorem CalcMidState_witness:
  "length (d_x NewSha256) = 64 \<and>
   CalcMidState NewSha256 [4] (concat (map be32 (block sha_init [1, 2, 3]))) (partial [1, 2, 3]) (of_nat (length [1, 2, 3 :: byte]))
     = Some (sha256_spec ([1, 2, 3] @ [4]))"
proof -
  have h: "length (d_x NewSha256) = 64" by (simp add: NewSha256_def Reset_def)
  show ?thesis using h CalcMidState_refines[OF h, of "[4]" "[1, 2, 3]"] by blast
qed

theorem Marshal_witness:
  "digest_of [7] (Write NewSha256 [7]) \<and>
   (\<exists>d'. UnmarshalBinary NewSha256 (MarshalBinary (Write NewSha256 [7])) = Inr d' \<and> digest_of [7] d' \<and>
     d_h d' = d_h (Write NewSha256 [7]) \<and> d_len d' = d_len (Write NewSha256 [7]))"
proof -
  have "digest_of ([] @ [7]) (Write NewSha256 [7])"
    unfolding NewSha256_def by (intro digest_of_Write digest_of_Reset) simp
  then have h: "digest_of [7] (Write NewSha256 [7])" by simp
  show ?thesis using h Marshal_roundtrip[OF h, of NewSha256] by blast
qed

end
