(* ===== verification/Types.thy ===== *)
theory Types
  imports Float64 Sha256 "HOL-Library.List_Lexorder" "HOL-Library.Char_ord"
begin

text \<open>
  The data of the program: shares and their parts (\<open>work/share.go\<close>), block templates
  (\<open>work/template.go\<close>), the configuration fields the modelled code reads
  (\<open>config/config.go\<close>), and the environment \<open>env\<close>, which carries the third-party functions the
  code calls. A pointer that may be nil is an option; an \<open>intN\<close> or \<open>uintN\<close> field is an
  \<open>N word\<close>, read with \<open>sint\<close> or \<open>uint\<close>; \<open>big.Int\<close> is \<open>int\<close>; \<open>float64\<close> is a
  representable rational (theory \<open>Float64\<close>); a \<open>chainhash.Hash\<close> is its bytes; a
  \<open>time.Time\<close> is the \<open>int\<close> of nanoseconds since the Unix epoch.
\<close>

type_synonym hash = "byte list"
type_synonym time = int

abbreviation seconds :: "int \<Rightarrow> time" where "seconds n \<equiv> n * 1000000000"

definition Unix :: "time \<Rightarrow> int" where
  "Unix t = t div 1000000000"

subsection \<open>Transactions and block headers (btcd's \<open>wire\<close> types, as the code fills them)\<close>

record txin =
  in_Hash :: hash
  in_Index :: u32
  in_Script :: "byte list"
  in_Witness :: "byte list list"
  in_Sequence :: u32

record txout =
  out_Value :: u64
  out_PkScript :: "byte list"

record msgtx =
  tx_Version :: u32
  tx_TxIn :: "txin list"
  tx_TxOut :: "txout list"
  tx_LockTime :: u32

record block_header =
  bh_Version :: u32
  bh_PrevBlock :: hash
  bh_MerkleRoot :: hash
  bh_Timestamp :: int
  bh_Bits :: u32
  bh_Nonce :: u32

subsection \<open>Shares\<close>

record MerkleLink =
  ml_Branch :: "hash option list"
  ml_Index :: u64

record HashLink =
  hl_State :: "byte list"
  hl_ExtraData :: "byte list"
  hl_Length :: u64

record SmallBlockHeader =
  mh_Version :: u32
  mh_PreviousBlock :: "hash option"
  mh_Timestamp :: u32
  mh_Bits :: u32
  mh_Nonce :: u32

record ShareData =
  sd_PreviousShareHash :: "hash option"
  sd_CoinBase :: "byte list"
  sd_Nonce :: u32
  sd_PubKeyHash :: "byte list"
  sd_PubKeyHashVersion :: byte
  sd_Subsidy :: u64
  sd_Donation :: u16
  sd_StaleInfo :: byte
  sd_DesiredVersion :: u64

record SegwitData =
  sw_TXIDMerkleLink :: MerkleLink
  sw_WTXIDMerkleRoot :: "hash option"

record TransactionHashRef =
  tr_ShareCount :: u64
  tr_TxCount :: u64

record ShareInfo =
  si_ShareData :: ShareData
  si_SegwitData :: "SegwitData option"
  si_NewTransactionHashes :: "hash option list"
  si_TransactionHashRefs :: "TransactionHashRef list"
  si_FarShareHash :: "hash option"
  si_MaxBits :: u32
  si_Bits :: u32
  si_Timestamp :: u32
  si_AbsHeight :: u32
  si_AbsWork :: "int option"

text \<open>The last five fields are caches.\<close>

record Share =
  s_Type :: u64
  s_MinHeader :: SmallBlockHeader
  s_ShareInfo :: ShareInfo
  s_RefMerkleLink :: MerkleLink
  s_LastTxOutNonce :: u64
  s_HashLink :: HashLink
  s_MerkleLink :: MerkleLink
  s_Hash :: "hash option"
  s_POWHash :: "hash option"
  s_Target :: "int option"
  s_decodedAddr :: string
  s_targetDiff :: rat
  s_effDiff :: rat
  s_effDiffReady :: bool
  s_prevKey :: string

abbreviation share_data :: "Share \<Rightarrow> ShareData" where "share_data s \<equiv> si_ShareData (s_ShareInfo s)"

text \<open>\<open>int64(s.ShareInfo.Timestamp)\<close> and \<open>int64(s.MinHeader.Timestamp)\<close>.\<close>

definition share_ts :: "Share \<Rightarrow> int" where
  "share_ts s = sint (si_Timestamp (s_ShareInfo s))"

definition header_ts :: "Share \<Rightarrow> int" where
  "header_ts s = uint (mh_Timestamp (s_MinHeader s))"

definition StaleInfoNone :: byte where "StaleInfoNone = 0"
definition StaleInfoOrphan :: byte where "StaleInfoOrphan = 253"
definition StaleInfoDOA :: byte where "StaleInfoDOA = 254"

abbreviation is_stale :: "Share \<Rightarrow> bool" where "is_stale s \<equiv> sd_StaleInfo (share_data s) \<noteq> StaleInfoNone"

definition ShareVersionV1 :: u64 where "ShareVersionV1 = 23"
definition ShareVersionV2 :: u64 where "ShareVersionV2 = 24"
definition ConsensusV2ActivationTime :: int where "ConsensusV2ActivationTime = 1792470600"
definition V2MandatoryActivationTime :: int where "V2MandatoryActivationTime = 1792519200"
definition TaprootPayoutActivationTime :: int where "TaprootPayoutActivationTime = 1794009600"
definition ConsensusV3ActivationTime :: int where "ConsensusV3ActivationTime = 1794009600"
definition MedianTimeShares :: nat where "MedianTimeShares = 11"
definition MaxShareTimeFuture :: time where "MaxShareTimeFuture = seconds (2 * 3600)"

subsection \<open>Block templates\<close>

record BlockTemplateTx =
  bt_Data :: string
  bt_TxID :: string
  bt_Hash :: string
  bt_Depends :: "int list"
  bt_Fee :: int
  bt_SigOps :: int
  bt_Weight :: int

record BlockTemplate =
  t_Version :: u32
  t_PreviousBlockHash :: string
  t_Transactions :: "BlockTemplateTx list"
  t_CoinbaseAuxFlags :: string
  t_CoinbaseValue :: int
  t_MinTime :: int
  t_CurTime :: int
  t_Bits :: string
  t_Height :: int
  t_FullNode :: bool
  t_PrevBlockHeaderHex :: string
  t_AncestorHeadersHex :: "string list"

subsection \<open>Configuration and environment\<close>

record Config =
  c_Testnet :: bool
  c_Fee :: rat
  c_LightMode :: bool
  c_TrustedPeers :: "string list"
  c_TargetTime :: rat
  c_RetargetTime :: rat
  c_MinDiff :: rat

text \<open>
  The environment: the active configuration, the active network's \<open>Verthash\<close> engine (an
  interface value, \<open>None\<close> for an error), and the functions of btcd the code calls.
  \<open>e_DecodeGeneric\<close> returns the human-readable part, the data and whether the checksum is the
  bech32 of witness version 0; \<open>e_CoinbaseScript h ds\<close> is btcd's script builder after
  \<open>AddInt64 h\<close> and \<open>AddData\<close> of each of \<open>ds\<close>.
\<close>

record env =
  e_Active :: Config
  e_Verthash :: "byte list \<Rightarrow> byte list option"
  e_CompactToBig :: "u32 \<Rightarrow> int"
  e_HashString :: "hash \<Rightarrow> string"
  e_NewHashFromStr :: "string \<Rightarrow> hash option"
  e_ConvertBits :: "byte list \<Rightarrow> nat \<Rightarrow> nat \<Rightarrow> bool \<Rightarrow> byte list option"
  e_Encode :: "string \<Rightarrow> byte list \<Rightarrow> string"
  e_EncodeM :: "string \<Rightarrow> byte list \<Rightarrow> string"
  e_DecodeGeneric :: "string \<Rightarrow> (string \<times> byte list \<times> bool) option"
  e_CheckEncode :: "byte list \<Rightarrow> byte \<Rightarrow> string"
  e_Base58Decode :: "string \<Rightarrow> byte list"
  e_Deserialize :: "byte list \<Rightarrow> msgtx option"
  e_DeserializeNoWitness :: "byte list \<Rightarrow> msgtx option"
  e_Serialize :: "msgtx \<Rightarrow> byte list option"
  e_SerializeNoWitness :: "msgtx \<Rightarrow> byte list option"
  e_TxHash :: "msgtx \<Rightarrow> hash"
  e_WitnessHash :: "msgtx \<Rightarrow> hash"
  e_BlockHash :: "block_header \<Rightarrow> hash"
  e_HeaderBytes :: "block_header \<Rightarrow> byte list option"
  e_CoinbaseScript :: "int \<Rightarrow> byte list list \<Rightarrow> byte list option"

definition genesisHash :: hash where
  "genesisHash = replicate 32 0"

subsection \<open>Big integers from bytes, hexadecimal strings, ASCII strings\<close>

text \<open>\<open>new(big.Int).SetBytes\<close>: big-endian.\<close>

definition big_SetBytes :: "byte list \<Rightarrow> int" where
  "big_SetBytes bs = foldl (\<lambda>a b. a * 256 + uint b) 0 bs"

definition hex_digit :: "nat \<Rightarrow> char" where
  "hex_digit n = ''0123456789abcdef'' ! n"

definition hex_EncodeToString :: "byte list \<Rightarrow> string" where
  "hex_EncodeToString bs = concat (map (\<lambda>b. [hex_digit (unat b div 16), hex_digit (unat b mod 16)]) bs)"

definition hex_value :: "char \<Rightarrow> nat option" where
  "hex_value c =
     (let n = of_char c :: nat
      in if 48 \<le> n \<and> n \<le> 57 then Some (n - 48)
         else if 97 \<le> n \<and> n \<le> 102 then Some (n - 87)
         else if 65 \<le> n \<and> n \<le> 70 then Some (n - 55) else None)"

text \<open>\<open>hex.DecodeString\<close>; \<open>None\<close> for an odd length or a byte that is no hexadecimal digit.\<close>

fun hex_DecodeString :: "string \<Rightarrow> byte list option" where
  "hex_DecodeString [] = Some []"
| "hex_DecodeString [c] = None"
| "hex_DecodeString (a # b # cs) =
     (case (hex_value a, hex_value b, hex_DecodeString cs) of
        (Some x, Some y, Some bs) \<Rightarrow> Some (of_nat (16 * x + y) # bs)
      | _ \<Rightarrow> None)"

definition to_lower :: "string \<Rightarrow> string" where
  "to_lower s = map (\<lambda>c. let n = of_char c :: nat in if 65 \<le> n \<and> n \<le> 90 then char_of (n + 32) else c) s"

definition is_space :: "char \<Rightarrow> bool" where
  "is_space c = (let n = of_char c :: nat in n = 32 \<or> (9 \<le> n \<and> n \<le> 13))"

definition trim_space :: "string \<Rightarrow> string" where
  "trim_space s = rev (dropWhile is_space (rev (dropWhile is_space s)))"

definition has_prefix :: "string \<Rightarrow> string \<Rightarrow> bool" where
  "has_prefix s p = prefix p s"

subsection \<open>Hexadecimal round trip\<close>

lemma hex_value_digit: assumes "n < 16" shows "hex_value (hex_digit n) = Some n"
proof -
  have "\<forall>n \<in> {0..<16}. hex_value (hex_digit n) = Some n" by code_simp
  then show ?thesis using assms by simp
qed

lemma hex_roundtrip: "hex_DecodeString (hex_EncodeToString bs) = Some bs"
proof (induction bs)
  case Nil
  then show ?case by (simp add: hex_EncodeToString_def)
next
  case (Cons b bs)
  have "unat b < 256" using unsigned_less[of b, where ?'a = nat] by simp
  then have v: "hex_value (hex_digit (unat b div 16)) = Some (unat b div 16)"
    "hex_value (hex_digit (unat b mod 16)) = Some (unat b mod 16)"
    by (simp_all add: hex_value_digit less_mult_imp_div_less)
  have "(of_nat (16 * (unat b div 16) + unat b mod 16) :: byte) = b"
    by (simp only: mult_div_mod_eq of_nat_unat ucast_id)
  then show ?case using Cons v by (simp add: hex_EncodeToString_def)
qed

lemma hex_inj: "hex_EncodeToString a = hex_EncodeToString b \<longleftrightarrow> a = b"
  by (metis hex_roundtrip option.inject)

lemma big_SetBytes_snoc: "big_SetBytes (bs @ [b]) = big_SetBytes bs * 256 + uint b"
  by (simp add: big_SetBytes_def)

lemma big_SetBytes_bounds: "0 \<le> big_SetBytes bs \<and> big_SetBytes bs < 256 ^ length bs"
proof (induction bs rule: rev_induct)
  case Nil
  then show ?case by (simp add: big_SetBytes_def)
next
  case (snoc b bs)
  have "0 \<le> uint b" "uint b < 256" using unsigned_less[of b, where ?'a = int] by simp_all
  then show ?case using snoc by (simp add: big_SetBytes_snoc)
qed


subsection \<open>A concrete environment and shares for the examples\<close>

text \<open>Hash strings are the reversed hexadecimal bytes, as btcd prints them; the coders are placeholders
  that the examples override where they matter.\<close>

definition demo_config :: Config where
  "demo_config = \<lparr>c_Testnet = False, c_Fee = 0, c_LightMode = False, c_TrustedPeers = [],
     c_TargetTime = 15, c_RetargetTime = 60, c_MinDiff = 1\<rparr>"

definition demo_env :: env where
  "demo_env = \<lparr>e_Active = demo_config, e_Verthash = (\<lambda>b. Some (replicate 32 0)), e_CompactToBig = (\<lambda>b. uint b),
     e_HashString = (\<lambda>h. hex_EncodeToString (rev h)), e_NewHashFromStr = (\<lambda>s. map_option rev (hex_DecodeString s)),
     e_ConvertBits = (\<lambda>b f t p. Some b), e_Encode = (\<lambda>h d. h @ ''1'' @ hex_EncodeToString d),
     e_EncodeM = (\<lambda>h d. h @ ''1m'' @ hex_EncodeToString d), e_DecodeGeneric = (\<lambda>s. None),
     e_CheckEncode = (\<lambda>b v. hex_EncodeToString (v # b @ [0, 0, 0, 0])),
     e_Base58Decode = (\<lambda>s. case hex_DecodeString s of Some b \<Rightarrow> b | None \<Rightarrow> []),
     e_Deserialize = (\<lambda>b. None), e_DeserializeNoWitness = (\<lambda>b. None), e_Serialize = (\<lambda>t. None),
     e_SerializeNoWitness = (\<lambda>t. None), e_TxHash = (\<lambda>t. replicate 32 0), e_WitnessHash = (\<lambda>t. replicate 32 0),
     e_BlockHash = (\<lambda>h. replicate 28 0 @ be32 (bh_Nonce h)), e_HeaderBytes = (\<lambda>h. Some []),
     e_CoinbaseScript = (\<lambda>h ds. Some (concat ds))\<rparr>"

definition demo_share :: "hash option \<Rightarrow> hash \<Rightarrow> u32 \<Rightarrow> Share" where
  "demo_share prev h ts =
     \<lparr>s_Type = ShareVersionV1,
      s_MinHeader = \<lparr>mh_Version = 0x20000000, mh_PreviousBlock = Some genesisHash, mh_Timestamp = ts, mh_Bits = 0x1b00ffff,
                     mh_Nonce = 7\<rparr>,
      s_ShareInfo = \<lparr>si_ShareData = \<lparr>sd_PreviousShareHash = prev, sd_CoinBase = [1], sd_Nonce = 7,
                        sd_PubKeyHash = replicate 20 3, sd_PubKeyHashVersion = 0, sd_Subsidy = 0, sd_Donation = 0,
                        sd_StaleInfo = StaleInfoNone, sd_DesiredVersion = 0\<rparr>,
                     si_SegwitData = None, si_NewTransactionHashes = [], si_TransactionHashRefs = [],
                     si_FarShareHash = None, si_MaxBits = 0x1b00ffff, si_Bits = 0x1b00ffff, si_Timestamp = ts,
                     si_AbsHeight = 1, si_AbsWork = Some 0\<rparr>,
      s_RefMerkleLink = \<lparr>ml_Branch = [], ml_Index = 0\<rparr>, s_LastTxOutNonce = 0,
      s_HashLink = \<lparr>hl_State = [], hl_ExtraData = [], hl_Length = 0\<rparr>,
      s_MerkleLink = \<lparr>ml_Branch = [], ml_Index = 0\<rparr>, s_Hash = Some h, s_POWHash = Some (replicate 31 0 @ [1]),
      s_Target = Some (65535 * 2 ^ 216), s_decodedAddr = '''', s_targetDiff = 0, s_effDiff = 0,
      s_effDiffReady = False, s_prevKey = ''''\<rparr>"

end
