(* ===== verification/Difficulty.thy ===== *)
theory Difficulty
  imports Types
begin

text \<open>
  Difficulties and targets: \<open>DiffToTarget\<close>, \<open>TargetToDiff\<close> and \<open>BitsToNetworkDiff\<close> of
  \<open>work/util.go\<close>, the cached \<open>getTargetDiff\<close> and \<open>GetEffectiveShareDiff\<close> of
  \<open>work/sharechain.go\<close> and \<open>CheckShareTargetFloor\<close> of \<open>work/share.go\<close>. The lemmas show that the
  conversion is antitone, that a target made from a difficulty stands for that difficulty up to
  the band the consensus check allows, and that the caches do not change the values.
\<close>

definition maxTarget :: int where
  "maxTarget = 65535 * 2 ^ 216"

definition DiffToTarget :: "rat \<Rightarrow> int" where
  "DiffToTarget diff0 =
     (let diff = (if diff0 \<le> 0 then f64 (1 / 1000000) else diff0)
      in \<lfloor>big_round 256 (of_int maxTarget / diff)\<rfloor>)"

definition TargetToDiff :: "int option \<Rightarrow> rat" where
  "TargetToDiff target =
     (case target of
        None \<Rightarrow> 0
      | Some t \<Rightarrow> if t \<le> 0 then 0
                  else f64 (big_round 256 (of_int maxTarget / big_round 256 (of_int t))))"

definition BitsToNetworkDiff :: "env \<Rightarrow> u32 \<Rightarrow> rat" where
  "BitsToNetworkDiff E bits =
     (if bits = 0 then 0 else fdiv (TargetToDiff (Some (e_CompactToBig E bits))) 256)"

definition MinPoolShareDiff :: rat where "MinPoolShareDiff = 1 / 2"

definition no_target :: "Share \<Rightarrow> bool" where
  "no_target s = (case s_Target s of None \<Rightarrow> True | Some t \<Rightarrow> t \<le> 0)"

text \<open>\<open>getTargetDiff\<close> with its cache, and the value it computes.\<close>

definition getTargetDiff :: "Share \<Rightarrow> rat \<times> Share" where
  "getTargetDiff s =
     (if no_target s then (0, s)
      else if 0 < s_targetDiff s then (s_targetDiff s, s)
      else let d = TargetToDiff (s_Target s) in (d, s\<lparr>s_targetDiff := d\<rparr>))"

definition target_diff :: "Share \<Rightarrow> rat" where
  "target_diff s = (if no_target s then 0 else TargetToDiff (s_Target s))"

text \<open>The proof of work is known and misses the difficulty \<open>td\<close> by more than 0.1 percent.\<close>

definition pow_below :: "Share \<Rightarrow> rat \<Rightarrow> bool" where
  "pow_below s td =
     (case s_POWHash s of
        Some p \<Rightarrow> TargetToDiff (Some (big_SetBytes p)) < fmul td (f64 (999 / 1000))
      | None \<Rightarrow> False)"

text \<open>\<open>GetEffectiveShareDiff\<close> with its cache, and the value it computes.\<close>

definition GetEffectiveShareDiff :: "Share \<Rightarrow> rat \<times> Share" where
  "GetEffectiveShareDiff s =
     (if no_target s then (0, s)
      else if s_effDiffReady s then (s_effDiff s, s)
      else let (td, s1) = getTargetDiff s;
               d = (if td \<le> 0 then 0
                    else if pow_below s1 td then 0
                    else if 16 < td then 16 else td)
           in (d, s1\<lparr>s_effDiff := d, s_effDiffReady := True\<rparr>))"

definition effective_diff :: "Share \<Rightarrow> rat" where
  "effective_diff s =
     (let td = target_diff s
      in if td \<le> 0 then 0
         else if pow_below s td then 0
         else if 16 < td then 16 else td)"

definition CheckShareTargetFloor :: "Share \<Rightarrow> bool" where
  "CheckShareTargetFloor s \<longleftrightarrow> f64 (4995 / 10000) \<le> target_diff s"

subsection \<open>The conversions are antitone and stay representable\<close>

lemma TargetToDiff_f64 [simp]: "f64 (TargetToDiff t) = TargetToDiff t"
  by (simp add: TargetToDiff_def split: option.split)

lemma target_diff_f64 [simp]: "f64 (target_diff s) = target_diff s"
  by (simp add: target_diff_def)

lemma big_1: "big_round 256 1 = 1"
proof -
  have "ilog2 1 \<le> 0" by (rule ilog2_le) simp_all
  then show ?thesis using rnd_at_pow[of "ilog2 1 + 1 - int 256" 0] by (simp add: big_round_def)
qed

lemma big_target_pos: "0 < t \<Longrightarrow> 1 \<le> big_round 256 (of_int t)"
  by (rule big256.ge_rep[OF big_1]) simp

lemma TargetToDiff_nonneg [simp]: "0 \<le> TargetToDiff t"
proof (cases t)
  case (Some x)
  have "0 \<le> big_round 256 (of_int maxTarget / big_round 256 (of_int x))" if "0 < x"
    using that big_target_pos[OF that] by (intro big256.nonneg divide_nonneg_nonneg) (simp_all add: maxTarget_def)
  then show ?thesis using Some by (simp add: TargetToDiff_def f64.nonneg)
qed (simp add: TargetToDiff_def)

lemma TargetToDiff_antimono:
  assumes "0 < a" "a \<le> b" shows "TargetToDiff (Some b) \<le> TargetToDiff (Some a)"
proof -
  have "big_round 256 (of_int a) \<le> big_round 256 (of_int b)"
    using assms by (intro big256.rnd_mono) simp
  then have "of_int maxTarget / big_round 256 (of_int b) \<le> of_int maxTarget / big_round 256 (of_int a)"
    using big_target_pos[OF assms(1)] by (intro divide_left_mono) (auto simp: maxTarget_def)
  then show ?thesis using assms by (simp add: TargetToDiff_def f64.rnd_mono big256.rnd_mono)
qed

lemma DiffToTarget_antimono: assumes "0 < a" "a \<le> b" shows "DiffToTarget b \<le> DiffToTarget a"
proof -
  have "of_int maxTarget / b \<le> of_int maxTarget / a"
    using assms by (intro divide_left_mono) (auto simp: maxTarget_def)
  then show ?thesis using assms by (simp add: DiffToTarget_def floor_mono big256.rnd_mono)
qed

subsection \<open>A target stands for the difficulty it was made from\<close>

text \<open>The target is the exact quotient up to a few parts per million.\<close>

lemma DiffToTarget_close:
  assumes "0 < d" "d \<le> 2 ^ 100"
  defines "q \<equiv> of_int maxTarget / d"
  shows "q * (999997 / 1000000) \<le> of_int (DiffToTarget d)"
    "of_int (DiffToTarget d) \<le> q * (1000001 / 1000000)" "1000000 \<le> q"
proof -
  have "of_int maxTarget / 2 ^ 100 \<le> q"
    unfolding q_def using assms by (intro divide_left_mono) (auto simp: maxTarget_def)
  then show q: "1000000 \<le> q" by (simp add: maxTarget_def)
  have t: "DiffToTarget d = \<lfloor>big_round 256 q\<rfloor>" using assms by (simp add: DiffToTarget_def q_def)
  have "big_round 256 q - 1 < of_int \<lfloor>big_round 256 q\<rfloor>" "of_int \<lfloor>big_round 256 q\<rfloor> \<le> big_round 256 q"
    by linarith+
  then show "q * (999997 / 1000000) \<le> of_int (DiffToTarget d)"
    "of_int (DiffToTarget d) \<le> q * (1000001 / 1000000)"
    using big256_ppm[of q] q unfolding t by linarith+
qed

lemma quotient_band:
  fixes M d q T :: rat
  assumes "0 < M" "0 < d" "q = M / d" "q * (999990 / 1000000) \<le> T" "T \<le> q * (1000010 / 1000000)"
  shows "d * (999980 / 1000000) \<le> M / T" "M / T \<le> d * (1000020 / 1000000)"
proof -
  have q: "0 < q" "M = d * q" using assms by auto
  then have T: "0 < T" using assms(4) by (intro less_le_trans[OF _ assms(4)]) simp
  have "d * (999980 / 1000000) * T \<le> d * (999980 / 1000000) * (q * (1000010 / 1000000))"
    using assms(2,5) by (intro mult_left_mono) simp_all
  also have "\<dots> \<le> d * q" using q(1) assms(2) by (simp add: field_simps)
  finally show "d * (999980 / 1000000) \<le> M / T" using T q(2) by (simp add: le_divide_eq)
  have "d * q \<le> d * (1000020 / 1000000) * (q * (999990 / 1000000))"
    using q(1) assms(2) by (simp add: field_simps)
  also have "\<dots> \<le> d * (1000020 / 1000000) * T" using assms(2,4) by (intro mult_left_mono) simp_all
  finally show "M / T \<le> d * (1000020 / 1000000)" using T q(2) by (simp add: divide_le_eq)
qed

lemma two_powi_le_half: "(2::rat) powi (-100) \<le> 1 / 4"
proof -
  have "(2::rat) powi (-100) \<le> 2 powi (-2)" by (rule powi_mono2) simp
  then show ?thesis by (simp add: power_int_minus)
qed

lemma TargetToDiff_DiffToTarget:
  assumes "1 / 2 \<le> d" "d \<le> 2 ^ 100"
  shows "d * (9999 / 10000) \<le> TargetToDiff (Some (DiffToTarget d))"
    "TargetToDiff (Some (DiffToTarget d)) \<le> d * (10001 / 10000)"
proof -
  define q where "q = of_int maxTarget / d"
  define T where "T = big_round 256 (of_int (DiffToTarget d))"
  define w where "w = of_int maxTarget / T"
  define R where "R = big_round 256 w"
  have d: "0 < d" using assms(1) by linarith
  note c = DiffToTarget_close[OF d assms(2), folded q_def]
  have t0: "0 < (of_int (DiffToTarget d) :: rat)" using c by linarith
  then have pos: "0 < DiffToTarget d" by simp
  have "q * (999990 / 1000000) \<le> T" "T \<le> q * (1000010 / 1000000)"
    using big256_ppm[of "of_int (DiffToTarget d)"] t0 c unfolding T_def by linarith+
  then have r: "d * (999980 / 1000000) \<le> w" "w \<le> d * (1000020 / 1000000)"
    using quotient_band[of "of_int maxTarget" d q T] d by (simp_all add: q_def w_def maxTarget_def)
  have R: "d * (999970 / 1000000) \<le> R" "R \<le> d * (1000030 / 1000000)"
  proof -
    have "0 \<le> w" using r(1) d by linarith
    note b = big256_ppm[OF this, folded R_def]
    show "d * (999970 / 1000000) \<le> R" "R \<le> d * (1000030 / 1000000)" using b r d by linarith+
  qed
  have "2 powi (-100) \<le> R" using R(1) assms(1) two_powi_le_half by linarith
  then have "d * (9999 / 10000) \<le> f64 R" "f64 R \<le> d * (10001 / 10000)"
    using f64_ppm[of R] R d by linarith+
  moreover have "TargetToDiff (Some (DiffToTarget d)) = f64 R"
    using pos by (simp add: TargetToDiff_def R_def w_def T_def)
  ultimately show "d * (9999 / 10000) \<le> TargetToDiff (Some (DiffToTarget d))"
    "TargetToDiff (Some (DiffToTarget d)) \<le> d * (10001 / 10000)" by simp_all
qed

text \<open>The consensus band: \<open>expD*0.999\<close> and \<open>expD*1.001\<close>.\<close>

lemma fmul_ppm:
  assumes "1 / 2 \<le> d" "1 / 2 \<le> c"
  shows "d * c * (999998 / 1000000) \<le> fmul d (f64 c)" "fmul d (f64 c) \<le> d * c * (1000003 / 1000000)"
proof -
  have fc: "c * (999999 / 1000000) \<le> f64 c" "f64 c \<le> c * (1000001 / 1000000)"
    using f64_ppm[of c] two_powi_le_half assms(2) by linarith+
  have m: "d * c * (999999 / 1000000) \<le> d * f64 c" "d * f64 c \<le> d * c * (1000001 / 1000000)"
    using mult_left_mono[OF fc(1), of d] mult_left_mono[OF fc(2), of d] assms(1) by (simp_all add: mult.assoc)
  have "1 / 2 * (1 / 2) \<le> d * c" using assms by (intro mult_mono) simp_all
  then have dc: "1 / 4 \<le> d * c" by simp
  have p: "2 powi (-100) \<le> d * f64 c"
  proof -
    have "1 / 2 \<le> f64 c" using assms(2) by (intro f64.ge_rep) simp_all
    then have "1 / 2 * (1 / 2) \<le> d * f64 c" using assms(1) by (intro mult_mono) simp_all
    then show ?thesis using two_powi_le_half by simp
  qed
  show "d * c * (999998 / 1000000) \<le> fmul d (f64 c)" "fmul d (f64 c) \<le> d * c * (1000003 / 1000000)"
    using f64_ppm[OF p] m dc by linarith+
qed

lemma honest_target_band:
  assumes "1 / 2 \<le> d" "d \<le> 2 ^ 100"
  shows "\<not> TargetToDiff (Some (DiffToTarget d)) < fmul d (f64 (999 / 1000))"
    and "\<not> fmul d (f64 (1001 / 1000)) < TargetToDiff (Some (DiffToTarget d))"
proof -
  note c = TargetToDiff_DiffToTarget[OF assms]
  have "fmul d (f64 (999 / 1000)) \<le> d * (999 / 1000) * (1000003 / 1000000)"
    by (rule fmul_ppm(2)) (use assms in simp_all)
  then show "\<not> TargetToDiff (Some (DiffToTarget d)) < fmul d (f64 (999 / 1000))"
    using c(1) assms(1) by linarith
  have "d * (1001 / 1000) * (999998 / 1000000) \<le> fmul d (f64 (1001 / 1000))"
    by (rule fmul_ppm(1)) (use assms in simp_all)
  then show "\<not> fmul d (f64 (1001 / 1000)) < TargetToDiff (Some (DiffToTarget d))"
    using c(2) assms(1) by linarith
qed

subsection \<open>The caches are transparent\<close>

definition cache_ok :: "Share \<Rightarrow> bool" where
  "cache_ok s \<longleftrightarrow> (0 < s_targetDiff s \<longrightarrow> s_targetDiff s = TargetToDiff (s_Target s)) \<and>
     (s_effDiffReady s \<longrightarrow> s_effDiff s = effective_diff s)"

lemma cache_frame [simp]:
  "target_diff (s\<lparr>s_targetDiff := d\<rparr>) = target_diff s"
  "target_diff (s\<lparr>s_effDiff := e, s_effDiffReady := b\<rparr>) = target_diff s"
  "pow_below (s\<lparr>s_targetDiff := d\<rparr>) = pow_below s"
  "pow_below (s\<lparr>s_effDiff := e, s_effDiffReady := b\<rparr>) = pow_below s"
  by (simp_all add: target_diff_def no_target_def pow_below_def fun_eq_iff)

lemma effective_diff_frame [simp]:
  "effective_diff (s\<lparr>s_targetDiff := d\<rparr>) = effective_diff s"
  "effective_diff (s\<lparr>s_effDiff := e, s_effDiffReady := b\<rparr>) = effective_diff s"
  by (simp_all add: effective_diff_def Let_def)

lemma getTargetDiff_value: "cache_ok s \<Longrightarrow> fst (getTargetDiff s) = target_diff s"
  by (auto simp: getTargetDiff_def target_diff_def cache_ok_def Let_def)

lemma getTargetDiff_cache: "cache_ok s \<Longrightarrow> cache_ok (snd (getTargetDiff s))"
  by (auto simp: getTargetDiff_def cache_ok_def Let_def)

lemma getTargetDiff_frame:
  "s_Target (snd (getTargetDiff s)) = s_Target s" "s_POWHash (snd (getTargetDiff s)) = s_POWHash s"
  "effective_diff (snd (getTargetDiff s)) = effective_diff s"
  "pow_below (snd (getTargetDiff s)) = pow_below s"
  by (simp_all add: getTargetDiff_def Let_def)

lemma GetEffectiveShareDiff_value: "cache_ok s \<Longrightarrow> fst (GetEffectiveShareDiff s) = effective_diff s"
  using getTargetDiff_value[of s] getTargetDiff_frame[of s]
  by (auto simp: GetEffectiveShareDiff_def effective_diff_def target_diff_def cache_ok_def Let_def
        case_prod_beta)

end
