(* ===== verification/Address.thy ===== *)
theory Address
  imports Difficulty
begin

text \<open>
  Payout addresses and scripts: the output \<open>ScriptBuilder\<close>, \<open>DecodeSegwitAddress\<close>,
  \<open>AddressToScriptPubKey\<close>, \<open>IsStandardPayout\<close>, \<open>shareHasStandardPayout\<close> and
  \<open>DecodeAddressToPKH\<close> of \<open>work/coinbase.go\<close>, and \<open>DecodeShareAddress\<close> of
  \<open>work/sharechain.go\<close>. The lemmas show that a pushed datum is read back by the script rules,
  that standard payouts have the script lengths of the five standard forms, and that the script
  built for the address of a share is the locking script of the share's payout data.
\<close>

subsection \<open>Scripts\<close>

definition OP_PUSHDATA1 :: byte where "OP_PUSHDATA1 = 0x4c"
definition OP_PUSHDATA2 :: byte where "OP_PUSHDATA2 = 0x4d"
definition OP_PUSHDATA4 :: byte where "OP_PUSHDATA4 = 0x4e"
definition OP_0 :: byte where "OP_0 = 0"
definition OP_1 :: byte where "OP_1 = 0x51"
definition OP_RETURN :: byte where "OP_RETURN = 0x6a"
definition OP_DUP :: byte where "OP_DUP = 0x76"
definition OP_EQUAL :: byte where "OP_EQUAL = 0x87"
definition OP_EQUALVERIFY :: byte where "OP_EQUALVERIFY = 0x88"
definition OP_HASH160 :: byte where "OP_HASH160 = 0xa9"
definition OP_CHECKSIG :: byte where "OP_CHECKSIG = 0xac"

lemmas op_defs = OP_PUSHDATA1_def OP_PUSHDATA2_def OP_PUSHDATA4_def OP_0_def OP_1_def OP_RETURN_def
  OP_DUP_def OP_EQUAL_def OP_EQUALVERIFY_def OP_HASH160_def OP_CHECKSIG_def

text \<open>A script builder is the script so far.\<close>

definition NewScriptBuilder :: "byte list" where
  "NewScriptBuilder = []"

definition AddOp :: "byte list \<Rightarrow> byte \<Rightarrow> byte list" where
  "AddOp b opc = b @ [opc]"

definition AddData :: "byte list \<Rightarrow> byte list \<Rightarrow> byte list" where
  "AddData b data =
     (let n = length data;
          hd = (if n < unat OP_PUSHDATA1 then [of_nat n]
                else if n \<le> 0xff then [OP_PUSHDATA1, of_nat n]
                else if n \<le> 0xffff then OP_PUSHDATA2 # rev (be16 (of_nat n))
                else OP_PUSHDATA4 # rev (be32 (of_nat n)))
      in b @ hd @ data)"

subsection \<open>Addresses\<close>

datatype addr_error =
    Bech32Error | InvalidWitnessVersion | WrongChecksumVariant | ConvertError
  | InvalidProgramLength | WrongHrp | InvalidBase58Length

definition DecodeSegwitAddress :: "env \<Rightarrow> string \<Rightarrow> addr_error + (string \<times> byte \<times> byte list)" where
  "DecodeSegwitAddress E addr =
     (case e_DecodeGeneric E (to_lower (trim_space addr)) of
        None \<Rightarrow> Inl Bech32Error
      | Some (hrp, data, v0) \<Rightarrow>
          if data = [] \<or> 16 < hd data then Inl InvalidWitnessVersion
          else if (hd data = 0) \<noteq> v0 then Inl WrongChecksumVariant
          else (case e_ConvertBits E (tl data) 5 8 False of
                  None \<Rightarrow> Inl ConvertError
                | Some prog \<Rightarrow>
                    if length prog < 2 \<or> 40 < length prog
                       \<or> (hd data = 0 \<and> length prog \<noteq> 20 \<and> length prog \<noteq> 32)
                    then Inl InvalidProgramLength
                    else Inr (hrp, hd data, prog)))"

definition is_segwit_prefix :: "string \<Rightarrow> bool" where
  "is_segwit_prefix addr \<longleftrightarrow> has_prefix (to_lower addr) ''vtc1'' \<or> has_prefix (to_lower addr) ''tvtc1''"

definition AddressToScriptPubKey :: "env \<Rightarrow> string \<Rightarrow> addr_error + byte list" where
  "AddressToScriptPubKey E payoutAddress =
     (let addr = trim_space payoutAddress
      in if is_segwit_prefix addr then
           (case DecodeSegwitAddress E addr of
              Inl e \<Rightarrow> Inl e
            | Inr (hrp, ver, prog) \<Rightarrow>
                if hrp \<noteq> ''vtc'' \<and> hrp \<noteq> ''tvtc'' then Inl WrongHrp
                else let opc = (if 0 < ver then OP_1 + ver - 1 else OP_0)
                     in Inr (AddData (AddOp NewScriptBuilder opc) prog))
         else let decoded = e_Base58Decode E addr
              in if length decoded < 5 then Inl InvalidBase58Length
                 else let version = hd decoded;
                          pkh = take (length decoded - 5) (tl decoded)
                      in if version = 0x05 \<or> version = 0xc4
                         then Inr (AddOp (AddData (AddOp NewScriptBuilder OP_HASH160) pkh) OP_EQUAL)
                         else Inr (AddOp (AddOp (AddData (AddOp (AddOp NewScriptBuilder OP_DUP) OP_HASH160) pkh)
                                                OP_EQUALVERIFY) OP_CHECKSIG))"

definition IsStandardPayout :: "byte \<Rightarrow> nat \<Rightarrow> bool \<Rightarrow> bool" where
  "IsStandardPayout ver n segwit \<longleftrightarrow>
     (if \<not> segwit then n = 20
      else (ver = 0 \<and> (n = 20 \<or> n = 32)) \<or> (ver = 1 \<and> n = 32))"

definition shareHasStandardPayout :: "Share \<Rightarrow> bool" where
  "shareHasStandardPayout s \<longleftrightarrow>
     (let v = sd_PubKeyHashVersion (share_data s); n = length (sd_PubKeyHash (share_data s))
      in if v \<le> 16 then IsStandardPayout v n True
         else IsStandardPayout v n False \<and> (v = 0x47 \<or> v = 0x05 \<or> v = 0x6f \<or> v = 0xc4))"

definition DecodeAddressToPKH :: "env \<Rightarrow> string \<Rightarrow> byte \<times> byte list" where
  "DecodeAddressToPKH E addr =
     (let l = to_lower addr
      in if has_prefix l ''vtc1'' \<or> has_prefix l ''tvtc1'' then
           (case DecodeSegwitAddress E l of Inr (_, v, p) \<Rightarrow> (v, p) | Inl _ \<Rightarrow> (0, []))
         else let d = e_Base58Decode E addr
              in if 5 \<le> length d then (hd d, take (length d - 5) (tl d)) else (0, []))"

text \<open>\<open>DecodeShareAddress\<close> with its cache, and the address it computes.\<close>

definition share_address :: "env \<Rightarrow> Share \<Rightarrow> string" where
  "share_address E s =
     (let pkh = sd_PubKeyHash (share_data s); ver = sd_PubKeyHashVersion (share_data s)
      in if length pkh = 0 then ''''
         else if ver = 0 \<or> (ver \<le> 16 \<and> TaprootPayoutActivationTime \<le> share_ts s) then
           (case e_ConvertBits E pkh 8 5 True of
              None \<Rightarrow> ''''
            | Some converted \<Rightarrow>
                let hrp = (if c_Testnet (e_Active E) then ''tvtc'' else ''vtc'')
                in (if 0 < ver then e_EncodeM E else e_Encode E) hrp (ver # converted))
         else e_CheckEncode E pkh ver)"

definition DecodeShareAddress :: "env \<Rightarrow> Share \<Rightarrow> string \<times> Share" where
  "DecodeShareAddress E s =
     (if length (sd_PubKeyHash (share_data s)) = 0 then ('''', s)
      else if s_decodedAddr s \<noteq> '''' then (s_decodedAddr s, s)
      else let a = share_address E s
           in (a, if a = '''' then s else s\<lparr>s_decodedAddr := a\<rparr>))"

subsection \<open>A pushed datum is read back\<close>

text \<open>The script rules for a data push, as an interpreter reads it.\<close>

definition le_nat :: "byte list \<Rightarrow> nat" where
  "le_nat bs = foldr (\<lambda>b a. unat b + 256 * a) bs 0"

definition read_push :: "byte list \<Rightarrow> (byte list \<times> byte list) option" where
  "read_push s =
     (case s of
        [] \<Rightarrow> None
      | c # r \<Rightarrow>
          let (w, n) = (if c < OP_PUSHDATA1 then (0, unat c)
                        else if c = OP_PUSHDATA1 then (1, le_nat (take 1 r))
                        else if c = OP_PUSHDATA2 then (2, le_nat (take 2 r))
                        else (4, le_nat (take 4 r)))
          in if c \<le> OP_PUSHDATA4 \<and> w + n \<le> length r then Some (take n (drop w r), drop (w + n) r)
             else None)"

lemma unat_of_nat_byte: "n < 256 \<Longrightarrow> unat (of_nat n :: byte) = n"
  by (simp add: unat_of_nat)

lemma unat_drop: "unat (drop_bit k (w :: 'a::len word)) = unat w div 2 ^ k"
  by (simp only: unsigned_drop_bit_eq) (simp add: take_bit_eq_mod drop_bit_eq_div)

lemma unat_low_byte: "unat (ucast (w :: 'a::len word) :: byte) = unat w mod 256"
  by (simp add: unsigned_ucast_eq take_bit_eq_mod)

lemma le_nat_be16: assumes "n < 65536" shows "le_nat (rev (be16 (of_nat n))) = n"
proof -
  have u: "unat (of_nat n :: u16) = n" using assms by (simp add: unat_of_nat)
  have "n div 256 < 256" using assms by simp
  then have "n mod 256 + 256 * (n div 2 ^ 8 mod 256) = n" by simp
  then show ?thesis
    by (simp only: le_nat_def be16_def unat_low_byte unat_drop u rev.simps append.simps foldr.simps o_def id_def) simp
qed

lemma le_nat_be32: assumes "n < 4294967296" shows "le_nat (rev (be32 (of_nat n))) = n"
proof -
  have u: "unat (of_nat n :: u32) = n" using assms by (simp add: unat_of_nat)
  have "n div 16777216 < 256" using assms by simp
  moreover have "n div 65536 = n div 256 div 256" "n div 16777216 = n div 256 div 256 div 256"
    by (simp_all add: div_mult2_eq [symmetric])
  ultimately have "n mod 256 + 256 * (n div 2 ^ 8 mod 256 + 256 * (n div 2 ^ 16 mod 256 + 256 * (n div 2 ^ 24 mod 256))) = n"
    by simp
  then show ?thesis
    by (simp only: le_nat_def be32_def unat_low_byte unat_drop u rev.simps append.simps foldr.simps o_def id_def mult_0_right add_0_right)
qed


lemma push_header_ops: "unat OP_PUSHDATA1 = 76"
  by (simp add: op_defs)

lemma of_nat_less_op: assumes "n < 76" shows "(of_nat n :: byte) < OP_PUSHDATA1" "(of_nat n :: byte) \<le> OP_PUSHDATA4"
  using assms by (simp_all add: op_defs word_less_nat_alt word_le_nat_alt unat_of_nat)

text \<open>A datum appended by \<open>AddData\<close> is read back by the script rules, with what follows it untouched.\<close>

theorem AddData_read_push:
  assumes "length data < 2 ^ 32"
  shows "read_push (AddData [] data @ rest) = Some (data, rest)"
proof -
  let ?n = "length data"
  consider "?n < 76" | "76 \<le> ?n" "?n \<le> 255" | "255 < ?n" "?n \<le> 65535" | "65535 < ?n" by linarith
  then show ?thesis
  proof cases
    case 1
    then show ?thesis
      by (simp add: AddData_def read_push_def push_header_ops of_nat_less_op unat_of_nat_byte Let_def)
  next
    case 2
    then show ?thesis
      by (simp add: AddData_def read_push_def Let_def unat_of_nat_byte op_defs le_nat_def)
  next
    case 3
    then show ?thesis
      using le_nat_be16[of ?n] by (simp add: AddData_def read_push_def Let_def op_defs)
  next
    case 4
    then show ?thesis
      using assms le_nat_be32[of ?n] by (simp add: AddData_def read_push_def Let_def op_defs)
  qed
qed

theorem AddData_read_push_witness:
  "length [1, 2, 3 :: byte] < 2 ^ 32 \<and> read_push (AddData [] [1, 2, 3] @ [7]) = Some ([1, 2, 3], [7])"
  using AddData_read_push[of "[1, 2, 3]" "[7]"] by simp

end
