(* ===== verification/Merkle.thy ===== *)
theory Merkle
  imports Types
begin

text \<open>
  Merkle trees: \<open>DblSha256\<close>, \<open>ReverseBytes\<close>, \<open>CalculateMerkleLink\<close> and
  \<open>CalculateMerkleLinkFromHashes\<close> of \<open>work/util.go\<close>, \<open>CalculateWitnessCommitment\<close> and
  \<open>calculateMerkleRootFromHashes\<close> of \<open>work/transaction.go\<close>, \<open>ComputeMerkleRootFromLink\<close> of
  \<open>util/util.go\<close>. A \<open>*chainhash.Hash\<close> is a \<open>hash option\<close>; the result \<open>None\<close> of these functions
  is Go's panic (a nil dereference, an index out of range). The lemmas show that a branch computed
  for a leaf leads back from this leaf to the root of the tree.
\<close>

subsection \<open>Hashing\<close>

text \<open>\<open>crypto/sha256\<close> is the standard function, \<open>sha256_spec\<close>.\<close>

definition DblSha256 :: "byte list \<Rightarrow> byte list" where
  "DblSha256 b = sha256_spec (sha256_spec b)"

definition Sha256d :: "byte list \<Rightarrow> byte list" where
  "Sha256d b = sha256_spec (sha256_spec b)"

definition ReverseBytes :: "byte list \<Rightarrow> byte list" where
  "ReverseBytes b = map (\<lambda>i. b ! (length b - 1 - i)) [0..<length b]"

text \<open>\<open>chainhash.NewHash\<close>: nil unless there are 32 bytes.\<close>

definition NewHash :: "byte list \<Rightarrow> hash option" where
  "NewHash b = (if length b = 32 then Some b else None)"

subsection \<open>Trees\<close>

text \<open>The padding of a level and the loop that builds the next one.\<close>

definition pad_level :: "'a list \<Rightarrow> 'a list" where
  "pad_level hs = (if length hs mod 2 \<noteq> 0 then hs @ [last hs] else hs)"

fun next_level :: "byte list list \<Rightarrow> byte list list" where
  "next_level (a # b # hs) = DblSha256 (a @ b) # next_level hs"
| "next_level hs = []"

lemma length_next_level [simp]: "length (next_level hs) = length hs div 2"
  by (induction hs rule: next_level.induct) auto

lemma length_pad_level: "length (pad_level hs) = (if even (length hs) then length hs else Suc (length hs))"
  by (simp add: pad_level_def odd_iff_mod_2_eq_one)

lemma level_shrinks: "Suc 0 < length hs \<Longrightarrow> length (pad_level hs) div 2 < length hs"
  by (auto simp: length_pad_level elim!: oddE evenE)

function CalculateMerkleLink :: "byte list list \<Rightarrow> nat \<Rightarrow> hash option list option" where
  "CalculateMerkleLink hashes index =
     (if 1 < length hashes then
        let hs = pad_level hashes
        in if index XOR 1 < length hs
           then map_option (\<lambda>br. NewHash (hs ! (index XOR 1)) # br)
                  (CalculateMerkleLink (next_level hs) (index div 2))
           else None
      else Some [])"
  by pat_completeness auto
termination
  by (relation "measure (\<lambda>(hs, i). length hs)") (auto intro: level_shrinks)

text \<open>Every pointer of a level is dereferenced when the next level is built.\<close>

function CalculateMerkleLinkFromHashes :: "hash option list \<Rightarrow> nat \<Rightarrow> hash option list option" where
  "CalculateMerkleLinkFromHashes hashes index =
     (if 1 < length hashes then
        let hs = pad_level hashes
        in if None \<notin> set hs \<and> index XOR 1 < length hs
           then map_option (\<lambda>br. hs ! (index XOR 1) # br)
                  (CalculateMerkleLinkFromHashes (map Some (next_level (map the hs))) (index div 2))
           else None
      else Some [])"
  by pat_completeness auto
termination
  by (relation "measure (\<lambda>(hs, i). length hs)") (auto intro: level_shrinks)

function calculateMerkleRootFromHashes :: "hash option list \<Rightarrow> hash option option" where
  "calculateMerkleRootFromHashes hashes =
     (if length hashes = 0 then Some (Some (replicate 32 0))
      else if 1 < length hashes then
        let hs = pad_level hashes
        in if None \<in> set hs then None
           else calculateMerkleRootFromHashes (map Some (next_level (map the hs)))
      else Some (hashes ! 0))"
  by pat_completeness auto
termination
  by (relation "measure length") (auto intro: level_shrinks)

declare CalculateMerkleLink.simps [simp del] CalculateMerkleLinkFromHashes.simps [simp del]
  calculateMerkleRootFromHashes.simps [simp del]

fun ComputeMerkleRootFromLink :: "hash option \<Rightarrow> hash option list \<Rightarrow> u64 \<Rightarrow> hash option option" where
  "ComputeMerkleRootFromLink leaf [] index = Some leaf"
| "ComputeMerkleRootFromLink leaf (b # br) index =
     (case (leaf, b) of
        (Some l, Some h) \<Rightarrow>
          let combined = (if index AND 1 = 0 then l @ h else h @ l)
          in ComputeMerkleRootFromLink (NewHash (Sha256d combined)) br (drop_bit 1 index)
      | _ \<Rightarrow> None)"

text \<open>\<open>CalculateWitnessCommitment\<close>: the root of the wtxids, with the coinbase's as zero, and its commitment.\<close>

datatype commit_error = BadHex | BadTransaction

fun template_wtxids :: "env \<Rightarrow> BlockTemplateTx list \<Rightarrow> commit_error + hash option list" where
  "template_wtxids E [] = Inr []"
| "template_wtxids E (t # ts) =
     (case hex_DecodeString (bt_Data t) of
        None \<Rightarrow> Inl BadHex
      | Some bs \<Rightarrow>
          (case e_Deserialize E bs of
             None \<Rightarrow> Inl BadTransaction
           | Some tx \<Rightarrow>
               (case template_wtxids E ts of
                  Inl e \<Rightarrow> Inl e
                | Inr hs \<Rightarrow> Inr (Some (e_WitnessHash E tx) # hs))))"

definition CalculateWitnessCommitment :: "env \<Rightarrow> BlockTemplate \<Rightarrow> commit_error + (hash \<times> hash) option" where
  "CalculateWitnessCommitment E tmpl =
     (case template_wtxids E (t_Transactions tmpl) of
        Inl e \<Rightarrow> Inl e
      | Inr hs \<Rightarrow>
          Inr (case calculateMerkleRootFromHashes (Some (replicate 32 0) # hs) of
                 Some (Some wr) \<Rightarrow> Some (wr, DblSha256 (wr @ replicate 32 0))
               | _ \<Rightarrow> None))"

subsection \<open>Branches lead to the root\<close>

lemma ReverseBytes_rev: "ReverseBytes b = rev b"
  by (rule nth_equalityI) (simp_all add: ReverseBytes_def rev_nth)

text \<open>The root of the tree, as a function of hashes.\<close>

function merkle_root :: "byte list list \<Rightarrow> byte list" where
  "merkle_root hs = (if 1 < length hs then merkle_root (next_level (pad_level hs)) else hs ! 0)"
  by pat_completeness auto
termination
  by (relation "measure length") (auto intro: level_shrinks)

declare merkle_root.simps [simp del]

lemma pad_level_map: "hs \<noteq> [] \<Longrightarrow> pad_level (map f hs) = map f (pad_level hs)"
  by (simp add: pad_level_def last_map)

lemma root_of_hashes:
  "hs \<noteq> [] \<Longrightarrow> calculateMerkleRootFromHashes (map Some hs) = Some (Some (merkle_root hs))"
proof (induction hs rule: merkle_root.induct)
  case (1 hs)
  show ?case
  proof (cases "1 < length hs")
    case True
    then have "0 < length (next_level (pad_level hs))"
      by (auto simp: length_pad_level elim!: evenE oddE)
    then have "next_level (pad_level hs) \<noteq> []" by (metis length_greater_0_conv)
    then show ?thesis using 1 True
      by (subst calculateMerkleRootFromHashes.simps, subst merkle_root.simps)
        (auto simp: Let_def pad_level_map comp_def)
  next
    case False
    then show ?thesis using 1
      by (subst calculateMerkleRootFromHashes.simps, subst merkle_root.simps) simp
  qed
qed

lemma length_sha256_spec [simp]: "length (sha256_spec m) = 32"
  using length_be_words_digest by (simp add: sha256_spec_block sha_init_def)

lemma length_DblSha256 [simp]: "length (DblSha256 m) = 32"
  by (simp add: DblSha256_def)

lemma next_level_nth:
  "2 * k + 1 < length hs \<Longrightarrow> next_level hs ! k = DblSha256 (hs ! (2 * k) @ hs ! (2 * k + 1))"
proof (induction hs arbitrary: k rule: next_level.induct)
  case (1 a b hs)
  then show ?case by (cases k) auto
qed auto

lemma next_level_32: "h \<in> set (next_level hs) \<Longrightarrow> length h = 32"
  by (induction hs rule: next_level.induct) auto

lemma xor_one: "(i :: nat) XOR Suc 0 = (if even i then i + 1 else i - 1)"
  by (cases "even i") (simp_all add: xor_Suc_0_eq)

lemma parity_word: "(of_nat i :: u64) AND 1 = 0 \<longleftrightarrow> even i"
  by (simp add: and_one_eq mod_2_eq_odd)

lemma drop_word: "i < 2 ^ 64 \<Longrightarrow> drop_bit (Suc 0) (of_nat i :: u64) = of_nat (i div 2)"
  by (rule word_unat_eq_iff[THEN iffD2]) (simp add: unat_of_nat drop_bit_Suc unat_div_distrib)

lemma pad_level_nth: "i < length hs \<Longrightarrow> pad_level hs ! i = hs ! i"
  by (simp add: pad_level_def nth_append)

lemma next_at_half:
  assumes "i < length hs"
  shows "next_level (pad_level hs) ! (i div 2)
    = DblSha256 (if even i then hs ! i @ pad_level hs ! (i XOR 1) else pad_level hs ! (i XOR 1) @ hs ! i)"
    and "i XOR 1 < length (pad_level hs)"
proof -
  have l: "even (length (pad_level hs))" "length hs \<le> length (pad_level hs)"
    by (simp_all add: length_pad_level)
  show b: "i XOR 1 < length (pad_level hs)"
    using assms l by (cases "even i") (auto simp: xor_one elim!: evenE, presburger)
  have "2 * (i div 2) + 1 < length (pad_level hs)"
    using assms l by (auto elim!: evenE, presburger)
  from next_level_nth[OF this] show "next_level (pad_level hs) ! (i div 2)
    = DblSha256 (if even i then hs ! i @ pad_level hs ! (i XOR 1) else pad_level hs ! (i XOR 1) @ hs ! i)"
    using assms by (cases "even i") (auto simp: xor_one pad_level_nth elim!: evenE oddE)
qed

lemma half_in_range: "i < length hs \<Longrightarrow> i div 2 < length (next_level (pad_level hs))"
  by (auto simp: length_pad_level elim!: evenE oddE)

lemma link_from_hashes_step:
  assumes "1 < length hs"
  shows "CalculateMerkleLinkFromHashes (map Some hs) i =
    (if i XOR 1 < length (pad_level hs)
     then map_option ((#) (Some (pad_level hs ! (i XOR 1))))
            (CalculateMerkleLinkFromHashes (map Some (next_level (pad_level hs))) (i div 2))
     else None)"
proof -
  have "hs \<noteq> []" using assms by auto
  then show ?thesis using assms
    by (subst CalculateMerkleLinkFromHashes.simps) (auto simp: Let_def pad_level_map comp_def)
qed

lemma root_link_gen:
  assumes "i < length hs" "i < 2 ^ 64" "\<forall>h \<in> set hs. length h = 32"
  shows "\<exists>br. CalculateMerkleLinkFromHashes (map Some hs) i = Some br
    \<and> ComputeMerkleRootFromLink (Some (hs ! i)) br (of_nat i) = Some (Some (merkle_root hs))"
  using assms
proof (induction hs arbitrary: i rule: merkle_root.induct)
  case (1 hs)
  show ?case
  proof (cases "1 < length hs")
    case True
    let ?n = "next_level (pad_level hs)"
    have "i div 2 < 2 ^ 64" using 1(3) by simp
    then obtain br where br: "CalculateMerkleLinkFromHashes (map Some ?n) (i div 2) = Some br"
      "ComputeMerkleRootFromLink (Some (?n ! (i div 2))) br (of_nat (i div 2)) = Some (Some (merkle_root ?n))"
      using 1(1)[OF True half_in_range[OF 1(2)]] next_level_32 by blast
    have "DblSha256 = Sha256d" by (rule ext) (simp add: DblSha256_def Sha256d_def)
    then show ?thesis
      using br next_at_half[OF 1(2)] True 1(3)
      by (simp add: link_from_hashes_step parity_word drop_word NewHash_def Sha256d_def
          merkle_root.simps[of hs] split: if_splits)
  next
    case False
    then show ?thesis using 1(2)
      by (subst CalculateMerkleLinkFromHashes.simps, subst merkle_root.simps) (cases hs; simp)
  qed
qed

text \<open>For every leaf of a transaction tree, the merkle branch computed for it exists and folding
  it over the leaf gives the merkle root of the tree; the branch is the one handed to miners and
  stored in shares.\<close>

theorem merkle_link_root:
  assumes "i < length hs" "i < 2 ^ 64" "\<forall>h \<in> set hs. length h = 32"
  shows "\<exists>br. CalculateMerkleLinkFromHashes (map Some hs) i = Some br
    \<and> ComputeMerkleRootFromLink (Some (hs ! i)) br (of_nat i) = calculateMerkleRootFromHashes (map Some hs)"
proof -
  have "hs \<noteq> []" using assms(1) by auto
  then show ?thesis using root_link_gen[OF assms] by (simp add: root_of_hashes)
qed

theorem merkle_link_root_witness:
  "\<exists>br. CalculateMerkleLinkFromHashes (map Some [replicate 32 1, replicate 32 2, replicate 32 3]) 2 = Some br
    \<and> ComputeMerkleRootFromLink (Some (replicate 32 3)) br 2
      = calculateMerkleRootFromHashes (map Some [replicate 32 1, replicate 32 2, replicate 32 3])"
  using merkle_link_root[of 2 "[replicate 32 1, replicate 32 2, replicate 32 3]"] by simp

lemma link_bytes_gen:
  assumes "i < length hs" "\<forall>h \<in> set hs. length h = 32"
  shows "CalculateMerkleLink hs i = CalculateMerkleLinkFromHashes (map Some hs) i"
  using assms
proof (induction hs arbitrary: i rule: merkle_root.induct)
  case (1 hs)
  show ?case
  proof (cases "1 < length hs")
    case True
    have "\<forall>h \<in> set (pad_level hs). length h = 32" using 1(3) True last_in_set[of hs]
      by (cases "hs = []") (auto simp: pad_level_def)
    then have "NewHash (pad_level hs ! (i XOR 1)) = Some (pad_level hs ! (i XOR 1))"
      using next_at_half(2)[OF 1(2)] by (simp add: NewHash_def)
    then show ?thesis
      using 1(1)[OF True half_in_range[OF 1(2)]] next_level_32 True
      by (subst CalculateMerkleLink.simps) (simp add: Let_def link_from_hashes_step)
  next
    case False
    then show ?thesis by (subst CalculateMerkleLink.simps, subst CalculateMerkleLinkFromHashes.simps) simp
  qed
qed

text \<open>The branch routine on byte slices agrees with the one on hash pointers.\<close>

theorem merkle_link_bytes_agree:
  assumes "i < length hs" "\<forall>h \<in> set hs. length h = 32"
  shows "CalculateMerkleLink hs i = CalculateMerkleLinkFromHashes (map Some hs) i"
  by (rule link_bytes_gen[OF assms])

theorem merkle_link_bytes_agree_witness:
  "CalculateMerkleLink [replicate 32 1, replicate 32 2] 0
    = CalculateMerkleLinkFromHashes (map Some [replicate 32 1, replicate 32 2]) 0"
  using merkle_link_bytes_agree[of 0 "[replicate 32 1, replicate 32 2]"] by simp

end
