(* ===== verification/ShareCheck.thy ===== *)
theory ShareCheck
  imports Address Merkle
begin

text \<open>
  The checks a share passes on its own (\<open>work/share.go\<close>): the block header it stands for, its
  hashes, the metadata commitment its coinbase carries (\<open>ComputeShareMetadataCommitment\<close> and
  \<open>VerifyShareMetadata\<close> of \<open>work/coinbase.go\<close>), \<open>IsValid\<close> and \<open>CheckShareTime\<close>. The lemmas show
  that the header is always built once its inputs decode, that the committed bytes determine the
  share's metadata, and what an accepted share satisfies.
\<close>

definition maxShareAge :: time where "maxShareAge = seconds (72 * 3600)"

datatype share_error = NoPrevBlock | NullBranch | BadCoinbase | BadHeader | VerthashFailed | GoPanic

subsection \<open>Header and hashes\<close>

definition FullBlockHeader :: "env \<Rightarrow> Share \<Rightarrow> share_error + block_header" where
  "FullBlockHeader E s =
     (case mh_PreviousBlock (s_MinHeader s) of
        None \<Rightarrow> Inl NoPrevBlock
      | Some prev \<Rightarrow>
          if None \<in> set (ml_Branch (s_MerkleLink s)) then Inl NullBranch
          else (case e_Deserialize E (sd_CoinBase (share_data s)) of
                  None \<Rightarrow> Inl BadCoinbase
                | Some tx \<Rightarrow>
                    (case ComputeMerkleRootFromLink (Some (e_TxHash E tx)) (ml_Branch (s_MerkleLink s))
                            (ml_Index (s_MerkleLink s)) of
                       Some (Some r) \<Rightarrow>
                         Inr \<lparr>bh_Version = mh_Version (s_MinHeader s), bh_PrevBlock = prev, bh_MerkleRoot = r,
                              bh_Timestamp = header_ts s, bh_Bits = mh_Bits (s_MinHeader s),
                              bh_Nonce = mh_Nonce (s_MinHeader s)\<rparr>
                     | _ \<Rightarrow> Inl GoPanic)))"

definition CalculateHash :: "env \<Rightarrow> Share \<Rightarrow> share_error + Share" where
  "CalculateHash E s =
     (case FullBlockHeader E s of
        Inl e \<Rightarrow> Inl e
      | Inr h \<Rightarrow> Inr (s\<lparr>s_Hash := Some (e_BlockHash E h)\<rparr>))"

definition CalculatePOWHash :: "env \<Rightarrow> Share \<Rightarrow> share_error + Share" where
  "CalculatePOWHash E s =
     (case FullBlockHeader E s of
        Inl e \<Rightarrow> Inl e
      | Inr h \<Rightarrow>
          (case e_HeaderBytes E h of
             None \<Rightarrow> Inl BadHeader
           | Some b \<Rightarrow>
               (case e_Verthash E b of
                  None \<Rightarrow> Inl VerthashFailed
                | Some powLE \<Rightarrow> Inr (s\<lparr>s_POWHash := NewHash (ReverseBytes powLE)\<rparr>))))"

definition CalculateHashes :: "env \<Rightarrow> Share \<Rightarrow> share_error + Share" where
  "CalculateHashes E s =
     (case CalculateHash E s of Inl e \<Rightarrow> Inl e | Inr s1 \<Rightarrow> CalculatePOWHash E s1)"

subsection \<open>The metadata commitment\<close>

text \<open>\<open>big.Int.FillBytes\<close> into \<open>n\<close> bytes.\<close>

definition big_FillBytes :: "nat \<Rightarrow> int \<Rightarrow> byte list" where
  "big_FillBytes n t = map (\<lambda>i. of_int (t div 256 ^ (n - 1 - i))) [0..<n]"

definition metadata_preimage ::
  "u64 \<Rightarrow> hash option \<Rightarrow> int option \<Rightarrow> byte \<Rightarrow> byte list \<Rightarrow> u64 \<Rightarrow> u16 \<Rightarrow> byte \<Rightarrow> u32 \<Rightarrow> byte list" where
  "metadata_preimage ver prev target pkhVer pkh sub don stale absH =
     be64 ver
     @ (case prev of Some p \<Rightarrow> p | None \<Rightarrow> replicate 32 0)
     @ (case target of
          Some t \<Rightarrow> if 0 < t \<and> t < 2 ^ 256 then big_FillBytes 32 t else replicate 32 0
        | None \<Rightarrow> replicate 32 0)
     @ [pkhVer] @ pkh @ be64 sub @ be16 don @ [stale] @ be32 absH"

definition ComputeShareMetadataCommitment ::
  "u64 \<Rightarrow> hash option \<Rightarrow> int option \<Rightarrow> byte \<Rightarrow> byte list \<Rightarrow> u64 \<Rightarrow> u16 \<Rightarrow> byte \<Rightarrow> u32 \<Rightarrow> byte list" where
  "ComputeShareMetadataCommitment ver prev target pkhVer pkh sub don stale absH =
     [0x50, 0x32, 0x50, 0x56] @ sha256_spec (metadata_preimage ver prev target pkhVer pkh sub don stale absH)"

definition share_preimage :: "Share \<Rightarrow> byte list" where
  "share_preimage s = (let d = share_data s in
     metadata_preimage (s_Type s) (sd_PreviousShareHash d) (s_Target s) (sd_PubKeyHashVersion d) (sd_PubKeyHash d)
       (sd_Subsidy d) (sd_Donation d) (sd_StaleInfo d) (si_AbsHeight (s_ShareInfo s)))"

definition share_commitment :: "Share \<Rightarrow> byte list" where
  "share_commitment s = (let d = share_data s in
     ComputeShareMetadataCommitment (s_Type s) (sd_PreviousShareHash d) (s_Target s) (sd_PubKeyHashVersion d)
       (sd_PubKeyHash d) (sd_Subsidy d) (sd_Donation d) (sd_StaleInfo d) (si_AbsHeight (s_ShareInfo s)))"

text \<open>The coinbase of a share: with witness data, else without.\<close>

definition share_coinbase :: "env \<Rightarrow> Share \<Rightarrow> msgtx option" where
  "share_coinbase E s =
     (case e_Deserialize E (sd_CoinBase (share_data s)) of
        Some tx \<Rightarrow> Some tx
      | None \<Rightarrow> e_DeserializeNoWitness E (sd_CoinBase (share_data s)))"

definition carries_commitment :: "msgtx \<Rightarrow> Share \<Rightarrow> bool" where
  "carries_commitment tx s \<longleftrightarrow>
     list_ex (\<lambda>out. out_Value out = 0 \<and> sublist (share_commitment s) (out_PkScript out)) (tx_TxOut tx)"

definition VerifyShareMetadata :: "env \<Rightarrow> Share \<Rightarrow> bool \<times> string" where
  "VerifyShareMetadata E s =
     (if length (sd_CoinBase (share_data s)) = 0 then (False, ''empty coinbase'')
      else if si_Timestamp (s_ShareInfo s) \<noteq> mh_Timestamp (s_MinHeader s) then (False, ''share timestamp mismatch'')
      else (case share_coinbase E s of
              None \<Rightarrow> (False, ''invalid coinbase tx'')
            | Some tx \<Rightarrow>
                if carries_commitment tx s then (True, '''') else (False, ''metadata commitment mismatch'')))"

subsection \<open>Validity and time\<close>

definition IsValid :: "env \<Rightarrow> Share \<Rightarrow> bool \<times> string" where
  "IsValid E s =
     (case s_POWHash s of
        None \<Rightarrow> (False, ''share has no PoW hash to validate'')
      | Some pow \<Rightarrow>
          (case s_Target s of
             None \<Rightarrow> (False, ''target is zero or negative'')
           | Some t \<Rightarrow>
               if t \<le> 0 then (False, ''target is zero or negative'')
               else if 2 ^ 256 \<le> t then (False, ''target is wider than 256 bits'')
               else if \<not> shareHasStandardPayout s then (False, ''share payout is not a standard address'')
               else if V2MandatoryActivationTime \<le> header_ts s \<and> s_Type s < ShareVersionV2
                 then (False, ''outdated share version'')
               else if ShareVersionV2 \<le> s_Type s \<and> \<not> fst (VerifyShareMetadata E s)
                 then (False, snd (VerifyShareMetadata E s))
               else if big_SetBytes pow \<le> t then (True, '''')
               else (False, ''hash is greater than target'')))"

fun check_times :: "int list \<Rightarrow> time \<Rightarrow> string" where
  "check_times [] now = ''''"
| "check_times (ts # tss) now =
     (if Unix (now + MaxShareTimeFuture) < ts then ''share timestamp too far in the future''
      else if ts < Unix (now - maxShareAge) then ''share timestamp older than the share retention window''
      else check_times tss now)"

definition CheckShareTime :: "Share \<Rightarrow> time \<Rightarrow> string" where
  "CheckShareTime s now = check_times [share_ts s, header_ts s] now"

subsection \<open>The header is built whenever its inputs decode\<close>

lemma ComputeMerkleRootFromLink_total:
  "None \<notin> set br \<Longrightarrow> \<exists>r. ComputeMerkleRootFromLink (Some l) br i = Some (Some r)"
proof (induction br arbitrary: l i)
  case (Cons b br)
  then obtain h where "b = Some h" by (cases b) auto
  then show ?case using Cons by (simp add: NewHash_def Sha256d_def Let_def)
qed simp

lemma FullBlockHeader_no_panic: "FullBlockHeader E s \<noteq> Inl GoPanic"
proof (cases "None \<in> set (ml_Branch (s_MerkleLink s))")
  case False
  from ComputeMerkleRootFromLink_total[OF this] show ?thesis
    by (auto simp: FullBlockHeader_def split: option.splits) (metis option.distinct(1) option.inject)+
qed (simp add: FullBlockHeader_def split: option.splits)

lemma header_frame: "FullBlockHeader E (s\<lparr>s_Hash := h\<rparr>) = FullBlockHeader E s"
  by (simp add: FullBlockHeader_def header_ts_def split: option.split)

lemma length_big_FillBytes [simp]: "length (big_FillBytes n t) = n"
  by (simp add: big_FillBytes_def)

lemma big_FillBytes_Suc:
  "big_FillBytes (Suc n) t = big_FillBytes n (t div 256) @ [of_int t]"
  by (simp add: big_FillBytes_def zdiv_zmult2_eq [symmetric] power_Suc [symmetric] Suc_diff_Suc del: power_Suc)

lemma FillBytes_SetBytes: "0 \<le> t \<Longrightarrow> t < 256 ^ n \<Longrightarrow> big_SetBytes (big_FillBytes n t) = t"
proof (induction n arbitrary: t)
  case 0
  then show ?case by (simp add: big_SetBytes_def big_FillBytes_def)
next
  case (Suc n)
  have "uint (of_int t :: byte) = t mod 256" by (simp add: uint_word_of_int)
  moreover have "t div 256 < 256 ^ n" "0 \<le> t div 256" using Suc.prems
    by (auto simp: div_less_iff_less_mult)
  ultimately show ?case using Suc.IH by (simp add: big_FillBytes_Suc big_SetBytes_snoc)
qed


subsection \<open>The commitment binds the metadata\<close>

lemma be_inj: "be16 a = be16 b \<longleftrightarrow> a = b" "be32 c = be32 d \<longleftrightarrow> c = d" "be64 e = be64 f \<longleftrightarrow> e = f"
proof -
  have "le_nat (rev (be16 (of_nat (unat a)))) = unat a" for a :: u16
    using unsigned_less[of a, where ?'a = nat] by (intro le_nat_be16) simp
  then show "be16 a = be16 b \<longleftrightarrow> a = b"
    by (metis of_nat_unat ucast_id word_unat_eq_iff)
  have "le_nat (rev (be32 (of_nat (unat a)))) = unat a" for a :: u32
    using unsigned_less[of a, where ?'a = nat] by (intro le_nat_be32) simp
  then show "be32 c = be32 d \<longleftrightarrow> c = d"
    by (metis of_nat_unat ucast_id word_unat_eq_iff)
  show "be64 e = be64 f \<longleftrightarrow> e = f"
    by (metis consumeUint64_be64 append_Nil2 snd_conv)
qed

text \<open>The well-formed shapes of the two variable fields: a 32-byte parent and a target in range.\<close>

definition preimage_shape :: "Share \<Rightarrow> bool" where
  "preimage_shape s \<longleftrightarrow>
     (\<forall>p. sd_PreviousShareHash (share_data s) = Some p \<longrightarrow> length p = 32)
     \<and> (\<exists>t. s_Target s = Some t \<and> 0 < t \<and> t < 2 ^ 256)"

definition parent_bytes :: "Share \<Rightarrow> hash" where
  "parent_bytes s = (case sd_PreviousShareHash (share_data s) of Some p \<Rightarrow> p | None \<Rightarrow> genesisHash)"

lemma length_preimage:
  "preimage_shape s \<Longrightarrow> length (share_preimage s) = 88 + length (sd_PubKeyHash (share_data s))"
  by (auto simp: share_preimage_def metadata_preimage_def preimage_shape_def Let_def split: option.split)

lemma preimage_parts:
  assumes "preimage_shape s"
  shows "share_preimage s = be64 (s_Type s) @ parent_bytes s @ big_FillBytes 32 (the (s_Target s))
     @ [sd_PubKeyHashVersion (share_data s)] @ sd_PubKeyHash (share_data s) @ be64 (sd_Subsidy (share_data s))
     @ be16 (sd_Donation (share_data s)) @ [sd_StaleInfo (share_data s)] @ be32 (si_AbsHeight (s_ShareInfo s))"
  using assms by (auto simp: share_preimage_def metadata_preimage_def preimage_shape_def Let_def parent_bytes_def
      genesisHash_def split: option.split)

lemma length_parent_bytes: "preimage_shape s \<Longrightarrow> length (parent_bytes s) = 32"
  by (simp add: preimage_shape_def parent_bytes_def genesisHash_def split: option.split)

lemma preimage_binds:
  assumes a: "preimage_shape s" and b: "preimage_shape s'" and eq: "share_preimage s = share_preimage s'"
  shows "s_Type s = s_Type s' \<and> parent_bytes s = parent_bytes s' \<and> s_Target s = s_Target s'
    \<and> sd_PubKeyHashVersion (share_data s) = sd_PubKeyHashVersion (share_data s')
    \<and> sd_PubKeyHash (share_data s) = sd_PubKeyHash (share_data s')
    \<and> sd_Subsidy (share_data s) = sd_Subsidy (share_data s')
    \<and> sd_Donation (share_data s) = sd_Donation (share_data s')
    \<and> sd_StaleInfo (share_data s) = sd_StaleInfo (share_data s')
    \<and> si_AbsHeight (s_ShareInfo s) = si_AbsHeight (s_ShareInfo s')"
proof -
  obtain t t' where t: "s_Target s = Some t" "0 < t" "t < 2 ^ 256" and t': "s_Target s' = Some t'" "0 < t'" "t' < 2 ^ 256"
    using a b by (auto simp: preimage_shape_def)
  have l: "length (sd_PubKeyHash (share_data s)) = length (sd_PubKeyHash (share_data s'))"
    using length_preimage[OF a] length_preimage[OF b] eq by simp
  have e: "be64 (s_Type s) = be64 (s_Type s')" "parent_bytes s = parent_bytes s'"
    "big_FillBytes 32 t = big_FillBytes 32 t'"
    "sd_PubKeyHashVersion (share_data s) = sd_PubKeyHashVersion (share_data s')"
    "sd_PubKeyHash (share_data s) = sd_PubKeyHash (share_data s')"
    "be64 (sd_Subsidy (share_data s)) = be64 (sd_Subsidy (share_data s'))"
    "be16 (sd_Donation (share_data s)) = be16 (sd_Donation (share_data s'))"
    "sd_StaleInfo (share_data s) = sd_StaleInfo (share_data s')"
    "be32 (si_AbsHeight (s_ShareInfo s)) = be32 (si_AbsHeight (s_ShareInfo s'))"
    using eq l length_parent_bytes[OF a] length_parent_bytes[OF b] t(1) t'(1)
    unfolding preimage_parts[OF a] preimage_parts[OF b] by (simp_all add: append_eq_append_conv)
  have w: "(256::int) ^ 32 = 2 ^ 256" by simp
  have "big_SetBytes (big_FillBytes 32 t) = t"
    by (rule FillBytes_SetBytes) (use t in \<open>simp_all only: w less_imp_le\<close>)
  moreover have "big_SetBytes (big_FillBytes 32 t') = t'"
    by (rule FillBytes_SetBytes) (use t' in \<open>simp_all only: w less_imp_le\<close>)
  ultimately have "t = t'" using e(3) by metis
  then show ?thesis using e t(1) t'(1) by (simp add: be_inj)
qed


text \<open>C6: The bytes hashed into a share's coinbase commitment determine its version, parent, target,
  payout, subsidy, donation, stale mark and height: two shares in range with the same preimage agree
  on all of them, so a miner cannot reuse a proof of work for other metadata.\<close>

theorem metadata_preimage_binds:
  assumes "preimage_shape s" "preimage_shape s'" "share_preimage s = share_preimage s'"
  shows "s_Type s = s_Type s' \<and> parent_bytes s = parent_bytes s' \<and> s_Target s = s_Target s'
    \<and> sd_PubKeyHashVersion (share_data s) = sd_PubKeyHashVersion (share_data s')
    \<and> sd_PubKeyHash (share_data s) = sd_PubKeyHash (share_data s')
    \<and> sd_Subsidy (share_data s) = sd_Subsidy (share_data s')
    \<and> sd_Donation (share_data s) = sd_Donation (share_data s')
    \<and> sd_StaleInfo (share_data s) = sd_StaleInfo (share_data s')
    \<and> si_AbsHeight (s_ShareInfo s) = si_AbsHeight (s_ShareInfo s')"
  by (rule preimage_binds[OF assms])

subsection \<open>What an accepted share satisfies\<close>

lemma IsValid_iff:
  "fst (IsValid E s) \<longleftrightarrow>
     (\<exists>pow t. s_POWHash s = Some pow \<and> s_Target s = Some t \<and> 0 < t \<and> t < 2 ^ 256
        \<and> shareHasStandardPayout s
        \<and> (V2MandatoryActivationTime \<le> header_ts s \<longrightarrow> ShareVersionV2 \<le> s_Type s)
        \<and> (ShareVersionV2 \<le> s_Type s \<longrightarrow> fst (VerifyShareMetadata E s))
        \<and> big_SetBytes pow \<le> t)"
  by (auto simp: IsValid_def not_less not_le split: option.splits)

lemma VerifyShareMetadata_iff:
  "fst (VerifyShareMetadata E s) \<longleftrightarrow>
     sd_CoinBase (share_data s) \<noteq> [] \<and> si_Timestamp (s_ShareInfo s) = mh_Timestamp (s_MinHeader s)
     \<and> (\<exists>tx. share_coinbase E s = Some tx \<and> carries_commitment tx s)"
  by (auto simp: VerifyShareMetadata_def split: option.splits)

lemma target_diff_pos:
  assumes "0 < t" "t < 2 ^ 256" shows "0 < TargetToDiff (Some t)"
proof -
  have "(of_int t :: rat) \<le> 2 powi 256" using assms(2) by simp
  then have b: "big_round 256 (of_int t) \<le> 2 powi 256" by (rule big256.le_rep[OF big256_pow])
  have p: "0 < big_round 256 (of_int t)" using big_target_pos[OF assms(1)] by linarith
  have "(2::rat) powi (-40) \<le> of_int maxTarget / 2 powi 256" by (simp add: maxTarget_def power_int_def power_one_over)
  also have "\<dots> \<le> of_int maxTarget / big_round 256 (of_int t)"
    using b p by (intro divide_left_mono) (auto simp: maxTarget_def)
  finally have "2 powi (-40) \<le> big_round 256 (of_int maxTarget / big_round 256 (of_int t))"
    by (rule big256.ge_rep[OF big256_pow])
  then have "0 < f64 (big_round 256 (of_int maxTarget / big_round 256 (of_int t)))"
    by (rule f64.pos_rep[OF f64_pow, rotated 2]) simp_all
  then show ?thesis using assms by (simp add: TargetToDiff_def)
qed


lemma fmul_999: "0 \<le> td \<Longrightarrow> f64 td = td \<Longrightarrow> fmul td (f64 (999 / 1000)) \<le> td"
proof -
  assume a: "0 \<le> td" "f64 td = td"
  have "f64 (999 / 1000) \<le> 1" by (rule f64.le_rep) simp_all
  then have "td * f64 (999 / 1000) \<le> td" using a mult_left_mono by fastforce
  then show "fmul td (f64 (999 / 1000)) \<le> td" by (rule f64.le_rep[OF a(2)])
qed

text \<open>A share that \<open>IsValid\<close> accepts, with a proof-of-work hash other than zero, earns its claimed
  difficulty capped at 16, and more than nothing; its hash does not exceed its target.\<close>

theorem valid_share_credit:
  assumes "fst (IsValid E s)" "\<And>p. s_POWHash s = Some p \<Longrightarrow> big_SetBytes p \<noteq> 0"
  shows "0 < effective_diff s \<and> effective_diff s = min 16 (target_diff s)
    \<and> (\<exists>p t. s_POWHash s = Some p \<and> s_Target s = Some t \<and> big_SetBytes p \<le> t)"
proof -
  obtain p t where v: "s_POWHash s = Some p" "s_Target s = Some t" "0 < t" "t < 2 ^ 256" "big_SetBytes p \<le> t"
    using assms(1) unfolding IsValid_iff by blast
  have td: "target_diff s = TargetToDiff (Some t)" using v by (simp add: target_diff_def no_target_def)
  have pos: "0 < target_diff s" using target_diff_pos[OF v(3,4)] td by simp
  have "0 < big_SetBytes p" using big_SetBytes_bounds[of p] assms(2)[OF v(1)] by linarith
  then have "target_diff s \<le> TargetToDiff (Some (big_SetBytes p))"
    using TargetToDiff_antimono v(5) td by simp
  moreover have "fmul (target_diff s) (f64 (999 / 1000)) \<le> target_diff s"
    using fmul_999 pos by simp
  ultimately have "\<not> pow_below s (target_diff s)" using v(1) by (simp add: pow_below_def)
  then have "effective_diff s = min 16 (target_diff s)"
    using pos by (simp add: effective_diff_def Let_def)
  then show ?thesis using pos v by simp
qed

text \<open>Once shares must be of version 2, a share that \<open>IsValid\<close> accepts carries, in a zero-valued
  output of its coinbase, the commitment to its own metadata, and its two timestamps agree.\<close>

theorem valid_share_committed:
  assumes "fst (IsValid E s)" "V2MandatoryActivationTime \<le> header_ts s"
  shows "si_Timestamp (s_ShareInfo s) = mh_Timestamp (s_MinHeader s)
    \<and> (\<exists>tx out. share_coinbase E s = Some tx \<and> out \<in> set (tx_TxOut tx) \<and> out_Value out = 0
         \<and> sublist (share_commitment s) (out_PkScript out))"
  using assms by (auto simp: IsValid_iff VerifyShareMetadata_iff carries_commitment_def list_ex_iff)

lemma check_times_iff:
  "check_times tss now = '''' \<longleftrightarrow>
     (\<forall>ts \<in> set tss. Unix (now - maxShareAge) \<le> ts \<and> ts \<le> Unix (now + MaxShareTimeFuture))"
  by (induction tss) auto

text \<open>\<open>CheckShareTime\<close> accepts a share exactly when both its timestamps lie between 72 hours ago
  and two hours ahead, in whole seconds.\<close>

theorem CheckShareTime_window:
  "CheckShareTime s now = '''' \<longleftrightarrow>
     Unix now - 259200 \<le> share_ts s \<and> share_ts s \<le> Unix now + 7200
     \<and> Unix now - 259200 \<le> header_ts s \<and> header_ts s \<le> Unix now + 7200"
proof -
  have "Unix (now - maxShareAge) = Unix now - 259200" "Unix (now + MaxShareTimeFuture) = Unix now + 7200"
    unfolding Unix_def maxShareAge_def MaxShareTimeFuture_def by linarith+
  then show ?thesis by (auto simp: CheckShareTime_def check_times_iff)
qed


subsection \<open>Examples\<close>

lemma demo_pow: "big_SetBytes (replicate 31 0 @ [1]) = 1" by code_simp

lemma demo_valid: "fst (IsValid demo_env (demo_share None genesisHash 1000))"
  by (simp add: IsValid_def demo_share_def shareHasStandardPayout_def IsStandardPayout_def demo_pow
      header_ts_def V2MandatoryActivationTime_def ShareVersionV1_def ShareVersionV2_def Let_def)

theorem metadata_preimage_binds_witness:
  "parent_bytes (demo_share None genesisHash 1000) = parent_bytes (demo_share (Some genesisHash) [1] 2000)"
proof -
  have "preimage_shape (demo_share None genesisHash 1000)" "preimage_shape (demo_share (Some genesisHash) [1] 2000)"
    by (simp_all add: preimage_shape_def demo_share_def genesisHash_def)
  moreover have "share_preimage (demo_share None genesisHash 1000) = share_preimage (demo_share (Some genesisHash) [1] 2000)"
    by (simp add: share_preimage_def metadata_preimage_def demo_share_def genesisHash_def Let_def)
  ultimately show ?thesis using metadata_preimage_binds by blast
qed

theorem valid_share_credit_witness:
  "fst (IsValid demo_env (demo_share None genesisHash 1000)) \<and> 0 < effective_diff (demo_share None genesisHash 1000)"
proof -
  have "big_SetBytes p \<noteq> 0" if "s_POWHash (demo_share None genesisHash 1000) = Some p" for p
    using that by (auto simp: demo_share_def demo_pow)
  then show ?thesis using valid_share_credit[OF demo_valid] demo_valid by blast
qed

definition demo_v2 :: Share where
  "demo_v2 = (demo_share None genesisHash 1800000000)\<lparr>s_Type := ShareVersionV2\<rparr>"

definition demo_v2_coinbase :: msgtx where
  "demo_v2_coinbase = \<lparr>tx_Version = 2, tx_TxIn = [],
     tx_TxOut = [\<lparr>out_Value = 0, out_PkScript = OP_RETURN # share_commitment demo_v2\<rparr>], tx_LockTime = 0\<rparr>"

theorem valid_share_committed_witness:
  "\<exists>tx out. share_coinbase (demo_env\<lparr>e_Deserialize := \<lambda>b. Some demo_v2_coinbase\<rparr>) demo_v2 = Some tx
     \<and> out \<in> set (tx_TxOut tx) \<and> out_Value out = 0 \<and> sublist (share_commitment demo_v2) (out_PkScript out)"
proof -
  let ?E = "demo_env\<lparr>e_Deserialize := \<lambda>b. Some demo_v2_coinbase\<rparr>"
  have "sublist (share_commitment demo_v2) (OP_RETURN # share_commitment demo_v2)"
    by (metis append_Cons append_Nil sublist_appendI append_Nil2)
  then have "fst (VerifyShareMetadata ?E demo_v2)"
    by (simp add: VerifyShareMetadata_def share_coinbase_def carries_commitment_def demo_v2_coinbase_def)
      (simp add: demo_v2_def demo_share_def)
  then have "fst (IsValid ?E demo_v2)"
    by (simp add: IsValid_def) (simp add: demo_v2_def demo_share_def shareHasStandardPayout_def
        IsStandardPayout_def demo_pow header_ts_def Let_def ShareVersionV2_def)
  moreover have "V2MandatoryActivationTime \<le> header_ts demo_v2"
    by (simp add: demo_v2_def demo_share_def header_ts_def V2MandatoryActivationTime_def)
  ultimately show ?thesis using valid_share_committed by blast
qed

end
