(* ===== verification/ShareChain.thy ===== *)
theory ShareChain
  imports ShareCheck
begin

text \<open>
  The share chain's state and its read-only walks (\<open>work/sharechain.go\<close>): lookup, the ordered chain
  walk, the expected share difficulty, the PPLNS window (\<open>GetSharesForPayout\<close> and
  \<open>hasCompletePPLNSWindow\<close>), synchronisation walks, median time past and the pool statistics.
  Walks are bounded by \<open>len(sc.shares) + 1\<close> steps, as in the code; the lemmas relate them to the
  list of held ancestors, bound the difficulty they compute, and show that a complete window is not
  changed by shares that arrive later.

  The caches of a share do not change these values (theory \<open>Difficulty\<close>), so the walks use
  \<open>target_diff\<close>, \<open>effective_diff\<close> and \<open>prev_key\<close>.
\<close>

type_synonym share_map = "(string, Share) gomap"

record ShareChain =
  sc_shares :: share_map
  sc_verified :: "(string, bool) gomap"
  sc_received :: "(string, time) gomap"
  sc_cumWork :: "(string, rat) gomap"
  sc_chainLen :: "(string, int) gomap"
  sc_children :: "(string, string list) gomap"
  sc_curPrevBlock :: string
  sc_curBits :: u32
  sc_changes :: u64
  sc_dirty :: "(string, unit) gomap"
  sc_TipHash :: "hash option"
  sc_poolHashrate :: rat
  sc_networkHashrate :: rat
  sc_networkDifficulty :: rat

definition NewShareChain :: ShareChain where
  "NewShareChain = \<lparr>sc_shares = [], sc_verified = [], sc_received = [], sc_cumWork = [], sc_chainLen = [],
     sc_children = [], sc_curPrevBlock = '''', sc_curBits = 0, sc_changes = 0, sc_dirty = [],
     sc_TipHash = Some genesisHash, sc_poolHashrate = 0, sc_networkHashrate = 0, sc_networkDifficulty = 0\<rparr>"

definition TargetPoolShareTime :: rat where "TargetPoolShareTime = 15"
definition TargetLookbehind :: nat where "TargetLookbehind = 200"
definition DefaultPPLNSWindow :: int where "DefaultPPLNSWindow = 8640"
definition MaxPPLNSWindowAgeSecs :: int where "MaxPPLNSWindowAgeSecs = 36 * 3600"
definition MaxShareTimeFutureSecs :: int where "MaxShareTimeFutureSecs = 2 * 3600"
definition MaxShareTimePastSecs :: int where "MaxShareTimePastSecs = 10 * 60"

subsection \<open>Lookup\<close>

definition GetShare :: "ShareChain \<Rightarrow> string \<Rightarrow> Share option" where
  "GetShare sc h = map_of (sc_shares sc) h"

definition HasShare :: "ShareChain \<Rightarrow> string \<Rightarrow> bool" where
  "HasShare sc h \<longleftrightarrow> map_of (sc_shares sc) h \<noteq> None"

definition GetTipHash :: "ShareChain \<Rightarrow> hash option" where
  "GetTipHash sc = sc_TipHash sc"

abbreviation is_verified :: "ShareChain \<Rightarrow> string \<Rightarrow> bool" where
  "is_verified sc h \<equiv> gm_get False (sc_verified sc) h"

text \<open>\<open>p == nil || p.IsEqual(sc.genesisHash)\<close>\<close>

definition no_parent :: "hash option \<Rightarrow> bool" where
  "no_parent p = (case p of None \<Rightarrow> True | Some h \<Rightarrow> h = genesisHash)"

abbreviation share_prev :: "Share \<Rightarrow> hash option" where
  "share_prev s \<equiv> sd_PreviousShareHash (share_data s)"

text \<open>\<open>getPrevKey\<close> with its cache, and the key it computes.\<close>

definition getPrevKey :: "env \<Rightarrow> Share \<Rightarrow> string \<times> Share" where
  "getPrevKey E s =
     (if s_prevKey s \<noteq> '''' then (s_prevKey s, s)
      else let s1 = (case share_prev s of Some p \<Rightarrow> s\<lparr>s_prevKey := e_HashString E p\<rparr> | None \<Rightarrow> s)
           in (s_prevKey s1, s1))"

definition prev_key :: "env \<Rightarrow> Share \<Rightarrow> string" where
  "prev_key E s = (case share_prev s of Some p \<Rightarrow> e_HashString E p | None \<Rightarrow> '''')"

definition prevKeyLocked :: "env \<Rightarrow> Share \<Rightarrow> string" where
  "prevKeyLocked E s = (if no_parent (share_prev s) then '''' else prev_key E s)"

subsection \<open>The ordered walk\<close>

fun walk_loop :: "env \<Rightarrow> share_map \<Rightarrow> int \<Rightarrow> nat \<Rightarrow> string \<Rightarrow> Share list \<Rightarrow> Share list" where
  "walk_loop E m mx 0 h res = res"
| "walk_loop E m mx (Suc n) h res =
     (if h = '''' then res
      else (case map_of m h of
              None \<Rightarrow> res
            | Some s \<Rightarrow>
                let res1 = (if is_stale s then res else res @ [s])
                in if \<not> is_stale s \<and> 0 < mx \<and> mx \<le> int (length res1) then res1
                   else if no_parent (share_prev s) then res1
                   else walk_loop E m mx n (prev_key E s) res1))"

definition walk_start :: "ShareChain \<Rightarrow> hash option \<Rightarrow> hash option" where
  "walk_start sc start = (if no_parent start then sc_TipHash sc else start)"

definition getOrderedChainWalkLocked :: "env \<Rightarrow> ShareChain \<Rightarrow> hash option \<Rightarrow> int \<Rightarrow> Share list" where
  "getOrderedChainWalkLocked E sc start mx =
     (let cur = walk_start sc start
      in if no_parent cur then []
         else walk_loop E (sc_shares sc) mx (length (sc_shares sc) + 1) (e_HashString E (the cur)) [])"

definition GetRecentShares :: "env \<Rightarrow> ShareChain \<Rightarrow> int \<Rightarrow> Share list" where
  "GetRecentShares E sc count = getOrderedChainWalkLocked E sc (sc_TipHash sc) count"

subsection \<open>The expected difficulty\<close>

definition floor_diff :: "rat \<Rightarrow> rat" where
  "floor_diff d = (if d < MinPoolShareDiff then MinPoolShareDiff else d)"

definition getExpectedShareDifficultyLocked :: "env \<Rightarrow> ShareChain \<Rightarrow> hash option \<Rightarrow> rat" where
  "getExpectedShareDifficultyLocked E sc prev =
     (let w = getOrderedChainWalkLocked E sc prev (int TargetLookbehind)
      in if length w < TargetLookbehind then MinPoolShareDiff
         else let tw = foldl (\<lambda>tw s. fadd tw (floor_diff (target_diff s))) 0 (take (TargetLookbehind - 1) w);
                  dt0 = of_int (share_ts (w ! 0) - share_ts (w ! (TargetLookbehind - 1)));
                  dt = (if dt0 \<le> 1 then 1 else dt0);
                  pDiff = floor_diff (target_diff (w ! 0));
                  raw = fdiv (fmul tw TargetPoolShareTime) dt;
                  raw1 = (if raw < fmul pDiff (f64 (9 / 10)) then fmul pDiff (f64 (9 / 10))
                          else if fmul pDiff (f64 (11 / 10)) < raw then fmul pDiff (f64 (11 / 10))
                          else raw)
              in floor_diff raw1)"

definition GetExpectedShareDifficulty :: "env \<Rightarrow> ShareChain \<Rightarrow> hash option \<Rightarrow> rat" where
  "GetExpectedShareDifficulty E sc prev = getExpectedShareDifficultyLocked E sc prev"

definition GetPoolShareDifficulty :: "env \<Rightarrow> ShareChain \<Rightarrow> rat" where
  "GetPoolShareDifficulty E sc = getExpectedShareDifficultyLocked E sc (sc_TipHash sc)"

subsection \<open>The PPLNS window\<close>

text \<open>The variables of the two window loops; \<open>hasCompletePPLNSWindow\<close> does not keep \<open>pw_sel\<close>.\<close>

record window =
  pw_first :: "Share option"
  pw_capW :: rat
  pw_cut :: int
  pw_sel :: "Share list"
  pw_acc :: rat
  pw_valid :: int

definition window0 :: window where
  "window0 = \<lparr>pw_first = None, pw_capW = 0, pw_cut = 0, pw_sel = [], pw_acc = 0, pw_valid = 0\<rparr>"

definition window_cap :: "env \<Rightarrow> int \<Rightarrow> rat \<Rightarrow> Share \<Rightarrow> rat" where
  "window_cap E win pDiff s =
     (let capW = fmul (of_int win) pDiff;
          bits = mh_Bits (s_MinHeader s);
          bd = TargetToDiff (Some (e_CompactToBig E bits))
      in if bits \<noteq> 0 \<and> 0 < bd \<and> fmul bd 12 < capW then fmul bd 12 else capW)"

definition window_open :: "env \<Rightarrow> int \<Rightarrow> rat \<Rightarrow> window \<Rightarrow> Share \<Rightarrow> window" where
  "window_open E win pDiff w s =
     (if pw_first w = None
      then w\<lparr>pw_first := Some s, pw_capW := window_cap E win pDiff s,
             pw_cut := share_ts s - MaxPPLNSWindowAgeSecs\<rparr>
      else w)"

definition window_maxD :: "rat \<Rightarrow> rat" where
  "window_maxD pDiff = (if fmul pDiff 4 < 16 then 16 else fmul pDiff 4)"

text \<open>The body of the loops for a share that is not stale; the flag says that the loop ends there.\<close>

definition window_step :: "env \<Rightarrow> int \<Rightarrow> rat \<Rightarrow> window \<Rightarrow> Share \<Rightarrow> window \<times> bool" where
  "window_step E win pDiff w0 s =
     (let w1 = window_open E win pDiff w0 s;
          w2 = w1\<lparr>pw_valid := pw_valid w1 + 1\<rparr>
      in if share_ts s < pw_cut w2 then (w2, True)
         else let d = effective_diff s
              in if 0 < d
                 then let d1 = (if window_maxD pDiff < d then window_maxD pDiff else d);
                          w3 = w2\<lparr>pw_sel := pw_sel w2 @ [s], pw_acc := fadd (pw_acc w2) d1\<rparr>
                      in (w3, pw_capW w3 \<le> pw_acc w3 \<or> win \<le> pw_valid w3)
                 else (w2, win \<le> pw_valid w2))"

fun payout_loop :: "env \<Rightarrow> share_map \<Rightarrow> int \<Rightarrow> rat \<Rightarrow> nat \<Rightarrow> string \<Rightarrow> window \<Rightarrow> Share list" where
  "payout_loop E m win pDiff 0 h w = pw_sel w"
| "payout_loop E m win pDiff (Suc n) h w =
     (if h = '''' then pw_sel w
      else (case map_of m h of
              None \<Rightarrow> pw_sel w
            | Some s \<Rightarrow>
                let (w1, stop) = (if is_stale s then (w, False) else window_step E win pDiff w s)
                in if stop then pw_sel w1
                   else if no_parent (share_prev s) then pw_sel w1
                   else payout_loop E m win pDiff n (prev_key E s) w1))"

definition GetSharesForPayout :: "env \<Rightarrow> ShareChain \<Rightarrow> hash option \<Rightarrow> int \<Rightarrow> Share list" where
  "GetSharesForPayout E sc tip win0 =
     (let win = (if win0 \<le> 0 then DefaultPPLNSWindow else win0);
          cur = walk_start sc tip
      in if no_parent cur then []
         else payout_loop E (sc_shares sc) win (getExpectedShareDifficultyLocked E sc cur)
                (length (sc_shares sc) + 1) (e_HashString E (the cur)) window0)"

fun complete_loop :: "env \<Rightarrow> share_map \<Rightarrow> rat \<Rightarrow> nat \<Rightarrow> string \<Rightarrow> window \<Rightarrow> bool" where
  "complete_loop E m pDiff 0 h w = False"
| "complete_loop E m pDiff (Suc n) h w =
     (if h = '''' then False
      else (case map_of m h of
              None \<Rightarrow> False
            | Some s \<Rightarrow>
                let (w1, stop) = (if is_stale s then (w, False) else window_step E DefaultPPLNSWindow pDiff w s)
                in if stop then True
                   else if no_parent (share_prev s) then True
                   else complete_loop E m pDiff n (prev_key E s) w1))"

definition hasCompletePPLNSWindow :: "env \<Rightarrow> ShareChain \<Rightarrow> hash option \<Rightarrow> bool" where
  "hasCompletePPLNSWindow E sc prev =
     (if no_parent prev then True
      else complete_loop E (sc_shares sc) (getExpectedShareDifficultyLocked E sc prev)
             (length (sc_shares sc) + 1) (e_HashString E (the prev)) window0)"

subsection \<open>Times\<close>

definition effectiveTimeLocked :: "env \<Rightarrow> ShareChain \<Rightarrow> Share \<Rightarrow> hash option \<Rightarrow> int" where
  "effectiveTimeLocked E sc s p =
     (let t = share_ts s
      in if no_parent p then t
         else (case map_of (sc_shares sc) (e_HashString E (the p)) of
                 Some ps \<Rightarrow> if t < share_ts ps then share_ts ps else t
               | None \<Rightarrow> t))"

definition medianTimePastLocked :: "env \<Rightarrow> ShareChain \<Rightarrow> hash option \<Rightarrow> int option" where
  "medianTimePastLocked E sc p =
     (if no_parent p then None
      else let w = getOrderedChainWalkLocked E sc p (int MedianTimeShares)
           in if length w < MedianTimeShares then None
              else let ts = sort (map share_ts w) in Some (ts ! (length ts div 2)))"

subsection \<open>Synchronisation\<close>

fun sync_loop :: "env \<Rightarrow> share_map \<Rightarrow> int \<Rightarrow> nat \<Rightarrow> hash option \<Rightarrow> string list \<Rightarrow> int \<Rightarrow> Share list" where
  "sync_loop E m mx 0 cur vis ns = []"
| "sync_loop E m mx (Suc n) cur vis ns =
     (if no_parent cur then []
      else let h = e_HashString E (the cur)
           in if h \<in> set vis then []
              else (case map_of m h of
                      None \<Rightarrow> []
                    | Some s \<Rightarrow>
                        let ns1 = (if is_stale s then ns else ns + 1)
                        in s # (if \<not> is_stale s \<and> 0 < mx \<and> mx \<le> ns1 then []
                                else sync_loop E m mx n (share_prev s) (h # vis) ns1)))"

text \<open>The loop visits a key at most once, so \<open>length (sc_shares sc) + 1\<close> rounds are enough.\<close>

definition GetSharesForSync :: "env \<Rightarrow> ShareChain \<Rightarrow> int \<Rightarrow> Share list" where
  "GetSharesForSync E sc maxCount =
     sync_loop E (sc_shares sc) maxCount (length (sc_shares sc) + 1) (sc_TipHash sc) [] 0"


subsection \<open>Walks are the held ancestors\<close>

lemma getPrevKey_value:
  "s_prevKey s = '''' \<or> s_prevKey s = prev_key E s \<Longrightarrow> fst (getPrevKey E s) = prev_key E s
    \<and> s_prevKey (snd (getPrevKey E s)) = prev_key E s"
  by (auto simp: getPrevKey_def prev_key_def Let_def split: option.split)

text \<open>The shares met on the way down from \<open>h\<close>, at most \<open>n\<close> of them.\<close>

fun lineage :: "env \<Rightarrow> share_map \<Rightarrow> nat \<Rightarrow> string \<Rightarrow> Share list" where
  "lineage E m 0 h = []"
| "lineage E m (Suc n) h =
     (if h = '''' then []
      else (case map_of m h of
              None \<Rightarrow> []
            | Some s \<Rightarrow> s # (if no_parent (share_prev s) then [] else lineage E m n (prev_key E s))))"

abbreviation live :: "Share list \<Rightarrow> Share list" where "live \<equiv> filter (\<lambda>s. \<not> is_stale s)"

lemma walk_loop_pos:
  "int (length res) < mx \<Longrightarrow> walk_loop E m mx n h res = take (nat mx) (res @ live (lineage E m n h))"
proof (induction n arbitrary: h res)
  case (Suc n)
  show ?case
  proof (cases "h = '''' \<or> map_of m h = None")
    case False
    then obtain s where s: "h \<noteq> ''''" "map_of m h = Some s" by auto
    have full: "take (nat mx) (res @ s # r) = res @ [s]" if "mx \<le> 1 + int (length res)" for r
    proof -
      have "nat mx = Suc (length res)" using that Suc.prems by simp
      then show ?thesis by simp
    qed
    show ?thesis using s Suc.prems Suc.IH[of res] Suc.IH[of "res @ [s]"] full
      by (auto simp: Let_def not_le)
  qed (use Suc.prems in auto)
qed simp

lemma walk_loop_nonpos: "mx \<le> 0 \<Longrightarrow> walk_loop E m mx n h res = res @ live (lineage E m n h)"
  by (induction n arbitrary: h res) (auto simp: Let_def split: option.split)

lemma walk_is_lineage:
  assumes "\<not> no_parent start"
  shows "getOrderedChainWalkLocked E sc start mx =
    (let l = live (lineage E (sc_shares sc) (length (sc_shares sc) + 1) (e_HashString E (the start)))
     in if 0 < mx then take (nat mx) l else l)"
  using assms
  by (simp add: getOrderedChainWalkLocked_def walk_start_def Let_def walk_loop_pos walk_loop_nonpos
      del: walk_loop.simps lineage.simps)

lemma walk_length_le: "0 < mx \<Longrightarrow> int (length (getOrderedChainWalkLocked E sc start mx)) \<le> mx"
  by (auto simp: getOrderedChainWalkLocked_def Let_def walk_loop_pos min_def simp del: walk_loop.simps lineage.simps)

text \<open>A rank on keys that falls from a share to its held parent: the chain has no cycle.\<close>

definition ranked :: "env \<Rightarrow> share_map \<Rightarrow> (string \<Rightarrow> nat) \<Rightarrow> bool" where
  "ranked E m r \<longleftrightarrow> (\<forall>h s. map_of m h = Some s \<longrightarrow> \<not> no_parent (share_prev s) \<longrightarrow>
     map_of m (prev_key E s) \<noteq> None \<longrightarrow> r (prev_key E s) < r h)"

fun lineage_keys :: "env \<Rightarrow> share_map \<Rightarrow> nat \<Rightarrow> string \<Rightarrow> string list" where
  "lineage_keys E m 0 h = []"
| "lineage_keys E m (Suc n) h =
     (if h = '''' then []
      else (case map_of m h of
              None \<Rightarrow> []
            | Some s \<Rightarrow> h # (if no_parent (share_prev s) then [] else lineage_keys E m n (prev_key E s))))"

lemma length_lineage_keys: "length (lineage_keys E m n h) = length (lineage E m n h)"
  by (induction n arbitrary: h) (auto split: option.split)

lemma lineage_keys_bound:
  assumes "ranked E m r"
  shows "(\<forall>k \<in> set (lineage_keys E m n h). r k \<le> r h \<and> map_of m k \<noteq> None) \<and> distinct (lineage_keys E m n h)"
proof (induction n arbitrary: h)
  case (Suc n)
  show ?case
  proof (cases "map_of m h")
    case (Some s)
    let ?p = "prev_key E s"
    show ?thesis
    proof (cases "no_parent (share_prev s) \<or> map_of m ?p = None")
      case True
      then have "no_parent (share_prev s) \<or> lineage_keys E m n ?p = []" by (cases n) auto
      then show ?thesis using Some by auto
    next
      case False
      then have "r ?p < r h" using assms Some unfolding ranked_def by blast
      then show ?thesis using Suc[of ?p] Some False by (auto dest: le_less_trans)
    qed
  qed simp
qed simp

lemma lineage_length_le:
  assumes "ranked E m r" shows "length (lineage E m n h) \<le> length m"
proof -
  have "set (lineage_keys E m n h) \<subseteq> set (gm_keys m)"
    using lineage_keys_bound[OF assms, of n h] by (auto simp: set_gm_keys simp del: set_map)
  then have "card (set (lineage_keys E m n h)) \<le> length (gm_keys m)"
    using card_mono[of "set (gm_keys m)"] card_length[of "gm_keys m"] by (meson List.finite_set order_trans)
  then show ?thesis using lineage_keys_bound[OF assms, of n h]
    by (simp add: distinct_card length_lineage_keys)
qed

lemma lineage_more: "length (lineage E m n h) < n \<Longrightarrow> lineage E m (n + k) h = lineage E m n h"
  by (induction n arbitrary: h) (auto split: option.split)

text \<open>On a chain without a cycle, the step bound of the walks never cuts a walk short: a larger bound
  walks over the same shares.\<close>

theorem walk_bound_enough:
  assumes "ranked E (sc_shares sc) r" "length (sc_shares sc) + 1 \<le> n"
  shows "walk_loop E (sc_shares sc) mx n h [] = walk_loop E (sc_shares sc) mx (length (sc_shares sc) + 1) h []"
proof -
  have "lineage E (sc_shares sc) (length (sc_shares sc) + 1 + (n - (length (sc_shares sc) + 1))) h
    = lineage E (sc_shares sc) (length (sc_shares sc) + 1) h"
    using lineage_length_le[OF assms(1)] by (intro lineage_more) (simp add: le_imp_less_Suc del: lineage.simps)
  then have "lineage E (sc_shares sc) n h = lineage E (sc_shares sc) (length (sc_shares sc) + 1) h"
    using assms(2) by simp
  then show ?thesis
    by (cases "0 < mx") (simp_all add: walk_loop_pos walk_loop_nonpos del: walk_loop.simps lineage.simps)
qed

subsection \<open>The expected difficulty is bounded\<close>

lemma floor_diff_ge: "MinPoolShareDiff \<le> floor_diff d" "d \<le> floor_diff d"
  by (simp_all add: floor_diff_def)

lemma floor_diff_f64: "f64 d = d \<Longrightarrow> f64 (floor_diff d) = floor_diff d"
  by (simp add: floor_diff_def MinPoolShareDiff_def)

text \<open>C5: The difficulty the pool expects of the next share is never below the minimum. With fewer than 200 live
  shares from the parent downwards it is the minimum, whatever the parent's difficulty; with 200 it is within ten
  percent of the difficulty of the first of them (the parent, or the nearest share below it that is not stale), itself
  raised to the minimum.\<close>

theorem expected_difficulty_bounds:
  "MinPoolShareDiff \<le> getExpectedShareDifficultyLocked E sc prev \<and>
   (let w = getOrderedChainWalkLocked E sc prev (int TargetLookbehind);
        p = floor_diff (target_diff (w ! 0))
    in if length w < TargetLookbehind
       then getExpectedShareDifficultyLocked E sc prev = MinPoolShareDiff
       else fmul p (f64 (9 / 10)) \<le> getExpectedShareDifficultyLocked E sc prev
            \<and> getExpectedShareDifficultyLocked E sc prev \<le> fmul p (f64 (11 / 10)))"
proof -
  let ?w = "getOrderedChainWalkLocked E sc prev (int TargetLookbehind)"
  let ?p = "floor_diff (target_diff (?w ! 0))"
  let ?r = "getExpectedShareDifficultyLocked E sc prev"
  have p: "f64 ?p = ?p" "MinPoolShareDiff \<le> ?p" by (simp_all add: floor_diff_f64 floor_diff_ge)
  have "1 \<le> f64 (11 / 10)" by (rule f64.ge_rep) simp_all
  then have "?p \<le> ?p * f64 (11 / 10)" using p(2) by (simp add: MinPoolShareDiff_def mult_le_cancel_left1)
  then have up: "?p \<le> fmul ?p (f64 (11 / 10))" by (rule f64.ge_rep[OF p(1)])
  have "f64 (9 / 10) \<le> 1" by (rule f64.le_rep) simp_all
  then have "?p * f64 (9 / 10) \<le> ?p" using p(2) by (simp add: MinPoolShareDiff_def mult_le_cancel_left2)
  then have lo: "fmul ?p (f64 (9 / 10)) \<le> ?p" by (rule f64.le_rep[OF p(1)])
  show ?thesis
  proof (cases "length ?w < TargetLookbehind")
    case True
    then show ?thesis by (simp add: getExpectedShareDifficultyLocked_def Let_def)
  next
    case False
    obtain raw where r: "?r = floor_diff (if raw < fmul ?p (f64 (9 / 10)) then fmul ?p (f64 (9 / 10))
        else if fmul ?p (f64 (11 / 10)) < raw then fmul ?p (f64 (11 / 10)) else raw)"
      using False unfolding getExpectedShareDifficultyLocked_def by (simp add: Let_def)
    show ?thesis unfolding Let_def using False up lo p(2) by (simp add: r floor_diff_def)
  qed
qed

subsection \<open>A complete window is settled\<close>

lemma complete_loop_more:
  assumes "complete_loop E m pDiff n h w" "map_of m \<subseteq>\<^sub>m map_of m'" "n \<le> n'"
  shows "payout_loop E m' DefaultPPLNSWindow pDiff n' h w = payout_loop E m DefaultPPLNSWindow pDiff n h w
    \<and> complete_loop E m' pDiff n' h w"
  using assms
proof (induction n arbitrary: h w n')
  case (Suc n)
  then obtain k where n': "n' = Suc k" "n \<le> k" by (cases n') auto
  obtain s where s: "h \<noteq> ''''" "map_of m h = Some s" "map_of m' h = Some s"
    using Suc.prems(1,2) by (auto simp: map_le_def dom_def split: if_splits option.splits)
  obtain w1 stop where st: "(if is_stale s then (w, False) else window_step E DefaultPPLNSWindow pDiff w s) = (w1, stop)"
    by fastforce
  show ?case using Suc.prems s st n' Suc.IH[of "prev_key E s" w1 k] by (auto split: if_splits)
qed simp

lemma lineage_mono:
  assumes "map_of m \<subseteq>\<^sub>m map_of m'" "n \<le> n'"
  shows "\<exists>r. lineage E m' n' h = lineage E m n h @ r"
  using assms
proof (induction n arbitrary: h n')
  case (Suc n)
  then obtain k where n': "n' = Suc k" "n \<le> k" by (cases n') auto
  show ?case
  proof (cases "map_of m h")
    case (Some s)
    then have "map_of m' h = Some s" using Suc.prems(1) by (metis map_le_def domI)
    then show ?thesis using Some n' Suc.IH[OF Suc.prems(1) n'(2), of "prev_key E s"] by auto
  qed simp
qed simp

lemma walk_prefix_stable:
  assumes "\<not> no_parent p" "map_of (sc_shares sc) \<subseteq>\<^sub>m map_of (sc_shares sc')"
    "length (sc_shares sc) \<le> length (sc_shares sc')" "0 < mx"
    "int (length (getOrderedChainWalkLocked E sc p mx)) = mx"
  shows "getOrderedChainWalkLocked E sc' p mx = getOrderedChainWalkLocked E sc p mx"
proof -
  let ?n = "length (sc_shares sc) + 1" and ?n' = "length (sc_shares sc') + 1" and ?h = "e_HashString E (the p)"
  obtain r where r: "lineage E (sc_shares sc') ?n' ?h = lineage E (sc_shares sc) ?n ?h @ r"
    using lineage_mono[OF assms(2), of ?n ?n' E ?h] assms(3) by auto
  have "nat mx \<le> length (live (lineage E (sc_shares sc) ?n ?h))"
    using assms(4,5) unfolding walk_is_lineage[OF assms(1)] by (simp add: Let_def min_def split: if_splits)
  then show ?thesis using assms(4) r unfolding walk_is_lineage[OF assms(1)]
    by (simp add: Let_def del: lineage.simps)
qed

text \<open>C4: Once 200 live shares are held from a parent downwards and its PPLNS window is complete, the shares the
  payout at this parent counts are settled: no set of shares added later changes them. With fewer than 200, the
  expected difficulty is the minimum and shares that arrive below can still change it, and the payout with it.\<close>

theorem complete_window_settled:
  assumes "\<not> no_parent p" "hasCompletePPLNSWindow E sc p"
    "length (getOrderedChainWalkLocked E sc p (int TargetLookbehind)) = TargetLookbehind"
    "map_of (sc_shares sc) \<subseteq>\<^sub>m map_of (sc_shares sc')" "length (sc_shares sc) \<le> length (sc_shares sc')"
  shows "GetSharesForPayout E sc' p DefaultPPLNSWindow = GetSharesForPayout E sc p DefaultPPLNSWindow
    \<and> hasCompletePPLNSWindow E sc' p"
proof -
  have w: "getOrderedChainWalkLocked E sc' p (int TargetLookbehind) = getOrderedChainWalkLocked E sc p (int TargetLookbehind)"
    using assms by (intro walk_prefix_stable) (simp_all add: TargetLookbehind_def)
  then have d: "getExpectedShareDifficultyLocked E sc' p = getExpectedShareDifficultyLocked E sc p"
    by (simp only: getExpectedShareDifficultyLocked_def)
  show ?thesis
    using assms(1,2,5) complete_loop_more[OF _ assms(4), of E _ "length (sc_shares sc) + 1" _ _ "length (sc_shares sc') + 1"]
    by (simp add: GetSharesForPayout_def hasCompletePPLNSWindow_def walk_start_def d Let_def
        DefaultPPLNSWindow_def[THEN arg_cong[where f = "\<lambda>x. x \<le> 0"]] del: payout_loop.simps complete_loop.simps)
qed


subsection \<open>Synchronisation sends the held ancestors once\<close>

text \<open>The keys not visited yet bound the rounds left.\<close>

lemma sync_loop_more:
  assumes "set (gm_keys m) \<subseteq> set vis \<union> set rest" "length rest < n" "n \<le> n'"
  shows "sync_loop E m mx n' cur vis ns = sync_loop E m mx n cur vis ns"
  using assms
proof (induction n arbitrary: n' cur vis ns rest)
  case (Suc n)
  then obtain k where n': "n' = Suc k" "n \<le> k" by (cases n') auto
  show ?case
  proof (cases "no_parent cur \<or> e_HashString E (the cur) \<in> set vis \<or> map_of m (e_HashString E (the cur)) = None")
    case False
    let ?h = "e_HashString E (the cur)"
    obtain s where s: "map_of m ?h = Some s" using False by auto
    then have in_rest: "?h \<in> set rest"
      using False Suc.prems(1) by (auto simp: set_gm_keys dom_def simp del: set_map)
    then have "length (remove1 ?h rest) = length rest - 1" by (simp add: length_remove1)
    then have "length (remove1 ?h rest) < n" using Suc.prems(2) length_pos_if_in_set[OF in_rest] by linarith
    moreover have "set (gm_keys m) \<subseteq> set (?h # vis) \<union> set (remove1 ?h rest)"
      using Suc.prems(1) in_rest by (auto simp: in_set_remove1 simp del: set_map)
    ultimately have "sync_loop E m mx k (share_prev s) (?h # vis) ns1 = sync_loop E m mx n (share_prev s) (?h # vis) ns1" for ns1
      using Suc.IH n'(2) by blast
    then show ?thesis using False s n' by (auto simp: Let_def)
  qed (use n' in \<open>auto simp: Let_def\<close>)
qed simp

text \<open>The unbounded loop of the code is the limit of the bounded one.\<close>

lemma sync_rounds_enough:
  "length (sc_shares sc) + 1 \<le> n \<Longrightarrow>
   sync_loop E (sc_shares sc) mx n (sc_TipHash sc) [] 0 = GetSharesForSync E sc mx"
  unfolding GetSharesForSync_def
  by (rule sync_loop_more[where rest = "gm_keys (sc_shares sc)"]) auto

lemma sync_loop_live:
  "0 < mx \<Longrightarrow> ns < mx \<Longrightarrow> ns + int (length (live (sync_loop E m mx n cur vis ns))) \<le> mx"
proof (induction n arbitrary: cur vis ns)
  case (Suc n)
  show ?case
    using Suc.prems Suc.IH[of "ns + 1"] Suc.IH[of ns]
    by (auto simp: Let_def not_le split: option.split) (smt (verit))+
qed simp

lemma sync_loop_held: "s \<in> set (sync_loop E m mx n cur vis ns) \<Longrightarrow> \<exists>h. map_of m h = Some s"
  by (induction n arbitrary: cur vis ns) (auto simp: Let_def split: if_splits option.splits)

text \<open>A synchronisation reply holds only held shares and, for a positive limit, at most so many
  shares that are not stale; the visited set makes the loop end, so any larger number of rounds
  gives the same reply.\<close>

theorem GetSharesForSync_reply:
  "(\<forall>s. s \<in> set (GetSharesForSync E sc mx) \<longrightarrow> (\<exists>h. GetShare sc h = Some s))
   \<and> (0 < mx \<longrightarrow> int (length (live (GetSharesForSync E sc mx))) \<le> mx)
   \<and> (\<forall>k. sync_loop E (sc_shares sc) mx (length (sc_shares sc) + 1 + k) (sc_TipHash sc) [] 0 = GetSharesForSync E sc mx)"
proof (intro conjI allI impI)
  show "\<exists>h. GetShare sc h = Some s" if "s \<in> set (GetSharesForSync E sc mx)" for s
    using that sync_loop_held unfolding GetSharesForSync_def GetShare_def by metis
  show "int (length (live (GetSharesForSync E sc mx))) \<le> mx" if "0 < mx"
    using sync_loop_live[OF that that] unfolding GetSharesForSync_def by (metis add_0)
qed (simp add: sync_rounds_enough del: sync_loop.simps)


subsection \<open>An example chain\<close>

definition demo_hash :: "nat \<Rightarrow> hash" where "demo_hash i = be32 (of_nat (Suc i))"
definition demo_key :: "nat \<Rightarrow> string" where "demo_key i = e_HashString demo_env (demo_hash i)"

definition demo_link :: "nat \<Rightarrow> Share" where
  "demo_link i = demo_share (case i of 0 \<Rightarrow> None | Suc j \<Rightarrow> Some (demo_hash j)) (demo_hash i) (1000 + of_nat i)"

definition demo_chain :: "nat \<Rightarrow> ShareChain" where
  "demo_chain n = NewShareChain\<lparr>sc_shares := map (\<lambda>i. (demo_key i, demo_link i)) [0..<n]\<rparr>"

lemma demo_key_inj: assumes "i < 1000" "j < 1000" shows "demo_key i = demo_key j \<longleftrightarrow> i = j"
proof -
  have "demo_key i = demo_key j \<longleftrightarrow> (of_nat (Suc i) :: u32) = of_nat (Suc j)"
    by (simp add: demo_key_def demo_env_def demo_hash_def hex_inj be_inj del: of_nat_Suc)
  also have "\<dots> \<longleftrightarrow> Suc i = Suc j"
    using assms by (subst word_of_nat_eq_iff) (simp add: take_bit_nat_eq_self del: of_nat_Suc)
  finally show ?thesis by simp
qed

lemma demo_chain_lookup:
  assumes "n \<le> 1000" "i < n" shows "map_of (sc_shares (demo_chain n)) (demo_key i) = Some (demo_link i)"
proof -
  have "inj_on demo_key {0..<n}" using assms by (auto simp: inj_on_def demo_key_inj)
  then have "distinct (gm_keys (sc_shares (demo_chain n)))" by (simp add: demo_chain_def comp_def distinct_map)
  moreover have "(demo_key i, demo_link i) \<in> set (sc_shares (demo_chain n))"
    using assms by (simp add: demo_chain_def)
  ultimately show ?thesis by (rule map_of_is_SomeI)
qed

lemma demo_link_simps [simp]:
  "\<not> is_stale (demo_link i)" "no_parent (share_prev (demo_link i)) = (i = 0)"
  "prev_key demo_env (demo_link (Suc i)) = demo_key i"
proof -
  have "length (demo_hash j) \<noteq> length genesisHash" for j by (simp add: demo_hash_def genesisHash_def)
  then have "demo_hash j \<noteq> genesisHash" for j by metis
  then show "no_parent (share_prev (demo_link i)) = (i = 0)"
    by (simp add: no_parent_def demo_link_def demo_share_def split: nat.split)
qed (simp_all add: demo_link_def demo_share_def prev_key_def demo_key_def)

lemma demo_key_ne [simp]: "demo_key i \<noteq> ''''"
  by (simp add: demo_key_def demo_env_def demo_hash_def be32_def hex_EncodeToString_def)

lemma demo_lineage: assumes "n \<le> 1000" "i < n" "i < k" shows "length (live (lineage demo_env (sc_shares (demo_chain n)) k (demo_key i))) = Suc i"
  using assms
proof (induction i arbitrary: k)
  case 0
  then show ?case by (cases k) (simp_all add: demo_chain_lookup)
next
  case (Suc i)
  then show ?case by (cases k) (simp_all add: demo_chain_lookup)
qed

lemma demo_complete: assumes "n \<le> 1000" "i < n" "i < k" shows "complete_loop demo_env (sc_shares (demo_chain n)) d k (demo_key i) w"
  using assms
proof (induction i arbitrary: k w)
  case 0
  then show ?case by (cases k) (simp_all add: demo_chain_lookup Let_def split: prod.split)
next
  case (Suc i)
  then show ?case by (cases k) (simp_all add: demo_chain_lookup Let_def split: prod.split)
qed

lemma demo_ranked: "ranked demo_env (sc_shares (demo_chain 1)) (\<lambda>k. 0)"
  by (simp add: ranked_def demo_chain_def)

theorem walk_bound_enough_witness:
  "walk_loop demo_env (sc_shares (demo_chain 1)) 5 10 (demo_key 0) []
   = walk_loop demo_env (sc_shares (demo_chain 1)) 5 (length (sc_shares (demo_chain 1)) + 1) (demo_key 0) []"
proof -
  have "length (sc_shares (demo_chain 1)) + 1 \<le> 10" by (simp add: demo_chain_def)
  from walk_bound_enough[OF demo_ranked this] show ?thesis .
qed

lemma demo_dom: "a \<in> dom (map_of (sc_shares (demo_chain n))) \<Longrightarrow> \<exists>i < n. a = demo_key i"
  by (auto simp: dom_map_of_conv_image_fst demo_chain_def)

lemma demo_len: "length (sc_shares (demo_chain n)) = n"
  by (simp add: demo_chain_def)

lemma demo_sub: "n \<le> k \<Longrightarrow> k \<le> 1000 \<Longrightarrow> map_of (sc_shares (demo_chain n)) \<subseteq>\<^sub>m map_of (sc_shares (demo_chain k))"
  unfolding map_le_def by (auto dest!: demo_dom simp: demo_chain_lookup)

lemma demo_no_parent: "\<not> no_parent (Some (demo_hash i))"
proof -
  have "length (demo_hash i) \<noteq> length genesisHash" by (simp add: demo_hash_def genesisHash_def)
  then show ?thesis by (auto simp: no_parent_def)
qed

theorem complete_window_settled_witness:
  "GetSharesForPayout demo_env (demo_chain 250) (Some (demo_hash 199)) DefaultPPLNSWindow
   = GetSharesForPayout demo_env (demo_chain 200) (Some (demo_hash 199)) DefaultPPLNSWindow"
proof -
  note len = demo_len
  have c: "hasCompletePPLNSWindow demo_env (demo_chain 200) (Some (demo_hash 199))"
    using demo_complete[of 200 199 201] by (simp add: hasCompletePPLNSWindow_def demo_no_parent len
        demo_key_def[symmetric] del: complete_loop.simps)
  have l: "length (getOrderedChainWalkLocked demo_env (demo_chain 200) (Some (demo_hash 199)) (int TargetLookbehind)) = TargetLookbehind"
    using demo_lineage[of 200 199 201] by (simp add: walk_is_lineage[OF demo_no_parent] len TargetLookbehind_def
        demo_key_def[symmetric] del: lineage.simps)
  have "map_of (sc_shares (demo_chain 200)) \<subseteq>\<^sub>m map_of (sc_shares (demo_chain 250))"
    by (rule demo_sub) simp_all
  then show ?thesis by (rule complete_window_settled[OF demo_no_parent c l, THEN conjunct1]) (simp add: len)
qed

theorem GetSharesForSync_reply_witness:
  "int (length (live (GetSharesForSync demo_env (demo_chain 3) 2))) \<le> 2"
  using GetSharesForSync_reply[of demo_env "demo_chain 3" 2] by simp

end
