(* ===== verification/ShareWork.thy ===== *)
theory ShareWork
  imports ShareChain
begin

text \<open>
  The children index, the cumulative work and the tip of the share chain
  (\<open>work/sharechain.go\<close>: \<open>linkLocked\<close> to \<open>considerTipLocked\<close>). The invariants are \<open>index_ok\<close>, which
  relates the children index to the held shares, and \<open>work_ok\<close>, which says that every held share
  has the work and length of its held parent plus its own. The lemmas show that
  \<open>updateWorkLocked\<close> restores \<open>work_ok\<close> from the shares it is given, that adding, removing and
  recomputing keep both, and which tip the selections choose.
\<close>

subsection \<open>Index and work\<close>

abbreviation kids :: "ShareChain \<Rightarrow> string \<Rightarrow> string list" where
  "kids sc h \<equiv> gm_get [] (sc_children sc) h"

abbreviation held :: "ShareChain \<Rightarrow> string \<Rightarrow> Share option" where
  "held sc h \<equiv> map_of (sc_shares sc) h"

definition linkLocked :: "env \<Rightarrow> string \<Rightarrow> Share \<Rightarrow> ShareChain \<Rightarrow> ShareChain" where
  "linkLocked E h sh sc =
     (let p = prevKeyLocked E sh
      in if p = '''' then sc else sc\<lparr>sc_children := gm_set p (kids sc p @ [h]) (sc_children sc)\<rparr>)"

text \<open>The first two loops of \<open>updateWorkLocked\<close>: the held shares given, then their descendants.\<close>

fun work_seeds :: "ShareChain \<Rightarrow> string list \<Rightarrow> string list \<Rightarrow> string list" where
  "work_seeds sc [] all = all"
| "work_seeds sc (h # hs) all =
     (if held sc h \<noteq> None \<and> h \<notin> set all then work_seeds sc hs (all @ [h]) else work_seeds sc hs all)"

fun add_new :: "string list \<Rightarrow> string list \<Rightarrow> string list" where
  "add_new [] all = []"
| "add_new (c # cs) all = (if c \<in> set all then add_new cs all else c # add_new cs (all @ [c]))"

lemma add_new_props:
  "set (add_new cs all) = set cs - set all" "distinct (add_new cs all)"
  by (induction cs all rule: add_new.induct) auto

definition all_kids :: "(string, string list) gomap \<Rightarrow> string set" where
  "all_kids ch = (\<Union>kv \<in> set ch. set (snd kv))"

lemma kids_in_all: "set (gm_get [] ch h) \<subseteq> all_kids ch"
proof (cases "map_of ch h")
  case (Some cs)
  then have "(h, cs) \<in> set ch" by (rule map_of_SomeD)
  then show ?thesis using Some by (auto simp: gm_get_def all_kids_def intro!: bexI[of _ "(h, cs)"])
qed (simp add: gm_get_def)

lemma finite_all_kids [simp]: "finite (all_kids ch)"
  by (simp add: all_kids_def)

function descend :: "(string, string list) gomap \<Rightarrow> string list \<Rightarrow> string list \<Rightarrow> string list" where
  "descend ch [] all = all"
| "descend ch (x # todo) all =
     (let new = add_new (gm_get [] ch x) all in descend ch (todo @ new) (all @ new))"
  by pat_completeness auto
termination
proof (relation "measure (\<lambda>(ch, todo, all). card (all_kids ch - set all) + length todo)", simp, goal_cases)
  case (1 ch x todo all new)
  have n: "set new \<subseteq> all_kids ch - set all" "distinct new"
    using 1 kids_in_all by (auto simp: add_new_props)
  have "all_kids ch - set (all @ new) = (all_kids ch - set all) - set new" by auto
  then have "card (all_kids ch - set (all @ new)) = card (all_kids ch - set all) - length new"
    using n by (simp add: card_Diff_subset distinct_card)
  moreover have "length new \<le> card (all_kids ch - set all)"
    using n by (metis card_mono distinct_card finite_Diff finite_all_kids)
  ultimately show ?case by simp
qed

definition share_work :: "Share \<Rightarrow> rat \<times> int" where
  "share_work sh = (if is_stale sh then (0, 0)
                    else (if target_diff sh < MinPoolShareDiff then MinPoolShareDiff else target_diff sh, 1))"

definition parent_work :: "env \<Rightarrow> ShareChain \<Rightarrow> Share \<Rightarrow> rat \<times> int" where
  "parent_work E sc sh =
     (let p = prevKeyLocked E sh
      in if p \<noteq> '''' \<and> held sc p \<noteq> None then (gm_get 0 (sc_cumWork sc) p, gm_get 0 (sc_chainLen sc) p) else (0, 0))"

definition set_work :: "env \<Rightarrow> string \<Rightarrow> Share \<Rightarrow> ShareChain \<Rightarrow> ShareChain" where
  "set_work E h sh sc =
     sc\<lparr>sc_cumWork := gm_set h (fadd (fst (parent_work E sc sh)) (fst (share_work sh))) (sc_cumWork sc),
        sc_chainLen := gm_set h (snd (parent_work E sc sh) + snd (share_work sh)) (sc_chainLen sc)\<rparr>"

text \<open>The last loop; \<open>n\<close> bounds its rounds. A share that is not held would be a nil dereference.\<close>

fun work_loop :: "env \<Rightarrow> nat \<Rightarrow> string list \<Rightarrow> ShareChain \<Rightarrow> ShareChain" where
  "work_loop E 0 q sc = sc"
| "work_loop E (Suc n) [] sc = sc"
| "work_loop E (Suc n) (h # q) sc =
     (case held sc h of
        None \<Rightarrow> sc
      | Some sh \<Rightarrow> work_loop E n (q @ kids sc h) (set_work E h sh sc))"

definition work_roots :: "env \<Rightarrow> ShareChain \<Rightarrow> string list \<Rightarrow> string list" where
  "work_roots E sc all =
     filter (\<lambda>h. case held sc h of
                   None \<Rightarrow> False
                 | Some sh \<Rightarrow> prevKeyLocked E sh = '''' \<or> prevKeyLocked E sh \<notin> set all) all"

definition update_all :: "ShareChain \<Rightarrow> string list \<Rightarrow> string list" where
  "update_all sc hs = (let seeds = work_seeds sc hs [] in descend (sc_children sc) seeds seeds)"

definition updateWorkLocked :: "env \<Rightarrow> string list \<Rightarrow> ShareChain \<Rightarrow> string list \<times> ShareChain" where
  "updateWorkLocked E hs sc =
     (let all = update_all sc hs
      in (all, work_loop E (length all) (work_roots E sc all) sc))"

subsection \<open>The tip\<close>

definition isTipCandidateLocked :: "ShareChain \<Rightarrow> string \<Rightarrow> bool" where
  "isTipCandidateLocked sc h =
     (is_verified sc h \<and> (case held sc h of None \<Rightarrow> False | Some sh \<Rightarrow> s_Hash sh \<noteq> None \<and> \<not> is_stale sh))"

definition tip_eps :: rat where "tip_eps = f64 (1 / 1000000000)"

definition betterTip :: "rat \<Rightarrow> string \<Rightarrow> rat \<Rightarrow> string \<Rightarrow> bool" where
  "betterTip w h bestW bestS \<longleftrightarrow> fadd bestW tip_eps < w \<or> (fsub bestW tip_eps \<le> w \<and> bestS < h)"

text \<open>One round of the selection loops; the best so far is its key.\<close>

definition pick_tip :: "ShareChain \<Rightarrow> string option \<Rightarrow> string \<Rightarrow> string option" where
  "pick_tip sc best h =
     (if isTipCandidateLocked sc h
         \<and> (case best of
              None \<Rightarrow> True
            | Some b \<Rightarrow> betterTip (gm_get 0 (sc_cumWork sc) h) h (gm_get 0 (sc_cumWork sc) b) b)
      then Some h else best)"

definition set_tip :: "ShareChain \<Rightarrow> string option \<Rightarrow> ShareChain" where
  "set_tip sc best =
     (case best of
        None \<Rightarrow> sc
      | Some b \<Rightarrow> sc\<lparr>sc_TipHash := Option.bind (held sc b) s_Hash\<rparr>)"

definition selectTipLocked :: "ShareChain \<Rightarrow> ShareChain" where
  "selectTipLocked sc = set_tip sc (foldl (pick_tip sc) None (gm_keys (sc_shares sc)))"

definition current_tip :: "env \<Rightarrow> ShareChain \<Rightarrow> string option" where
  "current_tip E sc =
     (case sc_TipHash sc of
        Some t \<Rightarrow> if isTipCandidateLocked sc (e_HashString E t) then Some (e_HashString E t) else None
      | None \<Rightarrow> None)"

definition considerTipLocked :: "env \<Rightarrow> string list \<Rightarrow> ShareChain \<Rightarrow> ShareChain" where
  "considerTipLocked E hs sc =
     (let best = foldl (pick_tip sc) (current_tip E sc) hs
      in if best = current_tip E sc then sc else set_tip sc best)"

subsection \<open>Adding, removing, recomputing\<close>

definition markDirtyLocked :: "string \<Rightarrow> ShareChain \<Rightarrow> ShareChain" where
  "markDirtyLocked h sc = sc\<lparr>sc_dirty := gm_set h () (sc_dirty sc)\<rparr>"

text \<open>The swap with the last child and the truncation of the slice.\<close>

fun swap_remove :: "string \<Rightarrow> string list \<Rightarrow> string list" where
  "swap_remove h [] = []"
| "swap_remove h (c # cs) =
     (if c = h then (case rev cs of [] \<Rightarrow> [] | l # r \<Rightarrow> l # rev r) else c # swap_remove h cs)"

definition unlink_child :: "env \<Rightarrow> string \<Rightarrow> Share \<Rightarrow> ShareChain \<Rightarrow> ShareChain" where
  "unlink_child E h sh sc =
     (let p = prevKeyLocked E sh
      in if p = '''' then sc
         else let cs = swap_remove h (kids sc p)
              in sc\<lparr>sc_children := (if cs = [] then gm_del p (sc_children sc) else gm_set p cs (sc_children sc))\<rparr>)"

definition unlinkShareLocked :: "env \<Rightarrow> string \<Rightarrow> ShareChain \<Rightarrow> bool \<times> ShareChain" where
  "unlinkShareLocked E h sc =
     (case held sc h of
        None \<Rightarrow> (False, sc)
      | Some sh \<Rightarrow>
          let cand = isTipCandidateLocked sc h;
              sc1 = unlink_child E h sh sc;
              sc2 = sc1\<lparr>sc_shares := gm_del h (sc_shares sc1), sc_verified := gm_del h (sc_verified sc1),
                        sc_received := gm_del h (sc_received sc1), sc_cumWork := gm_del h (sc_cumWork sc1),
                        sc_chainLen := gm_del h (sc_chainLen sc1)\<rparr>
          in (cand, markDirtyLocked h sc2))"

definition dropWorkLocked :: "env \<Rightarrow> string list \<Rightarrow> bool \<Rightarrow> ShareChain \<Rightarrow> ShareChain" where
  "dropWorkLocked E removed rescan sc =
     (let seeds = concat (map (kids sc) removed);
          (all, sc1) = updateWorkLocked E seeds sc
      in if rescan \<or> list_ex (isTipCandidateLocked sc1) all then selectTipLocked sc1 else sc1)"

fun unlink_all :: "env \<Rightarrow> string list \<Rightarrow> bool \<Rightarrow> ShareChain \<Rightarrow> bool \<times> ShareChain" where
  "unlink_all E [] rescan sc = (rescan, sc)"
| "unlink_all E (h # hs) rescan sc =
     (let (cand, sc1) = unlinkShareLocked E h sc in unlink_all E hs (rescan \<or> cand) sc1)"

definition removeSharesLocked :: "env \<Rightarrow> string list \<Rightarrow> ShareChain \<Rightarrow> ShareChain" where
  "removeSharesLocked E hs sc = (let (rescan, sc1) = unlink_all E hs False sc in dropWorkLocked E hs rescan sc1)"

definition link_held :: "env \<Rightarrow> string \<Rightarrow> ShareChain \<Rightarrow> ShareChain" where
  "link_held E h sc = (case held sc h of Some sh \<Rightarrow> linkLocked E h sh sc | None \<Rightarrow> sc)"

definition addWorkLocked :: "env \<Rightarrow> string list \<Rightarrow> ShareChain \<Rightarrow> ShareChain" where
  "addWorkLocked E hs sc =
     (let sc1 = fold (link_held E) hs sc;
          (all, sc2) = updateWorkLocked E hs sc1
      in considerTipLocked E all sc2)"

definition recomputeWorkAndTipLocked :: "env \<Rightarrow> ShareChain \<Rightarrow> ShareChain" where
  "recomputeWorkAndTipLocked E sc =
     (let sc0 = sc\<lparr>sc_children := [], sc_cumWork := [], sc_chainLen := []\<rparr>;
          sc1 = fold (\<lambda>(h, sh). linkLocked E h sh) (sc_shares sc0) sc0
      in selectTipLocked (snd (updateWorkLocked E (gm_keys (sc_shares sc1)) sc1)))"


subsection \<open>Invariants\<close>

text \<open>The children index lists exactly the held shares built on a key, but for those in \<open>N\<close>.\<close>

definition index_upto :: "env \<Rightarrow> string set \<Rightarrow> ShareChain \<Rightarrow> bool" where
  "index_upto E N sc \<longleftrightarrow> held sc '''' = None
     \<and> (\<forall>p c. c \<in> set (kids sc p) \<longleftrightarrow> p \<noteq> '''' \<and> c \<notin> N \<and> (\<exists>s. held sc c = Some s \<and> prevKeyLocked E s = p))
     \<and> (\<forall>p. distinct (kids sc p))"

abbreviation index_ok :: "env \<Rightarrow> ShareChain \<Rightarrow> bool" where "index_ok E \<equiv> index_upto E {}"

definition work_at :: "env \<Rightarrow> ShareChain \<Rightarrow> string \<Rightarrow> bool" where
  "work_at E sc h \<longleftrightarrow> (\<forall>s. held sc h = Some s \<longrightarrow>
     gm_get 0 (sc_cumWork sc) h = fadd (fst (parent_work E sc s)) (fst (share_work s))
     \<and> gm_get 0 (sc_chainLen sc) h = snd (parent_work E sc s) + snd (share_work s))"

definition work_ok :: "env \<Rightarrow> ShareChain \<Rightarrow> bool" where
  "work_ok E sc \<longleftrightarrow> (\<forall>h. work_at E sc h)"

subsection \<open>The set of shares to update\<close>

lemma work_seeds_props:
  "distinct all \<Longrightarrow> distinct (work_seeds sc hs all)
    \<and> set (work_seeds sc hs all) = set all \<union> {h \<in> set hs. held sc h \<noteq> None}"
  by (induction sc hs all rule: work_seeds.induct) auto

lemma descend_props:
  assumes "distinct all" "set todo \<subseteq> set all" "\<forall>x \<in> set all - set todo. set (gm_get [] ch x) \<subseteq> set all"
  shows "distinct (descend ch todo all) \<and> set all \<subseteq> set (descend ch todo all)
    \<and> (\<forall>x \<in> set (descend ch todo all). set (gm_get [] ch x) \<subseteq> set (descend ch todo all))
    \<and> set (descend ch todo all) \<subseteq> set all \<union> all_kids ch"
  using assms
proof (induction ch todo all rule: descend.induct)
  case (2 ch x todo all)
  let ?new = "add_new (gm_get [] ch x) all"
  have "distinct (all @ ?new)" "set (todo @ ?new) \<subseteq> set (all @ ?new)"
    "\<forall>y \<in> set (all @ ?new) - set (todo @ ?new). set (gm_get [] ch y) \<subseteq> set (all @ ?new)"
    using 2(2-4) by (auto simp: add_new_props)
  note IH = "2.IH"[OF refl this]
  have "set (all @ ?new) \<subseteq> set all \<union> all_kids ch" using kids_in_all[of ch x] by (auto simp: add_new_props)
  then show ?case using IH unfolding descend.simps Let_def by auto
qed auto

lemma kids_held: "index_upto E N sc \<Longrightarrow> c \<in> set (kids sc p) \<Longrightarrow> \<exists>s. held sc c = Some s \<and> prevKeyLocked E s = p"
  by (auto simp: index_upto_def)

lemma index_empty: "index_upto E N sc \<Longrightarrow> held sc '''' = None"
  by (simp add: index_upto_def)

lemma kids_intro:
  "index_upto E N sc \<Longrightarrow> held sc c = Some s \<Longrightarrow> prevKeyLocked E s = p \<Longrightarrow> p \<noteq> '''' \<Longrightarrow> c \<notin> N \<Longrightarrow> c \<in> set (kids sc p)"
  unfolding index_upto_def by blast

lemma kids_distinct: "index_upto E N sc \<Longrightarrow> distinct (kids sc p)"
  unfolding index_upto_def by blast

lemma all_kids_held: "index_upto E N sc \<Longrightarrow> gm_wf (sc_children sc) \<Longrightarrow> c \<in> all_kids (sc_children sc) \<Longrightarrow> held sc c \<noteq> None"
proof -
  assume a: "index_upto E N sc" "gm_wf (sc_children sc)" "c \<in> all_kids (sc_children sc)"
  then obtain p cs where "(p, cs) \<in> set (sc_children sc)" "c \<in> set cs" by (auto simp: all_kids_def)
  then have "map_of (sc_children sc) p = Some cs" "c \<in> set cs" using map_of_is_SomeI[OF a(2)] by blast+
  then have "c \<in> set (kids sc p)" by (simp add: gm_get_def)
  from kids_held[OF a(1) this] show "held sc c \<noteq> None" by auto
qed

lemma update_all_props:
  assumes "index_upto E N sc" "gm_wf (sc_children sc)"
  shows "distinct (update_all sc hs)" "\<And>h. h \<in> set hs \<Longrightarrow> held sc h \<noteq> None \<Longrightarrow> h \<in> set (update_all sc hs)"
    "\<And>x. x \<in> set (update_all sc hs) \<Longrightarrow> set (kids sc x) \<subseteq> set (update_all sc hs)"
    "\<And>x. x \<in> set (update_all sc hs) \<Longrightarrow> held sc x \<noteq> None"
proof -
  let ?s = "work_seeds sc hs []"
  have s: "distinct ?s" "set ?s = {h \<in> set hs. held sc h \<noteq> None}" using work_seeds_props[of "[]" sc hs] by auto
  have "\<forall>x \<in> set ?s - set ?s. set (gm_get [] (sc_children sc) x) \<subseteq> set ?s" by simp
  note d = descend_props[OF s(1) subset_refl this]
  show "distinct (update_all sc hs)" "\<And>h. h \<in> set hs \<Longrightarrow> held sc h \<noteq> None \<Longrightarrow> h \<in> set (update_all sc hs)"
    "\<And>x. x \<in> set (update_all sc hs) \<Longrightarrow> set (kids sc x) \<subseteq> set (update_all sc hs)"
    using d s(2) by (auto simp: update_all_def Let_def)
  show "held sc x \<noteq> None" if "x \<in> set (update_all sc hs)" for x
    using that d s(2) all_kids_held[OF assms] unfolding update_all_def Let_def by blast
qed

subsection \<open>The work loop\<close>

lemma set_work_frame [simp]:
  "sc_shares (set_work E h s sc) = sc_shares sc" "sc_children (set_work E h s sc) = sc_children sc"
  "sc_verified (set_work E h s sc) = sc_verified sc" "sc_received (set_work E h s sc) = sc_received sc"
  "sc_TipHash (set_work E h s sc) = sc_TipHash sc" "sc_dirty (set_work E h s sc) = sc_dirty sc"
  "sc_changes (set_work E h s sc) = sc_changes sc"
  by (simp_all add: set_work_def)

lemma parent_work_cong:
  assumes "held sc' = held sc" "\<And>p. p = prevKeyLocked E s \<Longrightarrow> gm_get 0 (sc_cumWork sc') p = gm_get 0 (sc_cumWork sc) p
    \<and> gm_get 0 (sc_chainLen sc') p = gm_get 0 (sc_chainLen sc) p"
  shows "parent_work E sc' s = parent_work E sc s"
  using assms by (simp add: parent_work_def Let_def)

definition par :: "env \<Rightarrow> ShareChain \<Rightarrow> string \<Rightarrow> string" where
  "par E sc h = prevKeyLocked E (the (held sc h))"

text \<open>What holds between the rounds: \<open>dn\<close> are the shares done, \<open>q\<close> those queued, \<open>D\<close> all to do.\<close>

definition loop_inv :: "env \<Rightarrow> string set \<Rightarrow> ShareChain \<Rightarrow> string list \<Rightarrow> string list \<Rightarrow> ShareChain \<Rightarrow> bool" where
  "loop_inv E D sc0 dn q sc \<longleftrightarrow>
     sc_shares sc = sc_shares sc0 \<and> sc_children sc = sc_children sc0
     \<and> distinct (dn @ q) \<and> set (dn @ q) \<subseteq> D
     \<and> (\<forall>h \<in> set (dn @ q). par E sc0 h \<notin> D \<or> par E sc0 h \<in> set dn)
     \<and> (\<forall>h \<in> D. par E sc0 h \<notin> D \<or> par E sc0 h \<in> set dn \<longrightarrow> h \<in> set (dn @ q))
     \<and> (\<forall>h \<in> set dn. work_at E sc h)
     \<and> (\<forall>h. h \<notin> set dn \<longrightarrow> gm_get 0 (sc_cumWork sc) h = gm_get 0 (sc_cumWork sc0) h
                            \<and> gm_get 0 (sc_chainLen sc) h = gm_get 0 (sc_chainLen sc0) h)"

lemma set_work_at_self:
  assumes "held sc h = Some s" "prevKeyLocked E s \<noteq> h" shows "work_at E (set_work E h s sc) h"
proof -
  have "parent_work E (set_work E h s sc) s = parent_work E sc s"
    using assms(2) by (intro parent_work_cong) (simp_all add: set_work_def)
  then show ?thesis using assms(1) by (simp add: work_at_def) (simp add: set_work_def)
qed

lemma set_work_at_other:
  assumes "work_at E sc k" "k \<noteq> h" "\<And>s. held sc k = Some s \<Longrightarrow> prevKeyLocked E s \<noteq> h"
  shows "work_at E (set_work E h s0 sc) k"
proof -
  have "parent_work E (set_work E h s0 sc) s = parent_work E sc s" if "held sc k = Some s" for s
    using assms(3)[OF that] by (intro parent_work_cong) (simp_all add: set_work_def)
  then show ?thesis using assms(1,2) by (simp add: work_at_def) (simp add: set_work_def)
qed

lemma loop_step:
  assumes inv: "loop_inv E D sc0 dn (h # q) sc" and ix: "index_ok E sc0"
    and D: "\<forall>x \<in> D. set (kids sc0 x) \<subseteq> D" "\<forall>x \<in> D. held sc0 x \<noteq> None"
    and s: "held sc h = Some s"
  shows "loop_inv E D sc0 (dn @ [h]) (q @ kids sc h) (set_work E h s sc)"
proof -
  note i = inv[unfolded loop_inv_def]
  have sh: "sc_shares sc = sc_shares sc0" "sc_children sc = sc_children sc0" using i by blast+
  have hD: "h \<in> D" "h \<notin> set dn" "h \<notin> set q" "distinct dn" "distinct q" "set dn \<inter> set q = {}" using i by auto
  have ps: "prevKeyLocked E s = par E sc0 h" using s sh by (simp add: par_def)
  have notpar: "par E sc0 k \<noteq> h" if "k \<in> set (dn @ h # q)" for k using i hD that by metis
  have kid: "c \<in> D \<and> par E sc0 c = h" if "c \<in> set (kids sc h)" for c
    using that kids_held[OF ix, of c h] D(1) hD(1) sh by (auto simp: par_def)
  then have fresh: "set (kids sc h) \<inter> set (dn @ h # q) = {}" using notpar by blast
  have dk: "distinct (kids sc h)" using kids_distinct[OF ix] sh by simp
  have "work_at E (set_work E h s sc) k" if "k \<in> set (dn @ [h])" for k
  proof (cases "k = h")
    case True
    then show ?thesis using set_work_at_self[OF s] notpar[of h] ps by simp
  next
    case False
    then have "k \<in> set dn" using that by simp
    then show ?thesis using i False notpar[of k] sh by (intro set_work_at_other) (auto simp: par_def)
  qed
  moreover have "k \<in> set ((dn @ [h]) @ q @ kids sc h)"
    if kD: "k \<in> D" and kp: "par E sc0 k \<notin> D \<or> par E sc0 k \<in> set (dn @ [h])" for k
  proof (cases "par E sc0 k = h")
    case same: True
    obtain t where "held sc0 k = Some t" using bspec[OF D(2) kD] by auto
    moreover have "h \<noteq> ''''" using s index_empty[OF ix] sh by auto
    ultimately have "k \<in> set (kids sc0 h)" using kids_intro[OF ix, of k t h] same by (simp add: par_def)
    then show ?thesis using sh by simp
  next
    case False
    then have "par E sc0 k \<notin> D \<or> par E sc0 k \<in> set dn" using kp by auto
    then have "k \<in> set (dn @ h # q)" using i kD by blast
    then show ?thesis by auto
  qed
  moreover have "distinct ((dn @ [h]) @ q @ kids sc h)" "set ((dn @ [h]) @ q @ kids sc h) \<subseteq> D"
    using hD fresh dk kid i by auto
  moreover have "par E sc0 k \<notin> D \<or> par E sc0 k \<in> set (dn @ [h])" if "k \<in> set ((dn @ [h]) @ q @ kids sc h)" for k
  proof (cases "k \<in> set (kids sc h)")
    case True
    then show ?thesis using kid by simp
  next
    case False
    then have "k \<in> set (dn @ h # q)" using that by auto
    then have "par E sc0 k \<notin> D \<or> par E sc0 k \<in> set dn" using i by blast
    then show ?thesis by auto
  qed
  moreover have "gm_get 0 (sc_cumWork (set_work E h s sc)) k = gm_get 0 (sc_cumWork sc0) k
      \<and> gm_get 0 (sc_chainLen (set_work E h s sc)) k = gm_get 0 (sc_chainLen sc0) k" if "k \<notin> set (dn @ [h])" for k
    using that i by (simp add: set_work_def)
  ultimately show ?thesis unfolding loop_inv_def using sh by (simp only: set_work_frame simp_thms ball_simps) blast
qed

lemma work_loop_done:
  assumes "loop_inv E D sc0 dn q sc" "index_ok E sc0" "finite D" "card D \<le> n + length dn"
    and D: "\<forall>x \<in> D. set (kids sc0 x) \<subseteq> D" "\<forall>x \<in> D. held sc0 x \<noteq> None"
  shows "\<exists>dn'. loop_inv E D sc0 dn' [] (work_loop E n q sc)"
  using assms(1,4)
proof (induction n arbitrary: dn q sc)
  case 0
  have "distinct (dn @ q)" "set (dn @ q) \<subseteq> D" using "0.prems"(1) by (simp_all add: loop_inv_def)
  then have "length (dn @ q) \<le> card D" using assms(3) by (metis card_mono distinct_card)
  then have "length q = 0" using "0.prems"(2) unfolding length_append by linarith
  then have "q = []" by simp
  then show ?case using "0.prems"(1) by auto
next
  case (Suc n)
  show ?case
  proof (cases q)
    case Nil
    then show ?thesis using Suc.prems(1) by auto
  next
    case (Cons h r)
    have "h \<in> D" "sc_shares sc = sc_shares sc0" using Suc.prems(1) Cons by (auto simp: loop_inv_def)
    then obtain s where s: "held sc h = Some s" using D(2) by (metis option.exhaust)
    have "loop_inv E D sc0 (dn @ [h]) (r @ kids sc h) (set_work E h s sc)"
      using loop_step[OF _ assms(2) D s] Suc.prems(1) Cons by blast
    from Suc.IH[OF this] show ?thesis using Suc.prems(2) s Cons by simp
  qed
qed


lemma work_loop_more:
  assumes "loop_inv E D sc0 dn q sc" "index_ok E sc0" "finite D" "card D \<le> n + length dn"
    and D: "\<forall>x \<in> D. set (kids sc0 x) \<subseteq> D" "\<forall>x \<in> D. held sc0 x \<noteq> None"
  shows "work_loop E (n + k) q sc = work_loop E n q sc"
  using assms(1,4)
proof (induction n arbitrary: dn q sc)
  case 0
  have "distinct (dn @ q)" "set (dn @ q) \<subseteq> D" using "0.prems"(1) by (simp_all add: loop_inv_def)
  then have "length (dn @ q) \<le> card D" using assms(3) by (metis card_mono distinct_card)
  then have "length q = 0" using "0.prems"(2) unfolding length_append by linarith
  then show ?case by (cases k) auto
next
  case (Suc n)
  show ?case
  proof (cases q)
    case (Cons h r)
    have "h \<in> D" "sc_shares sc = sc_shares sc0" using Suc.prems(1) Cons by (auto simp: loop_inv_def)
    then obtain s where s: "held sc h = Some s" using D(2) by (metis option.exhaust)
    have "loop_inv E D sc0 (dn @ [h]) (r @ kids sc h) (set_work E h s sc)"
      using loop_step[OF _ assms(2) D s] Suc.prems(1) Cons by blast
    from Suc.IH[OF this] show ?thesis using Suc.prems(2) s Cons by simp
  qed simp
qed

lemma work_loop_frame [simp]:
  "sc_shares (work_loop E n q sc) = sc_shares sc \<and> sc_children (work_loop E n q sc) = sc_children sc
    \<and> sc_verified (work_loop E n q sc) = sc_verified sc \<and> sc_received (work_loop E n q sc) = sc_received sc
    \<and> sc_TipHash (work_loop E n q sc) = sc_TipHash sc \<and> sc_dirty (work_loop E n q sc) = sc_dirty sc
    \<and> sc_changes (work_loop E n q sc) = sc_changes sc"
  by (induction E n q sc rule: work_loop.induct) (auto split: option.split)

lemma updateWork_frame [simp]:
  "sc_shares (snd (updateWorkLocked E hs sc)) = sc_shares sc" "sc_children (snd (updateWorkLocked E hs sc)) = sc_children sc"
  "sc_verified (snd (updateWorkLocked E hs sc)) = sc_verified sc" "sc_received (snd (updateWorkLocked E hs sc)) = sc_received sc"
  "sc_TipHash (snd (updateWorkLocked E hs sc)) = sc_TipHash sc" "sc_dirty (snd (updateWorkLocked E hs sc)) = sc_dirty sc"
  "sc_changes (snd (updateWorkLocked E hs sc)) = sc_changes sc"
  by (simp_all add: updateWorkLocked_def Let_def)

lemma par_step:
  assumes "ranked E (sc_shares sc) r" "held sc h = Some s" "held sc (par E sc h) \<noteq> None" "par E sc h \<noteq> ''''"
  shows "r (par E sc h) < r h"
proof -
  have "\<not> no_parent (share_prev s)" "par E sc h = prev_key E s"
    using assms(2,4) by (auto simp: par_def prevKeyLocked_def split: if_splits)
  then show ?thesis using assms(1,2,3) unfolding ranked_def by metis
qed

lemma roots_inv:
  assumes "index_ok E sc" "distinct all" "\<forall>x \<in> set all. held sc x \<noteq> None"
  shows "loop_inv E (set all) sc [] (work_roots E sc all) sc"
proof -
  have "'''' \<notin> set all" using assms(3) index_empty[OF assms(1)] by metis
  then have "h \<in> set (work_roots E sc all) \<longleftrightarrow> h \<in> set all \<and> par E sc h \<notin> set all" for h
    using assms(3) by (auto simp: work_roots_def par_def split: option.splits)
  moreover have "distinct (work_roots E sc all)" using assms(2) by (simp add: work_roots_def)
  ultimately show ?thesis by (auto simp: loop_inv_def)
qed

lemma update_outcome:
  assumes ix: "index_ok E sc" and ch: "gm_wf (sc_children sc)" and rk: "ranked E (sc_shares sc) r"
  shows "\<exists>dn. loop_inv E (set (update_all sc hs)) sc dn [] (snd (updateWorkLocked E hs sc))
    \<and> set dn = set (update_all sc hs)"
proof -
  let ?all = "update_all sc hs"
  note up = update_all_props[OF ix ch, where hs = hs]
  have D: "\<forall>x \<in> set ?all. set (kids sc x) \<subseteq> set ?all" "\<forall>x \<in> set ?all. held sc x \<noteq> None" using up(3,4) by blast+
  have "loop_inv E (set ?all) sc [] (work_roots E sc ?all) sc" using roots_inv[OF ix up(1) D(2)] .
  from work_loop_done[OF this ix _ _ D, of "length ?all"] up(1)
  obtain dn where dn: "loop_inv E (set ?all) sc dn [] (snd (updateWorkLocked E hs sc))"
    by (auto simp: updateWorkLocked_def Let_def distinct_card)
  have "h \<in> set dn" if "h \<in> set ?all" for h
    using that
  proof (induction "r h" arbitrary: h rule: less_induct)
    case less
    obtain s where s: "held sc h = Some s" using bspec[OF D(2) less.prems] by auto
    have "par E sc h \<in> set dn" if p: "par E sc h \<in> set ?all"
    proof -
      have "held sc (par E sc h) \<noteq> None" using D(2) p by blast
      moreover have "par E sc h \<noteq> ''''" using calculation index_empty[OF ix] by metis
      ultimately have "r (par E sc h) < r h" using par_step[OF rk s] by blast
      then show ?thesis using less.hyps p by blast
    qed
    moreover have "par E sc h \<notin> set ?all \<or> par E sc h \<in> set dn \<Longrightarrow> h \<in> set (dn @ [])"
      using dn less.prems unfolding loop_inv_def by blast
    ultimately show ?case by auto
  qed
  moreover have "set (dn @ []) \<subseteq> set ?all" using dn unfolding loop_inv_def by blast
  ultimately have "set dn = set ?all" by auto
  then show ?thesis using dn by blast
qed

lemma updateWork_restores:
  assumes ix: "index_ok E sc" and ch: "gm_wf (sc_children sc)" and rk: "ranked E (sc_shares sc) r"
    and out: "\<And>h. h \<notin> set (update_all sc hs) \<Longrightarrow> work_at E sc h"
  shows "work_ok E (snd (updateWorkLocked E hs sc))"
proof -
  let ?D = "set (update_all sc hs)" and ?sc' = "snd (updateWorkLocked E hs sc)"
  obtain dn where dn: "loop_inv E ?D sc dn [] ?sc'" "set dn = ?D" using update_outcome[OF ix ch rk] by blast
  have "work_at E ?sc' h" if h: "h \<notin> ?D" for h
  proof -
    have same: "gm_get 0 (sc_cumWork ?sc') k = gm_get 0 (sc_cumWork sc) k
        \<and> gm_get 0 (sc_chainLen ?sc') k = gm_get 0 (sc_chainLen sc) k" if "k \<notin> ?D" for k
      using dn that by (simp add: loop_inv_def)
    have "parent_work E ?sc' s = parent_work E sc s" if s: "held sc h = Some s" for s
    proof (cases "prevKeyLocked E s = '''' \<or> held sc (prevKeyLocked E s) = None")
      case True
      then show ?thesis by (auto simp: parent_work_def)
    next
      case False
      then have "h \<in> set (kids sc (prevKeyLocked E s))" using kids_intro[OF ix s refl] by simp
      then have "prevKeyLocked E s \<notin> ?D" using update_all_props(3)[OF ix ch] h by blast
      then show ?thesis using same by (intro parent_work_cong) simp_all
    qed
    then show ?thesis using out[OF h] same[OF h] by (simp add: work_at_def)
  qed
  moreover have "work_at E ?sc' h" if "h \<in> ?D" for h using dn that by (simp add: loop_inv_def)
  ultimately show ?thesis unfolding work_ok_def by blast
qed



subsection \<open>Linking and unlinking keep the index\<close>

lemma link_frame [simp]:
  "sc_shares (linkLocked E h s sc) = sc_shares sc" "sc_cumWork (linkLocked E h s sc) = sc_cumWork sc"
  "sc_chainLen (linkLocked E h s sc) = sc_chainLen sc" "sc_verified (linkLocked E h s sc) = sc_verified sc"
  "sc_received (linkLocked E h s sc) = sc_received sc" "sc_TipHash (linkLocked E h s sc) = sc_TipHash sc"
  "sc_dirty (linkLocked E h s sc) = sc_dirty sc" "sc_changes (linkLocked E h s sc) = sc_changes sc"
  by (simp_all add: linkLocked_def Let_def)

lemma kids_link: "kids (linkLocked E h s sc) p =
  (if p = prevKeyLocked E s \<and> p \<noteq> '''' then kids sc p @ [h] else kids sc p)"
  by (simp add: linkLocked_def Let_def)

lemma link_wf: "gm_wf (sc_children sc) \<Longrightarrow> gm_wf (sc_children (linkLocked E h s sc))"
  by (simp add: linkLocked_def Let_def)

lemma index_link:
  assumes "index_upto E N sc" "h \<in> N" "held sc h = Some s"
  shows "index_upto E (N - {h}) (linkLocked E h s sc)"
proof -
  have "h \<notin> set (kids sc p)" for p using assms(1,2) unfolding index_upto_def by blast
  then have "c \<in> set (kids (linkLocked E h s sc) p) \<longleftrightarrow>
      p \<noteq> '''' \<and> c \<notin> N - {h} \<and> (\<exists>t. held sc c = Some t \<and> prevKeyLocked E t = p)" for p c
    using assms unfolding index_upto_def kids_link by (cases "c = h") auto
  then show ?thesis
    using assms(1) \<open>\<And>p. h \<notin> set (kids sc p)\<close> by (simp add: index_upto_def kids_link)
qed

lemma link_held_frame [simp]:
  "sc_shares (link_held E h sc) = sc_shares sc" "sc_cumWork (link_held E h sc) = sc_cumWork sc"
  "sc_chainLen (link_held E h sc) = sc_chainLen sc" "sc_verified (link_held E h sc) = sc_verified sc"
  "sc_received (link_held E h sc) = sc_received sc" "sc_TipHash (link_held E h sc) = sc_TipHash sc"
  "sc_dirty (link_held E h sc) = sc_dirty sc" "sc_changes (link_held E h sc) = sc_changes sc"
  by (simp_all add: link_held_def split: option.split)

lemma fold_link_frame [simp]:
  "sc_shares (fold (link_held E) hs sc) = sc_shares sc" "sc_cumWork (fold (link_held E) hs sc) = sc_cumWork sc"
  "sc_chainLen (fold (link_held E) hs sc) = sc_chainLen sc" "sc_verified (fold (link_held E) hs sc) = sc_verified sc"
  "sc_received (fold (link_held E) hs sc) = sc_received sc" "sc_TipHash (fold (link_held E) hs sc) = sc_TipHash sc"
  "sc_dirty (fold (link_held E) hs sc) = sc_dirty sc" "sc_changes (fold (link_held E) hs sc) = sc_changes sc"
  by (induction hs arbitrary: sc) simp_all

lemma fold_link_index:
  assumes "index_upto E (set hs) sc" "gm_wf (sc_children sc)" "distinct hs" "\<forall>h \<in> set hs. held sc h \<noteq> None"
  shows "index_ok E (fold (link_held E) hs sc) \<and> gm_wf (sc_children (fold (link_held E) hs sc))"
  using assms
proof (induction hs arbitrary: sc)
  case (Cons h hs)
  obtain s where s: "held sc h = Some s" using Cons.prems(4) by auto
  have "set (h # hs) - {h} = set hs" using Cons.prems(3) by auto
  then have "index_upto E (set hs) (link_held E h sc)"
    using index_link[OF Cons.prems(1) _ s] s by (simp add: link_held_def)
  moreover have "gm_wf (sc_children (link_held E h sc))"
    using Cons.prems(2) s by (simp add: link_held_def link_wf)
  ultimately show ?case using Cons by simp
qed simp

lemma swap_remove_set: "distinct cs \<Longrightarrow> set (swap_remove h cs) = set cs - {h} \<and> distinct (swap_remove h cs)"
proof (induction cs)
  case (Cons c cs)
  show ?case
  proof (cases "c = h")
    case True
    show ?thesis
    proof (cases cs rule: rev_cases)
      case Nil
      then show ?thesis using True by simp
    next
      case (snoc r l)
      then show ?thesis using True Cons.prems by auto
    qed
  next
    case False
    then show ?thesis using Cons by auto
  qed
qed simp

lemma unlink_child_frame [simp]:
  "sc_shares (unlink_child E h s sc) = sc_shares sc" "sc_cumWork (unlink_child E h s sc) = sc_cumWork sc"
  "sc_chainLen (unlink_child E h s sc) = sc_chainLen sc" "sc_verified (unlink_child E h s sc) = sc_verified sc"
  "sc_received (unlink_child E h s sc) = sc_received sc" "sc_TipHash (unlink_child E h s sc) = sc_TipHash sc"
  "sc_dirty (unlink_child E h s sc) = sc_dirty sc" "sc_changes (unlink_child E h s sc) = sc_changes sc"
  by (simp_all add: unlink_child_def Let_def)

lemma kids_unlink_child: "kids (unlink_child E h s sc) p =
  (if p = prevKeyLocked E s \<and> p \<noteq> '''' then swap_remove h (kids sc p) else kids sc p)"
  by (simp add: unlink_child_def Let_def)

lemma unlink_frame [simp]:
  "map_of (sc_shares (snd (unlinkShareLocked E h sc))) = (map_of (sc_shares sc))(h := None)"
  "sc_TipHash (snd (unlinkShareLocked E h sc)) = sc_TipHash sc"
  "sc_changes (snd (unlinkShareLocked E h sc)) = sc_changes sc"
  by (auto simp: unlinkShareLocked_def Let_def markDirtyLocked_def split: option.split)

lemma unlink_get:
  assumes "k \<noteq> h"
  shows "gm_get 0 (sc_cumWork (snd (unlinkShareLocked E h sc))) k = gm_get 0 (sc_cumWork sc) k"
    "gm_get 0 (sc_chainLen (snd (unlinkShareLocked E h sc))) k = gm_get 0 (sc_chainLen sc) k"
    "gm_get False (sc_verified (snd (unlinkShareLocked E h sc))) k = gm_get False (sc_verified sc) k"
  using assms by (simp_all add: unlinkShareLocked_def Let_def markDirtyLocked_def split: option.split)

lemma index_unlink:
  assumes ix: "index_ok E sc" shows "index_ok E (snd (unlinkShareLocked E h sc))"
proof (cases "held sc h")
  case None
  then show ?thesis using ix by (simp add: unlinkShareLocked_def)
next
  case (Some s)
  let ?sc' = "snd (unlinkShareLocked E h sc)"
  have k: "kids ?sc' p = (if p = prevKeyLocked E s \<and> p \<noteq> '''' then swap_remove h (kids sc p) else kids sc p)" for p
    using Some kids_unlink_child[of E h s sc p] by (simp add: unlinkShareLocked_def Let_def markDirtyLocked_def)
  have "c \<in> set (kids ?sc' p) \<longleftrightarrow> p \<noteq> '''' \<and> c \<noteq> h \<and> (\<exists>t. held sc c = Some t \<and> prevKeyLocked E t = p)" for p c
    using ix Some swap_remove_set[OF kids_distinct[OF ix], of h p] unfolding k index_upto_def by (cases "c = h") auto
  moreover have "distinct (kids ?sc' p)" for p
    using swap_remove_set[OF kids_distinct[OF ix], of h p] kids_distinct[OF ix, of p] unfolding k by auto
  ultimately show ?thesis using index_empty[OF ix] by (auto simp: index_upto_def)
qed

lemma unlink_wf:
  "gm_wf (sc_children sc) \<Longrightarrow> gm_wf (sc_children (snd (unlinkShareLocked E h sc)))"
  "gm_wf (sc_shares sc) \<Longrightarrow> gm_wf (sc_shares (snd (unlinkShareLocked E h sc)))"
  by (auto simp: unlinkShareLocked_def Let_def markDirtyLocked_def unlink_child_def split: option.split)


subsection \<open>Every operation keeps the chain consistent\<close>

definition chain_ok :: "env \<Rightarrow> ShareChain \<Rightarrow> bool" where
  "chain_ok E sc \<longleftrightarrow> index_ok E sc \<and> gm_wf (sc_shares sc) \<and> gm_wf (sc_children sc) \<and> work_ok E sc"

text \<open>It only speaks of the shares, the index and the work maps.\<close>

lemma chain_ok_cong:
  assumes "sc_shares sc' = sc_shares sc" "sc_children sc' = sc_children sc"
    "sc_cumWork sc' = sc_cumWork sc" "sc_chainLen sc' = sc_chainLen sc"
  shows "chain_ok E sc' \<longleftrightarrow> chain_ok E sc"
  using assms by (simp add: chain_ok_def index_upto_def work_ok_def work_at_def parent_work_def Let_def)

lemma set_tip_frame [simp]:
  "sc_shares (set_tip sc b) = sc_shares sc" "sc_children (set_tip sc b) = sc_children sc"
  "sc_cumWork (set_tip sc b) = sc_cumWork sc" "sc_chainLen (set_tip sc b) = sc_chainLen sc"
  "sc_verified (set_tip sc b) = sc_verified sc" "sc_received (set_tip sc b) = sc_received sc"
  "sc_dirty (set_tip sc b) = sc_dirty sc" "sc_changes (set_tip sc b) = sc_changes sc"
  by (simp_all add: set_tip_def split: option.split)

lemma selectTip_frame [simp]:
  "sc_shares (selectTipLocked sc) = sc_shares sc" "sc_children (selectTipLocked sc) = sc_children sc"
  "sc_cumWork (selectTipLocked sc) = sc_cumWork sc" "sc_chainLen (selectTipLocked sc) = sc_chainLen sc"
  "sc_verified (selectTipLocked sc) = sc_verified sc" "sc_received (selectTipLocked sc) = sc_received sc"
  "sc_dirty (selectTipLocked sc) = sc_dirty sc" "sc_changes (selectTipLocked sc) = sc_changes sc"
  by (simp_all add: selectTipLocked_def)

lemma considerTip_frame [simp]:
  "sc_shares (considerTipLocked E hs sc) = sc_shares sc" "sc_children (considerTipLocked E hs sc) = sc_children sc"
  "sc_cumWork (considerTipLocked E hs sc) = sc_cumWork sc" "sc_chainLen (considerTipLocked E hs sc) = sc_chainLen sc"
  "sc_verified (considerTipLocked E hs sc) = sc_verified sc" "sc_received (considerTipLocked E hs sc) = sc_received sc"
  "sc_dirty (considerTipLocked E hs sc) = sc_dirty sc" "sc_changes (considerTipLocked E hs sc) = sc_changes sc"
  by (simp_all add: considerTipLocked_def Let_def)

lemma chain_ok_tip [simp]:
  "chain_ok E (selectTipLocked sc) = chain_ok E sc" "chain_ok E (considerTipLocked E' hs sc) = chain_ok E sc"
  by (rule chain_ok_cong; simp)+

lemma chain_ok_update:
  assumes "index_ok E sc" "gm_wf (sc_shares sc)" "gm_wf (sc_children sc)" "ranked E (sc_shares sc) r"
    "\<And>h. h \<notin> set (update_all sc hs) \<Longrightarrow> work_at E sc h"
  shows "chain_ok E (snd (updateWorkLocked E hs sc))"
proof -
  have "index_ok E (snd (updateWorkLocked E hs sc))" using assms(1) by (simp add: index_upto_def)
  then show ?thesis using assms updateWork_restores[OF assms(1,3,4,5)] by (simp add: chain_ok_def)
qed

text \<open>Removal.\<close>

lemma unlink_all_props:
  fixes hs :: "string list" and b :: bool
  assumes "index_ok E sc" "gm_wf (sc_shares sc)" "gm_wf (sc_children sc)"
  defines "sc' \<equiv> snd (unlink_all E hs b sc)"
  shows "index_ok E sc' \<and> gm_wf (sc_shares sc') \<and> gm_wf (sc_children sc')
    \<and> map_of (sc_shares sc') = map_of (sc_shares sc) |` (- set hs)
    \<and> (\<forall>k. k \<notin> set hs \<longrightarrow> gm_get 0 (sc_cumWork sc') k = gm_get 0 (sc_cumWork sc) k
         \<and> gm_get 0 (sc_chainLen sc') k = gm_get 0 (sc_chainLen sc) k
         \<and> is_verified sc' k = is_verified sc k)
    \<and> sc_TipHash sc' = sc_TipHash sc"
  using assms(1-3) unfolding sc'_def
proof (induction hs arbitrary: sc b)
  case (Cons h hs)
  let ?sc1 = "snd (unlinkShareLocked E h sc)"
  let ?cand = "fst (unlinkShareLocked E h sc)"
  have "index_ok E ?sc1" "gm_wf (sc_shares ?sc1)" "gm_wf (sc_children ?sc1)"
    using Cons.prems index_unlink unlink_wf by blast+
  note IH = Cons.IH[OF this, of "b \<or> ?cand"]
  have mo: "map_of (sc_shares ?sc1) |` (- set hs) = map_of (sc_shares sc) |` (- set (h # hs))"
    by (rule ext) (auto simp: restrict_map_def)
  have eq: "snd (unlink_all E (h # hs) b sc) = snd (unlink_all E hs (b \<or> ?cand) ?sc1)" by (simp add: case_prod_beta)
  have g: "k \<notin> set hs \<and> k \<noteq> h" if "k \<notin> set (h # hs)" for k using that by simp
  have t: "sc_TipHash ?sc1 = sc_TipHash sc" by (rule unlink_frame)
  show ?case unfolding eq
    using IH mo t g unlink_get by (intro conjI allI impI) (metis+)
qed (auto simp: restrict_map_def)

lemma ranked_sub: "ranked E m r \<Longrightarrow> map_of m' \<subseteq>\<^sub>m map_of m \<Longrightarrow> ranked E m' r"
  unfolding ranked_def map_le_def dom_def by (metis (mono_tags, lifting) mem_Collect_eq option.distinct(1))

lemma dropWork_ok:
  assumes ix: "index_ok E sc" "gm_wf (sc_shares sc)" "gm_wf (sc_children sc)" and rk: "ranked E (sc_shares sc) r"
    and out: "\<And>h s. held sc h = Some s \<Longrightarrow> prevKeyLocked E s = '''' \<or> prevKeyLocked E s \<notin> set removed \<Longrightarrow> work_at E sc h"
  shows "chain_ok E (dropWorkLocked E removed b sc)"
proof -
  let ?seeds = "concat (map (kids sc) removed)"
  have "work_at E sc h" if h: "h \<notin> set (update_all sc ?seeds)" for h
  proof (cases "held sc h")
    case (Some s)
    have "prevKeyLocked E s = '''' \<or> prevKeyLocked E s \<notin> set removed"
    proof (rule ccontr)
      assume "\<not> ?thesis"
      then have "h \<in> set ?seeds" using kids_intro[OF ix(1) Some refl] by auto
      then show False using h update_all_props(2)[OF ix(1,3), of h ?seeds] Some by simp
    qed
    then show ?thesis using out Some by blast
  qed (simp add: work_at_def)
  then have "chain_ok E (snd (updateWorkLocked E ?seeds sc))"
    using chain_ok_update[OF ix(1,2,3) rk] by blast
  then show ?thesis by (simp add: dropWorkLocked_def Let_def split: prod.split) (metis snd_conv)
qed


lemma removeShares_ok:
  assumes "chain_ok E sc" "ranked E (sc_shares sc) r"
  shows "chain_ok E (removeSharesLocked E hs sc)
    \<and> map_of (sc_shares (removeSharesLocked E hs sc)) = map_of (sc_shares sc) |` (- set hs)"
proof -
  let ?b = "fst (unlink_all E hs False sc)" and ?sc1 = "snd (unlink_all E hs False sc)"
  have rem: "removeSharesLocked E hs sc = dropWorkLocked E hs ?b ?sc1"
    by (simp add: removeSharesLocked_def case_prod_beta)
  have ok: "index_ok E sc" "gm_wf (sc_shares sc)" "gm_wf (sc_children sc)" "work_ok E sc"
    using assms(1) by (simp_all add: chain_ok_def)
  note u = unlink_all_props[OF ok(1-3), of hs False]
  have m: "held ?sc1 h = (if h \<in> set hs then None else held sc h)" for h using u by (simp add: restrict_map_def)
  have "map_of (sc_shares ?sc1) \<subseteq>\<^sub>m map_of (sc_shares sc)" using m by (auto simp: map_le_def dom_def)
  then have rk: "ranked E (sc_shares ?sc1) r" using ranked_sub[OF assms(2)] by blast
  have "work_at E ?sc1 h" if h: "held ?sc1 h = Some s" and p: "prevKeyLocked E s = '''' \<or> prevKeyLocked E s \<notin> set hs" for h s
  proof -
    have hn: "h \<notin> set hs" "held sc h = Some s" using h m[of h] by (auto split: if_splits)
    have "parent_work E ?sc1 s = parent_work E sc s"
      using p u m[of "prevKeyLocked E s"] unfolding parent_work_def Let_def by auto
    then show ?thesis using ok(4) hn h u unfolding work_ok_def work_at_def by simp
  qed
  then have "chain_ok E (dropWorkLocked E hs ?b ?sc1)"
    using dropWork_ok[OF _ _ _ rk] u by blast
  moreover have "sc_shares (dropWorkLocked E hs ?b ?sc1) = sc_shares ?sc1"
    by (simp add: dropWorkLocked_def Let_def case_prod_beta)
  ultimately show ?thesis using u rem by simp
qed

text \<open>Removing any list of shares from a consistent chain leaves a consistent chain without
  exactly these shares: the index has no dangling entry and every descendant lost the removed work.\<close>

theorem removeSharesLocked_consistent:
  assumes "chain_ok E sc" "ranked E (sc_shares sc) r"
  shows "chain_ok E (removeSharesLocked E hs sc)
    \<and> map_of (sc_shares (removeSharesLocked E hs sc)) = map_of (sc_shares sc) |` (- set hs)"
  by (rule removeShares_ok[OF assms])

text \<open>Addition: the shares are stored first, then linked and weighed.\<close>

definition stored :: "(string \<times> Share) list \<Rightarrow> ShareChain \<Rightarrow> ShareChain \<Rightarrow> bool" where
  "stored kvs sc sc1 \<longleftrightarrow>
     map_of (sc_shares sc1) = map_of (sc_shares sc) ++ map_of kvs \<and> gm_wf (sc_shares sc1)
     \<and> gm_wf kvs \<and> (\<forall>h \<in> set (gm_keys kvs). held sc h = None \<and> h \<noteq> '''')
     \<and> sc_children sc1 = sc_children sc \<and> sc_cumWork sc1 = sc_cumWork sc \<and> sc_chainLen sc1 = sc_chainLen sc"

lemma stored_old: assumes "stored kvs sc sc1" "h \<notin> set (gm_keys kvs)" shows "held sc1 h = held sc h"
proof -
  have "map_of kvs h = None" using assms(2) by (simp add: map_of_eq_None_iff)
  then show ?thesis using assms(1) by (simp add: stored_def map_add_def)
qed

lemma stored_new:
  assumes "stored kvs sc sc1" "h \<in> set (gm_keys kvs)"
  shows "held sc1 h \<noteq> None" "held sc h = None" "h \<noteq> ''''"
proof -
  obtain v where "map_of kvs h = Some v" using assms(2) by (auto simp: set_gm_keys simp del: set_map)
  then show "held sc1 h \<noteq> None" using assms(1) by (simp add: stored_def map_add_def)
  show "held sc h = None" "h \<noteq> ''''" using assms unfolding stored_def by blast+
qed

lemma stored_index:
  assumes "index_ok E sc" "stored kvs sc sc1" shows "index_upto E (set (gm_keys kvs)) sc1"
proof -
  have ch: "sc_children sc1 = sc_children sc" using assms(2) by (simp add: stored_def)
  have e: "held sc1 '''' = None"
    using stored_old[OF assms(2), of "''''"] stored_new(3)[OF assms(2), of "''''"] index_empty[OF assms(1)] by fastforce
  have "c \<in> set (kids sc1 p) \<longleftrightarrow> p \<noteq> '''' \<and> c \<notin> set (gm_keys kvs) \<and> (\<exists>s. held sc1 c = Some s \<and> prevKeyLocked E s = p)" for p c
  proof (cases "c \<in> set (gm_keys kvs)")
    case True
    then have "c \<notin> set (kids sc p)" using kids_held[OF assms(1)] stored_new(2)[OF assms(2)] by fastforce
    then show ?thesis using True ch by simp
  next
    case False
    then show ?thesis using assms(1) stored_old[OF assms(2)] ch unfolding index_upto_def by simp
  qed
  then show ?thesis using e kids_distinct[OF assms(1)] ch unfolding index_upto_def by simp
qed

lemma addWork_ok:
  assumes ok: "chain_ok E sc" and st: "stored kvs sc sc1" and rk: "ranked E (sc_shares sc1) r"
  shows "chain_ok E (addWorkLocked E (gm_keys kvs) sc1)"
proof -
  let ?hs = "gm_keys kvs"
  let ?sc2 = "fold (link_held E) ?hs sc1"
  have c: "index_ok E sc" "gm_wf (sc_children sc)" "work_ok E sc" using ok by (simp_all add: chain_ok_def)
  note h1 = stored_new(1)[OF st] and h2 = stored_old[OF st]
  have kw: "gm_wf kvs" "gm_wf (sc_children sc1)" using st c(2) by (simp_all add: stored_def)
  have cw: "sc_cumWork sc1 = sc_cumWork sc" "sc_chainLen sc1 = sc_chainLen sc" using st by (simp_all add: stored_def)
  have i2: "index_ok E ?sc2" "gm_wf (sc_children ?sc2)"
    using fold_link_index[OF stored_index[OF c(1) st] kw(2,1)] h1 by blast+
  have wf: "gm_wf (sc_shares ?sc2)" using st by (simp add: stored_def)
  have "work_at E ?sc2 h" if h: "h \<notin> set (update_all ?sc2 ?hs)" for h
  proof -
    have hn: "h \<notin> set ?hs" using update_all_props(2)[OF i2, of h ?hs] h h1 by auto
    have "parent_work E ?sc2 s = parent_work E sc s" if s: "held sc1 h = Some s" for s
    proof (cases "prevKeyLocked E s \<in> set ?hs")
      case True
      then have "prevKeyLocked E s \<noteq> ''''" using stored_new(3)[OF st] by blast
      then have "h \<in> set (kids ?sc2 (prevKeyLocked E s))" using kids_intro[OF i2(1), of h s] s by simp
      moreover have "prevKeyLocked E s \<in> set (update_all ?sc2 ?hs)"
        using update_all_props(2)[OF i2 True] h1[OF True] by simp
      ultimately show ?thesis using update_all_props(3)[OF i2, of "prevKeyLocked E s"] h by blast
    next
      case False
      then show ?thesis using h2[OF False] by (simp add: parent_work_def cw Let_def)
    qed
    then show ?thesis using c(3) h2[OF hn] unfolding work_ok_def work_at_def by (simp add: cw)
  qed
  then have "chain_ok E (snd (updateWorkLocked E ?hs ?sc2))"
    using chain_ok_update[OF i2(1) wf i2(2)] rk by simp
  then show ?thesis by (simp add: addWorkLocked_def Let_def case_prod_beta)
qed

text \<open>The work a consistent chain assigns is determined by its shares.\<close>

lemma work_unique:
  assumes a: "work_ok E sc" and b: "work_ok E sc'" and eq: "held sc' = held sc" and rk: "ranked E (sc_shares sc) r"
    and e: "held sc '''' = None"
  shows "held sc h \<noteq> None \<Longrightarrow> gm_get 0 (sc_cumWork sc') h = gm_get 0 (sc_cumWork sc) h
    \<and> gm_get 0 (sc_chainLen sc') h = gm_get 0 (sc_chainLen sc) h"
proof (induction "r h" arbitrary: h rule: less_induct)
  case less
  then obtain s where s: "held sc h = Some s" by auto
  have "parent_work E sc' s = parent_work E sc s"
  proof (cases "prevKeyLocked E s = '''' \<or> held sc (prevKeyLocked E s) = None")
    case True
    then show ?thesis using eq by (auto simp: parent_work_def)
  next
    case False
    then have "r (prevKeyLocked E s) < r h" using par_step[OF rk s] s by (simp add: par_def)
    then show ?thesis using less.hyps False eq by (intro parent_work_cong) auto
  qed
  then show ?case using a b s eq unfolding work_ok_def work_at_def by simp
qed

lemma recompute_fold_link:
  assumes "index_upto E (set (map fst kvs)) sc" "gm_wf (sc_children sc)" "distinct (map fst kvs)"
    "\<forall>(h, s) \<in> set kvs. held sc h = Some s"
  shows "index_ok E (fold (\<lambda>(h, sh). linkLocked E h sh) kvs sc) \<and> gm_wf (sc_children (fold (\<lambda>(h, sh). linkLocked E h sh) kvs sc))"
proof -
  have "fold (\<lambda>(h, sh). linkLocked E h sh) kvs sc = fold (link_held E) (map fst kvs) sc"
    using assms(4)
  proof (induction kvs arbitrary: sc)
    case (Cons kv kvs)
    obtain h s where kv: "kv = (h, s)" by (metis prod.collapse)
    then have "link_held E h sc = linkLocked E h s sc" using Cons.prems by (simp add: link_held_def)
    then show ?case using Cons.IH[of "linkLocked E h s sc"] Cons.prems kv by simp
  qed simp
  moreover have "\<forall>h \<in> set (map fst kvs). held sc h \<noteq> None" using assms(4) by auto
  ultimately show ?thesis using fold_link_index[OF assms(1-3)] by simp
qed

lemma recompute_ok:
  assumes "gm_wf (sc_shares sc)" "held sc '''' = None" "ranked E (sc_shares sc) r"
  shows "chain_ok E (recomputeWorkAndTipLocked E sc) \<and> sc_shares (recomputeWorkAndTipLocked E sc) = sc_shares sc"
proof -
  let ?sc0 = "sc\<lparr>sc_children := [], sc_cumWork := [], sc_chainLen := []\<rparr>"
  let ?sc1 = "fold (\<lambda>(h, sh). linkLocked E h sh) (sc_shares ?sc0) ?sc0"
  have fr: "sc_shares (fold (\<lambda>(h, sh). linkLocked E h sh) kvs s) = sc_shares s" for kvs s
    by (induction kvs arbitrary: s) (auto simp: case_prod_beta)
  have "\<exists>s. held sc c = Some s \<Longrightarrow> c \<in> set (gm_keys (sc_shares sc))" for c
    by (auto simp: set_gm_keys dom_def simp del: set_map)
  then have "index_upto E (set (map fst (sc_shares ?sc0))) ?sc0" using assms(2) by (auto simp: index_upto_def simp del: set_map)
  moreover have "\<forall>(h, s) \<in> set (sc_shares ?sc0). held ?sc0 h = Some s" using assms(1) by (auto simp: map_of_is_SomeI)
  ultimately have i1: "index_ok E ?sc1" "gm_wf (sc_children ?sc1)"
    using recompute_fold_link[of E "sc_shares ?sc0" ?sc0] assms(1) by auto
  have "work_at E ?sc1 h" if "h \<notin> set (update_all ?sc1 (gm_keys (sc_shares ?sc1)))" for h
  proof (cases "held ?sc1 h")
    case (Some s)
    then have "h \<in> set (gm_keys (sc_shares ?sc1))" by (auto simp: set_gm_keys simp del: set_map)
    then show ?thesis using update_all_props(2)[OF i1] that Some by (metis option.distinct(1))
  qed (simp add: work_at_def)
  then have "chain_ok E (snd (updateWorkLocked E (gm_keys (sc_shares ?sc1)) ?sc1))"
    using chain_ok_update[OF i1(1) _ i1(2), of r] assms fr[of "sc_shares ?sc0" ?sc0] by simp
  then show ?thesis using fr[of "sc_shares ?sc0" ?sc0] by (simp add: recomputeWorkAndTipLocked_def Let_def)
qed



subsection \<open>The tip is the heaviest candidate\<close>

text \<open>A scan that keeps the best candidate so far, for a strict total order: the contract that the two
  tip selections rely on.\<close>

locale scan_best =
  fixes cand :: "'a \<Rightarrow> bool" and less :: "'a \<Rightarrow> 'a \<Rightarrow> bool"
  assumes less_irrefl: "\<not> less a a"
    and less_trans: "less a b \<Longrightarrow> less b c \<Longrightarrow> less a c"
    and less_total: "a \<noteq> b \<Longrightarrow> less a b \<or> less b a"
begin

lemma scan_max:
  assumes "foldl (\<lambda>best h. if cand h \<and> (case best of None \<Rightarrow> True | Some b \<Rightarrow> less b h) then Some h else best) best xs = r"
    "\<And>b. best = Some b \<Longrightarrow> cand b"
  shows "(\<forall>x \<in> set xs \<union> set_option best. cand x \<longrightarrow> (\<exists>m. r = Some m \<and> (x = m \<or> less x m)))
    \<and> (\<forall>m. r = Some m \<longrightarrow> cand m \<and> m \<in> set xs \<union> set_option best)"
  using assms
proof (induction xs arbitrary: best)
  case Nil
  then show ?case by (cases best) auto
next
  case (Cons y xs)
  let ?b = "if cand y \<and> (case best of None \<Rightarrow> True | Some b \<Rightarrow> less b y) then Some y else best"
  have "foldl (\<lambda>best h. if cand h \<and> (case best of None \<Rightarrow> True | Some b \<Rightarrow> less b h) then Some h else best) ?b xs = r"
    using Cons.prems(1) by simp
  moreover have "\<And>b. ?b = Some b \<Longrightarrow> cand b" using Cons.prems(2) by (auto split: if_splits)
  ultimately have IH: "(\<forall>x \<in> set xs \<union> set_option ?b. cand x \<longrightarrow> (\<exists>m. r = Some m \<and> (x = m \<or> less x m)))
    \<and> (\<forall>m. r = Some m \<longrightarrow> cand m \<and> m \<in> set xs \<union> set_option ?b)" by (rule Cons.IH)
  have sub: "set_option ?b \<subseteq> insert y (set_option best)" by auto
  have dom: "\<exists>m. r = Some m \<and> (x = m \<or> less x m)" if x: "x \<in> insert y (set_option best)" "cand x" for x
  proof -
    obtain b where b: "?b = Some b" "x = b \<or> less x b"
    proof (cases "cand y \<and> (case best of None \<Rightarrow> True | Some b \<Rightarrow> less b y)")
      case True
      then show thesis using x that[of y] by (auto split: option.splits)
    next
      case False
      then obtain c where c: "best = Some c" "cand y \<Longrightarrow> \<not> less c y" using x by (auto split: option.splits)
      then have "?b = Some c" by auto
      moreover have "x = c \<or> less x c" using x c False less_total[of c y] by auto
      ultimately show thesis by (rule that)
    qed
    have "cand b" using \<open>\<And>b. ?b = Some b \<Longrightarrow> cand b\<close> b(1) by blast
    then obtain m where "r = Some m" "b = m \<or> less b m" using IH b(1) by auto
    then show ?thesis using b(2) less_trans by blast
  qed
  show ?case using IH dom sub by auto
qed

lemma max_unique:
  assumes "cand m" "cand n" "\<And>x. cand x \<Longrightarrow> x = m \<or> less x m" "\<And>x. cand x \<Longrightarrow> x = n \<or> less x n"
  shows "m = n"
  using assms less_irrefl less_trans by blast

end

definition tip_less :: "ShareChain \<Rightarrow> string \<Rightarrow> string \<Rightarrow> bool" where
  "tip_less sc a b \<longleftrightarrow> gm_get 0 (sc_cumWork sc) a < gm_get 0 (sc_cumWork sc) b
     \<or> (gm_get 0 (sc_cumWork sc) a = gm_get 0 (sc_cumWork sc) b \<and> a < b)"

interpretation tips: scan_best "isTipCandidateLocked sc" "tip_less sc" for sc
  by unfold_locales (auto simp: tip_less_def)

text \<open>The works of the candidates are equal or further apart than the tolerance of \<open>betterTip\<close>.\<close>

definition far_below :: "rat \<Rightarrow> rat \<Rightarrow> bool" where
  "far_below a b \<longleftrightarrow> fadd a tip_eps < b \<and> a < fsub b tip_eps"

definition tips_separated :: "ShareChain \<Rightarrow> bool" where
  "tips_separated sc \<longleftrightarrow>
     (\<forall>a b. isTipCandidateLocked sc a \<longrightarrow> isTipCandidateLocked sc b \<longrightarrow>
        f64 (gm_get 0 (sc_cumWork sc) a) = gm_get 0 (sc_cumWork sc) a
        \<and> (gm_get 0 (sc_cumWork sc) a = gm_get 0 (sc_cumWork sc) b
           \<or> far_below (gm_get 0 (sc_cumWork sc) a) (gm_get 0 (sc_cumWork sc) b)
           \<or> far_below (gm_get 0 (sc_cumWork sc) b) (gm_get 0 (sc_cumWork sc) a)))"

lemma tip_eps_nonneg: "0 \<le> tip_eps"
  unfolding tip_eps_def by (rule f64.nonneg) simp

lemma eps_bounds: assumes "f64 w = w" shows "w \<le> fadd w tip_eps" "fsub w tip_eps \<le> w"
proof -
  show "w \<le> fadd w tip_eps" using f64.add_grows[OF assms tip_eps_nonneg] .
  show "fsub w tip_eps \<le> w" using tip_eps_nonneg by (intro f64.le_rep[OF assms]) simp
qed

lemma betterTip_separated:
  assumes "tips_separated sc" "isTipCandidateLocked sc a" "isTipCandidateLocked sc b"
  shows "betterTip (gm_get 0 (sc_cumWork sc) a) a (gm_get 0 (sc_cumWork sc) b) b \<longleftrightarrow> tip_less sc b a"
proof -
  let ?w = "gm_get 0 (sc_cumWork sc)"
  have r: "f64 (?w a) = ?w a" "f64 (?w b) = ?w b" using assms unfolding tips_separated_def by blast+
  consider "?w a = ?w b" | "far_below (?w a) (?w b)" | "far_below (?w b) (?w a)"
    using assms unfolding tips_separated_def by blast
  then show ?thesis
  proof cases
    case 1
    then show ?thesis using eps_bounds[OF r(1)] by (auto simp: betterTip_def tip_less_def)
  next
    case 2
    then show ?thesis using eps_bounds[OF r(1)] eps_bounds[OF r(2)] by (auto simp: betterTip_def tip_less_def far_below_def)
  next
    case 3
    then show ?thesis using eps_bounds[OF r(1)] eps_bounds[OF r(2)] by (auto simp: betterTip_def tip_less_def far_below_def)
  qed
qed

lemma pick_tip_scan:
  assumes "tips_separated sc" "\<And>b. best = Some b \<Longrightarrow> isTipCandidateLocked sc b"
  shows "foldl (pick_tip sc) best hs
    = foldl (\<lambda>best h. if isTipCandidateLocked sc h \<and> (case best of None \<Rightarrow> True | Some b \<Rightarrow> tip_less sc b h) then Some h else best) best hs"
  using assms(2)
proof (induction hs arbitrary: best)
  case (Cons h hs)
  have e: "pick_tip sc best h
    = (if isTipCandidateLocked sc h \<and> (case best of None \<Rightarrow> True | Some b \<Rightarrow> tip_less sc b h) then Some h else best)"
    using betterTip_separated[OF assms(1), of h] Cons.prems by (cases best) (auto simp: pick_tip_def)
  have "isTipCandidateLocked sc b" if "pick_tip sc best h = Some b" for b
    using that Cons.prems by (auto simp: pick_tip_def split: if_splits)
  from Cons.IH[of "pick_tip sc best h", OF this] show ?case using e by simp
qed simp

lemma cand_held: "isTipCandidateLocked sc h \<Longrightarrow> h \<in> set (gm_keys (sc_shares sc))"
  by (auto simp: isTipCandidateLocked_def set_gm_keys split: option.splits simp del: set_map)

lemma select_best:
  assumes "tips_separated sc" "isTipCandidateLocked sc h0"
  shows "\<exists>m. foldl (pick_tip sc) None (gm_keys (sc_shares sc)) = Some m \<and> isTipCandidateLocked sc m
    \<and> (\<forall>x. isTipCandidateLocked sc x \<longrightarrow> x = m \<or> tip_less sc x m)"
proof -
  note sm = tips.scan_max[OF pick_tip_scan[OF assms(1), of None "gm_keys (sc_shares sc)", symmetric]]
  obtain m where m: "foldl (pick_tip sc) None (gm_keys (sc_shares sc)) = Some m"
    using sm cand_held[OF assms(2)] assms(2) by (simp del: set_map) blast
  moreover have "isTipCandidateLocked sc m" using sm m by (simp del: set_map)
  moreover have "x = m \<or> tip_less sc x m" if "isTipCandidateLocked sc x" for x
    using sm m cand_held[OF that] that by (auto simp del: set_map)
  ultimately show ?thesis by blast
qed

text \<open>C25: When the works of the verified shares that are not stale are equal or differ by more than the
  tolerance, \<open>selectTipLocked\<close> sets the tip to the one with the most work, the largest hash among
  equals, in whatever order the map is scanned.\<close>

theorem selectTip_heaviest:
  assumes "tips_separated sc" "isTipCandidateLocked sc h0"
  shows "\<exists>m. isTipCandidateLocked sc m \<and> sc_TipHash (selectTipLocked sc) = Option.bind (held sc m) s_Hash
    \<and> (\<forall>x. isTipCandidateLocked sc x \<longrightarrow> x = m \<or> tip_less sc x m)"
  using select_best[OF assms] by (auto simp: selectTipLocked_def set_tip_def)

text \<open>The incremental \<open>considerTipLocked\<close> picks what \<open>selectTipLocked\<close> would, when every candidate it is not
  given is no better than the current tip.\<close>

theorem considerTip_is_selectTip:
  assumes sep: "tips_separated sc" and c0: "isTipCandidateLocked sc h0"
    and old: "\<And>x. isTipCandidateLocked sc x \<Longrightarrow> x \<notin> set hs \<Longrightarrow>
      \<exists>t. current_tip E sc = Some t \<and> (x = t \<or> tip_less sc x t)"
    and key: "\<And>t. current_tip E sc = Some t \<Longrightarrow> Option.bind (held sc t) s_Hash = sc_TipHash sc"
  shows "considerTipLocked E hs sc = selectTipLocked sc"
proof -
  obtain m where m: "foldl (pick_tip sc) None (gm_keys (sc_shares sc)) = Some m" "isTipCandidateLocked sc m"
    "\<And>x. isTipCandidateLocked sc x \<Longrightarrow> x = m \<or> tip_less sc x m" using select_best[OF sep c0] by blast
  have ct: "isTipCandidateLocked sc t" if "current_tip E sc = Some t" for t
    using that by (auto simp: current_tip_def split: option.splits if_splits)
  note sm = tips.scan_max[OF pick_tip_scan[OF sep ct, of "current_tip E sc" hs, symmetric, simplified] ct]
  have all: "\<exists>n. foldl (pick_tip sc) (current_tip E sc) hs = Some n \<and> (x = n \<or> tip_less sc x n)"
    if x: "isTipCandidateLocked sc x" for x
  proof (cases "x \<in> set hs")
    case True
    then show ?thesis using sm x by blast
  next
    case False
    then obtain t where t: "current_tip E sc = Some t" "x = t \<or> tip_less sc x t" using old[OF x] by blast
    then obtain n where "foldl (pick_tip sc) (current_tip E sc) hs = Some n" "t = n \<or> tip_less sc t n" using sm ct by auto
    then show ?thesis using t(2) tips.less_trans by blast
  qed
  then obtain n where n: "foldl (pick_tip sc) (current_tip E sc) hs = Some n" using c0 by blast
  then have cn: "isTipCandidateLocked sc n" using sm by blast
  have nm: "n = m" by (rule tips.max_unique[OF cn m(2)]) (use all n m(3) in auto)
  have "set_tip sc (Some n) = sc" if "current_tip E sc = Some n" using key[OF that] by (simp add: set_tip_def)
  then show ?thesis unfolding considerTipLocked_def selectTipLocked_def m(1) n Let_def nm by auto
qed

text \<open>Within the tolerance \<open>betterTip\<close> is not transitive: three works less than \<open>1.4e-9\<close> apart can beat each
  other in a circle, so that the tip then depends on the order of the scan.\<close>

theorem betterTip_cycle:
  "\<exists>w1 w2 w3. f64 w1 = w1 \<and> f64 w2 = w2 \<and> f64 w3 = w3
     \<and> betterTip w1 ''c'' w2 ''b'' \<and> betterTip w2 ''b'' w3 ''a'' \<and> betterTip w3 ''a'' w1 ''c''"
proof -
  define w :: "int \<Rightarrow> rat" where "w k = 1 + of_int k / 4294967296" for k
  have p: "(2 :: rat) powi (- 32) = 1 / 4294967296" by (simp add: power_int_def power_one_over)
  have rep: "f64 (w k) = w k" if "0 \<le> k" "k \<le> 6" for k
    using that f64_dyadic[of "4294967296 + k" "- 32"] by (simp add: p w_def add_divide_distrib)
  have "(2 :: rat) powi (- 30) = 4 / 4294967296" by (simp add: power_int_def power_one_over)
  then have "f64 (4 / 4294967296) = 4 / 4294967296" using f64_pow[of "- 30"] by simp
  then have lo: "4 / 4294967296 \<le> tip_eps" unfolding tip_eps_def by (rule f64.ge_rep) simp
  have "f64 (5 / 4294967296) = 5 / 4294967296" using f64_dyadic[of 5 "- 32"] by (simp add: p)
  then have hi: "tip_eps \<le> 5 / 4294967296" unfolding tip_eps_def by (rule f64.le_rep) simp
  have "fsub (w 3) tip_eps \<le> w 0" by (rule f64.le_rep[OF rep]) (use lo in \<open>simp_all add: w_def\<close>)
  moreover have "fsub (w 6) tip_eps \<le> w 3" by (rule f64.le_rep[OF rep]) (use lo in \<open>simp_all add: w_def\<close>)
  moreover have "fadd (w 0) tip_eps \<le> w 5" by (rule f64.le_rep[OF rep]) (use hi in \<open>simp_all add: w_def\<close>)
  moreover have "w 5 < w 6" by (simp add: w_def)
  moreover have "''b'' < ''c''" "''a'' < ''b''" by code_simp+
  ultimately have "betterTip (w 0) ''c'' (w 3) ''b''" "betterTip (w 3) ''b'' (w 6) ''a''" "betterTip (w 6) ''a'' (w 0) ''c''"
    by (auto simp: betterTip_def)
  then show ?thesis using rep[of 0] rep[of 3] rep[of 6] by (intro exI[of _ "w 0"] exI[of _ "w 3"] exI[of _ "w 6"]) simp
qed


subsection \<open>Examples\<close>

lemma demo_stored: "stored [(demo_key 0, demo_link 0)] NewShareChain (demo_chain 1)"
  by (simp add: stored_def demo_chain_def NewShareChain_def fun_eq_iff)

lemma new_chain_ok: "chain_ok E NewShareChain"
  by (simp add: chain_ok_def index_upto_def work_ok_def work_at_def NewShareChain_def)


lemma demo_recompute: "chain_ok demo_env (recomputeWorkAndTipLocked demo_env (demo_chain 1))"
  "sc_shares (recomputeWorkAndTipLocked demo_env (demo_chain 1)) = sc_shares (demo_chain 1)"
proof -
  have "gm_wf (sc_shares (demo_chain 1))" "held (demo_chain 1) '''' = None"
    using demo_key_ne[of 0] by (simp_all add: demo_chain_def del: demo_key_ne)
  from recompute_ok[OF this demo_ranked]
  show "chain_ok demo_env (recomputeWorkAndTipLocked demo_env (demo_chain 1))"
    "sc_shares (recomputeWorkAndTipLocked demo_env (demo_chain 1)) = sc_shares (demo_chain 1)" by blast+
qed

theorem removeSharesLocked_consistent_witness:
  "map_of (sc_shares (removeSharesLocked demo_env [demo_key 0] (recomputeWorkAndTipLocked demo_env (demo_chain 1)))) (demo_key 0) = None"
  using removeSharesLocked_consistent[OF demo_recompute(1), of "\<lambda>k. 0" "[demo_key 0]"] demo_ranked demo_recompute(2)
  by (simp add: restrict_map_def)


definition demo_tip :: ShareChain where
  "demo_tip = (demo_chain 1)\<lparr>sc_verified := [(demo_key 0, True)], sc_cumWork := [(demo_key 0, 1)]\<rparr>"

lemma demo_tip_cand: "isTipCandidateLocked demo_tip h \<longleftrightarrow> h = demo_key 0"
  by (auto simp: isTipCandidateLocked_def demo_tip_def demo_chain_def gm_get_def demo_link_def demo_share_def)

lemma demo_tip_separated: "tips_separated demo_tip"
  by (simp add: tips_separated_def demo_tip_cand) (simp add: demo_tip_def gm_get_def)

theorem selectTip_heaviest_witness:
  "sc_TipHash (selectTipLocked demo_tip) = Some (demo_hash 0)"
proof -
  have "Option.bind (held demo_tip (demo_key 0)) s_Hash = Some (demo_hash 0)"
    by (simp add: demo_tip_def demo_chain_def demo_link_def demo_share_def)
  then show ?thesis using selectTip_heaviest[OF demo_tip_separated, of "demo_key 0"] by (auto simp: demo_tip_cand)
qed

theorem considerTip_is_selectTip_witness:
  "considerTipLocked demo_env [demo_key 0] demo_tip = selectTipLocked demo_tip"
proof -
  have "length (e_HashString demo_env genesisHash) = 64"
    by code_simp
  moreover have "length (demo_key 0) = 8" by code_simp
  ultimately have "e_HashString demo_env genesisHash \<noteq> demo_key 0" by auto
  moreover have "sc_TipHash demo_tip = Some genesisHash" by (simp add: demo_tip_def demo_chain_def NewShareChain_def)
  ultimately have "current_tip demo_env demo_tip = None" by (simp add: current_tip_def demo_tip_cand)
  then show ?thesis
    using considerTip_is_selectTip[OF demo_tip_separated, of "demo_key 0" "[demo_key 0]" demo_env] by (simp add: demo_tip_cand)
qed

end
