(* ===== verification/ShareStats.thy ===== *)
theory ShareStats
  imports ShareChain Address
begin

text \<open>
  Pool statistics and the small queries of \<open>work/sharechain.go\<close>: \<open>GetNetworkMiners\<close>, \<open>updateStats\<close>,
  \<open>GetStats\<close>, \<open>HasShareWithPrevBlock\<close>, \<open>KnowsBlockHash\<close>, \<open>GetRecentNetworkBits\<close>,
  \<open>GetRandomChallengeBlockHash\<close>, \<open>SetCurrentBlockTarget\<close> and \<open>SetNetworkBitsFromTemplate\<close>. The node's
  answer to \<open>getmininginfo\<close> and the parse of a hexadecimal bits string (\<open>fmt.Sscanf\<close>) are arguments.
\<close>

record MinerWork =
  mw_workSum :: rat
  mw_lastDiff :: rat
  mw_lastSeen :: int
  mw_firstSeen :: int
  mw_count :: int

record NetworkMinerStats =
  nm_Address :: string
  nm_Hashrate :: rat
  nm_ShareDiff :: rat
  nm_ShareCount :: int
  nm_LastSeen :: int

record PoolStats =
  ps_PoolHashrate :: rat
  ps_NetworkHashrate :: rat
  ps_NetworkDifficulty :: rat
  ps_SharesTotal :: int
  ps_SharesOrphan :: int
  ps_SharesDead :: int
  ps_Efficiency :: rat
  ps_TimeToBlock :: rat

record MiningInfo =
  mi_NetworkHashPS :: rat
  mi_Difficulty :: rat

text \<open>\<open>time.Duration.Seconds\<close>.\<close>

definition duration_seconds :: "time \<Rightarrow> rat" where
  "duration_seconds d = fadd (of_int (d div 1000000000)) (fdiv (of_int (d mod 1000000000)) 1000000000)"

definition max_ts :: "Share list \<Rightarrow> int" where
  "max_ts ss = foldl (\<lambda>m s. if m < share_ts s then share_ts s else m) 0 ss"

definition miner_counts :: "env \<Rightarrow> int \<Rightarrow> Share \<Rightarrow> bool" where
  "miner_counts E cutoff s \<longleftrightarrow>
     cutoff \<le> share_ts s \<and> \<not> is_stale s \<and> share_address E s \<noteq> '''' \<and> \<not> no_target s \<and> 0 < effective_diff s"

definition add_miner_work :: "env \<Rightarrow> int \<Rightarrow> (string, MinerWork) gomap \<Rightarrow> Share \<Rightarrow> (string, MinerWork) gomap" where
  "add_miner_work E cutoff m s =
     (if \<not> miner_counts E cutoff s then m
      else let a = share_address E s; d = effective_diff s; ts = share_ts s;
               mw0 = (case map_of m a of
                        Some mw \<Rightarrow> mw
                      | None \<Rightarrow> \<lparr>mw_workSum = 0, mw_lastDiff = d, mw_lastSeen = ts, mw_firstSeen = ts, mw_count = 0\<rparr>);
               mw1 = mw0\<lparr>mw_workSum := fadd (mw_workSum mw0) d, mw_count := mw_count mw0 + 1\<rparr>;
               mw2 = (if mw_lastSeen mw1 \<le> ts then mw1\<lparr>mw_lastSeen := ts, mw_lastDiff := d\<rparr> else mw1);
               mw3 = (if ts < mw_firstSeen mw2 then mw2\<lparr>mw_firstSeen := ts\<rparr> else mw2)
           in gm_set a mw3 m)"

definition miner_stats :: "int \<Rightarrow> rat \<Rightarrow> string \<Rightarrow> MinerWork \<Rightarrow> NetworkMinerStats" where
  "miner_stats maxTs windowSec a mw =
     (let span0 = of_int (maxTs - mw_firstSeen mw);
          span1 = (if span0 < 30 then 30 else span0);
          span = (if windowSec < span1 then windowSec else span1)
      in \<lparr>nm_Address = a, nm_Hashrate = fdiv (fmul (mw_workSum mw) 16777216) span, nm_ShareDiff = mw_lastDiff mw,
          nm_ShareCount = mw_count mw, nm_LastSeen = mw_lastSeen mw\<rparr>)"

definition miner_window :: "ShareChain \<Rightarrow> time \<Rightarrow> time \<Rightarrow> int \<times> rat" where
  "miner_window sc now window =
     (let m0 = max_ts (map snd (sc_shares sc));
          maxTs = (if m0 = 0 then Unix now else m0);
          w0 = duration_seconds window
      in (maxTs, if w0 \<le> 0 then 300 else w0))"

definition GetNetworkMiners :: "env \<Rightarrow> ShareChain \<Rightarrow> time \<Rightarrow> time \<Rightarrow> (string, NetworkMinerStats) gomap" where
  "GetNetworkMiners E sc now window =
     (let (maxTs, windowSec) = miner_window sc now window;
          cutoff = maxTs - \<lfloor>windowSec\<rfloor>;
          work = foldl (add_miner_work E cutoff) [] (map snd (sc_shares sc))
      in map (\<lambda>(a, mw). (a, miner_stats maxTs windowSec a mw)) work)"

definition updateStats :: "env \<Rightarrow> time \<Rightarrow> MiningInfo option \<Rightarrow> ShareChain \<Rightarrow> ShareChain" where
  "updateStats E now info sc =
     (let tot = foldl (\<lambda>t nm. fadd t (nm_Hashrate nm)) 0 (map snd (GetNetworkMiners E sc now (seconds 300)));
          sc1 = sc\<lparr>sc_poolHashrate := tot\<rparr>
      in if c_LightMode (e_Active E) then sc1
         else (case info of
                 None \<Rightarrow> sc1
               | Some i \<Rightarrow> sc1\<lparr>sc_networkHashrate := mi_NetworkHashPS i, sc_networkDifficulty := mi_Difficulty i\<rparr>))"

definition GetStats :: "ShareChain \<Rightarrow> PoolStats" where
  "GetStats sc =
     (let tot = int (length (sc_shares sc));
          orphan = int (length (filter (\<lambda>(h, s). sd_StaleInfo (share_data s) = StaleInfoOrphan) (sc_shares sc)));
          doa = int (length (filter (\<lambda>(h, s). sd_StaleInfo (share_data s) = StaleInfoDOA) (sc_shares sc)));
          eff = (if 0 < tot then fmul (fdiv (of_int (tot - orphan - doa)) (of_int tot)) 100 else 100);
          ttb = (if 0 < sc_poolHashrate sc \<and> 0 < sc_networkHashrate sc
                 then fmul (fdiv (sc_networkHashrate sc) (sc_poolHashrate sc)) 150 else 0)
      in \<lparr>ps_PoolHashrate = sc_poolHashrate sc, ps_NetworkHashrate = sc_networkHashrate sc,
          ps_NetworkDifficulty = sc_networkDifficulty sc, ps_SharesTotal = tot, ps_SharesOrphan = orphan,
          ps_SharesDead = doa, ps_Efficiency = eff, ps_TimeToBlock = ttb\<rparr>)"

subsection \<open>Queries on block hashes and bits\<close>

definition prev_block_string :: "env \<Rightarrow> Share \<Rightarrow> string option" where
  "prev_block_string E s = map_option (e_HashString E) (mh_PreviousBlock (s_MinHeader s))"

definition HasShareWithPrevBlock :: "env \<Rightarrow> ShareChain \<Rightarrow> string \<Rightarrow> bool" where
  "HasShareWithPrevBlock E sc b =
     (b \<noteq> '''' \<and> list_ex (\<lambda>(h, s). is_verified sc h \<and> prev_block_string E s = Some b) (sc_shares sc))"

definition KnowsBlockHash :: "env \<Rightarrow> ShareChain \<Rightarrow> string \<Rightarrow> bool" where
  "KnowsBlockHash E sc b =
     (if b = '''' then False
      else if sc_verified sc = [] then False
      else if map_of (sc_shares sc) b \<noteq> None \<and> is_verified sc b then True
      else list_ex (\<lambda>(h, s). is_verified sc h \<and> prev_block_string E s = Some b) (sc_shares sc))"

definition tip_share :: "env \<Rightarrow> ShareChain \<Rightarrow> Share option" where
  "tip_share E sc = Option.bind (sc_TipHash sc) (\<lambda>t. map_of (sc_shares sc) (e_HashString E t))"

definition GetRecentNetworkBits :: "env \<Rightarrow> ShareChain \<Rightarrow> u32" where
  "GetRecentNetworkBits E sc =
     (case tip_share E sc of
        Some s \<Rightarrow> if mh_Bits (s_MinHeader s) \<noteq> 0 then mh_Bits (s_MinHeader s)
                  else (case List.find (\<lambda>(h, s). is_verified sc h \<and> mh_Bits (s_MinHeader s) \<noteq> 0) (sc_shares sc) of
                          Some (h, s) \<Rightarrow> mh_Bits (s_MinHeader s) | None \<Rightarrow> 0)
      | None \<Rightarrow> (case List.find (\<lambda>(h, s). is_verified sc h \<and> mh_Bits (s_MinHeader s) \<noteq> 0) (sc_shares sc) of
                  Some (h, s) \<Rightarrow> mh_Bits (s_MinHeader s) | None \<Rightarrow> 0))"

fun challenge_candidates :: "env \<Rightarrow> ShareChain \<Rightarrow> string \<Rightarrow> (string \<times> Share) list \<Rightarrow> string list \<Rightarrow> string list" where
  "challenge_candidates E sc tipPrev [] cs = cs"
| "challenge_candidates E sc tipPrev ((h, s) # r) cs =
     (case (if is_verified sc h then prev_block_string E s else None) of
        None \<Rightarrow> challenge_candidates E sc tipPrev r cs
      | Some pb \<Rightarrow>
          if pb = '''' \<or> pb = tipPrev \<or> pb \<in> set cs \<or> map_of (sc_shares sc) pb \<noteq> None
          then challenge_candidates E sc tipPrev r cs
          else if 64 \<le> length (cs @ [pb]) then cs @ [pb]
          else challenge_candidates E sc tipPrev r (cs @ [pb]))"

definition GetRandomChallengeBlockHash :: "env \<Rightarrow> ShareChain \<Rightarrow> time \<Rightarrow> string" where
  "GetRandomChallengeBlockHash E sc now =
     (let tipPrev = (case Option.bind (tip_share E sc) (prev_block_string E) of Some b \<Rightarrow> b | None \<Rightarrow> '''');
          cs = challenge_candidates E sc tipPrev (sc_shares sc) []
      in if cs = [] then '''' else cs ! (nat (now AND 0x7fffffff) mod length cs))"

definition SetNetworkBitsFromTemplate :: "env \<Rightarrow> u32 option \<Rightarrow> ShareChain \<Rightarrow> ShareChain" where
  "SetNetworkBitsFromTemplate E bits sc =
     (case bits of
        None \<Rightarrow> sc
      | Some b \<Rightarrow>
          let nd = BitsToNetworkDiff E b
          in if b \<noteq> 0 \<and> 0 < nd
             then sc\<lparr>sc_networkDifficulty := nd, sc_networkHashrate := fdiv (fmul nd 4294967296) 150\<rparr>
             else sc)"

definition SetCurrentBlockTarget :: "env \<Rightarrow> string \<Rightarrow> u32 option \<Rightarrow> ShareChain \<Rightarrow> ShareChain" where
  "SetCurrentBlockTarget E prevHash bits sc =
     (let sc1 = (if c_LightMode (e_Active E) then SetNetworkBitsFromTemplate E bits sc else sc);
          b = (case bits of Some b \<Rightarrow> b | None \<Rightarrow> 0)
      in sc1\<lparr>sc_curPrevBlock := prevHash, sc_curBits := (if b \<noteq> 0 then b else sc_curBits sc1)\<rparr>)"


subsection \<open>Counting every share once\<close>

lemma fold_miner_count:
  assumes "gm_wf m"
  shows "gm_wf (foldl (add_miner_work E cutoff) m ss)
    \<and> (\<Sum>(a, mw) \<leftarrow> foldl (add_miner_work E cutoff) m ss. mw_count mw)
      = (\<Sum>(a, mw) \<leftarrow> m. mw_count mw) + int (length (filter (miner_counts E cutoff) ss))"
  using assms
proof (induction ss arbitrary: m)
  case (Cons s ss)
  have upd: "(\<Sum>(a, mw) \<leftarrow> gm_set k v m. mw_count mw)
      = (\<Sum>(a, mw) \<leftarrow> m. mw_count mw) + mw_count v - (case map_of m k of Some mw \<Rightarrow> mw_count mw | None \<Rightarrow> 0)"
    if "gm_wf m" for k v and m :: "(string, MinerWork) gomap"
    using that
  proof (induction m)
    case (Cons x m)
    have "map_of m (fst x) = None" using Cons.prems by (simp add: map_of_eq_None_iff)
    then show ?case using Cons by (cases x) (auto simp: gm_set_def)
  qed (simp add: gm_set_def)
  let ?m = "add_miner_work E cutoff m s"
  have "gm_wf ?m" using Cons.prems by (simp add: add_miner_work_def Let_def)
  moreover have "(\<Sum>(a, mw) \<leftarrow> ?m. mw_count mw) = (\<Sum>(a, mw) \<leftarrow> m. mw_count mw) + (if miner_counts E cutoff s then 1 else 0)"
    using upd[OF Cons.prems] by (auto simp: add_miner_work_def Let_def split: option.split)
  ultimately show ?case using Cons.IH[of ?m] by simp
qed simp

text \<open>The per-miner statistics count every share of the window that is not stale, has a payout address and
  earns credit, exactly once, whatever the order of the shares.\<close>

theorem network_miners_count_all:
  "(\<Sum>(a, nm) \<leftarrow> GetNetworkMiners E sc now window. nm_ShareCount nm)
   = int (length (filter (miner_counts E (fst (miner_window sc now window) - \<lfloor>snd (miner_window sc now window)\<rfloor>)) (map snd (sc_shares sc))))"
  using fold_miner_count[of "[]" E "fst (miner_window sc now window) - \<lfloor>snd (miner_window sc now window)\<rfloor>" "map snd (sc_shares sc)"]
  by (simp add: GetNetworkMiners_def case_prod_unfold miner_stats_def Let_def comp_def)

subsection \<open>Challenges ask for known blocks\<close>

lemma challenge_candidates_known:
  assumes "\<forall>b \<in> set cs. b \<noteq> '''' \<and> Q b"
    and "\<And>h s b. (h, s) \<in> set r \<Longrightarrow> is_verified sc h \<Longrightarrow> prev_block_string E s = Some b \<Longrightarrow> Q b"
    and "length cs < 64" "distinct cs"
  shows "(\<forall>b \<in> set (challenge_candidates E sc tp r cs). b \<noteq> '''' \<and> Q b)
    \<and> length (challenge_candidates E sc tp r cs) \<le> 64 \<and> distinct (challenge_candidates E sc tp r cs)"
  using assms
proof (induction E sc tp r cs rule: challenge_candidates.induct)
  case (2 E sc tp h s r cs)
  have sub: "\<And>h s b. (h, s) \<in> set r \<Longrightarrow> is_verified sc h \<Longrightarrow> prev_block_string E s = Some b \<Longrightarrow> Q b"
    using "2.prems"(2) by (meson list.set_intros(2))
  show ?case
  proof (cases "if is_verified sc h then prev_block_string E s else None")
    case None
    then show ?thesis using "2.IH"(1)[OF None "2.prems"(1) sub "2.prems"(3,4)] by simp
  next
    case (Some pb)
    then have "Q pb" using "2.prems"(2)[of h s pb] by (simp split: if_splits)
    show ?thesis
    proof (cases "pb = '''' \<or> pb = tp \<or> pb \<in> set cs \<or> map_of (sc_shares sc) pb \<noteq> None")
      case True
      from "2.IH"(2)[OF Some True "2.prems"(1) sub "2.prems"(3,4)] show ?thesis using Some True by simp
    next
      case False
      have p: "\<forall>b \<in> set (cs @ [pb]). b \<noteq> '''' \<and> Q b" "distinct (cs @ [pb])" "length (cs @ [pb]) \<le> 64"
        using "2.prems"(1,3,4) False \<open>Q pb\<close> by auto
      show ?thesis
      proof (cases "64 \<le> length (cs @ [pb])")
        case True
        then show ?thesis using p Some False by simp
      next
        case less: False
        have "length (cs @ [pb]) < 64" using less by simp
        from "2.IH"(3)[OF Some False less p(1) sub this p(2)] show ?thesis using Some False less by simp
      qed
    qed
  qed
qed auto

text \<open>A challenge block hash, when there is one, is one this node itself knows: the previous block of a
  verified share; at most 64 candidates are collected.\<close>

theorem challenge_is_known:
  "GetRandomChallengeBlockHash E sc now = '''' \<or> KnowsBlockHash E sc (GetRandomChallengeBlockHash E sc now)"
proof -
  let ?tp = "case Option.bind (tip_share E sc) (prev_block_string E) of Some b \<Rightarrow> b | None \<Rightarrow> ''''"
  let ?cs = "challenge_candidates E sc ?tp (sc_shares sc) []"
  let ?b = "GetRandomChallengeBlockHash E sc now"
  have k: "\<forall>b \<in> set ?cs. b \<noteq> '''' \<and> (\<exists>(h, s) \<in> set (sc_shares sc). is_verified sc h \<and> prev_block_string E s = Some b)"
    using challenge_candidates_known[of "[]" "\<lambda>b. \<exists>(h, s) \<in> set (sc_shares sc). is_verified sc h \<and> prev_block_string E s = Some b"
        "sc_shares sc" sc E ?tp] by fastforce
  show ?thesis
  proof (cases "?cs = []")
    case True
    then show ?thesis by (simp add: GetRandomChallengeBlockHash_def Let_def)
  next
    case False
    then have "?b \<in> set ?cs" by (simp add: GetRandomChallengeBlockHash_def Let_def)
    then obtain h s where b: "?b \<noteq> ''''" "(h, s) \<in> set (sc_shares sc)" "is_verified sc h" "prev_block_string E s = Some ?b"
      using k by blast
    moreover have "sc_verified sc \<noteq> []" using b(3) by (auto simp: gm_get_def)
    ultimately show ?thesis by (auto simp: KnowsBlockHash_def list_ex_iff)
  qed
qed

end
