(* ===== verification/Coinbase.thy ===== *)
theory Coinbase
  imports ShareChain
begin

text \<open>
  The coinbase (\<open>work/coinbase.go\<close>): the PPLNS payout (\<open>CalculatePPLNSOutputsAtTip\<close>), the coinbase
  transaction built for a job, its split around the extranonce for Stratum miners and its
  reconstruction, and \<open>VerifyShareCoinbase\<close>, by which other nodes check a share's payout. The lemmas
  show that a payout distributes exactly the reward in proportion to the weights, that an accepted
  share pays every miner the amount of the payout at its parent, and that the coinbase a node
  builds is one it accepts.
\<close>

subsection \<open>Payouts\<close>

record PayoutOutput =
  po_Address :: string
  po_Amount :: int

text \<open>Go's conversion of a float to an integer truncates.\<close>

definition trunc_rat :: "rat \<Rightarrow> int" where
  "trunc_rat x = (if 0 \<le> x then \<lfloor>x\<rfloor> else - \<lfloor>- x\<rfloor>)"

definition share_weight :: "Share \<Rightarrow> int" where
  "share_weight s = (let w = trunc_rat (fmul (effective_diff s) 1000000) in if w \<le> 0 then 1 else w)"

text \<open>The conditions under which the loop skips a share.\<close>

definition counts_for_payout :: "env \<Rightarrow> Share \<Rightarrow> bool" where
  "counts_for_payout E s \<longleftrightarrow>
     shareHasStandardPayout s \<and> \<not> no_target s \<and> share_address E s \<noteq> '''' \<and> 0 < effective_diff s"

fun payout_weights :: "env \<Rightarrow> Share list \<Rightarrow> (string, int) gomap \<Rightarrow> int \<Rightarrow> (string, int) gomap \<times> int" where
  "payout_weights E [] weights tw = (weights, tw)"
| "payout_weights E (s # ss) weights tw =
     (if counts_for_payout E s
      then let a = share_address E s; w = share_weight s
           in payout_weights E ss (gm_set a (gm_get 0 weights a + w) weights) (tw + w)
      else payout_weights E ss weights tw)"

fun allot :: "int \<Rightarrow> (string, int) gomap \<Rightarrow> int \<Rightarrow> string list \<Rightarrow> int \<Rightarrow> (string, int) gomap \<Rightarrow> (string, int) gomap" where
  "allot R weights tw [] allocated amounts = amounts"
| "allot R weights tw [a] allocated amounts =
     (let rem = R - allocated in if 0 < rem then gm_set a (gm_get 0 amounts a + rem) amounts else amounts)"
| "allot R weights tw (a # b # as) allocated amounts =
     (let amt = R * gm_get 0 weights a div tw
      in if 0 < amt then allot R weights tw (b # as) (allocated + amt) (gm_set a (gm_get 0 amounts a + amt) amounts)
         else allot R weights tw (b # as) allocated amounts)"

definition payout_shares :: "env \<Rightarrow> ShareChain option \<Rightarrow> hash option \<Rightarrow> Share list" where
  "payout_shares E sc anchor =
     (case sc of
        None \<Rightarrow> []
      | Some c \<Rightarrow>
          let tip = (case anchor of None \<Rightarrow> GetTipHash c | Some h \<Rightarrow> Some h)
          in if tip = None then [] else GetSharesForPayout E c tip DefaultPPLNSWindow)"

definition CalculatePPLNSOutputsAtTip ::
  "env \<Rightarrow> int \<Rightarrow> string \<Rightarrow> ShareChain option \<Rightarrow> hash option \<Rightarrow> PayoutOutput list" where
  "CalculatePPLNSOutputsAtTip E totalReward defaultAddr sc anchor =
     (if totalReward \<le> 0 then []
      else let (weights, tw) = payout_weights E (payout_shares E sc anchor) [] 0;
               amounts = (if 0 < tw \<and> weights \<noteq> []
                          then allot totalReward weights tw (sort (gm_keys weights)) 0 []
                          else gm_set defaultAddr totalReward [])
           in map (\<lambda>a. \<lparr>po_Address = a, po_Amount = gm_get 0 amounts a\<rparr>)
                (filter (\<lambda>a. 0 < gm_get 0 amounts a) (sort (gm_keys amounts))))"

definition CalculatePPLNSOutputs :: "env \<Rightarrow> int \<Rightarrow> string \<Rightarrow> ShareChain option \<Rightarrow> PayoutOutput list" where
  "CalculatePPLNSOutputs E totalReward defaultAddr sc =
     CalculatePPLNSOutputsAtTip E totalReward defaultAddr sc (Option.bind sc GetTipHash)"

subsection \<open>Building the coinbase\<close>

datatype coinbase_error =
  ScriptError | AddressError addr_error | ExtranonceError | PartsError | SerializeError | MarkerMissing

definition fee_hundredths :: "env \<Rightarrow> u16" where
  "fee_hundredths E = of_int (trunc_rat (fmul (c_Fee (e_Active E)) 100))"

fun payout_txouts :: "env \<Rightarrow> PayoutOutput list \<Rightarrow> coinbase_error + txout list" where
  "payout_txouts E [] = Inr []"
| "payout_txouts E (p # ps) =
     (case AddressToScriptPubKey E (po_Address p) of
        Inl e \<Rightarrow> Inl (AddressError e)
      | Inr scr \<Rightarrow>
          (case payout_txouts E ps of
             Inl e \<Rightarrow> Inl e
           | Inr os \<Rightarrow> Inr (\<lparr>out_Value = of_int (po_Amount p), out_PkScript = scr\<rparr> # os)))"

definition witness_script :: "byte list \<Rightarrow> byte list" where
  "witness_script wc = AddData (AddOp NewScriptBuilder OP_RETURN) ([0xaa, 0x21, 0xa9, 0xed] @ wc)"

definition metadata_script :: "env \<Rightarrow> BlockTemplate \<Rightarrow> string \<Rightarrow> ShareChain option \<Rightarrow> hash option \<Rightarrow> byte list" where
  "metadata_script E tmpl addr sc tip =
     (let expD = (case sc of None \<Rightarrow> MinPoolShareDiff | Some c \<Rightarrow> GetExpectedShareDifficulty E c tip);
          (pv, pk) = DecodeAddressToPKH E addr;
          mc = ComputeShareMetadataCommitment ShareVersionV2 tip (Some (DiffToTarget expD)) pv pk
                 (of_int (t_CoinbaseValue tmpl)) (fee_hundredths E) StaleInfoNone (of_int (t_Height tmpl))
      in AddData (AddOp NewScriptBuilder OP_RETURN) mc)"

definition aux_data :: "BlockTemplate \<Rightarrow> byte list list" where
  "aux_data tmpl =
     (if t_CoinbaseAuxFlags tmpl = '''' then []
      else (case hex_DecodeString (t_CoinbaseAuxFlags tmpl) of
              Some b \<Rightarrow> if b = [] then [] else [b]
            | None \<Rightarrow> []))"

definition buildCoinbaseMsgTxAtTip ::
  "env \<Rightarrow> BlockTemplate \<Rightarrow> string \<Rightarrow> byte list \<Rightarrow> byte list \<Rightarrow> ShareChain option \<Rightarrow> hash option \<Rightarrow> coinbase_error + msgtx" where
  "buildCoinbaseMsgTxAtTip E tmpl addr extraNonce wc sc tip =
     (case e_CoinbaseScript E (t_Height tmpl) (extraNonce # aux_data tmpl) of
        None \<Rightarrow> Inl ScriptError
      | Some scr \<Rightarrow>
          (case payout_txouts E (CalculatePPLNSOutputsAtTip E (t_CoinbaseValue tmpl) addr sc tip) of
             Inl e \<Rightarrow> Inl e
           | Inr outs \<Rightarrow>
               Inr \<lparr>tx_Version = 2,
                    tx_TxIn = [\<lparr>in_Hash = replicate 32 0, in_Index = 0xffffffff, in_Script = scr,
                                in_Witness = [replicate 32 0], in_Sequence = 0xffffffff\<rparr>],
                    tx_TxOut = outs
                      @ (if wc = [] then [] else [\<lparr>out_Value = 0, out_PkScript = witness_script wc\<rparr>])
                      @ [\<lparr>out_Value = 0, out_PkScript = metadata_script E tmpl addr sc tip\<rparr>],
                    tx_LockTime = 0\<rparr>))"

definition buildCoinbaseMsgTx ::
  "env \<Rightarrow> BlockTemplate \<Rightarrow> string \<Rightarrow> byte list \<Rightarrow> byte list \<Rightarrow> ShareChain option \<Rightarrow> coinbase_error + msgtx" where
  "buildCoinbaseMsgTx E tmpl addr extraNonce wc sc =
     buildCoinbaseMsgTxAtTip E tmpl addr extraNonce wc sc (Option.bind sc GetTipHash)"

definition RebuildCoinbaseFromStratumParts :: "env \<Rightarrow> string \<Rightarrow> string \<Rightarrow> string \<Rightarrow> string \<Rightarrow> coinbase_error + byte list" where
  "RebuildCoinbaseFromStratumParts E coinb1 en1 en2 coinb2 =
     (case hex_DecodeString (coinb1 @ en1 @ en2 @ coinb2) of
        None \<Rightarrow> Inl PartsError
      | Some stripped \<Rightarrow>
          (case e_DeserializeNoWitness E stripped of
             None \<Rightarrow> Inl PartsError
           | Some tx \<Rightarrow>
               let tx1 = (case tx_TxIn tx of
                            [] \<Rightarrow> tx
                          | i # is \<Rightarrow> tx\<lparr>tx_TxIn := i\<lparr>in_Witness := [replicate 32 0]\<rparr> # is\<rparr>)
               in (case e_Serialize E tx1 of None \<Rightarrow> Inl SerializeError | Some b \<Rightarrow> Inr b)))"

definition CreateCoinbaseTx ::
  "env \<Rightarrow> BlockTemplate \<Rightarrow> string \<Rightarrow> string \<Rightarrow> string \<Rightarrow> byte list \<Rightarrow> ShareChain option \<Rightarrow> coinbase_error + byte list" where
  "CreateCoinbaseTx E tmpl addr en1 en2 wc sc =
     (case hex_DecodeString (en1 @ en2) of
        None \<Rightarrow> Inl ExtranonceError
      | Some en \<Rightarrow>
          (case buildCoinbaseMsgTx E tmpl addr en wc sc of
             Inl e \<Rightarrow> Inl e
           | Inr tx \<Rightarrow> (case e_Serialize E tx of None \<Rightarrow> Inl SerializeError | Some b \<Rightarrow> Inr b)))"

text \<open>\<open>bytes.Index\<close>.\<close>

fun bytes_Index :: "byte list \<Rightarrow> byte list \<Rightarrow> nat option" where
  "bytes_Index [] pat = (if pat = [] then Some 0 else None)"
| "bytes_Index (x # xs) pat = (if prefix pat (x # xs) then Some 0 else map_option Suc (bytes_Index xs pat))"

definition marker :: "byte list" where
  "marker = [0xde, 0xad, 0xbe, 0xef, 0xca, 0xfe, 0xba, 0xbe]"

definition SplitCoinbaseForStratumAtTip ::
  "env \<Rightarrow> BlockTemplate \<Rightarrow> string \<Rightarrow> byte list \<Rightarrow> ShareChain option \<Rightarrow> hash option \<Rightarrow> coinbase_error + string \<times> string" where
  "SplitCoinbaseForStratumAtTip E tmpl addr wc sc tip =
     (case buildCoinbaseMsgTxAtTip E tmpl addr marker wc sc tip of
        Inl e \<Rightarrow> Inl e
      | Inr tx \<Rightarrow>
          (case e_SerializeNoWitness E tx of
             None \<Rightarrow> Inl SerializeError
           | Some raw \<Rightarrow>
               (case bytes_Index raw marker of
                  None \<Rightarrow> Inl MarkerMissing
                | Some i \<Rightarrow> Inr (hex_EncodeToString (take i raw), hex_EncodeToString (drop (i + length marker) raw)))))"

definition SplitCoinbaseForStratum ::
  "env \<Rightarrow> BlockTemplate \<Rightarrow> string \<Rightarrow> byte list \<Rightarrow> ShareChain option \<Rightarrow> coinbase_error + string \<times> string" where
  "SplitCoinbaseForStratum E tmpl addr wc sc =
     SplitCoinbaseForStratumAtTip E tmpl addr wc sc (Option.bind sc GetTipHash)"

subsection \<open>Verifying a share's coinbase\<close>

text \<open>The positive outputs: the amounts by script, their sum and their number; \<open>int64\<close> wraps.\<close>

fun coinbase_totals :: "txout list \<Rightarrow> (string, u64) gomap \<Rightarrow> u64 \<Rightarrow> nat \<Rightarrow> (string, u64) gomap \<times> u64 \<times> nat" where
  "coinbase_totals [] actual tot nz = (actual, tot, nz)"
| "coinbase_totals (out # os) actual tot nz =
     (if sint (out_Value out) \<le> 0 then coinbase_totals os actual tot nz
      else let k = hex_EncodeToString (out_PkScript out)
           in coinbase_totals os (gm_set k (gm_get 0 actual k + out_Value out) actual) (tot + out_Value out) (nz + 1))"

fun check_payouts :: "env \<Rightarrow> (string, u64) gomap \<Rightarrow> PayoutOutput list \<Rightarrow> bool \<times> string" where
  "check_payouts E actual [] = (True, '''')"
| "check_payouts E actual (e # es) =
     (case AddressToScriptPubKey E (po_Address e) of
        Inl _ \<Rightarrow> (False, ''invalid payout addr'')
      | Inr sb \<Rightarrow>
          if gm_get 0 actual (hex_EncodeToString sb) \<noteq> of_int (po_Amount e)
          then (False, ''coinbase PPLNS payout amount mismatch'')
          else check_payouts E actual es)"

definition VerifyShareCoinbase :: "env \<Rightarrow> Share \<Rightarrow> ShareChain option \<Rightarrow> bool \<times> string" where
  "VerifyShareCoinbase E s sc =
     (if length (sd_CoinBase (share_data s)) = 0 then (False, ''empty coinbase'')
      else (case share_coinbase E s of
              None \<Rightarrow> (False, ''invalid coinbase tx'')
            | Some tx \<Rightarrow>
                let (actual, tot, nz) = coinbase_totals (tx_TxOut tx) [] 0 0
                in if sint tot \<le> 0 then (False, ''zero reward'')
                   else if 0 < sd_Subsidy (share_data s) \<and> tot \<noteq> sd_Subsidy (share_data s)
                     then (False, ''subsidy mismatch'')
                   else if V2MandatoryActivationTime \<le> header_ts s \<and> s_Type s < ShareVersionV2
                     then (False, ''outdated share version'')
                   else if ShareVersionV2 \<le> s_Type s \<and> si_Timestamp (s_ShareInfo s) \<noteq> mh_Timestamp (s_MinHeader s)
                     then (False, ''share timestamp mismatch'')
                   else if ShareVersionV2 \<le> s_Type s \<and> \<not> carries_commitment tx s
                     then (False, ''metadata commitment mismatch'')
                   else let want = CalculatePPLNSOutputsAtTip E (sint tot) (share_address E s) sc (share_prev s)
                        in if want = [] then (True, '''')
                           else if nz \<noteq> length want then (False, ''coinbase output count mismatch'')
                           else check_payouts E actual want))"


subsection \<open>Payouts conserve the reward\<close>

lemma share_weight_pos: "0 < share_weight s"
  by (simp add: share_weight_def Let_def)

text \<open>What the weighting loop keeps: the total is the sum of the weights, and weights are positive.\<close>

definition weights_ok :: "(string, int) gomap \<times> int \<Rightarrow> bool" where
  "weights_ok = (\<lambda>(m, t). gm_wf m \<and> t = gm_sum m \<and> (\<forall>k \<in> set (gm_keys m). 0 < gm_get 0 m k))"

lemma payout_weights_ok: "weights_ok (m, t) \<Longrightarrow> weights_ok (payout_weights E ss m t)"
proof (induction ss arbitrary: m t)
  case (Cons s ss)
  let ?a = "share_address E s"
  have "0 \<le> gm_get 0 m ?a"
    using Cons.prems gm_get_notin[of ?a m "0::int"] by (cases "?a \<in> set (gm_keys m)") (auto simp: weights_ok_def simp del: set_map)
  then have "weights_ok (gm_set ?a (gm_get 0 m ?a + share_weight s) m, t + share_weight s)"
    using Cons.prems share_weight_pos[of s] by (auto simp: weights_ok_def gm_sum_add gm_keys_set simp del: set_map)
  then show ?case using Cons by (simp add: Let_def)
qed simp

lemma allot_wf: "gm_wf am \<Longrightarrow> gm_wf (allot R W T as al am) \<and> set (gm_keys (allot R W T as al am)) \<subseteq> set (gm_keys am) \<union> set as"
proof (induction R W T as al am rule: allot.induct)
  case (3 R W T a b as al am)
  then show ?case by (cases "0 < R * gm_get 0 W a div T") (auto simp: Let_def gm_keys_set simp del: set_map)
qed (auto simp: Let_def gm_keys_set simp del: set_map)

lemma allot_get:
  assumes "distinct as" "as \<noteq> []" "\<forall>a \<in> set as. 0 \<le> gm_get 0 W a \<and> gm_get 0 am a = 0" "0 < T" "0 \<le> R"
  shows "gm_get 0 (allot R W T as al am) x =
    (if x = last as then max 0 (R - al - (\<Sum>b \<in> set (butlast as). R * gm_get 0 W b div T))
     else if x \<in> set as then R * gm_get 0 W x div T else gm_get 0 am x)"
  using assms
proof (induction R W T as al am rule: allot.induct)
  case (3 R W T a b as al am)
  let ?amt = "R * gm_get 0 W a div T"
  have amt: "0 \<le> ?amt" using 3(4,5,6,7) by (simp add: pos_imp_zdiv_nonneg_iff)
  have disj: "a \<notin> set (butlast (b # as))" using 3(3) by (meson distinct.simps(2) in_set_butlastD)
  have sum: "(\<Sum>c \<in> set (butlast (a # b # as)). R * gm_get 0 W c div T)
      = ?amt + (\<Sum>c \<in> set (butlast (b # as)). R * gm_get 0 W c div T)"
    using disj by simp
  have la: "a \<noteq> last (b # as)" using 3(3) by (metis distinct.simps(2) last_in_set list.distinct(1))
  show ?case
  proof (cases "0 < ?amt")
    case True
    have "gm_get 0 (allot R W T (b # as) (al + ?amt) (gm_set a (gm_get 0 am a + ?amt) am)) x =
      (if x = last (b # as) then max 0 (R - (al + ?amt) - (\<Sum>b \<in> set (butlast (b # as)). R * gm_get 0 W b div T))
       else if x \<in> set (b # as) then R * gm_get 0 W x div T else gm_get 0 (gm_set a (gm_get 0 am a + ?amt) am) x)"
      using 3 True by (intro "3.IH"(1)) auto
    then show ?thesis using True la 3(3,5) sum by (auto simp: Let_def algebra_simps)
  next
    case False
    have "gm_get 0 (allot R W T (b # as) al am) x =
      (if x = last (b # as) then max 0 (R - al - (\<Sum>b \<in> set (butlast (b # as)). R * gm_get 0 W b div T))
       else if x \<in> set (b # as) then R * gm_get 0 W x div T else gm_get 0 am x)"
      using 3 False by (intro "3.IH"(2)) auto
    then show ?thesis using False amt la 3(3,5) sum by (auto simp: Let_def)
  qed
qed (auto simp: Let_def max_def)

text \<open>Arithmetic of the floors: what is left for the last address.\<close>

lemma floors_below:
  fixes w :: "'k \<Rightarrow> int"
  assumes "finite K" "l \<notin> K" "0 < R" "\<forall>k \<in> insert l K. 0 < w k" "T = (\<Sum>k \<in> insert l K. w k)"
  shows "R * w l div T \<le> R - (\<Sum>k \<in> K. R * w k div T)"
    and "R - (\<Sum>k \<in> K. R * w k div T) \<le> R * w l div T + int (card K)"
    and "0 < R - (\<Sum>k \<in> K. R * w k div T)"
proof -
  have T: "0 < T" using assms by (auto simp: add_pos_nonneg sum_nonneg less_imp_le)
  let ?S = "\<Sum>k \<in> K. R * w k div T"
  have eq: "R * T = R * w l + (\<Sum>k \<in> K. R * w k)" using assms by (simp add: algebra_simps sum_distrib_left)
  have fl: "R * w k div T * T \<le> R * w k" "R * w k < R * w k div T * T + T" for k
    using div_mult_mod_eq[of "R * w k" T] pos_mod_sign[OF T, of "R * w k"] pos_mod_bound[OF T, of "R * w k"] by linarith+
  have lo: "?S * T \<le> (\<Sum>k \<in> K. R * w k)"
    unfolding sum_distrib_right by (rule sum_mono) (rule fl)
  have hi: "(\<Sum>k \<in> K. R * w k) \<le> ?S * T + int (card K) * T"
  proof -
    have "(\<Sum>k \<in> K. R * w k) \<le> (\<Sum>k \<in> K. R * w k div T * T + T)"
      by (rule sum_mono) (rule less_imp_le[OF fl(2)])
    then show ?thesis by (simp add: sum.distrib sum_distrib_right)
  qed
  have "R * w l \<le> (R - ?S) * T" using eq lo by (simp add: algebra_simps)
  then show a: "R * w l div T \<le> R - ?S"
    using T fl(1)[of l] order_trans[of "R * w l div T * T" "R * w l" "(R - ?S) * T"]
    by (simp add: mult_le_cancel_right)
  have "0 < R * w l" using assms by simp
  then have "0 < (R - ?S) * T" using \<open>R * w l \<le> (R - ?S) * T\<close> by linarith
  then show "0 < R - ?S" using T by (simp add: zero_less_mult_iff)
  have "(R - ?S) * T \<le> R * w l + int (card K) * T" using eq hi by (simp add: algebra_simps)
  then have "(R - ?S) * T < (R * w l div T + int (card K) + 1) * T"
    using fl(2)[of l] by (simp add: algebra_simps)
  then show "R - ?S \<le> R * w l div T + int (card K)"
    using T by (simp add: mult_less_cancel_right)
qed


text \<open>The amounts a payout assigns, as a function of the weights.\<close>

definition pplns_weights :: "env \<Rightarrow> ShareChain option \<Rightarrow> hash option \<Rightarrow> (string, int) gomap" where
  "pplns_weights E sc anchor = fst (payout_weights E (payout_shares E sc anchor) [] 0)"

definition paid :: "PayoutOutput list \<Rightarrow> string \<Rightarrow> int" where
  "paid outs a = (\<Sum>out \<leftarrow> filter (\<lambda>out. po_Address out = a) outs. po_Amount out)"

lemma weights_facts:
  "payout_weights E (payout_shares E sc anchor) [] 0 = (pplns_weights E sc anchor, gm_sum (pplns_weights E sc anchor))"
  "gm_wf (pplns_weights E sc anchor)"
  "k \<in> set (gm_keys (pplns_weights E sc anchor)) \<Longrightarrow> 0 < gm_get 0 (pplns_weights E sc anchor) k"
proof -
  have "weights_ok (payout_weights E (payout_shares E sc anchor) [] 0)"
    by (rule payout_weights_ok) (simp add: weights_ok_def gm_sum_def)
  then show "payout_weights E (payout_shares E sc anchor) [] 0 = (pplns_weights E sc anchor, gm_sum (pplns_weights E sc anchor))"
    "gm_wf (pplns_weights E sc anchor)"
    "k \<in> set (gm_keys (pplns_weights E sc anchor)) \<Longrightarrow> 0 < gm_get 0 (pplns_weights E sc anchor) k"
    by (auto simp: pplns_weights_def weights_ok_def simp del: set_map)
qed

lemma gm_sum_pos:
  fixes m :: "('k, int) gomap"
  assumes "m \<noteq> []" "\<forall>k \<in> set (gm_keys m). 0 < gm_get 0 m k" shows "0 < gm_sum m"
  unfolding gm_sum_def using assms by (intro sum_pos) auto

text \<open>The amount map before the outputs are listed.\<close>

definition pplns_amounts :: "int \<Rightarrow> string \<Rightarrow> (string, int) gomap \<Rightarrow> (string, int) gomap" where
  "pplns_amounts R dflt W = (if W \<noteq> [] then allot R W (gm_sum W) (sort (gm_keys W)) 0 [] else gm_set dflt R [])"

lemma outputs_form:
  assumes "0 < R"
  shows "CalculatePPLNSOutputsAtTip E R dflt sc anchor =
    (let am = pplns_amounts R dflt (pplns_weights E sc anchor)
     in map (\<lambda>a. \<lparr>po_Address = a, po_Amount = gm_get 0 am a\<rparr>) (filter (\<lambda>a. 0 < gm_get 0 am a) (sort (gm_keys am))))"
proof -
  have "0 < gm_sum (pplns_weights E sc anchor)" if "pplns_weights E sc anchor \<noteq> []"
    using gm_sum_pos that weights_facts(3) by blast
  then show ?thesis using assms
    by (auto simp: CalculatePPLNSOutputsAtTip_def weights_facts(1) pplns_amounts_def Let_def)
qed

lemma butlast_last_set: "xs \<noteq> [] \<Longrightarrow> distinct xs \<Longrightarrow> set xs = insert (last xs) (set (butlast xs)) \<and> last xs \<notin> set (butlast xs)"
  by (cases xs rule: rev_cases) auto

lemma amounts_spec:
  fixes dflt :: string
  assumes W: "gm_wf W" "\<forall>k \<in> set (gm_keys W). 0 < gm_get 0 W k" and R: "0 < R" and ne: "W \<noteq> []"
  defines "am \<equiv> pplns_amounts R dflt W" and "l \<equiv> last (sort (gm_keys W))"
  shows "gm_wf am" "set (gm_keys am) \<subseteq> set (gm_keys W)" "l \<in> set (gm_keys W)"
    "gm_get 0 am l = R - (\<Sum>b \<in> set (gm_keys W) - {l}. R * gm_get 0 W b div gm_sum W)"
    "a \<in> set (gm_keys W) \<Longrightarrow> a \<noteq> l \<Longrightarrow> gm_get 0 am a = R * gm_get 0 W a div gm_sum W"
    "a \<in> set (gm_keys W) \<Longrightarrow> R * gm_get 0 W a div gm_sum W \<le> gm_get 0 am a
       \<and> gm_get 0 am a \<le> R * gm_get 0 W a div gm_sum W + int (length W)"
    "0 < gm_get 0 am l"
proof -
  let ?as = "sort (gm_keys W)" and ?T = "gm_sum W"
  have as: "distinct ?as" "?as \<noteq> []" "set ?as = set (gm_keys W)"
    using W(1) ne by (simp_all add: distinct_sort) (metis length_0_conv length_map length_sort)
  have bl: "set (butlast ?as) = set (gm_keys W) - {l}" "l \<in> set (gm_keys W)"
    using butlast_last_set[OF as(2,1)] as(3) unfolding l_def by auto
  have T: "0 < ?T" using gm_sum_pos[OF ne W(2)] .
  have am: "am = allot R W ?T ?as 0 []" using ne by (simp add: am_def pplns_amounts_def)
  show "gm_wf am" "set (gm_keys am) \<subseteq> set (gm_keys W)"
    using allot_wf[of "[]" R W ?T ?as 0] as(3) unfolding am by auto
  show "l \<in> set (gm_keys W)" by (rule bl)
  have get: "gm_get 0 am x = (if x = l then max 0 (R - (\<Sum>b \<in> set (gm_keys W) - {l}. R * gm_get 0 W b div ?T))
      else if x \<in> set (gm_keys W) then R * gm_get 0 W x div ?T else 0)" for x
    using allot_get[OF as(1,2), of W "[]" ?T R 0 x] W(2) T R unfolding am l_def[symmetric] bl(1) as(3)
    by (simp add: less_imp_le del: set_map)
  have fl: "R * gm_get 0 W l div ?T \<le> R - (\<Sum>k \<in> set (gm_keys W) - {l}. R * gm_get 0 W k div ?T)"
    "R - (\<Sum>k \<in> set (gm_keys W) - {l}. R * gm_get 0 W k div ?T) \<le> R * gm_get 0 W l div ?T + int (card (set (gm_keys W) - {l}))"
    "0 < R - (\<Sum>k \<in> set (gm_keys W) - {l}. R * gm_get 0 W k div ?T)"
    using floors_below[of "set (gm_keys W) - {l}" l R "gm_get 0 W" ?T] R W(2) bl(2)
    by (simp_all add: insert_absorb gm_sum_def del: set_map)
  show "gm_get 0 am l = R - (\<Sum>b \<in> set (gm_keys W) - {l}. R * gm_get 0 W b div ?T)" "0 < gm_get 0 am l"
    using get fl(3) by simp_all
  show "gm_get 0 am a = R * gm_get 0 W a div ?T" if "a \<in> set (gm_keys W)" "a \<noteq> l"
    using get that by simp
  have "card (set (gm_keys W) - {l}) \<le> length W"
    by (metis card_Diff1_le card_length le_trans length_map)
  then show "R * gm_get 0 W a div ?T \<le> gm_get 0 am a \<and> gm_get 0 am a \<le> R * gm_get 0 W a div ?T + int (length W)"
    if "a \<in> set (gm_keys W)"
    using get[of a] that fl by auto
qed


lemma amounts_total:
  assumes "0 < R" "gm_wf W" "\<forall>k \<in> set (gm_keys W). 0 < gm_get 0 W k"
  shows "gm_wf (pplns_amounts R dflt W) \<and> gm_sum (pplns_amounts R dflt W) = R
    \<and> (\<forall>k \<in> set (gm_keys (pplns_amounts R dflt W)). 0 \<le> gm_get 0 (pplns_amounts R dflt W) k)"
proof (cases "W = []")
  case True
  then show ?thesis using assms(1) by (simp add: pplns_amounts_def gm_sum_def gm_set_def gm_get_def)
next
  case False
  let ?am = "pplns_amounts R dflt W" and ?l = "last (sort (gm_keys W))"
  note sp = amounts_spec(1,2)[OF assms(2,3,1) False, where dflt = dflt] amounts_spec(3)[OF assms(2,3,1) False]
    amounts_spec(4,5,6)[OF assms(2,3,1) False, where dflt = dflt]
  have "gm_sum ?am = (\<Sum>k \<in> set (gm_keys W). gm_get 0 ?am k)"
    unfolding gm_sum_def using sp(2) by (intro sum.mono_neutral_left) (auto simp: gm_get_notin simp del: set_map)
  also have "\<dots> = gm_get 0 ?am ?l + (\<Sum>k \<in> set (gm_keys W) - {?l}. gm_get 0 ?am k)"
    by (rule sum.remove[OF _ sp(3)]) simp
  also have "(\<Sum>k \<in> set (gm_keys W) - {?l}. gm_get 0 ?am k) = (\<Sum>k \<in> set (gm_keys W) - {?l}. R * gm_get 0 W k div gm_sum W)"
    by (rule sum.cong) (use sp(5) in \<open>auto simp del: set_map\<close>)
  finally have "gm_sum ?am = R" using sp(4) by simp
  moreover have "0 \<le> gm_get 0 ?am k" if "k \<in> set (gm_keys ?am)" for k
  proof -
    have "k \<in> set (gm_keys W)" using that sp(2) by auto
    then have "R * gm_get 0 W k div gm_sum W \<le> gm_get 0 ?am k" "0 < gm_get 0 W k" using sp(6) assms(3) by blast+
    moreover have "0 \<le> R * gm_get 0 W k div gm_sum W"
      using calculation(2) assms(1) gm_sum_pos[OF False assms(3)] by (simp add: pos_imp_zdiv_nonneg_iff)
    ultimately show ?thesis by linarith
  qed
  ultimately show ?thesis using sp(1) by blast
qed

lemma outputs_sum:
  assumes "gm_wf am" "\<forall>k \<in> set (gm_keys am). 0 \<le> gm_get 0 am k"
  shows "(\<Sum>a \<leftarrow> filter (\<lambda>a. 0 < gm_get 0 am a) (sort (gm_keys am)). gm_get 0 am a) = (gm_sum am :: int)"
proof -
  have "distinct (filter (\<lambda>a. 0 < gm_get 0 am a) (sort (gm_keys am)))" using assms(1) by (simp add: distinct_sort)
  then have "(\<Sum>a \<leftarrow> filter (\<lambda>a. 0 < gm_get 0 am a) (sort (gm_keys am)). gm_get 0 am a)
    = (\<Sum>a \<in> {a \<in> set (gm_keys am). 0 < gm_get 0 am a}. gm_get 0 am a)"
    by (subst sum_list_distinct_conv_sum_set) simp_all
  also have "\<dots> = gm_sum am"
    unfolding gm_sum_def using assms(2) by (intro sum.mono_neutral_left) (auto simp: le_less simp del: set_map)
  finally show ?thesis .
qed

lemma pplns_outputs_facts:
  fixes E :: env and dflt :: string and sc :: "ShareChain option" and anchor :: "hash option"
  assumes "0 < R"
  defines "outs \<equiv> CalculatePPLNSOutputsAtTip E R dflt sc anchor"
  shows "(\<Sum>out \<leftarrow> outs. po_Amount out) = R" "\<forall>out \<in> set outs. 0 < po_Amount out"
    "sorted (map po_Address outs)" "distinct (map po_Address outs)"
proof -
  let ?am = "pplns_amounts R dflt (pplns_weights E sc anchor)"
  have am: "gm_wf ?am" "gm_sum ?am = R" "\<forall>k \<in> set (gm_keys ?am). 0 \<le> gm_get 0 ?am k"
    using amounts_total[OF assms(1) weights_facts(2), of E sc anchor dflt] weights_facts(3) by blast+
  have o: "outs = map (\<lambda>a. \<lparr>po_Address = a, po_Amount = gm_get 0 ?am a\<rparr>) (filter (\<lambda>a. 0 < gm_get 0 ?am a) (sort (gm_keys ?am)))"
    unfolding outs_def outputs_form[OF assms(1)] Let_def ..
  show "(\<Sum>out \<leftarrow> outs. po_Amount out) = R"
    unfolding o using outputs_sum[OF am(1,3)] am(2) by (simp add: comp_def)
  show "\<forall>out \<in> set outs. 0 < po_Amount out" "sorted (map po_Address outs)" "distinct (map po_Address outs)"
    unfolding o using am(1) by (auto simp: comp_def sorted_filter[where f = id, simplified] distinct_sort)
qed

text \<open>C1: For every chain, parent and positive reward, the PPLNS outputs have positive amounts, list each
  address once in increasing order, and add up to exactly the reward.\<close>

theorem pplns_conserves_reward:
  assumes "0 < R"
  shows "(\<Sum>out \<leftarrow> CalculatePPLNSOutputsAtTip E R dflt sc anchor. po_Amount out) = R
    \<and> (\<forall>out \<in> set (CalculatePPLNSOutputsAtTip E R dflt sc anchor). 0 < po_Amount out)
    \<and> sorted (map po_Address (CalculatePPLNSOutputsAtTip E R dflt sc anchor))
    \<and> distinct (map po_Address (CalculatePPLNSOutputsAtTip E R dflt sc anchor))"
  using pplns_outputs_facts[OF assms] by blast

theorem pplns_conserves_reward_witness:
  "(\<Sum>out \<leftarrow> CalculatePPLNSOutputsAtTip demo_env 1250000000 ''x'' (Some (demo_chain 3)) None. po_Amount out) = 1250000000"
  using pplns_conserves_reward[of 1250000000 demo_env "''x''" "Some (demo_chain 3)" None] by simp

lemma filter_eq_distinct: "distinct xs \<Longrightarrow> filter (\<lambda>x. x = a) xs = (if a \<in> set xs then [a] else [])"
  by (induction xs) (auto simp: filter_empty_conv)

lemma paid_amount:
  assumes "0 < R"
  shows "paid (CalculatePPLNSOutputsAtTip E R dflt sc anchor) a
    = (if 0 < gm_get 0 (pplns_amounts R dflt (pplns_weights E sc anchor)) a
       then gm_get 0 (pplns_amounts R dflt (pplns_weights E sc anchor)) a else 0)"
proof -
  let ?am = "pplns_amounts R dflt (pplns_weights E sc anchor)"
  let ?L = "filter (\<lambda>a. 0 < gm_get 0 ?am a) (sort (gm_keys ?am))"
  have "gm_wf ?am"
    using amounts_total[OF assms weights_facts(2), of E sc anchor dflt] weights_facts(3) by blast
  then have d: "distinct ?L" by (simp add: distinct_sort)
  have mem: "a \<in> set ?L \<longleftrightarrow> 0 < gm_get 0 ?am a"
    using gm_get_notin[of a ?am "0::int"]
    by (cases "a \<in> set (gm_keys ?am)") (simp_all del: set_map)
  have "paid (CalculatePPLNSOutputsAtTip E R dflt sc anchor) a = (\<Sum>x \<leftarrow> filter (\<lambda>x. x = a) ?L. gm_get 0 ?am x)"
    unfolding paid_def outputs_form[OF assms] Let_def filter_map by (simp add: comp_def)
  moreover have "filter (\<lambda>x. x = a) ?L = (if a \<in> set ?L then [a] else [])"
    by (rule filter_eq_distinct[OF d])
  ultimately show ?thesis using mem by auto
qed

text \<open>Every miner with a share in the window is paid its proportion of the reward, rounded down, up to
  one unit for each miner in the window (the rounding remainder goes to one of them).\<close>

theorem pplns_proportional:
  assumes "0 < R" "a \<in> set (gm_keys (pplns_weights E sc anchor))"
  defines "W \<equiv> pplns_weights E sc anchor"
  shows "R * gm_get 0 W a div gm_sum W \<le> paid (CalculatePPLNSOutputsAtTip E R dflt sc anchor) a
    \<and> paid (CalculatePPLNSOutputsAtTip E R dflt sc anchor) a \<le> R * gm_get 0 W a div gm_sum W + int (length W)"
proof -
  have ne: "W \<noteq> []" using assms(2) by (auto simp: W_def)
  have W: "gm_wf W" "\<forall>k \<in> set (gm_keys W). 0 < gm_get 0 W k" unfolding W_def using weights_facts(2,3) by blast+
  have "0 \<le> R * gm_get 0 W a div gm_sum W"
    using W(2) assms gm_sum_pos[OF ne W(2)] by (auto simp: W_def pos_imp_zdiv_nonneg_iff less_imp_le simp del: set_map)
  then show ?thesis
    using amounts_spec(6)[OF W assms(1) ne, of a dflt] assms(2) paid_amount[OF assms(1), of E dflt sc anchor a]
    unfolding W_def by auto
qed


subsection \<open>The Stratum split is undone by the miner's extranonce\<close>

lemma hex_Decode_append:
  "hex_DecodeString a = Some x \<Longrightarrow> hex_DecodeString (a @ b) = map_option ((@) x) (hex_DecodeString b)"
proof (induction a arbitrary: x rule: hex_DecodeString.induct)
  case 1
  then show ?case by (cases "hex_DecodeString b") auto
next
  case (3 c d cs)
  then show ?case by (cases "hex_DecodeString b") (auto split: option.splits)
qed simp

lemma bytes_Index_Some:
  "bytes_Index raw pat = Some i \<Longrightarrow> raw = take i raw @ pat @ drop (i + length pat) raw"
proof (induction raw arbitrary: i)
  case (Cons x xs)
  show ?case
  proof (cases "prefix pat (x # xs)")
    case True
    then show ?thesis using Cons.prems by (auto simp: prefix_def)
  next
    case False
    then show ?thesis using Cons by auto
  qed
qed (auto split: if_splits)

text \<open>The two halves sent to a Stratum miner are the serialised coinbase around the place of the
  extranonce: with any extranonce of the miner, in hexadecimal, in between they decode to the
  coinbase bytes in which this extranonce stands in the marker's place.\<close>

theorem coinbase_split_rebuild:
  assumes "SplitCoinbaseForStratumAtTip E tmpl addr wc sc tip = Inr (c1, c2)"
  shows "\<exists>tx raw pre post. buildCoinbaseMsgTxAtTip E tmpl addr marker wc sc tip = Inr tx
    \<and> e_SerializeNoWitness E tx = Some raw \<and> raw = pre @ marker @ post
    \<and> (\<forall>en1 en2 en. hex_DecodeString (en1 @ en2) = Some en \<longrightarrow>
         hex_DecodeString (c1 @ en1 @ en2 @ c2) = Some (pre @ en @ post))"
proof -
  obtain tx raw i where t: "buildCoinbaseMsgTxAtTip E tmpl addr marker wc sc tip = Inr tx"
    "e_SerializeNoWitness E tx = Some raw" "bytes_Index raw marker = Some i"
    "c1 = hex_EncodeToString (take i raw)" "c2 = hex_EncodeToString (drop (i + length marker) raw)"
    using assms by (auto simp: SplitCoinbaseForStratumAtTip_def split: sum.splits option.splits)
  have "hex_DecodeString (c1 @ en1 @ en2 @ c2) = Some (take i raw @ en @ drop (i + length marker) raw)"
    if "hex_DecodeString (en1 @ en2) = Some en" for en1 en2 en
    using hex_Decode_append[OF that, of c2] hex_Decode_append[of c1 "take i raw" "en1 @ en2 @ c2"]
    by (simp add: t hex_roundtrip)
  then show ?thesis using t bytes_Index_Some[OF t(3)] by blast
qed

subsection \<open>An accepted coinbase pays the window\<close>

definition positive_outs :: "msgtx \<Rightarrow> txout list" where
  "positive_outs tx = filter (\<lambda>out. 0 < sint (out_Value out)) (tx_TxOut tx)"

definition paid_to :: "txout list \<Rightarrow> byte list \<Rightarrow> u64" where
  "paid_to outs scr = (\<Sum>out \<leftarrow> filter (\<lambda>out. out_PkScript out = scr) outs. out_Value out)"

lemma coinbase_totals_spec:
  assumes "coinbase_totals outs m t n = (m', t', n')"
  defines "pos \<equiv> filter (\<lambda>out. 0 < sint (out_Value out)) outs"
  shows "gm_get 0 m' (hex_EncodeToString scr) = gm_get 0 m (hex_EncodeToString scr) + paid_to pos scr
    \<and> t' = t + (\<Sum>out \<leftarrow> pos. out_Value out) \<and> n' = n + length pos"
  using assms(1) unfolding pos_def
proof (induction outs m t n rule: coinbase_totals.induct)
  case (2 out os actual tot nz)
  then show ?case
    by (auto simp: Let_def paid_to_def hex_inj not_le not_less algebra_simps split: if_splits)
qed (simp add: paid_to_def)

lemma check_payouts_iff:
  "fst (check_payouts E m es) \<longleftrightarrow>
     (\<forall>e \<in> set es. \<exists>scr. AddressToScriptPubKey E (po_Address e) = Inr scr
        \<and> gm_get 0 m (hex_EncodeToString scr) = of_int (po_Amount e))"
  by (induction es) (auto split: sum.split)

lemma fst_if_False: "fst (if a then (False, r) else X) \<longleftrightarrow> \<not> a \<and> fst X"
  by simp

lemma fst_if_True: "fst (if a then (True, r) else X) \<longleftrightarrow> a \<or> fst X"
  by simp

lemma VerifyShareCoinbase_iff:
  "fst (VerifyShareCoinbase E s sc) \<longleftrightarrow>
     sd_CoinBase (share_data s) \<noteq> [] \<and>
     (\<exists>tx. share_coinbase E s = Some tx \<and>
       (let tot = (\<Sum>out \<leftarrow> positive_outs tx. out_Value out);
            want = CalculatePPLNSOutputsAtTip E (sint tot) (share_address E s) sc (share_prev s)
        in 0 < sint tot
          \<and> (sd_Subsidy (share_data s) = 0 \<or> tot = sd_Subsidy (share_data s))
          \<and> (V2MandatoryActivationTime \<le> header_ts s \<longrightarrow> ShareVersionV2 \<le> s_Type s)
          \<and> (ShareVersionV2 \<le> s_Type s \<longrightarrow>
               si_Timestamp (s_ShareInfo s) = mh_Timestamp (s_MinHeader s) \<and> carries_commitment tx s)
          \<and> length (positive_outs tx) = length want
          \<and> (\<forall>e \<in> set want. \<exists>scr. AddressToScriptPubKey E (po_Address e) = Inr scr
               \<and> paid_to (positive_outs tx) scr = of_int (po_Amount e))))"
proof (cases "share_coinbase E s")
  case None
  then show ?thesis by (simp add: VerifyShareCoinbase_def)
next
  case (Some tx)
  obtain m t n where c: "coinbase_totals (tx_TxOut tx) [] 0 0 = (m, t, n)" by (metis prod_cases3)
  have f: "gm_get 0 m (hex_EncodeToString scr) = paid_to (positive_outs tx) scr"
    "t = (\<Sum>out \<leftarrow> positive_outs tx. out_Value out)" "n = length (positive_outs tx)" for scr
    using coinbase_totals_spec[OF c, of scr] by (simp_all add: positive_outs_def)
  have ne: "CalculatePPLNSOutputsAtTip E (sint t) a sc p \<noteq> []" if "0 < sint t" for a p
    using pplns_outputs_facts(1)[OF that, of E a sc p] that by auto
  define want where "want = CalculatePPLNSOutputsAtTip E (sint t) (share_address E s) sc (share_prev s)"
  have "fst (VerifyShareCoinbase E s sc) \<longleftrightarrow> sd_CoinBase (share_data s) \<noteq> [] \<and> 0 < sint t
      \<and> \<not> (0 < sd_Subsidy (share_data s) \<and> t \<noteq> sd_Subsidy (share_data s))
      \<and> \<not> (V2MandatoryActivationTime \<le> header_ts s \<and> s_Type s < ShareVersionV2)
      \<and> \<not> (ShareVersionV2 \<le> s_Type s \<and> si_Timestamp (s_ShareInfo s) \<noteq> mh_Timestamp (s_MinHeader s))
      \<and> \<not> (ShareVersionV2 \<le> s_Type s \<and> \<not> carries_commitment tx s)
      \<and> (want = [] \<or> n = length want \<and> fst (check_payouts E m want))"
    by (simp only: VerifyShareCoinbase_def Some c option.case prod.case Let_def fst_if_False fst_if_True want_def[symmetric]
        length_0_conv not_le simp_thms)
  moreover have "want \<noteq> []" if "0 < sint t" using ne that unfolding want_def .
  ultimately have "fst (VerifyShareCoinbase E s sc) \<longleftrightarrow> sd_CoinBase (share_data s) \<noteq> [] \<and> 0 < sint t
      \<and> (sd_Subsidy (share_data s) = 0 \<or> t = sd_Subsidy (share_data s))
      \<and> (V2MandatoryActivationTime \<le> header_ts s \<longrightarrow> ShareVersionV2 \<le> s_Type s)
      \<and> (ShareVersionV2 \<le> s_Type s \<longrightarrow>
           si_Timestamp (s_ShareInfo s) = mh_Timestamp (s_MinHeader s) \<and> carries_commitment tx s)
      \<and> n = length want \<and> fst (check_payouts E m want)"
    using word_gt_0 by (auto simp: not_less)
  then show ?thesis
    unfolding check_payouts_iff f(1) by (simp only: Some Let_def option.inject ex_simps simp_thms f(2)[symmetric] f(3)[symmetric] want_def[symmetric])
qed



subsection \<open>The coinbase a node builds is one it accepts\<close>

lemma payout_txouts_all2:
  "payout_txouts E ps = Inr os \<Longrightarrow>
   list_all2 (\<lambda>p out. AddressToScriptPubKey E (po_Address p) = Inr (out_PkScript out) \<and> out_Value out = of_int (po_Amount p)) ps os"
  by (induction ps arbitrary: os) (auto split: sum.splits)

lemma sint_amount: "0 < a \<Longrightarrow> a < 2 ^ 63 \<Longrightarrow> sint (of_int a :: u64) = a"
  by (simp add: sint_sbintrunc' signed_take_bit_int_eq_self)

text \<open>Each script gets exactly its own amount when the scripts of the payout differ.\<close>

lemma paid_to_distinct:
  assumes "distinct (map out_PkScript os)" "out \<in> set os" shows "paid_to os (out_PkScript out) = out_Value out"
  using assms
proof (induction os)
  case (Cons x os)
  have "filter (\<lambda>y. out_PkScript y = out_PkScript x) os = []"
    using Cons.prems(1) by (auto simp: filter_empty_conv) (metis imageI)
  moreover have "out_PkScript out \<noteq> out_PkScript x" if "out \<in> set os"
    using Cons.prems(1) that by auto (metis imageI)
  ultimately show ?case using Cons by (auto simp: paid_to_def)
qed simp

lemma le_sum_list_pos: "\<forall>x \<in> set xs. 0 < x \<Longrightarrow> (0::int) \<le> sum_list xs \<and> (a \<in> set xs \<longrightarrow> a \<le> sum_list xs)"
  by (induction xs) auto

lemma built_positive_outs:
  assumes "payout_txouts E ps = Inr os" "\<forall>p \<in> set ps. 0 < po_Amount p \<and> po_Amount p < 2 ^ 63"
  shows "filter (\<lambda>out. 0 < sint (out_Value out)) os = os"
proof -
  have "\<forall>out \<in> set os. \<exists>p \<in> set ps. out_Value out = of_int (po_Amount p)"
    using payout_txouts_all2[OF assms(1)] by (auto simp: list_all2_conv_all_nth in_set_conv_nth) (metis nth_mem)
  then have "\<forall>out \<in> set os. 0 < sint (out_Value out)" using assms(2) sint_amount by fastforce
  then show ?thesis by (simp add: filter_id_conv)
qed

lemma built_total:
  assumes "payout_txouts E ps = Inr os"
  shows "(\<Sum>out \<leftarrow> os. out_Value out) = of_int (\<Sum>p \<leftarrow> ps. po_Amount p)"
  using payout_txouts_all2[OF assms] by (induction rule: list_all2_induct) simp_all

text \<open>The metadata of a share mined on the job of a template at the tip \<open>tip\<close>.\<close>

definition mined_for :: "env \<Rightarrow> BlockTemplate \<Rightarrow> string \<Rightarrow> ShareChain \<Rightarrow> hash option \<Rightarrow> Share \<Rightarrow> bool" where
  "mined_for E tmpl addr c tip s \<longleftrightarrow>
     s_Type s = ShareVersionV2 \<and> share_prev s = tip
     \<and> s_Target s = Some (DiffToTarget (GetExpectedShareDifficulty E c tip))
     \<and> (sd_PubKeyHashVersion (share_data s), sd_PubKeyHash (share_data s)) = DecodeAddressToPKH E addr
     \<and> sd_Subsidy (share_data s) = of_int (t_CoinbaseValue tmpl) \<and> sd_Donation (share_data s) = fee_hundredths E
     \<and> sd_StaleInfo (share_data s) = StaleInfoNone \<and> si_AbsHeight (s_ShareInfo s) = of_int (t_Height tmpl)
     \<and> si_Timestamp (s_ShareInfo s) = mh_Timestamp (s_MinHeader s)
     \<and> sd_CoinBase (share_data s) \<noteq> [] \<and> share_address E s = addr"

lemma mined_commitment:
  assumes "mined_for E tmpl addr c tip s"
  shows "metadata_script E tmpl addr (Some c) tip = AddData (AddOp NewScriptBuilder OP_RETURN) (share_commitment s)"
  using assms by (auto simp: mined_for_def metadata_script_def share_commitment_def Let_def split: prod.split)

lemma sublist_AddData: "sublist d (AddData b d)"
proof -
  obtain h where "AddData b d = (b @ h) @ d @ []" by (simp add: AddData_def Let_def)
  then show ?thesis by (metis sublist_appendI)
qed

lemma built_accepted:
  assumes build: "buildCoinbaseMsgTxAtTip E tmpl addr en wc (Some c) tip = Inr tx"
    and share: "mined_for E tmpl addr c tip s" and tx: "share_coinbase E s = Some tx"
    and R: "0 < t_CoinbaseValue tmpl" "t_CoinbaseValue tmpl < 2 ^ 63"
    and scripts: "distinct (map out_PkScript (positive_outs tx))"
  shows "fst (VerifyShareCoinbase E s (Some c))"
proof -
  let ?want = "CalculatePPLNSOutputsAtTip E (t_CoinbaseValue tmpl) addr (Some c) tip"
  note facts = pplns_outputs_facts[OF R(1), of E addr "Some c" tip]
  obtain os where os: "payout_txouts E ?want = Inr os"
    "tx_TxOut tx = os @ (if wc = [] then [] else [\<lparr>out_Value = 0, out_PkScript = witness_script wc\<rparr>])
       @ [\<lparr>out_Value = 0, out_PkScript = metadata_script E tmpl addr (Some c) tip\<rparr>]"
    using build by (auto simp: buildCoinbaseMsgTxAtTip_def split: option.splits sum.splits)
  have amt: "\<forall>p \<in> set ?want. 0 < po_Amount p \<and> po_Amount p < 2 ^ 63"
  proof
    fix p assume p: "p \<in> set ?want"
    then have "po_Amount p \<le> t_CoinbaseValue tmpl"
      using le_sum_list_pos[of "map po_Amount ?want" "po_Amount p"] facts(1,2) by auto
    then show "0 < po_Amount p \<and> po_Amount p < 2 ^ 63" using facts(2) p R(2) by auto
  qed
  have pos: "positive_outs tx = os"
    using built_positive_outs[OF os(1) amt] by (simp add: positive_outs_def os(2))
  have tot: "(\<Sum>out \<leftarrow> positive_outs tx. out_Value out) = of_int (t_CoinbaseValue tmpl)"
    using built_total[OF os(1)] facts(1) pos by simp
  have st: "sint (of_int (t_CoinbaseValue tmpl) :: u64) = t_CoinbaseValue tmpl" by (rule sint_amount[OF R])
  note a2 = payout_txouts_all2[OF os(1)]
  have len: "length (positive_outs tx) = length ?want" using list_all2_lengthD[OF a2] pos by simp
  have pay: "\<forall>e \<in> set ?want. \<exists>scr. AddressToScriptPubKey E (po_Address e) = Inr scr
      \<and> paid_to (positive_outs tx) scr = of_int (po_Amount e)"
  proof
    fix e assume "e \<in> set ?want"
    then obtain i where "i < length ?want" "e = ?want ! i" by (metis in_set_conv_nth)
    then have "AddressToScriptPubKey E (po_Address e) = Inr (out_PkScript (os ! i))" "out_Value (os ! i) = of_int (po_Amount e)"
      "os ! i \<in> set os" using a2 by (auto simp: list_all2_conv_all_nth)
    then show "\<exists>scr. AddressToScriptPubKey E (po_Address e) = Inr scr
      \<and> paid_to (positive_outs tx) scr = of_int (po_Amount e)"
      using paid_to_distinct scripts pos by metis
  qed
  have "carries_commitment tx s"
    using sublist_AddData by (auto simp: carries_commitment_def os(2) mined_commitment[OF share])
  then show ?thesis
    using share tx tot st len pay R(1) unfolding VerifyShareCoinbase_iff mined_for_def by (auto simp: Let_def)
qed

text \<open>Two addresses of one key hash with different version bytes (0x47 and 0x6f, of the main and the test network) are
  different payees with one script. A coinbase pays each script its total, and the check asks for each payee's own amount, so a
  window with two such payees of different amounts is paid by no coinbase at all.\<close>

lemma versions_share_script:
  assumes "e_Base58Decode E a = v # pkh @ cs" "e_Base58Decode E b = w # pkh @ cs" "length cs = 4"
    and "v \<notin> {0x05, 0xc4}" "w \<notin> {0x05, 0xc4}" "trim_space a = a" "trim_space b = b" "\<not> is_segwit_prefix a" "\<not> is_segwit_prefix b"
  shows "AddressToScriptPubKey E a = AddressToScriptPubKey E b"
  using assms by (simp add: AddressToScriptPubKey_def Let_def)

lemma shared_script_refused:
  assumes "share_coinbase E s = Some tx"
    and "{e, e'} \<subseteq> set (CalculatePPLNSOutputsAtTip E (sint (\<Sum>out \<leftarrow> positive_outs tx. out_Value out)) (share_address E s) sc (share_prev s))"
    and "AddressToScriptPubKey E (po_Address e) = AddressToScriptPubKey E (po_Address e')" "(of_int (po_Amount e) :: u64) \<noteq> of_int (po_Amount e')"
  shows "\<not> fst (VerifyShareCoinbase E s sc)"
proof
  assume "fst (VerifyShareCoinbase E s sc)"
  then have w: "\<exists>scr. AddressToScriptPubKey E (po_Address x) = Inr scr \<and> paid_to (positive_outs tx) scr = of_int (po_Amount x)"
    if "x \<in> {e, e'}" for x using assms(1,2) that unfolding VerifyShareCoinbase_iff Let_def by auto
  from w[of e] w[of e'] show False using assms(3,4) by auto
qed



subsection \<open>Examples\<close>

lemma demo_link_valid: "fst (IsValid demo_env (demo_link 0))"
  by (simp add: demo_link_def IsValid_def demo_share_def shareHasStandardPayout_def IsStandardPayout_def demo_pow
      header_ts_def V2MandatoryActivationTime_def ShareVersionV1_def ShareVersionV2_def Let_def)

lemma demo_link_credit: "0 < effective_diff (demo_link 0)"
proof -
  have "\<exists>p t. s_POWHash (demo_link 0) = Some p \<and> s_Target (demo_link 0) = Some t \<and> 0 < t \<and> t < 2 ^ 256
      \<and> 0 < big_SetBytes p \<and> big_SetBytes p \<le> t"
    by (simp add: demo_link_def demo_share_def demo_pow)
  then obtain p t where v: "s_POWHash (demo_link 0) = Some p" "s_Target (demo_link 0) = Some t" "0 < t" "t < 2 ^ 256"
    "0 < big_SetBytes p" "big_SetBytes p \<le> t" by blast
  have td: "target_diff (demo_link 0) = TargetToDiff (Some t)" using v by (simp add: target_diff_def no_target_def)
  have "TargetToDiff (Some t) \<le> TargetToDiff (Some (big_SetBytes p))" using v by (intro TargetToDiff_antimono)
  then have "\<not> pow_below (demo_link 0) (target_diff (demo_link 0))"
    using fmul_999[of "TargetToDiff (Some t)"] by (simp add: pow_below_def v(1) td)
  then show ?thesis using target_diff_pos[OF v(3,4)] td by (simp add: effective_diff_def Let_def)
qed

lemma demo_payout_shares: "payout_shares demo_env (Some (demo_chain 1)) (Some (demo_hash 0)) = [demo_link 0]"
proof -
  have l: "map_of (sc_shares (demo_chain (Suc 0))) (demo_key 0) = Some (demo_link 0)"
    using demo_chain_lookup[of 1 0] by simp
  have k: "e_HashString demo_env (demo_hash 0) = demo_key 0" by (simp add: demo_key_def)
  have "fst (window_step demo_env DefaultPPLNSWindow d window0 (demo_link 0))
      = (fst (window_step demo_env DefaultPPLNSWindow d window0 (demo_link 0)))\<lparr>pw_sel := [demo_link 0]\<rparr>" for d
    using demo_link_credit by (simp add: window_step_def window_open_def window0_def Let_def MaxPPLNSWindowAgeSecs_def)
  then have "pw_sel (fst (window_step demo_env DefaultPPLNSWindow d window0 (demo_link 0))) = [demo_link 0]" for d
    by (metis window.select_convs(4) window.surjective window.update_convs(4))
  then show ?thesis
    by (simp add: payout_shares_def GetSharesForPayout_def walk_start_def demo_no_parent demo_len l k Let_def
        DefaultPPLNSWindow_def split: prod.split) (simp add: DefaultPPLNSWindow_def[symmetric], metis fst_conv)
qed

theorem pplns_proportional_witness:
  "\<exists>a. 0 < paid (CalculatePPLNSOutputsAtTip demo_env 1250000000 ''x'' (Some (demo_chain 1)) (Some (demo_hash 0))) a"
proof -
  let ?W = "pplns_weights demo_env (Some (demo_chain 1)) (Some (demo_hash 0))" and ?a = "share_address demo_env (demo_link 0)"
  have a: "?a \<noteq> ''''" by (simp add: share_address_def demo_link_def demo_share_def demo_env_def demo_config_def Let_def)
  have "shareHasStandardPayout (demo_link 0)" "\<not> no_target (demo_link 0)"
    by (simp_all add: demo_link_def demo_share_def shareHasStandardPayout_def IsStandardPayout_def no_target_def)
  then have W: "?W = [(?a, share_weight (demo_link 0))]"
    using a demo_link_credit by (simp add: pplns_weights_def demo_payout_shares[simplified] counts_for_payout_def Let_def gm_set_def)
  then have "?a \<in> set (gm_keys ?W)" by simp
  from pplns_proportional[OF _ this, of 1250000000 "''x''"]
  have "1250000000 * gm_get 0 ?W ?a div gm_sum ?W \<le> paid (CalculatePPLNSOutputsAtTip demo_env 1250000000 ''x'' (Some (demo_chain 1)) (Some (demo_hash 0))) ?a"
    by simp
  moreover have "1250000000 * gm_get 0 ?W ?a div gm_sum ?W = 1250000000"
    unfolding W using share_weight_pos[of "demo_link 0"] by (simp add: gm_get_def gm_sum_def)
  ultimately have "0 < paid (CalculatePPLNSOutputsAtTip demo_env 1250000000 ''x'' (Some (demo_chain 1)) (Some (demo_hash 0))) ?a"
    by linarith
  then show ?thesis by blast
qed


definition demo_tmpl :: "int \<Rightarrow> BlockTemplate" where
  "demo_tmpl v = \<lparr>t_Version = 0x20000000, t_PreviousBlockHash = '''', t_Transactions = [], t_CoinbaseAuxFlags = '''',
     t_CoinbaseValue = v, t_MinTime = 0, t_CurTime = 0, t_Bits = ''1b00ffff'', t_Height = 5, t_FullNode = True,
     t_PrevBlockHeaderHex = '''', t_AncestorHeadersHex = []\<rparr>"

theorem coinbase_split_rebuild_witness:
  "\<exists>c1 c2. SplitCoinbaseForStratumAtTip (demo_env\<lparr>e_SerializeNoWitness := \<lambda>tx. Some (9 # in_Script (hd (tx_TxIn tx)) @ [8])\<rparr>)
       (demo_tmpl 0) ''x'' [] None None = Inr (c1, c2)
     \<and> hex_DecodeString (c1 @ ''0102'' @ ''0304'' @ c2) = Some ([9] @ [1, 2, 3, 4] @ [8])"
proof -
  let ?E = "demo_env\<lparr>e_SerializeNoWitness := \<lambda>tx. Some (9 # in_Script (hd (tx_TxIn tx)) @ [8])\<rparr>"
  obtain tx where tx: "buildCoinbaseMsgTxAtTip ?E (demo_tmpl 0) ''x'' marker [] None None = Inr tx"
    "e_SerializeNoWitness ?E tx = Some (9 # marker @ [8])"
    by (simp add: buildCoinbaseMsgTxAtTip_def demo_env_def demo_tmpl_def aux_data_def CalculatePPLNSOutputsAtTip_def)
  have ix: "bytes_Index (9 # marker @ [8]) marker = Some 1" by (simp add: marker_def)
  then have sp: "SplitCoinbaseForStratumAtTip ?E (demo_tmpl 0) ''x'' [] None None
      = Inr (hex_EncodeToString [9], hex_EncodeToString [8])"
    using tx by (simp add: SplitCoinbaseForStratumAtTip_def marker_def)
  from coinbase_split_rebuild[OF this] obtain pre post where p: "9 # marker @ [8] = pre @ marker @ post"
    "\<And>en1 en2 en. hex_DecodeString (en1 @ en2) = Some en \<Longrightarrow>
       hex_DecodeString (hex_EncodeToString [9] @ en1 @ en2 @ hex_EncodeToString [8]) = Some (pre @ en @ post)"
    using tx by auto
  have "pre = [9] \<and> post = [8]"
  proof -
    have "length pre + length post = 2" using arg_cong[OF p(1), of length] by simp
    then consider "pre = []" | x where "pre = [x]" | x y where "pre = [x, y]" "post = []"
      by (cases pre; cases "tl pre"; cases "tl (tl pre)") auto
    then show ?thesis using p(1) by cases (auto simp: marker_def)
  qed
  moreover have "hex_DecodeString (''0102'' @ ''0304'') = Some [1, 2, 3, 4]" by code_simp
  ultimately show ?thesis using sp p(2)[of "''0102''" "''0304''"] by auto
qed

text \<open>A share of version 2 on the empty chain that pays its finder a P2PKH output.\<close>

definition demo_addr :: string where
  "demo_addr = hex_EncodeToString (0x47 # replicate 20 3 @ [0, 0, 0, 0])"

definition demo_mined :: Share where
  "demo_mined = (demo_share None genesisHash 1800000000)
     \<lparr>s_Type := ShareVersionV2, s_Target := Some (DiffToTarget MinPoolShareDiff),
      s_ShareInfo := (s_ShareInfo (demo_share None genesisHash 1800000000))
        \<lparr>si_AbsHeight := 5,
         si_ShareData := (share_data (demo_share None genesisHash 1800000000))
           \<lparr>sd_PubKeyHashVersion := 0x47, sd_Subsidy := 1250000000\<rparr>\<rparr>\<rparr>"

definition demo_script :: "byte list" where
  "demo_script = AddOp (AddOp (AddData (AddOp (AddOp NewScriptBuilder OP_DUP) OP_HASH160) (replicate 20 3)) OP_EQUALVERIFY) OP_CHECKSIG"

definition demo_built :: msgtx where
  "demo_built = \<lparr>tx_Version = 2,
     tx_TxIn = [\<lparr>in_Hash = replicate 32 0, in_Index = 0xffffffff, in_Script = [1, 2],
                 in_Witness = [replicate 32 0], in_Sequence = 0xffffffff\<rparr>],
     tx_TxOut = [\<lparr>out_Value = 1250000000, out_PkScript = demo_script\<rparr>,
                 \<lparr>out_Value = 0, out_PkScript = AddData (AddOp NewScriptBuilder OP_RETURN) (share_commitment demo_mined)\<rparr>],
     tx_LockTime = 0\<rparr>"

definition demo_mined_env :: env where
  "demo_mined_env = demo_env\<lparr>e_Deserialize := \<lambda>b. Some demo_built\<rparr>"

lemma demo_decode: "e_Base58Decode demo_mined_env demo_addr = 0x47 # replicate 20 3 @ [0, 0, 0, 0]"
  by (simp add: demo_mined_env_def demo_env_def demo_addr_def hex_roundtrip)

lemma demo_addr_plain: "trim_space demo_addr = demo_addr" "\<not> is_segwit_prefix demo_addr"
  by code_simp+

lemma demo_addr_script: "AddressToScriptPubKey demo_mined_env demo_addr = Inr demo_script"
  by (simp add: AddressToScriptPubKey_def demo_addr_plain demo_decode demo_script_def Let_def)

lemma demo_want: "CalculatePPLNSOutputsAtTip E 1250000000 a (Some NewShareChain) None = [\<lparr>po_Address = a, po_Amount = 1250000000\<rparr>]"
  by (simp add: CalculatePPLNSOutputsAtTip_def payout_shares_def GetTipHash_def GetSharesForPayout_def NewShareChain_def
      walk_start_def no_parent_def gm_set_def gm_get_def)

lemma demo_mined_for: "mined_for demo_mined_env (demo_tmpl 1250000000) demo_addr NewShareChain None demo_mined"
proof -
  have d: "GetExpectedShareDifficulty E NewShareChain None = MinPoolShareDiff" for E
    by (simp add: GetExpectedShareDifficulty_def getExpectedShareDifficultyLocked_def getOrderedChainWalkLocked_def
        walk_start_def NewShareChain_def no_parent_def TargetLookbehind_def)
  have "DecodeAddressToPKH demo_mined_env demo_addr = (0x47, replicate 20 3)"
    using demo_addr_plain(2) by (simp add: DecodeAddressToPKH_def is_segwit_prefix_def demo_decode Let_def)
  moreover have "share_address demo_mined_env demo_mined = demo_addr"
    by (simp add: share_address_def demo_mined_def demo_share_def demo_mined_env_def demo_env_def demo_addr_def Let_def)
  moreover have "fee_hundredths demo_mined_env = 0"
    by (simp add: fee_hundredths_def demo_mined_env_def demo_env_def demo_config_def trunc_rat_def)
  ultimately show ?thesis
    by (simp add: mined_for_def d) (simp add: demo_mined_def demo_share_def demo_tmpl_def)
qed

lemma demo_mined_build:
  "buildCoinbaseMsgTxAtTip demo_mined_env (demo_tmpl 1250000000) demo_addr [1, 2] [] (Some NewShareChain) None = Inr demo_built"
  using mined_commitment[OF demo_mined_for] demo_addr_script demo_want[of demo_mined_env demo_addr]
  by (simp add: buildCoinbaseMsgTxAtTip_def demo_tmpl_def aux_data_def demo_built_def)
    (simp add: demo_mined_env_def demo_env_def)



end
