(* ===== verification/ShareVerify.thy ===== *)
theory ShareVerify
  imports ShareWork ShareStats Coinbase "HOL-Library.Multiset"
begin

text \<open>
  How shares enter, are verified and leave the chain (\<open>work/sharechain.go\<close>): \<open>AddSharesOutcomes\<close>,
  \<open>verifyPending\<close>, \<open>checkConsensus\<close>, \<open>markVerifiedLocked\<close>, \<open>pruneLocked\<close>, \<open>PruneOldShares\<close>,
  \<open>pruneUnverified\<close>, \<open>loadTrusted\<close> and the round of \<open>maintenanceLoop\<close>. Each operation runs to its
  end before the next; in the code \<open>AddSharesOutcomes\<close> takes and releases \<open>sc.mutex\<close> several times, and
  \<open>prune_mark_race\<close> is an interleaving between two of these sections that leaves the invariant. The clock and the node's mining information are
  arguments; a \<open>sort.Slice\<close> is a stable sort of the map's enumeration, which ranges over all orders.
  The invariant \<open>book_ok\<close> relates the verified and the received map to the held shares.
\<close>

datatype ShareOutcome = SharePending | ShareAccepted | ShareDuplicate | ShareInvalid

definition unverifiedShareTTL :: time where "unverifiedShareTTL = seconds (20 * 60)"
definition maxUnverifiedShares :: nat where "maxUnverifiedShares = nat DefaultPPLNSWindow"

subsection \<open>Consensus rules\<close>

definition share_pow :: "Share \<Rightarrow> int" where
  "share_pow s = (case s_POWHash s of Some p \<Rightarrow> big_SetBytes p | None \<Rightarrow> 0)"

definition difficulty_rejects :: "env \<Rightarrow> ShareChain \<Rightarrow> Share \<Rightarrow> hash option \<Rightarrow> bool" where
  "difficulty_rejects E sc s p =
     (let w = getOrderedChainWalkLocked E sc p (int TargetLookbehind)
      in TargetLookbehind \<le> length w \<and> ConsensusV2ActivationTime \<le> share_ts (w ! (TargetLookbehind - 1))
         \<and> (let expD = GetExpectedShareDifficulty E sc p; clmD = target_diff s; pi = share_pow s;
                actD = TargetToDiff (Some pi); netT = e_CompactToBig E (mh_Bits (s_MinHeader s))
            in (actD < fmul expD (f64 (999 / 1000)) \<or> clmD < fmul expD (f64 (999 / 1000))
                \<or> fmul expD (f64 (1001 / 1000)) < clmD) \<and> netT < pi))"

definition checkConsensus :: "env \<Rightarrow> ShareChain \<Rightarrow> Share \<Rightarrow> hash option \<Rightarrow> int \<Rightarrow> int \<Rightarrow> bool" where
  "checkConsensus E sc s p pLen eff =
     (if V2MandatoryActivationTime \<le> eff \<and> s_Type s < ShareVersionV2 then False
      else if ConsensusV3ActivationTime \<le> eff
              \<and> (case medianTimePastLocked E sc p of Some mtp \<Rightarrow> share_ts s < mtp | None \<Rightarrow> False) then False
      else if is_stale s then True
      else if difficulty_rejects E sc s p then False
      else if int TargetLookbehind \<le> pLen \<and> hasCompletePPLNSWindow E sc p
              \<and> ConsensusV2ActivationTime + MaxPPLNSWindowAgeSecs \<le> eff
        then fst (VerifyShareCoinbase E s (Some sc))
      else True)"

definition markVerifiedLocked :: "env \<Rightarrow> string \<Rightarrow> ShareChain \<Rightarrow> ShareChain" where
  "markVerifiedLocked E h sc =
     considerTipLocked E [h]
       (markDirtyLocked h (sc\<lparr>sc_verified := gm_set h True (sc_verified sc),
                              sc_received := gm_del h (sc_received sc)\<rparr>))"

text \<open>The variables of the loop of \<open>verifyPending\<close>: the chain, the number verified, the rejected.\<close>

record verify_state =
  vs_chain :: ShareChain
  vs_count :: nat
  vs_rejected :: "string list"

definition parent_ready :: "env \<Rightarrow> ShareChain \<Rightarrow> Share \<Rightarrow> bool \<times> int" where
  "parent_ready E sc s =
     (let p = share_prev s; k = e_HashString E (the p);
          gen = no_parent p;
          hLen = (if \<not> gen \<and> held sc k \<noteq> None then gm_get 0 (sc_chainLen sc) k else 0)
      in (gen \<or> is_verified sc k \<or> int TargetLookbehind \<le> hLen, hLen))"

definition verify_one :: "env \<Rightarrow> verify_state \<Rightarrow> Share \<Rightarrow> verify_state" where
  "verify_one E v sh =
     (let sc = vs_chain v; h = e_HashString E (the (s_Hash sh)); p = share_prev sh
      in if is_verified sc h then v
         else let (ready, hLen) = parent_ready E sc sh
              in if \<not> ready then v
                 else let eff = effectiveTimeLocked E sc sh p
                      in if ConsensusV2ActivationTime \<le> eff \<and> \<not> checkConsensus E sc sh p hLen eff
                         then let sc1 = snd (unlinkShareLocked E h sc)
                              in v\<lparr>vs_chain := sc1\<lparr>sc_changes := sc_changes sc1 + 1\<rparr>,
                                   vs_rejected := vs_rejected v @ [h]\<rparr>
                         else v\<lparr>vs_chain := markVerifiedLocked E h sc, vs_count := vs_count v + 1\<rparr>)"

definition pending_shares :: "env \<Rightarrow> ShareChain \<Rightarrow> Share list" where
  "pending_shares E sc =
     sort_key (\<lambda>sh. gm_get 0 (sc_chainLen sc) (e_HashString E (the (s_Hash sh))))
       (map snd (filter (\<lambda>(h, sh). \<not> is_verified sc h \<and> s_Hash sh \<noteq> None) (sc_shares sc)))"

definition verifyPending :: "env \<Rightarrow> ShareChain \<Rightarrow> nat \<times> string list \<times> ShareChain" where
  "verifyPending E sc =
     (let pend = pending_shares E sc
      in if pend = [] then (0, [], sc)
         else let v = foldl (verify_one E) \<lparr>vs_chain = sc, vs_count = 0, vs_rejected = []\<rparr> pend;
                  sc1 = (if vs_rejected v = [] then vs_chain v
                         else dropWorkLocked E (vs_rejected v) False (vs_chain v))
              in (vs_count v, vs_rejected v, sc1))"

subsection \<open>Adding shares\<close>

text \<open>The hashes of a share as \<open>AddSharesOutcomes\<close> completes them; errors leave the field empty.\<close>

definition with_hash :: "env \<Rightarrow> Share \<Rightarrow> Share" where
  "with_hash E s = (if s_Hash s = None then (case CalculateHash E s of Inr s1 \<Rightarrow> s1 | Inl _ \<Rightarrow> s) else s)"

definition with_pow :: "env \<Rightarrow> Share \<Rightarrow> Share" where
  "with_pow E s = (if s_POWHash s = None then (case CalculatePOWHash E s of Inr s1 \<Rightarrow> s1 | Inl _ \<Rightarrow> s) else s)"

text \<open>One round of the loop: the chain, the outcome and the key of the share when it was stored.\<close>

definition add_one :: "env \<Rightarrow> time \<Rightarrow> ShareChain \<Rightarrow> Share \<Rightarrow> ShareChain \<times> ShareOutcome \<times> string" where
  "add_one E now sc sh =
     (if CheckShareTime sh now \<noteq> '''' \<or> \<not> CheckShareTargetFloor sh then (sc, ShareInvalid, '''')
      else let sh1 = with_hash E sh
           in (case s_Hash sh1 of
                 None \<Rightarrow> (sc, ShareInvalid, '''')
               | Some hh \<Rightarrow>
                   let h = e_HashString E hh
                   in if held sc h \<noteq> None then (sc, ShareDuplicate, '''')
                      else let sh2 = with_pow E sh1
                           in if \<not> fst (IsValid E sh2) then (sc, ShareInvalid, '''')
                              else let cp = sh2\<lparr>s_decodedAddr := fst (DecodeShareAddress E sh2)\<rparr>
                                   in (sc\<lparr>sc_shares := gm_set h cp (sc_shares sc),
                                          sc_received := gm_set h now (sc_received sc),
                                          sc_changes := sc_changes sc + 1\<rparr>, SharePending, h)))"

fun add_loop :: "env \<Rightarrow> time \<Rightarrow> ShareChain \<Rightarrow> Share list \<Rightarrow> ShareChain \<times> (ShareOutcome \<times> string) list" where
  "add_loop E now sc [] = (sc, [])"
| "add_loop E now sc (sh # shs) =
     (let (sc1, o1, h) = add_one E now sc sh; (sc2, r) = add_loop E now sc1 shs in (sc2, (o1, h) # r))"

definition final_outcome :: "ShareChain \<Rightarrow> string list \<Rightarrow> ShareOutcome \<times> string \<Rightarrow> ShareOutcome" where
  "final_outcome sc rejected oh =
     (case oh of (o1, h) \<Rightarrow> if h \<in> set rejected then ShareInvalid
                           else if h \<noteq> '''' \<and> is_verified sc h then ShareAccepted else o1)"

definition AddSharesOutcomes ::
  "env \<Rightarrow> time \<Rightarrow> MiningInfo option \<Rightarrow> Share list \<Rightarrow> ShareChain \<Rightarrow> ShareOutcome list \<times> nat \<times> ShareChain" where
  "AddSharesOutcomes E now info newShares sc =
     (let (sc1, r) = add_loop E now sc newShares;
          sc2 = addWorkLocked E (filter (\<lambda>h. h \<noteq> '''') (map snd r)) sc1;
          (v, rejected, sc3) = verifyPending E sc2;
          sc4 = (if 0 < v then updateStats E now info sc3 else sc3)
      in (map (final_outcome sc4 rejected) r, v, sc4))"

definition AddShares :: "env \<Rightarrow> time \<Rightarrow> MiningInfo option \<Rightarrow> Share list \<Rightarrow> ShareChain \<Rightarrow> nat \<times> ShareChain" where
  "AddShares E now info newShares sc = (case AddSharesOutcomes E now info newShares sc of (_, v, sc1) \<Rightarrow> (v, sc1))"

subsection \<open>Pruning\<close>

definition pruneLocked :: "env \<Rightarrow> int \<Rightarrow> ShareChain \<Rightarrow> nat \<times> ShareChain" where
  "pruneLocked E cutoff sc =
     (let old = map fst (filter (\<lambda>(h, s). share_ts s < cutoff) (sc_shares sc))
      in (length old,
          if old = [] then sc else removeSharesLocked E old (sc\<lparr>sc_changes := sc_changes sc + 1\<rparr>)))"

definition PruneOldShares :: "env \<Rightarrow> time \<Rightarrow> ShareChain \<Rightarrow> ShareChain" where
  "PruneOldShares E now sc = snd (pruneLocked E (Unix (now - maxShareAge)) sc)"

text \<open>The walk from a verified share down to a verified or already marked one.\<close>

function mark_held :: "env \<Rightarrow> ShareChain \<Rightarrow> Share \<Rightarrow> string list \<Rightarrow> string list" where
  "mark_held E sc sh hl =
     (let p = prev_key E sh
      in if p = '''' \<or> is_verified sc p \<or> p \<in> set hl then hl
         else (case held sc p of None \<Rightarrow> hl | Some sh1 \<Rightarrow> mark_held E sc sh1 (p # hl)))"
  by pat_completeness auto
termination
proof (relation "measure (\<lambda>(E, sc, sh, hl). card (set (gm_keys (sc_shares sc)) - set hl))", simp, goal_cases)
  case (1 E sc sh hl p s)
  then have "p \<in> set (gm_keys (sc_shares sc)) - set hl" by (auto simp: set_gm_keys simp del: set_map)
  then have "set (gm_keys (sc_shares sc)) - set (p # hl) \<subset> set (gm_keys (sc_shares sc)) - set hl" by auto
  then show ?case using 1 by (simp add: psubset_card_mono del: set_map)
qed

declare mark_held.simps [simp del]

definition built_upon :: "env \<Rightarrow> ShareChain \<Rightarrow> string list" where
  "built_upon E sc =
     foldl (\<lambda>hl h. case held sc h of None \<Rightarrow> hl | Some sh \<Rightarrow> mark_held E sc sh hl) [] (gm_keys (sc_verified sc))"

definition unverified_drop :: "env \<Rightarrow> time \<Rightarrow> ShareChain \<Rightarrow> string list" where
  "unverified_drop E now sc =
     (let hl = built_upon E sc;
          expired = (\<lambda>(h, t). h \<notin> set hl \<and> unverifiedShareTTL \<le> now - t);
          drp = map fst (filter expired (sc_received sc));
          keep = map fst (filter (\<lambda>ht. \<not> expired ht) (sc_received sc))
      in if maxUnverifiedShares < length keep
         then drp @ take (length keep - maxUnverifiedShares) (sort_key (\<lambda>h. gm_get 0 (sc_received sc) h) keep)
         else drp)"

definition pruneUnverified :: "env \<Rightarrow> time \<Rightarrow> ShareChain \<Rightarrow> ShareChain" where
  "pruneUnverified E now sc =
     (if sc_received sc = [] then sc
      else let drp = unverified_drop E now sc
           in if drp = [] then sc else removeSharesLocked E drp (sc\<lparr>sc_changes := sc_changes sc + 1\<rparr>))"

text \<open>One round of \<open>maintenanceLoop\<close>.\<close>

definition maintenanceRound :: "env \<Rightarrow> time \<Rightarrow> MiningInfo option \<Rightarrow> ShareChain \<Rightarrow> ShareChain" where
  "maintenanceRound E now info sc = updateStats E now info (pruneUnverified E now (PruneOldShares E now sc))"

subsection \<open>Loading\<close>

definition load_one :: "env \<Rightarrow> ShareChain \<Rightarrow> Share \<Rightarrow> ShareChain" where
  "load_one E sc sh =
     (let sh1 = with_hash E sh
      in (case s_Hash sh1 of
            None \<Rightarrow> sc
          | Some hh \<Rightarrow>
              let h = e_HashString E hh
              in sc\<lparr>sc_shares := gm_set h (sh1\<lparr>s_decodedAddr := fst (DecodeShareAddress E sh1)\<rparr>) (sc_shares sc),
                    sc_verified := gm_set h True (sc_verified sc)\<rparr>))"

definition loadTrusted :: "env \<Rightarrow> time \<Rightarrow> MiningInfo option \<Rightarrow> Share list \<Rightarrow> ShareChain \<Rightarrow> ShareChain" where
  "loadTrusted E now info fs sc =
     updateStats E now info (recomputeWorkAndTipLocked E (foldl (load_one E) sc fs))"


subsection \<open>Bookkeeping\<close>

text \<open>Only held shares are verified, and exactly the held shares that are not verified are awaited.\<close>

definition book_ok :: "ShareChain \<Rightarrow> bool" where
  "book_ok sc \<longleftrightarrow>
     (\<forall>h. is_verified sc h \<longrightarrow> held sc h \<noteq> None)
     \<and> (\<forall>h. map_of (sc_received sc) h \<noteq> None \<longleftrightarrow> held sc h \<noteq> None \<and> \<not> is_verified sc h)"

text \<open>Shares are held under their own hash, and those awaiting verification are valid by themselves.\<close>

definition keyed :: "env \<Rightarrow> ShareChain \<Rightarrow> bool" where
  "keyed E sc \<longleftrightarrow> (\<forall>h s. held sc h = Some s \<longrightarrow> (\<exists>hh. s_Hash s = Some hh \<and> e_HashString E hh = h))"

definition pending_valid :: "env \<Rightarrow> ShareChain \<Rightarrow> bool" where
  "pending_valid E sc \<longleftrightarrow> (\<forall>h s. held sc h = Some s \<longrightarrow> \<not> is_verified sc h \<longrightarrow> fst (IsValid E s))"

definition books :: "env \<Rightarrow> ShareChain \<Rightarrow> bool" where
  "books E sc \<longleftrightarrow> book_ok sc \<and> keyed E sc \<and> pending_valid E sc
     \<and> index_ok E sc \<and> gm_wf (sc_shares sc) \<and> gm_wf (sc_children sc)"

definition sc_inv :: "env \<Rightarrow> ShareChain \<Rightarrow> bool" where
  "sc_inv E sc \<longleftrightarrow> books E sc \<and> work_ok E sc"

lemmas books_defs = books_def book_ok_def keyed_def pending_valid_def

lemma books_cong:
  assumes "sc_shares sc' = sc_shares sc" "sc_children sc' = sc_children sc" "sc_verified sc' = sc_verified sc"
    "sc_received sc' = sc_received sc"
  shows "books E sc' \<longleftrightarrow> books E sc"
  using assms by (simp add: books_defs index_upto_def)

lemma work_cong:
  assumes "sc_shares sc' = sc_shares sc" "sc_cumWork sc' = sc_cumWork sc" "sc_chainLen sc' = sc_chainLen sc"
  shows "work_at E sc' = work_at E sc" "work_ok E sc' = work_ok E sc"
  using assms by (simp_all add: work_ok_def work_at_def parent_work_def Let_def fun_eq_iff)

lemma changes_simps [simp]:
  "books E (sc\<lparr>sc_changes := n\<rparr>) = books E sc" "work_at E (sc\<lparr>sc_changes := n\<rparr>) = work_at E sc"
  "work_ok E (sc\<lparr>sc_changes := n\<rparr>) = work_ok E sc" "sc_inv E (sc\<lparr>sc_changes := n\<rparr>) = sc_inv E sc"
  by (simp_all add: books_cong[of "sc\<lparr>sc_changes := n\<rparr>" sc] work_cong[of "sc\<lparr>sc_changes := n\<rparr>" sc] sc_inv_def)

lemma sc_inv_chain: "sc_inv E sc \<longleftrightarrow> books E sc \<and> chain_ok E sc"
  by (auto simp: sc_inv_def books_def chain_ok_def)

lemma updateStats_frame [simp]:
  "sc_shares (updateStats E now info sc) = sc_shares sc" "sc_children (updateStats E now info sc) = sc_children sc"
  "sc_verified (updateStats E now info sc) = sc_verified sc" "sc_received (updateStats E now info sc) = sc_received sc"
  "sc_cumWork (updateStats E now info sc) = sc_cumWork sc" "sc_chainLen (updateStats E now info sc) = sc_chainLen sc"
  "sc_TipHash (updateStats E now info sc) = sc_TipHash sc"
  by (simp_all add: updateStats_def Let_def split: option.split)

lemma sc_inv_updateStats [simp]: "sc_inv E (updateStats E now info sc) = sc_inv E sc"
  by (simp add: sc_inv_def books_cong[of "updateStats E now info sc" sc] work_cong[of "updateStats E now info sc" sc])

text \<open>Unlinking.\<close>

lemma unlink_maps:
  "map_of (sc_verified (snd (unlinkShareLocked E h sc))) = (if held sc h = None then map_of (sc_verified sc) else (map_of (sc_verified sc))(h := None))"
  "map_of (sc_received (snd (unlinkShareLocked E h sc))) = (if held sc h = None then map_of (sc_received sc) else (map_of (sc_received sc))(h := None))"
  by (auto simp: unlinkShareLocked_def Let_def markDirtyLocked_def split: option.split)

lemma unlink_verified: "is_verified (snd (unlinkShareLocked E h sc)) k \<longleftrightarrow> is_verified sc k \<and> \<not> (k = h \<and> held sc h \<noteq> None)"
  by (simp add: gm_get_def unlink_maps)

lemma books_unlink: assumes "books E sc" shows "books E (snd (unlinkShareLocked E h sc))"
proof -
  let ?sc' = "snd (unlinkShareLocked E h sc)"
  have b: "book_ok sc" "keyed E sc" "pending_valid E sc" using assms by (simp_all add: books_def)
  have "index_ok E ?sc'" "gm_wf (sc_shares ?sc')" "gm_wf (sc_children ?sc')"
    using assms index_unlink unlink_wf unfolding books_def by blast+
  moreover have "book_ok ?sc'" using b(1) by (cases "held sc h") (auto simp: book_ok_def unlink_verified unlink_maps)
  moreover have "keyed E ?sc'" using b(2) by (auto simp: keyed_def)
  moreover have "pending_valid E ?sc'" using b(3) by (auto simp: pending_valid_def unlink_verified)
  ultimately show ?thesis by (simp add: books_def)
qed

lemma books_unlink_all: "books E sc \<Longrightarrow> books E (snd (unlink_all E hs b sc))"
  by (induction hs arbitrary: b sc) (auto simp: case_prod_beta books_unlink)

lemma dropWork_frame [simp]:
  "sc_shares (dropWorkLocked E rem b sc) = sc_shares sc" "sc_children (dropWorkLocked E rem b sc) = sc_children sc"
  "sc_verified (dropWorkLocked E rem b sc) = sc_verified sc" "sc_received (dropWorkLocked E rem b sc) = sc_received sc"
  "sc_dirty (dropWorkLocked E rem b sc) = sc_dirty sc"
  by (simp_all add: dropWorkLocked_def Let_def case_prod_beta)

lemma removeShares_books: "books E sc \<Longrightarrow> books E (removeSharesLocked E hs sc)"
  using books_unlink_all[of E sc hs False]
  by (simp add: removeSharesLocked_def case_prod_beta books_cong[of "dropWorkLocked _ _ _ _"])

lemma removeShares_inv:
  assumes "sc_inv E sc" "ranked E (sc_shares sc) r"
  shows "sc_inv E (removeSharesLocked E hs sc)"
    "held (removeSharesLocked E hs sc) = held sc |` (- set hs)"
  using assms removeShares_ok[of E sc r hs] removeShares_books by (simp_all add: sc_inv_chain)

lemma removeShares_verified:
  "is_verified (removeSharesLocked E hs sc) k \<longleftrightarrow> is_verified sc k \<and> \<not> (k \<in> set hs \<and> held sc k \<noteq> None)"
proof -
  have "is_verified (snd (unlink_all E hs b sc)) k \<longleftrightarrow> is_verified sc k \<and> \<not> (k \<in> set hs \<and> held sc k \<noteq> None)" for b
    by (induction hs arbitrary: b sc) (auto simp: case_prod_beta unlink_verified)
  then show ?thesis by (simp add: removeSharesLocked_def case_prod_beta)
qed


subsection \<open>The verification pass\<close>

lemma markVerified_frame [simp]:
  "sc_shares (markVerifiedLocked E h sc) = sc_shares sc" "sc_children (markVerifiedLocked E h sc) = sc_children sc"
  "sc_cumWork (markVerifiedLocked E h sc) = sc_cumWork sc" "sc_chainLen (markVerifiedLocked E h sc) = sc_chainLen sc"
  "sc_verified (markVerifiedLocked E h sc) = gm_set h True (sc_verified sc)"
  "sc_received (markVerifiedLocked E h sc) = gm_del h (sc_received sc)"
  by (simp_all add: markVerifiedLocked_def markDirtyLocked_def)

lemma books_mark:
  assumes "books E sc" "held sc h \<noteq> None" shows "books E (markVerifiedLocked E h sc)"
proof -
  have "index_ok E (markVerifiedLocked E h sc)" using assms(1) by (simp add: books_def index_upto_def)
  then show ?thesis using assms by (auto simp: books_defs)
qed

lemma work_at_unlink:
  assumes "work_at E sc k" "held (snd (unlinkShareLocked E h sc)) k = Some s" "prevKeyLocked E s = '''' \<or> prevKeyLocked E s \<noteq> h"
  shows "work_at E (snd (unlinkShareLocked E h sc)) k"
proof -
  let ?sc' = "snd (unlinkShareLocked E h sc)"
  have k: "k \<noteq> h" "held sc k = Some s" using assms(2) by (auto split: if_splits)
  have "parent_work E ?sc' s = parent_work E sc s"
    using assms(3) unlink_get[of "prevKeyLocked E s" h E sc] by (auto simp: parent_work_def Let_def)
  then show ?thesis using assms(1,2) k unlink_get[OF k(1), of E sc] by (simp add: work_at_def)
qed

text \<open>What the loop keeps: the books, and right work wherever no rejected share is the parent.\<close>

definition pass_inv :: "env \<Rightarrow> ShareChain \<Rightarrow> verify_state \<Rightarrow> bool" where
  "pass_inv E sc0 v \<longleftrightarrow>
     books E (vs_chain v) \<and> map_of (sc_shares (vs_chain v)) \<subseteq>\<^sub>m map_of (sc_shares sc0)
     \<and> (\<forall>h s. held (vs_chain v) h = Some s \<longrightarrow> prevKeyLocked E s = '''' \<or> prevKeyLocked E s \<notin> set (vs_rejected v)
           \<longrightarrow> work_at E (vs_chain v) h)
     \<and> (\<forall>h \<in> set (vs_rejected v). held (vs_chain v) h = None \<and> held sc0 h \<noteq> None)
     \<and> (\<forall>h. is_verified sc0 h \<longrightarrow> is_verified (vs_chain v) h)
     \<and> (\<forall>h. held sc0 h \<noteq> None \<longrightarrow> held (vs_chain v) h = None \<longrightarrow> h \<in> set (vs_rejected v))"

lemma verify_one_cases:
  fixes E :: env and v :: verify_state
  assumes "s_Hash sh = Some hh"
  defines "h \<equiv> e_HashString E hh" and "sc \<equiv> vs_chain v"
  obtains (keep) "verify_one E v sh = v"
    | (reject) "verify_one E v sh = v\<lparr>vs_chain := (snd (unlinkShareLocked E h sc))\<lparr>sc_changes := sc_changes (snd (unlinkShareLocked E h sc)) + 1\<rparr>,
        vs_rejected := vs_rejected v @ [h]\<rparr>" "\<not> is_verified sc h"
    | (accept) "verify_one E v sh = v\<lparr>vs_chain := markVerifiedLocked E h sc, vs_count := vs_count v + 1\<rparr>"
        "\<not> is_verified sc h" "fst (parent_ready E sc sh)"
        "ConsensusV2ActivationTime \<le> effectiveTimeLocked E sc sh (share_prev sh)
         \<Longrightarrow> checkConsensus E sc sh (share_prev sh) (snd (parent_ready E sc sh)) (effectiveTimeLocked E sc sh (share_prev sh))"
proof -
  let ?eff = "effectiveTimeLocked E sc sh (share_prev sh)"
  let ?bad = "ConsensusV2ActivationTime \<le> ?eff \<and> \<not> checkConsensus E sc sh (share_prev sh) (snd (parent_ready E sc sh)) ?eff"
  note d = verify_one_def Let_def case_prod_beta
  consider "is_verified sc h \<or> \<not> fst (parent_ready E sc sh)"
    | "\<not> is_verified sc h" "fst (parent_ready E sc sh)" ?bad
    | "\<not> is_verified sc h" "fst (parent_ready E sc sh)" "\<not> ?bad" by blast
  then show ?thesis
  proof cases
    case 1
    then show ?thesis using assms by (intro keep) (auto simp: d)
  next
    case 2
    then show ?thesis using assms by (intro reject) (simp_all add: d)
  next
    case 3
    then show ?thesis using assms by (intro accept) (auto simp: d)
  qed
qed

lemma verify_one_inv:
  assumes inv: "pass_inv E sc0 v" and sh: "s_Hash sh = Some hh" "held sc0 (e_HashString E hh) = Some sh"
    and nr: "e_HashString E hh \<notin> set (vs_rejected v)"
  shows "pass_inv E sc0 (verify_one E v sh)"
proof -
  let ?sc = "vs_chain v" and ?h = "e_HashString E hh"
  note i = inv[unfolded pass_inv_def]
  have b: "books E ?sc" and sub: "map_of (sc_shares ?sc) \<subseteq>\<^sub>m map_of (sc_shares sc0)"
    and wk: "\<And>k s. held ?sc k = Some s \<Longrightarrow> prevKeyLocked E s = '''' \<or> prevKeyLocked E s \<notin> set (vs_rejected v) \<Longrightarrow> work_at E ?sc k"
    and gone: "\<And>k. k \<in> set (vs_rejected v) \<Longrightarrow> held ?sc k = None \<and> held sc0 k \<noteq> None"
    and ver: "\<And>k. is_verified sc0 k \<Longrightarrow> is_verified ?sc k"
    and lost: "\<And>k. held sc0 k \<noteq> None \<Longrightarrow> held ?sc k = None \<Longrightarrow> k \<in> set (vs_rejected v)"
    using i by blast+
  have hd: "held ?sc ?h \<noteq> None" using lost[of ?h] sh nr by auto
  show ?thesis
  proof (cases rule: verify_one_cases[OF sh(1), where E = E and v = v, case_names keep reject accept])
    case keep
    then show ?thesis using inv by simp
  next
    case 2: reject
    let ?sc' = "snd (unlinkShareLocked E ?h ?sc)"
    have hs: "held ?sc' k = (if k = ?h then None else held ?sc k)" for k by simp
    have w: "work_at E ?sc' k"
      if "held ?sc' k = Some s" "prevKeyLocked E s = '''' \<or> prevKeyLocked E s \<notin> set (vs_rejected v @ [?h])" for k s
    proof (rule work_at_unlink[OF _ that(1)])
      show "work_at E ?sc k" using that wk[of k s] unfolding hs by (auto split: if_splits)
    qed (use that(2) in auto)
    show ?thesis unfolding 2(1) pass_inv_def
    proof (intro conjI allI ballI impI, goal_cases)
      case 1
      then show ?case using books_unlink[OF b] by simp
    next
      case 2
      then show ?case using sub by (auto simp: map_le_def)
    next
      case (3 k s)
      then show ?case using w[of k s] by simp
    next
      case (4 k)
      then show ?case using gone[of k] by auto
    next
      case (5 k)
      then show ?case using gone[of k] sh(2) by auto
    next
      case (6 k)
      then show ?case using ver[OF 6] 2(2) by (auto simp: unlink_verified)
    next
      case (7 k)
      then show ?case using lost[of k] by (auto split: if_splits)
    qed
  next
    case 3: accept
    have "books E (markVerifiedLocked E ?h ?sc)" by (rule books_mark[OF b hd])
    moreover have "work_at E (markVerifiedLocked E ?h ?sc) = work_at E ?sc" by (rule work_cong) simp_all
    ultimately show ?thesis unfolding 3(1) pass_inv_def using i by simp
  qed
qed

lemma verify_one_rejected:
  assumes "s_Hash sh = Some hh"
  shows "set (vs_rejected (verify_one E v sh)) \<subseteq> insert (e_HashString E hh) (set (vs_rejected v))"
  using assms by (auto simp: verify_one_def Let_def case_prod_beta)

text \<open>The pending shares are distinct held shares.\<close>

lemma pending_props:
  assumes "books E sc" "sh \<in> set (pending_shares E sc)"
  shows "\<exists>hh. s_Hash sh = Some hh \<and> held sc (e_HashString E hh) = Some sh \<and> \<not> is_verified sc (e_HashString E hh)"
proof -
  obtain h where h: "(h, sh) \<in> set (sc_shares sc)" "\<not> is_verified sc h" using assms(2) by (auto simp: pending_shares_def)
  then have "held sc h = Some sh" using assms(1) by (simp add: books_def map_of_is_SomeI)
  moreover have "keyed E sc" using assms(1) by (simp add: books_def)
  ultimately obtain hh where "s_Hash sh = Some hh" "e_HashString E hh = h" unfolding keyed_def by blast
  then show ?thesis using \<open>held sc h = Some sh\<close> h(2) by blast
qed

lemma pending_distinct:
  assumes "books E sc" shows "distinct (map (\<lambda>sh. e_HashString E (the (s_Hash sh))) (pending_shares E sc))"
proof -
  let ?k = "\<lambda>sh. e_HashString E (the (s_Hash sh))"
  let ?l = "filter (\<lambda>(h, sh). \<not> is_verified sc h \<and> s_Hash sh \<noteq> None) (sc_shares sc)"
  have ky: "keyed E sc" and wf: "gm_wf (sc_shares sc)" using assms by (simp_all add: books_def)
  have "?k sh = h" if "(h, sh) \<in> set ?l" for h sh
  proof -
    have "held sc h = Some sh" using that wf by (auto intro: map_of_is_SomeI)
    then show ?thesis using ky unfolding keyed_def by fastforce
  qed
  then have e: "map ?k (map snd ?l) = map fst ?l" by (simp only: map_map o_def) (rule map_cong[OF refl], force)
  have d: "distinct (map fst ?l)" using wf by (rule distinct_map_filter)
  have "mset (map ?k (pending_shares E sc)) = mset (map ?k (map snd ?l))"
    unfolding pending_shares_def by (simp only: mset_map mset_sort)
  then show ?thesis using d unfolding e[symmetric] by (metis mset_eq_imp_distinct_iff)
qed

lemma verify_fold_inv:
  assumes "pass_inv E sc0 v" "books E sc0" "\<forall>sh \<in> set pend. \<exists>hh. s_Hash sh = Some hh \<and> held sc0 (e_HashString E hh) = Some sh"
    "distinct (map (\<lambda>sh. e_HashString E (the (s_Hash sh))) pend)"
    "\<forall>sh \<in> set pend. e_HashString E (the (s_Hash sh)) \<notin> set (vs_rejected v)"
  shows "pass_inv E sc0 (foldl (verify_one E) v pend)"
  using assms(1,3,4,5)
proof (induction pend arbitrary: v)
  case (Cons sh pend)
  obtain hh where hh: "s_Hash sh = Some hh" "held sc0 (e_HashString E hh) = Some sh" using Cons.prems(2) by auto
  have "pass_inv E sc0 (verify_one E v sh)"
    using verify_one_inv[OF Cons.prems(1) hh] Cons.prems(4) hh by simp
  moreover have "\<forall>s \<in> set pend. e_HashString E (the (s_Hash s)) \<notin> set (vs_rejected (verify_one E v sh))"
  proof
    fix s assume s: "s \<in> set pend"
    have "e_HashString E (the (s_Hash s)) \<noteq> e_HashString E hh"
      using Cons.prems(3) hh(1) imageI[OF s, of "\<lambda>s. e_HashString E (the (s_Hash s))"] by auto
    moreover have "e_HashString E (the (s_Hash s)) \<notin> set (vs_rejected v)" using Cons.prems(4) s by simp
    ultimately show "e_HashString E (the (s_Hash s)) \<notin> set (vs_rejected (verify_one E v sh))"
      using verify_one_rejected[OF hh(1), of E v] by blast
  qed
  ultimately show ?case using Cons by simp
qed simp

lemma pass_start: "sc_inv E sc \<Longrightarrow> pass_inv E sc \<lparr>vs_chain = sc, vs_count = 0, vs_rejected = []\<rparr>"
  by (auto simp: pass_inv_def sc_inv_def work_ok_def)

lemma verifyPending_inv:
  assumes inv: "sc_inv E sc" and rk: "ranked E (sc_shares sc) r"
  defines "sc' \<equiv> snd (snd (verifyPending E sc))"
  shows "sc_inv E sc'" "map_of (sc_shares sc') \<subseteq>\<^sub>m map_of (sc_shares sc)"
    "\<And>h. is_verified sc h \<Longrightarrow> is_verified sc' h"
    "\<And>h. h \<in> set (fst (snd (verifyPending E sc))) \<Longrightarrow> held sc' h = None \<and> held sc h \<noteq> None"
    "\<And>h. held sc h \<noteq> None \<Longrightarrow> held sc' h = None \<Longrightarrow> h \<in> set (fst (snd (verifyPending E sc)))"
proof -
  let ?v = "foldl (verify_one E) \<lparr>vs_chain = sc, vs_count = 0, vs_rejected = []\<rparr> (pending_shares E sc)"
  have b: "books E sc" using inv by (simp add: sc_inv_def)
  have p: "pass_inv E sc ?v"
    using pending_props[OF b] pending_distinct[OF b] by (intro verify_fold_inv[OF pass_start[OF inv] b]) auto
  note i = p[unfolded pass_inv_def]
  have "ranked E (sc_shares (vs_chain ?v)) r" using ranked_sub[OF rk] i by blast
  then have d: "chain_ok E (dropWorkLocked E (vs_rejected ?v) False (vs_chain ?v))"
    using dropWork_ok[of E "vs_chain ?v" r "vs_rejected ?v" False] i unfolding books_def by blast
  have e: "verifyPending E sc = (vs_count ?v, vs_rejected ?v,
      if vs_rejected ?v = [] then vs_chain ?v else dropWorkLocked E (vs_rejected ?v) False (vs_chain ?v))"
    by (simp add: verifyPending_def Let_def)
  have w: "work_ok E (vs_chain ?v)" if "vs_rejected ?v = []" using i that by (auto simp: work_ok_def work_at_def)
  show "sc_inv E sc'"
    using i w d books_cong[of "dropWorkLocked E (vs_rejected ?v) False (vs_chain ?v)" "vs_chain ?v" E]
    unfolding sc'_def e by (auto simp: sc_inv_def chain_ok_def)
  have f: "sc_shares sc' = sc_shares (vs_chain ?v)" "sc_verified sc' = sc_verified (vs_chain ?v)"
    "fst (snd (verifyPending E sc)) = vs_rejected ?v"
    unfolding sc'_def e by simp_all
  show "map_of (sc_shares sc') \<subseteq>\<^sub>m map_of (sc_shares sc)" unfolding f using i by blast
  show "is_verified sc' h" if "is_verified sc h" for h unfolding f using i that by blast
  show "held sc' h = None \<and> held sc h \<noteq> None" if "h \<in> set (fst (snd (verifyPending E sc)))" for h
    using i that unfolding f by blast
  show "h \<in> set (fst (snd (verifyPending E sc)))" if "held sc h \<noteq> None" "held sc' h = None" for h
    using i that unfolding f by blast
qed


subsection \<open>A batch of shares\<close>

definition batch_key :: "env \<Rightarrow> Share \<Rightarrow> string" where
  "batch_key E sh = e_HashString E (the (s_Hash (with_hash E sh)))"

text \<open>The checks a share passes by itself.\<close>

definition admissible :: "env \<Rightarrow> time \<Rightarrow> Share \<Rightarrow> bool" where
  "admissible E now sh \<longleftrightarrow> CheckShareTime sh now = '''' \<and> CheckShareTargetFloor sh
     \<and> s_Hash (with_hash E sh) \<noteq> None \<and> fst (IsValid E (with_pow E (with_hash E sh)))"

definition added :: "env \<Rightarrow> (string \<times> Share) list \<Rightarrow> ShareChain \<Rightarrow> ShareChain \<Rightarrow> bool" where
  "added E kvs sc sc1 \<longleftrightarrow> stored kvs sc sc1 \<and> sc_verified sc1 = sc_verified sc
     \<and> (\<forall>h. map_of (sc_received sc1) h \<noteq> None \<longleftrightarrow> map_of (sc_received sc) h \<noteq> None \<or> h \<in> set (gm_keys kvs))
     \<and> (\<forall>h s. (h, s) \<in> set kvs \<longrightarrow> (\<exists>hh. s_Hash s = Some hh \<and> e_HashString E hh = h) \<and> fst (IsValid E s))"

lemma with_pow_hash [simp]: "s_Hash (with_pow E s) = s_Hash s"
  by (auto simp: with_pow_def CalculatePOWHash_def Let_def split: sum.split option.split)

lemma IsValid_decoded [simp]: "IsValid E (s\<lparr>s_decodedAddr := a\<rparr>) = IsValid E s"
proof -
  have "share_commitment (s\<lparr>s_decodedAddr := a\<rparr>) = share_commitment s" by (simp add: share_commitment_def)
  then have "carries_commitment tx (s\<lparr>s_decodedAddr := a\<rparr>) = carries_commitment tx s" for tx
    by (simp add: carries_commitment_def)
  moreover have "share_coinbase E (s\<lparr>s_decodedAddr := a\<rparr>) = share_coinbase E s"
    by (simp add: share_coinbase_def split: option.split)
  ultimately have "VerifyShareMetadata E (s\<lparr>s_decodedAddr := a\<rparr>) = VerifyShareMetadata E s"
    unfolding VerifyShareMetadata_def by (simp split: option.split)
  moreover have "shareHasStandardPayout (s\<lparr>s_decodedAddr := a\<rparr>) = shareHasStandardPayout s"
    by (simp add: shareHasStandardPayout_def Let_def)
  ultimately show ?thesis unfolding IsValid_def header_ts_def by (simp split: option.split)
qed

lemma add_one_cases:
  fixes E :: env and now :: time and sc :: ShareChain and sh :: Share
  defines "k \<equiv> batch_key E sh" and "cp \<equiv> (with_pow E (with_hash E sh))\<lparr>s_decodedAddr := fst (DecodeShareAddress E (with_pow E (with_hash E sh)))\<rparr>"
  obtains (invalid) "add_one E now sc sh = (sc, ShareInvalid, '''')" "\<not> admissible E now sh"
    | (duplicate) "add_one E now sc sh = (sc, ShareDuplicate, '''')" "held sc k \<noteq> None"
    | (new) "add_one E now sc sh = (sc\<lparr>sc_shares := gm_set k cp (sc_shares sc), sc_received := gm_set k now (sc_received sc),
              sc_changes := sc_changes sc + 1\<rparr>, SharePending, k)" "held sc k = None" "admissible E now sh"
proof (cases "s_Hash (with_hash E sh)")
  case None
  then show ?thesis by (intro invalid) (simp_all add: add_one_def admissible_def)
next
  case (Some hh)
  then have k: "k = e_HashString E hh" by (simp add: k_def batch_key_def)
  note d = add_one_def admissible_def Let_def Some k[symmetric]
  consider "CheckShareTime sh now \<noteq> '''' \<or> \<not> CheckShareTargetFloor sh"
    | "CheckShareTime sh now = ''''" "CheckShareTargetFloor sh" "held sc k \<noteq> None"
    | "CheckShareTime sh now = ''''" "CheckShareTargetFloor sh" "held sc k = None" "\<not> fst (IsValid E (with_pow E (with_hash E sh)))"
    | "CheckShareTime sh now = ''''" "CheckShareTargetFloor sh" "held sc k = None" "fst (IsValid E (with_pow E (with_hash E sh)))"
    by blast
  then show ?thesis
  proof cases
    case 1
    then show ?thesis by (intro invalid) (auto simp: d)
  next
    case 2
    then show ?thesis by (intro duplicate) (auto simp: d)
  next
    case 3
    then show ?thesis by (intro invalid) (auto simp: d)
  next
    case 4
    then show ?thesis by (intro new) (auto simp: d cp_def)
  qed
qed

lemma added_refl: "gm_wf (sc_shares sc) \<Longrightarrow> added E [] sc sc"
  by (simp add: added_def stored_def)

lemma added_trans:
  assumes "added E a sc sc1" "added E b sc1 sc2" shows "added E (a @ b) sc sc2"
proof -
  have a: "stored a sc sc1" and b: "stored b sc1 sc2" using assms by (simp_all add: added_def)
  have ks: "h \<notin> set (gm_keys a)" "held sc h = None" "h \<noteq> ''''" if "h \<in> set (gm_keys b)" for h
  proof -
    have n: "held sc1 h = None" using b that unfolding stored_def by blast
    then show "h \<notin> set (gm_keys a)" using stored_new(1)[OF a] by blast
    then show "held sc h = None" using stored_old[OF a] n by simp
    show "h \<noteq> ''''" using b that unfolding stored_def by blast
  qed
  then have d: "set (gm_keys a) \<inter> set (gm_keys b) = {}" by blast
  then have "map_of (sc_shares sc2) = map_of (sc_shares sc) ++ map_of (a @ b)"
    using a b unfolding stored_def map_of_append
    by (metis dom_map_of_conv_image_fst list.set_map map_add_assoc map_add_comm)
  moreover have "\<forall>h \<in> set (gm_keys (a @ b)). held sc h = None \<and> h \<noteq> ''''"
    using a ks unfolding stored_def map_append set_append by blast
  ultimately have "stored (a @ b) sc sc2" using a b d unfolding stored_def by (simp del: map_of_append set_map)
  then show ?thesis using assms unfolding added_def by auto
qed

lemma add_one_added:
  fixes now :: time
  assumes wf: "gm_wf (sc_shares sc)" and nm: "s_Hash (with_hash E sh) \<noteq> None \<Longrightarrow> batch_key E sh \<noteq> ''''"
  defines "r \<equiv> add_one E now sc sh"
  shows "\<exists>kvs. added E kvs sc (fst r) \<and> gm_keys kvs = filter (\<lambda>h. h \<noteq> '''') [snd (snd r)]"
proof (cases rule: add_one_cases[where E = E and now = now and sc = sc and sh = sh, case_names invalid duplicate new])
  case new
  let ?cp = "(with_pow E (with_hash E sh))\<lparr>s_decodedAddr := fst (DecodeShareAddress E (with_pow E (with_hash E sh)))\<rparr>"
  have v: "batch_key E sh \<noteq> ''''" "fst (IsValid E (with_pow E (with_hash E sh)))" "\<exists>hh. s_Hash (with_hash E sh) = Some hh"
    using nm new(3) by (auto simp: admissible_def)
  have k: "\<exists>hh. s_Hash ?cp = Some hh \<and> e_HashString E hh = batch_key E sh" using v(3) by (auto simp: batch_key_def)
  have "added E [(batch_key E sh, ?cp)] sc (fst r)"
    using wf v k new(2) by (auto simp: r_def new(1) added_def stored_def fun_eq_iff simp del: set_map)
  then show ?thesis using v(1) by (intro exI[of _ "[(batch_key E sh, ?cp)]"]) (simp add: r_def new(1))
qed (use wf added_refl in \<open>auto simp: r_def intro!: exI[of _ "[]"]\<close>)

lemma add_loop_added:
  assumes "gm_wf (sc_shares sc)" "\<forall>sh \<in> set shs. s_Hash (with_hash E sh) \<noteq> None \<longrightarrow> batch_key E sh \<noteq> ''''"
  shows "\<exists>kvs. added E kvs sc (fst (add_loop E now sc shs)) \<and> gm_keys kvs = filter (\<lambda>h. h \<noteq> '''') (map snd (snd (add_loop E now sc shs)))"
  using assms
proof (induction shs arbitrary: sc)
  case Nil
  then show ?case using added_refl by (intro exI[of _ "[]"]) simp
next
  case (Cons sh shs)
  let ?r = "add_one E now sc sh"
  obtain a where a: "added E a sc (fst ?r)" "gm_keys a = filter (\<lambda>h. h \<noteq> '''') [snd (snd ?r)]"
    using add_one_added[of sc E sh now] Cons.prems by auto
  then have "gm_wf (sc_shares (fst ?r))" unfolding added_def stored_def by blast
  then obtain b where b: "added E b (fst ?r) (fst (add_loop E now (fst ?r) shs))"
    "gm_keys b = filter (\<lambda>h. h \<noteq> '''') (map snd (snd (add_loop E now (fst ?r) shs)))"
    using Cons.IH[of "fst ?r"] Cons.prems(2) by auto
  have "gm_keys (a @ b) = filter (\<lambda>h. h \<noteq> '''') (map snd (snd (add_loop E now sc (sh # shs))))"
    using a(2) b(2) by (simp add: case_prod_beta)
  then show ?case using added_trans[OF a(1) b(1)] by (intro exI[of _ "a @ b"]) (simp add: case_prod_beta)
qed


lemma added_inv:
  assumes inv: "sc_inv E sc" and ad: "added E kvs sc sc1" and rk: "ranked E (sc_shares sc1) r"
  shows "sc_inv E (addWorkLocked E (gm_keys kvs) sc1)"
proof -
  let ?sc' = "addWorkLocked E (gm_keys kvs) sc1"
  have f: "sc_shares ?sc' = sc_shares sc1" "sc_verified ?sc' = sc_verified sc1" "sc_received ?sc' = sc_received sc1"
    by (simp_all add: addWorkLocked_def Let_def case_prod_beta)
  have st: "stored kvs sc sc1" and ve: "sc_verified sc1 = sc_verified sc"
    and rc: "\<And>h. map_of (sc_received sc1) h \<noteq> None \<longleftrightarrow> map_of (sc_received sc) h \<noteq> None \<or> h \<in> set (gm_keys kvs)"
    and kv: "\<And>h s. (h, s) \<in> set kvs \<Longrightarrow> (\<exists>hh. s_Hash s = Some hh \<and> e_HashString E hh = h) \<and> fst (IsValid E s)"
    using ad unfolding added_def by blast+
  have b: "book_ok sc" "keyed E sc" "pending_valid E sc" using inv by (simp_all add: sc_inv_def books_def)
  have ok: "chain_ok E ?sc'" by (rule addWork_ok[OF _ st rk]) (use inv in \<open>simp add: sc_inv_chain\<close>)
  have new: "held sc h = None" "\<not> is_verified sc h" "held sc1 h \<noteq> None" if "h \<in> set (gm_keys kvs)" for h
    using that st b(1) stored_new(1)[OF st that] unfolding stored_def book_ok_def by blast+
  have hs: "(h, s) \<in> set kvs \<or> held sc h = Some s" if "held sc1 h = Some s" for h s
    using that st unfolding stored_def by (auto simp: map_add_Some_iff dest: map_of_SomeD)
  have "book_ok ?sc'"
    unfolding book_ok_def f ve rc using b(1) new stored_old[OF st] unfolding book_ok_def by metis
  moreover have "keyed E ?sc'" using b(2) hs kv unfolding keyed_def f by blast
  moreover have "pending_valid E ?sc'" using b(3) hs kv unfolding pending_valid_def f ve by blast
  ultimately show ?thesis using ok by (simp add: sc_inv_chain books_def chain_ok_def)
qed

lemma length_add_loop: "length (snd (add_loop E now sc shs)) = length shs"
  by (induction shs arbitrary: sc) (simp_all add: case_prod_beta)

lemma add_one_held: "held sc h \<noteq> None \<Longrightarrow> held (fst (add_one E now sc sh)) h \<noteq> None"
  by (cases rule: add_one_cases[where E = E and now = now and sc = sc and sh = sh]) auto

lemma add_loop_held: "held sc h \<noteq> None \<Longrightarrow> held (fst (add_loop E now sc shs)) h \<noteq> None"
  using add_one_held by (induction shs arbitrary: sc) (simp_all add: case_prod_beta)

definition loop_outcome :: "env \<Rightarrow> time \<Rightarrow> ShareChain \<Rightarrow> ShareChain \<Rightarrow> string list \<Rightarrow> Share \<Rightarrow> ShareOutcome \<times> string \<Rightarrow> bool" where
  "loop_outcome E now sc sc1 before sh oh \<longleftrightarrow>
     oh = (ShareInvalid, '''') \<and> \<not> admissible E now sh
     \<or> oh = (ShareDuplicate, '''') \<and> (held sc (batch_key E sh) \<noteq> None \<or> batch_key E sh \<in> set before)
     \<or> oh = (SharePending, batch_key E sh) \<and> admissible E now sh \<and> held sc1 (batch_key E sh) \<noteq> None"

lemma add_one_outcome: "loop_outcome E now sc (fst (add_one E now sc sh)) b sh (snd (add_one E now sc sh))"
  by (cases rule: add_one_cases[where E = E and now = now and sc = sc and sh = sh]) (auto simp: loop_outcome_def)

lemma add_one_keys: "held (fst (add_one E now sc sh)) h \<noteq> None \<Longrightarrow> held sc h \<noteq> None \<or> h = batch_key E sh"
  by (cases rule: add_one_cases[where E = E and now = now and sc = sc and sh = sh]) (auto split: if_splits)

lemma add_loop_outcome:
  assumes "i < length shs"
  shows "loop_outcome E now sc (fst (add_loop E now sc shs)) (map (batch_key E) (take i shs)) (shs ! i) (snd (add_loop E now sc shs) ! i)"
  using assms
proof (induction shs arbitrary: sc i)
  case (Cons sh shs)
  let ?sc1 = "fst (add_one E now sc sh)"
  show ?case
  proof (cases i)
    case 0
    then show ?thesis using add_one_outcome[of E now sc sh "[]"] add_loop_held[of ?sc1 "batch_key E sh" E now shs]
      by (auto simp: case_prod_beta loop_outcome_def)
  next
    case (Suc j)
    then have "loop_outcome E now ?sc1 (fst (add_loop E now ?sc1 shs)) (map (batch_key E) (take j shs)) (shs ! j)
        (snd (add_loop E now ?sc1 shs) ! j)" using Cons by simp
    then show ?thesis using Suc add_one_keys[of E now sc sh "batch_key E (shs ! j)"]
      by (auto simp: case_prod_beta loop_outcome_def)
  qed
qed simp


lemma named_batch_split:
  assumes "AddSharesOutcomes E now info shs sc = (os, v, sc')"
  defines "L \<equiv> add_loop E now sc shs" 
  defines "sc2 \<equiv> addWorkLocked E (filter (\<lambda>h. h \<noteq> '''') (map snd (snd L))) (fst L)"
  shows "os = map (final_outcome sc' (fst (snd (verifyPending E sc2)))) (snd L)" "v = fst (verifyPending E sc2)"
    "sc_shares sc' = sc_shares (snd (snd (verifyPending E sc2)))" "sc_verified sc' = sc_verified (snd (snd (verifyPending E sc2)))"
    "sc_inv E sc' = sc_inv E (snd (snd (verifyPending E sc2)))"
  using assms(1) by (auto simp: AddSharesOutcomes_def L_def sc2_def Let_def case_prod_beta split: if_splits)

lemma batch_inv:
  assumes inv: "sc_inv E sc" and nm: "\<forall>sh \<in> set shs. s_Hash (with_hash E sh) \<noteq> None \<longrightarrow> batch_key E sh \<noteq> ''''"
    and rk: "ranked E (sc_shares (fst (add_loop E now sc shs))) r"
  defines "sc2 \<equiv> addWorkLocked E (filter (\<lambda>h. h \<noteq> '''') (map snd (snd (add_loop E now sc shs)))) (fst (add_loop E now sc shs))"
  shows "sc_inv E sc2" "ranked E (sc_shares sc2) r" "sc_shares sc2 = sc_shares (fst (add_loop E now sc shs))"
    "sc_verified sc2 = sc_verified sc"
proof -
  have "gm_wf (sc_shares sc)" using inv by (simp add: sc_inv_def books_def)
  then obtain kvs where kvs: "added E kvs sc (fst (add_loop E now sc shs))"
    "gm_keys kvs = filter (\<lambda>h. h \<noteq> '''') (map snd (snd (add_loop E now sc shs)))" using add_loop_added[OF _ nm] by blast
  show "sc_inv E sc2" using added_inv[OF inv kvs(1) rk] unfolding sc2_def kvs(2) .
  show f: "sc_shares sc2 = sc_shares (fst (add_loop E now sc shs))" by (simp add: sc2_def addWorkLocked_def Let_def case_prod_beta)
  show "ranked E (sc_shares sc2) r" using rk unfolding f .
  show "sc_verified sc2 = sc_verified sc"
    using kvs(1) by (simp add: sc2_def added_def addWorkLocked_def Let_def case_prod_beta)
qed

lemma outcomes_sound:
  assumes "sc_inv E sc" "\<forall>sh \<in> set shs. s_Hash (with_hash E sh) \<noteq> None \<longrightarrow> batch_key E sh \<noteq> ''''"
    and "ranked E (sc_shares (fst (add_loop E now sc shs))) r"
    and "AddSharesOutcomes E now info shs sc = (os, v, sc')"
  shows "sc_inv E sc' \<and> length os = length shs \<and>
    (\<forall>i < length shs. let sh = shs ! i; k = batch_key E sh in case os ! i of
         ShareAccepted \<Rightarrow> admissible E now sh \<and> HasShare sc' k \<and> is_verified sc' k
       | SharePending \<Rightarrow> admissible E now sh \<and> HasShare sc' k \<and> \<not> is_verified sc' k
       | ShareDuplicate \<Rightarrow> HasShare sc k \<or> (\<exists>j < i. batch_key E (shs ! j) = k)
       | ShareInvalid \<Rightarrow> \<not> admissible E now sh \<or> \<not> HasShare sc' k)"
proof -
  let ?L = "add_loop E now sc shs"
  define sc2 where "sc2 = addWorkLocked E (filter (\<lambda>h. h \<noteq> '''') (map snd (snd ?L))) (fst ?L)"
  define rej where "rej = fst (snd (verifyPending E sc2))"
  note sp = named_batch_split[OF assms(4), folded sc2_def rej_def]
  note b = batch_inv[OF assms(1-3), folded sc2_def]
  note vp = verifyPending_inv[OF b(1,2), folded rej_def, folded sp(5)]
  have lost: "held sc' h \<noteq> None" if "held sc2 h \<noteq> None" "h \<notin> set rej" for h using vp(5) that unfolding sp(3) by blast
  have gone: "held sc' h = None" if "h \<in> set rej" for h using vp(4) that unfolding sp(3) by blast
  have "index_ok E sc2" using b(1) by (simp add: sc_inv_def books_def)
  from index_empty[OF this] have e0: "held sc2 '''' = None" and ne: "'''' \<notin> set rej" using vp(4)[of "''''"] by blast+
  have "let sh = shs ! i; k = batch_key E sh in case os ! i of
         ShareAccepted \<Rightarrow> admissible E now sh \<and> HasShare sc' k \<and> is_verified sc' k
       | SharePending \<Rightarrow> admissible E now sh \<and> HasShare sc' k \<and> \<not> is_verified sc' k
       | ShareDuplicate \<Rightarrow> HasShare sc k \<or> (\<exists>j < i. batch_key E (shs ! j) = k)
       | ShareInvalid \<Rightarrow> \<not> admissible E now sh \<or> \<not> HasShare sc' k" if i: "i < length shs" for i
  proof -
    let ?k = "batch_key E (shs ! i)"
    have o: "os ! i = final_outcome sc' rej (snd ?L ! i)" using i by (simp add: sp(1) length_add_loop)
    have bef: "\<exists>j < i. batch_key E (shs ! j) = ?k" if "?k \<in> set (map (batch_key E) (take i shs))"
      using that i by (fastforce simp: in_set_conv_nth)
    from add_loop_outcome[OF i, of E now sc] consider "snd ?L ! i = (ShareInvalid, '''')" "\<not> admissible E now (shs ! i)"
      | "snd ?L ! i = (ShareDuplicate, '''')" "HasShare sc ?k \<or> (\<exists>j < i. batch_key E (shs ! j) = ?k)"
      | "snd ?L ! i = (SharePending, ?k)" "admissible E now (shs ! i)" "held sc2 ?k \<noteq> None"
      using bef unfolding loop_outcome_def HasShare_def b(3) by blast
    then show ?thesis
    proof cases
      case 3
      then have "?k \<noteq> ''''" using e0 by auto
      then show ?thesis using 3 lost[OF 3(3)] gone[of ?k] by (auto simp: o final_outcome_def HasShare_def Let_def)
    qed (use ne in \<open>simp_all add: o final_outcome_def Let_def\<close>)
  qed
  then show ?thesis using vp(1) sp(1,5) by (simp add: length_add_loop)
qed

text \<open>C22: \<open>AddSharesOutcomes\<close> keeps the chain consistent and answers truthfully for each share of the batch:
  an accepted share is held and verified, a pending one is held and unverified, both passed the
  checks a share passes by itself; a duplicate was held before or came earlier in the batch; an
  invalid one failed those checks or is not held.\<close>

theorem AddSharesOutcomes_sound:
  assumes "sc_inv E sc" "\<forall>sh \<in> set shs. s_Hash (with_hash E sh) \<noteq> None \<longrightarrow> batch_key E sh \<noteq> ''''"
    and "ranked E (sc_shares (fst (add_loop E now sc shs))) r"
    and "AddSharesOutcomes E now info shs sc = (os, v, sc')"
  shows "sc_inv E sc' \<and> length os = length shs \<and>
    (\<forall>i < length shs. let sh = shs ! i; k = batch_key E sh in case os ! i of
         ShareAccepted \<Rightarrow> admissible E now sh \<and> HasShare sc' k \<and> is_verified sc' k
       | SharePending \<Rightarrow> admissible E now sh \<and> HasShare sc' k \<and> \<not> is_verified sc' k
       | ShareDuplicate \<Rightarrow> HasShare sc k \<or> (\<exists>j < i. batch_key E (shs ! j) = k)
       | ShareInvalid \<Rightarrow> \<not> admissible E now sh \<or> \<not> HasShare sc' k)"
  using outcomes_sound[OF assms] .


lemma verify_fold_verified:
  assumes "is_verified (vs_chain (foldl (verify_one E) v pend)) h" "\<not> is_verified (vs_chain v) h"
    and "\<forall>sh \<in> set pend. s_Hash sh \<noteq> None"
  shows "\<exists>a sh b. pend = a @ sh # b \<and> h = e_HashString E (the (s_Hash sh)) \<and>
    (let sck = vs_chain (foldl (verify_one E) v a); eff = effectiveTimeLocked E sck sh (share_prev sh)
     in fst (parent_ready E sck sh)
        \<and> (ConsensusV2ActivationTime \<le> eff \<longrightarrow> checkConsensus E sck sh (share_prev sh) (snd (parent_ready E sck sh)) eff))"
  using assms
proof (induction pend rule: rev_induct)
  case (snoc sh pend)
  let ?v = "foldl (verify_one E) v pend"
  obtain hh where hh: "s_Hash sh = Some hh" using snoc.prems by auto
  show ?case
  proof (cases "is_verified (vs_chain ?v) h")
    case True
    then obtain a s b where "pend = a @ s # b \<and> h = e_HashString E (the (s_Hash s)) \<and>
      (let sck = vs_chain (foldl (verify_one E) v a); eff = effectiveTimeLocked E sck s (share_prev s)
       in fst (parent_ready E sck s)
          \<and> (ConsensusV2ActivationTime \<le> eff \<longrightarrow> checkConsensus E sck s (share_prev s) (snd (parent_ready E sck s)) eff))"
      using snoc by auto
    then show ?thesis by (intro exI[of _ a] exI[of _ s] exI[of _ "b @ [sh]"]) simp
  next
    case False
    have "is_verified (vs_chain (verify_one E ?v sh)) h" using snoc.prems(1) by simp
    then have "h = e_HashString E hh \<and> fst (parent_ready E (vs_chain ?v) sh)
      \<and> (ConsensusV2ActivationTime \<le> effectiveTimeLocked E (vs_chain ?v) sh (share_prev sh) \<longrightarrow>
           checkConsensus E (vs_chain ?v) sh (share_prev sh) (snd (parent_ready E (vs_chain ?v) sh))
             (effectiveTimeLocked E (vs_chain ?v) sh (share_prev sh)))"
      using False
      by (cases rule: verify_one_cases[OF hh, where E = E and v = ?v]) (auto simp: unlink_verified split: if_splits)
    then show ?thesis using hh by (intro exI[of _ pend] exI[of _ sh] exI[of _ "[]"]) (simp add: Let_def)
  qed
qed simp

text \<open>C23: A share is verified only on its turn in the pass: valid by itself, its parent settled, and, once the
  rules are active, accepted by \<open>checkConsensus\<close> against the chain as it stood then.\<close>

theorem newly_verified_passed:
  assumes inv: "sc_inv E sc" and v: "is_verified (snd (snd (verifyPending E sc))) h" "\<not> is_verified sc h"
  shows "\<exists>a sh b. pending_shares E sc = a @ sh # b \<and> held sc h = Some sh \<and> fst (IsValid E sh) \<and>
    (let sck = vs_chain (foldl (verify_one E) \<lparr>vs_chain = sc, vs_count = 0, vs_rejected = []\<rparr> a);
         eff = effectiveTimeLocked E sck sh (share_prev sh)
     in fst (parent_ready E sck sh)
        \<and> (ConsensusV2ActivationTime \<le> eff \<longrightarrow> checkConsensus E sck sh (share_prev sh) (snd (parent_ready E sck sh)) eff))"
proof -
  let ?v0 = "\<lparr>vs_chain = sc, vs_count = 0, vs_rejected = []\<rparr>"
  have b: "books E sc" using inv by (simp add: sc_inv_def)
  have "is_verified (vs_chain (foldl (verify_one E) ?v0 (pending_shares E sc))) h"
    using v(1) by (auto simp: verifyPending_def Let_def split: if_splits)
  moreover have "\<forall>sh \<in> set (pending_shares E sc). s_Hash sh \<noteq> None" using pending_props[OF b] by force
  ultimately obtain a sh c where r: "pending_shares E sc = a @ sh # c" "h = e_HashString E (the (s_Hash sh))"
    "let sck = vs_chain (foldl (verify_one E) ?v0 a); eff = effectiveTimeLocked E sck sh (share_prev sh)
     in fst (parent_ready E sck sh)
        \<and> (ConsensusV2ActivationTime \<le> eff \<longrightarrow> checkConsensus E sck sh (share_prev sh) (snd (parent_ready E sck sh)) eff)"
    using verify_fold_verified[of E ?v0 "pending_shares E sc" h] v(2) by auto
  have "sh \<in> set (pending_shares E sc)" by (simp add: r(1))
  then obtain hh where hh: "s_Hash sh = Some hh" "held sc (e_HashString E hh) = Some sh" using pending_props[OF b] by blast
  then have hd: "held sc h = Some sh" by (simp add: r(2))
  then have "fst (IsValid E sh)" using b v(2) unfolding books_def pending_valid_def by blast
  then show ?thesis using r(1,3) hd by blast
qed


subsection \<open>Maintenance\<close>

lemma prune_held:
  assumes inv: "sc_inv E sc" and rk: "ranked E (sc_shares sc) r"
  shows "sc_inv E (PruneOldShares E now sc)"
    "held (PruneOldShares E now sc) h
       = Option.bind (held sc h) (\<lambda>s. if share_ts s < Unix (now - maxShareAge) then None else Some s)"
    "is_verified (PruneOldShares E now sc) h \<longleftrightarrow> is_verified sc h \<and> held (PruneOldShares E now sc) h \<noteq> None"
proof -
  let ?c = "Unix (now - maxShareAge)"
  let ?old = "map fst (filter (\<lambda>(h, s). share_ts s < ?c) (sc_shares sc))"
  let ?sc1 = "sc\<lparr>sc_changes := sc_changes sc + 1\<rparr>"
  have wf: "gm_wf (sc_shares sc)" and bk: "book_ok sc" using inv by (simp_all add: sc_inv_def books_def)
  have old: "h \<in> set ?old \<longleftrightarrow> (\<exists>s. held sc h = Some s \<and> share_ts s < ?c)" for h
    using gm_mem_wf[OF wf] by force
  have e: "PruneOldShares E now sc = (if ?old = [] then sc else removeSharesLocked E ?old ?sc1)"
    by (simp add: PruneOldShares_def pruneLocked_def Let_def)
  note rm = removeShares_inv[of E ?sc1 r ?old]
  show "sc_inv E (PruneOldShares E now sc)" using rm(1) inv rk by (simp add: e)
  have hd: "held (PruneOldShares E now sc) h = (if h \<in> set ?old then None else held sc h)" for h
  proof (cases "?old = []")
    case False
    then have "held (PruneOldShares E now sc) = held sc |` (- set ?old)" using rm(2) inv rk unfolding e by simp
    then show ?thesis by (simp add: restrict_map_def)
  qed (simp add: e)
  then show "held (PruneOldShares E now sc) h = Option.bind (held sc h) (\<lambda>s. if share_ts s < ?c then None else Some s)"
    using old[of h] by (cases "held sc h") auto
  show "is_verified (PruneOldShares E now sc) h \<longleftrightarrow> is_verified sc h \<and> held (PruneOldShares E now sc) h \<noteq> None"
  proof (cases "?old = []")
    case True
    then show ?thesis using bk unfolding e book_ok_def by auto
  next
    case False
    have "held sc h \<noteq> None" if "is_verified sc h" using bk that unfolding book_ok_def by blast
    then show ?thesis using False hd[of h] removeShares_verified[of E ?old ?sc1 h] unfolding e by auto
  qed
qed

lemma pruneUnverified_held:
  fixes now :: time
  assumes inv: "sc_inv E sc" and rk: "ranked E (sc_shares sc) r"
  defines "sc' \<equiv> pruneUnverified E now sc"
  shows "sc_inv E sc'" "held sc' = held sc |` (- set (unverified_drop E now sc))"
    "is_verified sc' h \<longleftrightarrow> is_verified sc h" "h \<in> set (unverified_drop E now sc) \<Longrightarrow> \<not> is_verified sc h"
proof -
  let ?d = "unverified_drop E now sc" and ?sc1 = "sc\<lparr>sc_changes := sc_changes sc + 1\<rparr>"
  have bk: "book_ok sc" using inv by (simp add: sc_inv_def books_def)
  have e: "sc' = (if ?d = [] then sc else removeSharesLocked E ?d ?sc1)"
    by (simp add: sc'_def pruneUnverified_def Let_def unverified_drop_def maxUnverifiedShares_def)
  note rm = removeShares_inv[of E ?sc1 r ?d]
  show "sc_inv E sc'" using rm(1) inv rk by (simp add: e)
  show "held sc' = held sc |` (- set ?d)"
    using rm(2) inv rk by (cases "?d = []") (simp_all add: e restrict_map_def)
  have sub: "set ?d \<subseteq> set (gm_keys (sc_received sc))"
    by (auto simp: unverified_drop_def Let_def dest!: in_set_takeD)
  have dv: "\<not> is_verified sc k" if "k \<in> set ?d" for k
  proof -
    have "map_of (sc_received sc) k \<noteq> None" using sub that by (auto simp: set_gm_keys simp del: set_map)
    then show ?thesis using bk unfolding book_ok_def by blast
  qed
  then show "h \<in> set ?d \<Longrightarrow> \<not> is_verified sc h" .
  show "is_verified sc' h \<longleftrightarrow> is_verified sc h"
    using removeShares_verified[of E ?d ?sc1 h] dv[of h] unfolding e by auto
qed

lemma unverified_rest:
  "card (set (gm_keys (sc_received sc)) - set (unverified_drop E now sc)) \<le> maxUnverifiedShares"
proof -
  let ?ex = "\<lambda>(h, t). h \<notin> set (built_upon E sc) \<and> unverifiedShareTTL \<le> now - t"
  let ?drp = "map fst (filter ?ex (sc_received sc))" and ?keep = "map fst (filter (\<lambda>ht. \<not> ?ex ht) (sc_received sc))"
  let ?srt = "sort_key (\<lambda>h. gm_get 0 (sc_received sc) h) ?keep" and ?n = "length ?keep - maxUnverifiedShares"
  have all: "set (gm_keys (sc_received sc)) = set ?drp \<union> set ?keep" by force
  have d: "set (unverified_drop E now sc) = set ?drp \<union> set (take ?n ?srt)"
    unfolding unverified_drop_def Let_def by (simp del: set_map)
  have "set (take ?n ?srt) \<union> set (drop ?n ?srt) = set ?srt" by (metis append_take_drop_id set_append)
  then have "set ?keep = set (take ?n ?srt) \<union> set (drop ?n ?srt)" by (simp only: set_sort)
  then have "set (gm_keys (sc_received sc)) - set (unverified_drop E now sc) \<subseteq> set (drop ?n ?srt)" unfolding all d by blast
  then have "card (set (gm_keys (sc_received sc)) - set (unverified_drop E now sc)) \<le> card (set (drop ?n ?srt))"
    by (intro card_mono) simp_all
  also have "\<dots> \<le> length (drop ?n ?srt)" by (rule card_length)
  also have "\<dots> \<le> maxUnverifiedShares" by simp
  finally show ?thesis .
qed

lemma maintain_facts:
  fixes now :: time and info :: "MiningInfo option"
  assumes inv: "sc_inv E sc" and rk: "ranked E (sc_shares sc) r"
  defines "sc' \<equiv> maintenanceRound E now info sc"
  shows "sc_inv E sc'
    \<and> (\<forall>h s. held sc' h = Some s \<longrightarrow> held sc h = Some s \<and> Unix (now - maxShareAge) \<le> share_ts s)
    \<and> card {h. HasShare sc' h \<and> \<not> is_verified sc' h} \<le> maxUnverifiedShares
    \<and> (\<forall>h s. held sc h = Some s \<longrightarrow> is_verified sc h \<longrightarrow> Unix (now - maxShareAge) \<le> share_ts s
         \<longrightarrow> held sc' h = Some s \<and> is_verified sc' h)"
proof -
  let ?p = "PruneOldShares E now sc"
  let ?u = "pruneUnverified E now ?p"
  note p = prune_held[OF inv rk, where now = now]
  have "map_of (sc_shares ?p) \<subseteq>\<^sub>m map_of (sc_shares sc)" by (auto simp: map_le_def p(2) split: bind_splits if_splits)
  then have rp: "ranked E (sc_shares ?p) r" by (rule ranked_sub[OF rk])
  note u = pruneUnverified_held[OF p(1) rp, where now = now]
  have f: "held sc' = held ?u" "\<And>h. is_verified sc' h = is_verified ?u h" "sc_inv E sc' = sc_inv E ?u"
    by (simp_all add: sc'_def maintenanceRound_def)
  have hd: "held sc' h = (if h \<in> set (unverified_drop E now ?p) then None else held ?p h)" for h
    unfolding f u(2) by (simp add: restrict_map_def)
  have "set (gm_keys (sc_received ?p)) = {h. held ?p h \<noteq> None \<and> \<not> is_verified ?p h}"
    using p(1) unfolding sc_inv_def books_def book_ok_def set_gm_keys dom_def by blast
  then have "{h. HasShare sc' h \<and> \<not> is_verified sc' h} = set (gm_keys (sc_received ?p)) - set (unverified_drop E now ?p)"
    using u(3) unfolding HasShare_def hd f(2) by auto
  then have "card {h. HasShare sc' h \<and> \<not> is_verified sc' h} \<le> maxUnverifiedShares" using unverified_rest by metis
  moreover have "held sc h = Some s \<and> Unix (now - maxShareAge) \<le> share_ts s" if "held sc' h = Some s" for h s
    using that by (auto simp: hd p(2) bind_eq_Some_conv split: if_splits)
  moreover have "held sc' h = Some s \<and> is_verified sc' h"
    if "held sc h = Some s" "is_verified sc h" "Unix (now - maxShareAge) \<le> share_ts s" for h s
    using that u(3,4)[of h] p(3)[of h] by (auto simp: hd p(2) f(2))
  ultimately show ?thesis using u(1) f(3) by blast
qed


text \<open>C27: After a maintenance round the chain is consistent, no share is older than the retention age, at most
  \<open>maxUnverifiedShares\<close> shares await verification, and every verified share within the age is kept
  and stays verified.\<close>

theorem maintenanceRound_bounds:
  assumes "sc_inv E sc" "ranked E (sc_shares sc) r"
  shows "sc_inv E (maintenanceRound E now info sc)
    \<and> (\<forall>h s. held (maintenanceRound E now info sc) h = Some s \<longrightarrow> held sc h = Some s \<and> Unix (now - maxShareAge) \<le> share_ts s)
    \<and> card {h. HasShare (maintenanceRound E now info sc) h \<and> \<not> is_verified (maintenanceRound E now info sc) h} \<le> maxUnverifiedShares
    \<and> (\<forall>h s. held sc h = Some s \<longrightarrow> is_verified sc h \<longrightarrow> Unix (now - maxShareAge) \<le> share_ts s
         \<longrightarrow> held (maintenanceRound E now info sc) h = Some s \<and> is_verified (maintenanceRound E now info sc) h)"
  using maintain_facts[OF assms] by blast

subsection \<open>Loading and the life of the chain\<close>

definition loaded :: "env \<Rightarrow> ShareChain \<Rightarrow> bool" where
  "loaded E sc \<longleftrightarrow> gm_wf (sc_shares sc) \<and> held sc '''' = None \<and> keyed E sc \<and> sc_received sc = []
     \<and> (\<forall>h. is_verified sc h \<longleftrightarrow> held sc h \<noteq> None)"

lemma load_one_loaded:
  assumes "loaded E sc" "s_Hash (with_hash E sh) \<noteq> None \<longrightarrow> batch_key E sh \<noteq> ''''"
  shows "loaded E (load_one E sc sh)"
    "held (load_one E sc sh) h \<noteq> None \<longleftrightarrow> held sc h \<noteq> None \<or> s_Hash (with_hash E sh) \<noteq> None \<and> batch_key E sh = h"
  using assms by (cases "s_Hash (with_hash E sh)"; auto simp: load_one_def Let_def keyed_def batch_key_def loaded_def)+

lemma load_fold_loaded:
  assumes "loaded E sc" "\<forall>sh \<in> set fs. s_Hash (with_hash E sh) \<noteq> None \<longrightarrow> batch_key E sh \<noteq> ''''"
  shows "loaded E (foldl (load_one E) sc fs) \<and> (held (foldl (load_one E) sc fs) h \<noteq> None
    \<longleftrightarrow> held sc h \<noteq> None \<or> (\<exists>sh \<in> set fs. s_Hash (with_hash E sh) \<noteq> None \<and> batch_key E sh = h))"
  using assms
proof (induction fs arbitrary: sc)
  case (Cons sh fs)
  have h: "s_Hash (with_hash E sh) \<noteq> None \<longrightarrow> batch_key E sh \<noteq> ''''" using Cons.prems(2) by simp
  show ?case using Cons.IH[OF load_one_loaded(1)[OF Cons.prems(1) h]] Cons.prems(2) load_one_loaded(2)[OF Cons.prems(1) h, of h] by auto
qed simp

lemma load_facts:
  fixes now :: time and info :: "MiningInfo option"
  assumes nm: "\<forall>sh \<in> set fs. s_Hash (with_hash E sh) \<noteq> None \<longrightarrow> batch_key E sh \<noteq> ''''"
    and rk: "ranked E (sc_shares (foldl (load_one E) NewShareChain fs)) r"
  defines "sc' \<equiv> loadTrusted E now info fs NewShareChain"
  shows "sc_inv E sc' \<and> (\<forall>h. is_verified sc' h \<longleftrightarrow> HasShare sc' h)
    \<and> (\<forall>h. HasShare sc' h \<longleftrightarrow> (\<exists>sh \<in> set fs. s_Hash (with_hash E sh) \<noteq> None \<and> batch_key E sh = h))"
proof -
  let ?sc = "foldl (load_one E) NewShareChain fs"
  have "loaded E NewShareChain" by (simp add: loaded_def NewShareChain_def keyed_def)
  note l = load_fold_loaded[OF this nm]
  then have ok: "chain_ok E (recomputeWorkAndTipLocked E ?sc)" and sh: "sc_shares (recomputeWorkAndTipLocked E ?sc) = sc_shares ?sc"
    using recompute_ok[of ?sc, OF _ _ rk] unfolding loaded_def by blast+
  have f: "sc_verified (recomputeWorkAndTipLocked E ?sc) = sc_verified ?sc" "sc_received (recomputeWorkAndTipLocked E ?sc) = sc_received ?sc"
  proof -
    have "sc_verified (fold (\<lambda>(h, sh). linkLocked E h sh) kvs s) = sc_verified s
      \<and> sc_received (fold (\<lambda>(h, sh). linkLocked E h sh) kvs s) = sc_received s" for kvs s
      by (induction kvs arbitrary: s) (auto simp: case_prod_beta)
    then show "sc_verified (recomputeWorkAndTipLocked E ?sc) = sc_verified ?sc" "sc_received (recomputeWorkAndTipLocked E ?sc) = sc_received ?sc"
      by (simp_all add: recomputeWorkAndTipLocked_def Let_def)
  qed
  have ld: "loaded E ?sc" using l by blast
  have "book_ok (recomputeWorkAndTipLocked E ?sc)" using ld unfolding book_ok_def loaded_def f sh by auto
  moreover have "keyed E (recomputeWorkAndTipLocked E ?sc)" using ld unfolding keyed_def loaded_def f sh by blast
  moreover have "pending_valid E (recomputeWorkAndTipLocked E ?sc)"
    using ld unfolding pending_valid_def loaded_def f sh by (metis option.distinct(1))
  ultimately have "books E (recomputeWorkAndTipLocked E ?sc)" using ok unfolding books_def chain_ok_def by blast
  then have "sc_inv E (recomputeWorkAndTipLocked E ?sc)" using ok sc_inv_chain by blast
  then have "sc_inv E sc'" by (simp add: sc'_def loadTrusted_def)
  moreover have "held sc' = held ?sc" "sc_verified sc' = sc_verified ?sc"
    by (simp_all add: sc'_def loadTrusted_def sh f)
  moreover have "held NewShareChain h = None" for h by (simp add: NewShareChain_def)
  ultimately show ?thesis using l ld unfolding HasShare_def loaded_def by simp
qed


lemma load_shares: "sc_shares (loadTrusted E now info fs sc) = sc_shares (foldl (load_one E) sc fs)"
proof -
  have "sc_shares (fold (\<lambda>(h, sh). linkLocked E h sh) kvs s) = sc_shares s" for kvs s
    by (induction kvs arbitrary: s) (auto simp: case_prod_beta)
  then show ?thesis by (simp add: loadTrusted_def recomputeWorkAndTipLocked_def Let_def)
qed

text \<open>Loading the stored shares into an empty chain gives a consistent chain that holds, verified, exactly
  the shares whose hash could be computed.\<close>

theorem loadTrusted_restores:
  assumes "\<forall>sh \<in> set fs. s_Hash (with_hash E sh) \<noteq> None \<longrightarrow> batch_key E sh \<noteq> ''''"
    and "ranked E (sc_shares (foldl (load_one E) NewShareChain fs)) r"
  shows "sc_inv E (loadTrusted E now info fs NewShareChain)
    \<and> (\<forall>h. is_verified (loadTrusted E now info fs NewShareChain) h \<longleftrightarrow> HasShare (loadTrusted E now info fs NewShareChain) h)
    \<and> (\<forall>h. HasShare (loadTrusted E now info fs NewShareChain) h
          \<longleftrightarrow> (\<exists>sh \<in> set fs. s_Hash (with_hash E sh) \<noteq> None \<and> batch_key E sh = h))"
  using load_facts[OF assms] by blast

lemma AddShares_inv:
  fixes info :: "MiningInfo option"
  assumes "sc_inv E sc" "\<forall>sh \<in> set shs. s_Hash (with_hash E sh) \<noteq> None \<longrightarrow> batch_key E sh \<noteq> ''''"
    and "ranked E (sc_shares (fst (add_loop E now sc shs))) r"
  defines "sc' \<equiv> snd (AddShares E now info shs sc)"
  shows "sc_inv E sc'" "ranked E (sc_shares sc') r"
proof -
  obtain os v where o: "AddSharesOutcomes E now info shs sc = (os, v, sc')" by (cases "AddSharesOutcomes E now info shs sc") (auto simp: sc'_def AddShares_def)
  note b = batch_inv[OF assms(1-3)] and sp = named_batch_split[OF o]
  note vp = verifyPending_inv[OF b(1,2)]
  show "sc_inv E sc'" using vp(1) sp(5) by simp
  show "ranked E (sc_shares sc') r" using ranked_sub[OF b(2) vp(2)] sp(3) by simp
qed

text \<open>What a share's hash and its parent link say by themselves: the key is not empty, and its rank is above that of its
  parent. Links of hashes that were computed from headers that name their parents cannot loop, so a rank exists; nothing in
  \<open>AddShares\<close> ensures it (\<open>self_loop\<close>).\<close>

definition forward :: "env \<Rightarrow> (string \<Rightarrow> nat) \<Rightarrow> Share \<Rightarrow> bool" where
  "forward E r sh \<longleftrightarrow> (s_Hash (with_hash E sh) \<noteq> None \<longrightarrow>
     batch_key E sh \<noteq> '''' \<and> (\<not> no_parent (share_prev sh) \<longrightarrow> r (prev_key E sh) < r (batch_key E sh)))"

definition descends :: "env \<Rightarrow> share_map \<Rightarrow> (string \<Rightarrow> nat) \<Rightarrow> bool" where
  "descends E m r \<longleftrightarrow> (\<forall>h s. map_of m h = Some s \<longrightarrow> \<not> no_parent (share_prev s) \<longrightarrow> r (prev_key E s) < r h)"

lemma descends_ranked: "descends E m r \<Longrightarrow> ranked E m r"
  by (simp add: descends_def ranked_def)

lemma descends_sub: "descends E m r \<Longrightarrow> map_of m' \<subseteq>\<^sub>m map_of m \<Longrightarrow> descends E m' r"
  unfolding descends_def map_le_def by (metis domI)

lemma hashed_prev [simp]: "share_prev (with_pow E s) = share_prev s" "share_prev (with_hash E s) = share_prev s"
  by (auto simp: with_pow_def with_hash_def CalculatePOWHash_def CalculateHash_def Let_def split: sum.split option.split)

lemma hashed_prev_key [simp]: "prev_key E (with_pow E s) = prev_key E s" "prev_key E (with_hash E s) = prev_key E s"
  "prev_key E (s\<lparr>s_decodedAddr := d\<rparr>) = prev_key E s"
  by (simp_all add: prev_key_def)

lemma forward_named: "\<forall>sh \<in> set shs. forward E r sh \<Longrightarrow> \<forall>sh \<in> set shs. s_Hash (with_hash E sh) \<noteq> None \<longrightarrow> batch_key E sh \<noteq> ''''"
  by (simp add: forward_def)

lemma add_one_descends:
  assumes "descends E (sc_shares sc) r" "forward E r sh" shows "descends E (sc_shares (fst (add_one E now sc sh))) r"
  by (cases rule: add_one_cases[where E = E and now = now and sc = sc and sh = sh])
    (use assms in \<open>auto simp: descends_def forward_def admissible_def\<close>)

lemma add_loop_descends:
  assumes "descends E (sc_shares sc) r" "\<forall>sh \<in> set shs. forward E r sh"
  shows "descends E (sc_shares (fst (add_loop E now sc shs))) r"
  using assms
proof (induction shs arbitrary: sc)
  case (Cons sh shs)
  then show ?case using Cons.IH[OF add_one_descends[of E sc r sh now]] by (simp add: case_prod_beta)
qed simp

lemma load_descends:
  assumes "descends E (sc_shares sc) r" "\<forall>sh \<in> set fs. forward E r sh"
  shows "descends E (sc_shares (foldl (load_one E) sc fs)) r"
  using assms
proof (induction fs arbitrary: sc)
  case (Cons sh fs)
  have "descends E (sc_shares (load_one E sc sh)) r"
    using Cons.prems by (auto simp: descends_def forward_def load_one_def Let_def batch_key_def split: option.split)
  then show ?case using Cons by simp
qed simp

lemma maintain_descends:
  assumes "sc_inv E sc" "descends E (sc_shares sc) r"
  shows "sc_inv E (maintenanceRound E now info sc)" "descends E (sc_shares (maintenanceRound E now info sc)) r"
proof -
  note m = maintain_facts[OF assms(1) descends_ranked[OF assms(2)], where now = now and info = info]
  show "sc_inv E (maintenanceRound E now info sc)" using m by blast
  have "held sc h = Some s" if "held (maintenanceRound E now info sc) h = Some s" for h s using m that by blast
  then show "descends E (sc_shares (maintenanceRound E now info sc)) r" using assms(2) unfolding descends_def by blast
qed

text \<open>The states of the share chain: the stored shares are loaded, batches are added and maintenance runs, one operation after
  another in any order. Every share handed in is \<open>forward\<close> for the rank \<open>r\<close>.\<close>

inductive chain_state :: "env \<Rightarrow> (string \<Rightarrow> nat) \<Rightarrow> ShareChain \<Rightarrow> bool" for E r where
  load: "chain_state E r (loadTrusted E now info fs NewShareChain)" if "\<forall>sh \<in> set fs. forward E r sh"
| add: "chain_state E r (snd (AddShares E now info shs sc))" if "chain_state E r sc" "\<forall>sh \<in> set shs. forward E r sh"
| maintain: "chain_state E r (maintenanceRound E now info sc)" if "chain_state E r sc"

lemma AddShares_descends:
  fixes now :: time and info :: "MiningInfo option"
  assumes "sc_inv E sc" "descends E (sc_shares sc) r" "\<forall>sh \<in> set shs. forward E r sh"
  defines "sc' \<equiv> snd (AddShares E now info shs sc)"
  shows "sc_inv E sc'" "descends E (sc_shares sc') r"
proof -
  note d = add_loop_descends[OF assms(2,3), of now] and nm = forward_named[OF assms(3)]
  show "sc_inv E sc'" unfolding sc'_def by (rule AddShares_inv(1)[OF assms(1) nm descends_ranked[OF d]])
  obtain os v where o: "AddSharesOutcomes E now info shs sc = (os, v, sc')"
    by (cases "AddSharesOutcomes E now info shs sc") (auto simp: sc'_def AddShares_def)
  note b = batch_inv[OF assms(1) nm descends_ranked[OF d]] and sp = named_batch_split[OF o]
  have "map_of (sc_shares sc') \<subseteq>\<^sub>m map_of (sc_shares (fst (add_loop E now sc shs)))"
    using verifyPending_inv(2)[OF b(1,2)] unfolding sp(3) b(3) .
  then show "descends E (sc_shares sc') r" by (rule descends_sub[OF d])
qed

text \<open>C21: Every state of the share chain reached by loading, adding batches and maintenance rounds, each run to its end before
  the next, over shares whose parent links do not loop, is consistent: the children index, cumulative work and chain lengths
  are those of the held shares, exactly the unverified shares have a time of receipt, shares are held under their own hash, and
  no share is its own ancestor.\<close>

theorem chain_state_inv:
  assumes "chain_state E r sc" shows "sc_inv E sc \<and> ranked E (sc_shares sc) r"
proof -
  have "sc_inv E sc \<and> descends E (sc_shares sc) r" using assms
  proof induction
    case (load fs now info)
    have "descends E (sc_shares (foldl (load_one E) NewShareChain fs)) r"
      by (rule load_descends[OF _ load]) (simp add: descends_def NewShareChain_def)
    then show ?case using load_facts[OF forward_named[OF load] descends_ranked] by (simp add: load_shares)
  next
    case (add sc shs now info)
    then show ?case using AddShares_descends by blast
  next
    case (maintain sc now info)
    then show ?case using maintain_descends by blast
  qed
  then show ?thesis using descends_ranked by blast
qed

text \<open>The two premises of that statement are needed. A share that claims its own parent's hash for itself is stored as it comes
  and is its own ancestor; and \<open>PruneOldShares\<close>, which does not take \<open>verifyMu\<close>, can run between the moment \<open>verifyPending\<close>
  decides on a share and the moment it marks it, which leaves a share verified that is not held.\<close>

lemma self_loop:
  assumes "s_Hash s = Some h" "share_prev s = Some h" "\<not> no_parent (share_prev s)" "admissible E now s"
  shows "\<not> ranked E (sc_shares (fst (add_loop E now NewShareChain [s]))) r"
proof -
  have w: "with_hash E s = s" using assms(1) by (simp add: with_hash_def)
  have n: "held NewShareChain k = None" for k by (simp add: NewShareChain_def)
  have k: "prev_key E s = batch_key E s" using assms(1,2) by (simp add: prev_key_def batch_key_def w)
  show ?thesis
    by (cases rule: add_one_cases[where E = E and now = now and sc = NewShareChain and sh = s])
      (use assms n k in \<open>auto simp: ranked_def w case_prod_beta\<close>)
qed

lemma prune_mark_race:
  assumes "held (PruneOldShares E now sc) h = None"
  shows "is_verified (markVerifiedLocked E h (PruneOldShares E now sc)) h" "\<not> book_ok (markVerifiedLocked E h (PruneOldShares E now sc))"
proof -
  show v: "is_verified (markVerifiedLocked E h (PruneOldShares E now sc)) h" by (simp add: markVerifiedLocked_def markDirtyLocked_def)
  have "held (markVerifiedLocked E h (PruneOldShares E now sc)) h = None" using assms by (simp add: markVerifiedLocked_def markDirtyLocked_def)
  then show "\<not> book_ok (markVerifiedLocked E h (PruneOldShares E now sc))" using v unfolding book_ok_def by blast
qed

subsection \<open>Honest shares\<close>

lemma expected_difficulty_ge: "1 / 2 \<le> GetExpectedShareDifficulty E sc p"
  using floor_diff_ge(1)
  by (simp add: GetExpectedShareDifficulty_def getExpectedShareDifficultyLocked_def Let_def MinPoolShareDiff_def)

lemma honest_difficulty:
  assumes "s_Target s = Some (DiffToTarget (GetExpectedShareDifficulty E sc p))"
    and "0 < share_pow s" "share_pow s \<le> DiffToTarget (GetExpectedShareDifficulty E sc p)"
    and "GetExpectedShareDifficulty E sc p \<le> 2 ^ 100"
  shows "\<not> difficulty_rejects E sc s p"
proof -
  let ?d = "GetExpectedShareDifficulty E sc p"
  note b = honest_target_band[OF expected_difficulty_ge assms(4)]
  have "target_diff s = TargetToDiff (Some (DiffToTarget ?d))"
    using assms(1-3) by (simp add: target_diff_def no_target_def)
  moreover have "TargetToDiff (Some (DiffToTarget ?d)) \<le> TargetToDiff (Some (share_pow s))"
    by (rule TargetToDiff_antimono[OF assms(2,3)])
  ultimately show ?thesis using b unfolding difficulty_rejects_def Let_def by auto
qed

subsection \<open>Examples\<close>

lemma demo_hashed: "with_hash demo_env (demo_link i) = demo_link i" "with_pow demo_env (demo_link i) = demo_link i"
  "batch_key demo_env (demo_link i) = demo_key i"
  by (simp_all add: with_hash_def with_pow_def batch_key_def demo_link_def demo_share_def demo_key_def)

lemma demo_one_ranked:
  assumes "\<And>h s. map_of m h = Some s \<Longrightarrow> no_parent (share_prev s)" shows "ranked E m r"
  using assms by (auto simp: ranked_def)

lemma demo_parentless: "no_parent (share_prev (demo_link 0\<lparr>s_decodedAddr := a\<rparr>))"
  by (simp add: demo_link_def demo_share_def no_parent_def)

lemma new_sc_inv: "sc_inv E NewShareChain"
  using new_chain_ok[of E] by (simp add: sc_inv_chain books_defs chain_ok_def) (simp add: NewShareChain_def)

text \<open>A stored share is loaded, its child and a share without its parent arrive, and maintenance runs.\<close>

definition demo_rank :: "string \<Rightarrow> nat" where
  "demo_rank k = (if k = demo_key 1 then 1 else if k = demo_key 3 then 3 else if k = demo_key 2 then 2 else 0)"

lemma demo_forward: "i \<in> {0, 1, 3} \<Longrightarrow> forward demo_env demo_rank (demo_link i)"
proof -
  have ne: "demo_key i \<noteq> ''''" for i by (simp add: demo_key_def demo_env_def hex_EncodeToString_def demo_hash_def be32_def)
  have pk: "prev_key demo_env (demo_link (Suc i)) = demo_key i" for i
    by (simp add: prev_key_def demo_link_def demo_share_def demo_key_def)
  show "i \<in> {0, 1, 3} \<Longrightarrow> forward demo_env demo_rank (demo_link i)"
    using ne pk[of 0] pk[of 2] demo_parentless[of "[]"] by (auto simp: forward_def demo_hashed demo_rank_def demo_key_inj numeral_eq_Suc)
qed

theorem chain_state_inv_witness:
  "sc_inv demo_env (maintenanceRound demo_env (seconds 3000) None (snd (AddShares demo_env (seconds 2000) None [demo_link 1, demo_link 3]
     (loadTrusted demo_env (seconds 2000) None [demo_link 0] NewShareChain))))"
proof -
  have "chain_state demo_env demo_rank (loadTrusted demo_env (seconds 2000) None [demo_link 0] NewShareChain)"
    by (rule chain_state.load) (simp add: demo_forward)
  then have "chain_state demo_env demo_rank (snd (AddShares demo_env (seconds 2000) None [demo_link 1, demo_link 3]
     (loadTrusted demo_env (seconds 2000) None [demo_link 0] NewShareChain)))"
    by (rule chain_state.add) (simp add: demo_forward)
  from chain_state_inv[OF chain_state.maintain[OF this]] show ?thesis by blast
qed

lemma demo_add_ranked: "ranked demo_env (sc_shares (fst (add_loop demo_env now NewShareChain [demo_link 0]))) r"
proof (rule demo_one_ranked)
  fix h s assume "map_of (sc_shares (fst (add_loop demo_env now NewShareChain [demo_link 0]))) h = Some s"
  then show "no_parent (share_prev s)"
    by (cases rule: add_one_cases[where E = demo_env and now = now and sc = NewShareChain and sh = "demo_link 0"])
      (auto simp: demo_hashed NewShareChain_def demo_parentless split: if_splits)
qed

theorem AddSharesOutcomes_sound_witness:
  "sc_inv demo_env (snd (snd (AddSharesOutcomes demo_env (seconds 2000) None [demo_link 0] NewShareChain)))"
proof -
  obtain os v sc' where o: "AddSharesOutcomes demo_env (seconds 2000) None [demo_link 0] NewShareChain = (os, v, sc')" by (metis prod_cases3)
  from AddSharesOutcomes_sound[OF new_sc_inv _ demo_add_ranked o] have "sc_inv demo_env sc'" by (simp add: demo_hashed)
  then show ?thesis unfolding o by simp
qed

theorem loadTrusted_restores_witness:
  "is_verified (loadTrusted demo_env (seconds 2000) None [demo_link 0] NewShareChain) (demo_key 0)"
proof -
  have "ranked demo_env (sc_shares (foldl (load_one demo_env) NewShareChain [demo_link 0])) (\<lambda>_. 0)"
    by (rule demo_one_ranked)
      (auto simp: demo_hashed demo_parentless load_one_def Let_def NewShareChain_def gm_set_def split: option.splits if_splits)
  moreover have "\<forall>sh \<in> set [demo_link 0]. s_Hash (with_hash demo_env sh) \<noteq> None \<longrightarrow> batch_key demo_env sh \<noteq> ''''"
    by (simp add: demo_hashed)
  moreover have "s_Hash (demo_link 0) \<noteq> None" by (simp add: demo_link_def demo_share_def)
  ultimately show ?thesis using loadTrusted_restores[of "[demo_link 0]" demo_env "\<lambda>_. 0" "seconds 2000" None]
    by (simp add: demo_hashed)
qed

theorem maintenanceRound_bounds_witness:
  "card {h. HasShare (maintenanceRound demo_env (seconds 3000) None (snd (AddShares demo_env (seconds 2000) None [demo_link 0] NewShareChain))) h
     \<and> \<not> is_verified (maintenanceRound demo_env (seconds 3000) None (snd (AddShares demo_env (seconds 2000) None [demo_link 0] NewShareChain))) h} \<le> 8640"
proof -
  have "\<forall>sh \<in> set [demo_link 0]. s_Hash (with_hash demo_env sh) \<noteq> None \<longrightarrow> batch_key demo_env sh \<noteq> ''''"
    by (simp add: demo_hashed)
  note a = AddShares_inv[OF new_sc_inv this demo_add_ranked]
  have m: "maxUnverifiedShares = 8640" by (simp add: maxUnverifiedShares_def DefaultPPLNSWindow_def)
  show ?thesis
    by (rule maintenanceRound_bounds[OF a, of "seconds 3000" None, THEN conjunct2, THEN conjunct2, THEN conjunct1, unfolded m])
qed

definition demo_pending :: ShareChain where
  "demo_pending = (recomputeWorkAndTipLocked demo_env (demo_chain 1))\<lparr>sc_received := [(demo_key 0, seconds 2000)]\<rparr>"

lemma demo_pending_frame: "sc_shares demo_pending = [(demo_key 0, demo_link 0)]" "sc_verified demo_pending = []"
  by (simp_all add: demo_pending_def demo_recompute(2))
    (simp_all add: recomputeWorkAndTipLocked_def Let_def demo_chain_def NewShareChain_def)

lemma demo_pending_inv: "sc_inv demo_env demo_pending"
proof -
  have "chain_ok demo_env demo_pending" using demo_recompute(1) by (simp add: demo_pending_def chain_ok_def index_upto_def work_ok_def work_at_def parent_work_def Let_def)
  moreover have "s_Hash (demo_link 0) = Some (demo_hash 0)" by (simp add: demo_link_def demo_share_def)
  moreover have "sc_received demo_pending = [(demo_key 0, seconds 2000)]" by (simp add: demo_pending_def)
  ultimately show ?thesis
    by (simp add: sc_inv_chain books_defs chain_ok_def demo_pending_frame demo_link_valid demo_key_def)
qed

theorem newly_verified_passed_witness:
  "is_verified (snd (snd (verifyPending demo_env demo_pending))) (demo_key 0) \<and> held demo_pending (demo_key 0) = Some (demo_link 0)"
proof -
  have h: "s_Hash (demo_link 0) = Some (demo_hash 0)" "e_HashString demo_env (demo_hash 0) = demo_key 0"
    by (simp_all add: demo_link_def demo_share_def demo_key_def)
  have p: "pending_shares demo_env demo_pending = [demo_link 0]" by (simp add: pending_shares_def demo_pending_frame h)
  have t: "effectiveTimeLocked demo_env demo_pending (demo_link 0) (share_prev (demo_link 0)) < ConsensusV2ActivationTime"
    by (simp add: effectiveTimeLocked_def) (simp add: demo_link_def demo_share_def share_ts_def ConsensusV2ActivationTime_def)
  have "is_verified (snd (snd (verifyPending demo_env demo_pending))) (demo_key 0)"
    using t by (simp add: verifyPending_def p verify_one_def h demo_pending_frame parent_ready_def Let_def case_prod_beta)
  then show ?thesis using newly_verified_passed[OF demo_pending_inv, of "demo_key 0"] by (auto simp: demo_pending_frame)
qed

end
