(* ===== verification/ShareSync.thy ===== *)
theory ShareSync
  imports ShareWork "HOL-Library.Product_Lexorder"
begin

text \<open>
  What the share chain asks of peers and answers them (\<open>work/sharechain.go\<close>): the chain heads, the
  missing parents to request, the stop hashes sent along, and the reply to a share request. The
  comparator of \<open>headsLocked\<close> is a total order on distinct hashes, so its \<open>sort.Slice\<close> is the
  descending sort by work and hash. The lemmas show that a request names exactly the missing ends of
  the recent chains, and that a reply is bounded, free of repetitions and made of held shares.
\<close>

definition MaxShareReply :: nat where "MaxShareReply = 1000"

definition headsLocked :: "env \<Rightarrow> ShareChain \<Rightarrow> string list" where
  "headsLocked E sc =
     (let hasChild = filter (\<lambda>p. p \<noteq> '''') (map (\<lambda>(_, sh). prev_key E sh) (sc_shares sc))
      in rev (sort_key (\<lambda>h. (gm_get 0 (sc_cumWork sc) h, h))
           (filter (\<lambda>h. h \<notin> set hasChild) (gm_keys (sc_shares sc)))))"

text \<open>The loop of \<open>missingTailLocked\<close>: the tail and the path walked.\<close>

function tail_loop :: "env \<Rightarrow> ShareChain \<Rightarrow> (string, string) gomap \<Rightarrow> string \<Rightarrow> string list \<Rightarrow> string \<times> string list" where
  "tail_loop E sc tails cur path =
     (case map_of tails cur of
        Some t \<Rightarrow> (t, path)
      | None \<Rightarrow>
          (case held sc cur of
             None \<Rightarrow> (cur, path)
           | Some sh \<Rightarrow>
               if no_parent (share_prev sh) \<or> length (sc_shares sc) < length (path @ [cur]) then ('''', path @ [cur])
               else tail_loop E sc tails (prev_key E sh) (path @ [cur])))"
  by pat_completeness auto
termination
  by (relation "measure (\<lambda>(E, sc, tails, cur, path). Suc (length (sc_shares sc)) - length path)") auto

declare tail_loop.simps [simp del]

definition missingTailLocked ::
  "env \<Rightarrow> ShareChain \<Rightarrow> string \<Rightarrow> (string, string) gomap \<Rightarrow> string \<times> (string, string) gomap" where
  "missingTailLocked E sc h tails =
     (let (tail, path) = tail_loop E sc tails h [] in (tail, fold (\<lambda>p ts. gm_set p tail ts) path tails))"

text \<open>The loop of \<open>GetMissingParentHashes\<close>; \<open>seen\<close> has the elements of \<open>out\<close>.\<close>

definition wants_parent :: "ShareChain \<Rightarrow> int \<Rightarrow> string \<Rightarrow> bool" where
  "wants_parent sc ct h \<longleftrightarrow> (case held sc h of Some sh \<Rightarrow> ct \<le> share_ts sh | None \<Rightarrow> False)
     \<and> gm_get 0 (sc_chainLen sc) h < DefaultPPLNSWindow + int TargetLookbehind"

fun missing_loop ::
  "env \<Rightarrow> ShareChain \<Rightarrow> int \<Rightarrow> int \<Rightarrow> string list \<Rightarrow> (string, string) gomap \<Rightarrow> string list \<Rightarrow> string list" where
  "missing_loop E sc ct mx [] tails out = out"
| "missing_loop E sc ct mx (h # hs) tails out =
     (if \<not> wants_parent sc ct h then missing_loop E sc ct mx hs tails out
      else let (t, tails1) = missingTailLocked E sc h tails
           in if t \<noteq> '''' \<and> t \<notin> set out
              then (if 0 < mx \<and> mx \<le> int (length (out @ [t])) then out @ [t]
                    else missing_loop E sc ct mx hs tails1 (out @ [t]))
              else missing_loop E sc ct mx hs tails1 out)"

definition GetMissingParentHashes :: "env \<Rightarrow> time \<Rightarrow> int \<Rightarrow> ShareChain \<Rightarrow> string list" where
  "GetMissingParentHashes E now mx sc =
     missing_loop E sc (Unix (now - maxShareAge)) mx (headsLocked E sc) [] []"

fun ancestor :: "env \<Rightarrow> ShareChain \<Rightarrow> nat \<Rightarrow> string \<Rightarrow> string" where
  "ancestor E sc 0 anc = anc"
| "ancestor E sc (Suc i) anc =
     (let p = (case held sc anc of Some sh \<Rightarrow> prev_key E sh | None \<Rightarrow> '''')
      in if p = '''' \<or> held sc p = None then anc else ancestor E sc i p)"

definition add_stop :: "int \<Rightarrow> string \<Rightarrow> string list \<Rightarrow> string list" where
  "add_stop mx h out = (if h \<notin> set out \<and> (mx \<le> 0 \<or> int (length out) < mx) then out @ [h] else out)"

fun stop_loop :: "env \<Rightarrow> ShareChain \<Rightarrow> int \<Rightarrow> string list \<Rightarrow> string list \<Rightarrow> string list" where
  "stop_loop E sc mx [] out = out"
| "stop_loop E sc mx (h # hs) out =
     (if 0 < mx \<and> mx \<le> int (length out) then out
      else stop_loop E sc mx hs (add_stop mx (ancestor E sc 10 h) (add_stop mx h out)))"

definition GetStopHashes :: "env \<Rightarrow> int \<Rightarrow> ShareChain \<Rightarrow> string list" where
  "GetStopHashes E mx sc = stop_loop E sc mx (headsLocked E sc) []"

text \<open>The walk for one requested hash: the keys seen, which name the shares of the reply in order.\<close>

fun reply_walk :: "env \<Rightarrow> ShareChain \<Rightarrow> string list \<Rightarrow> nat \<Rightarrow> string \<Rightarrow> string list \<Rightarrow> string list" where
  "reply_walk E sc stop 0 cur seen = seen"
| "reply_walk E sc stop (Suc n) cur seen =
     (if cur = '''' \<or> MaxShareReply \<le> length seen then seen
      else if cur \<in> set seen \<or> cur \<in> set stop then seen
      else (case held sc cur of
              None \<Rightarrow> seen
            | Some s \<Rightarrow> if no_parent (share_prev s) then seen @ [cur]
                        else reply_walk E sc stop n (e_HashString E (the (share_prev s))) (seen @ [cur])))"

definition reply_parents :: "int \<Rightarrow> nat \<Rightarrow> nat" where
  "reply_parents parents n =
     (let p0 = (if parents < 0 then 0 else nat parents); p = MaxShareReply div n
      in if p < p0 then p else p0)"

definition reply_keys :: "env \<Rightarrow> string list \<Rightarrow> int \<Rightarrow> string list \<Rightarrow> ShareChain \<Rightarrow> string list" where
  "reply_keys E hashes parents stops sc =
     foldl (\<lambda>seen cur. reply_walk E sc stops (Suc (reply_parents parents (length hashes))) cur seen) [] hashes"

definition GetSharesByHashWithParents ::
  "env \<Rightarrow> string list \<Rightarrow> int \<Rightarrow> string list \<Rightarrow> ShareChain \<Rightarrow> Share list" where
  "GetSharesByHashWithParents E hashes parents stops sc =
     (if hashes = [] then [] else map (\<lambda>k. the (held sc k)) (reply_keys E hashes parents stops sc))"

subsection \<open>Heads\<close>

lemma heads_set:
  assumes "gm_wf (sc_shares sc)"
  shows "h \<in> set (headsLocked E sc) \<longleftrightarrow>
    held sc h \<noteq> None \<and> (h = '''' \<or> (\<forall>k s. held sc k = Some s \<longrightarrow> prev_key E s \<noteq> h))"
proof -
  have k: "h \<in> set (gm_keys (sc_shares sc)) \<longleftrightarrow> held sc h \<noteq> None" by (auto simp: set_gm_keys simp del: set_map)
  have c: "h \<in> set (filter (\<lambda>p. p \<noteq> '''') (map (\<lambda>(_, sh). prev_key E sh) (sc_shares sc)))
      \<longleftrightarrow> h \<noteq> '''' \<and> (\<exists>k s. held sc k = Some s \<and> prev_key E s = h)"
    using assms by (auto simp: gm_mem_wf[symmetric])
  have "h \<in> set (headsLocked E sc) \<longleftrightarrow> h \<in> set (gm_keys (sc_shares sc))
      \<and> h \<notin> set (filter (\<lambda>p. p \<noteq> '''') (map (\<lambda>(_, sh). prev_key E sh) (sc_shares sc)))"
    unfolding headsLocked_def Let_def by (simp del: set_map)
  then show ?thesis unfolding c k by blast
qed

lemma heads_distinct: "gm_wf (sc_shares sc) \<Longrightarrow> distinct (headsLocked E sc)"
  by (simp add: headsLocked_def Let_def)

text \<open>The heads are exactly the held shares no held share builds on, by decreasing work and hash.\<close>

theorem headsLocked_spec:
  assumes "gm_wf (sc_shares sc)" "held sc '''' = None"
  shows "set (headsLocked E sc) = {h. HasShare sc h \<and> (\<forall>k s. held sc k = Some s \<longrightarrow> prev_key E s \<noteq> h)}
    \<and> distinct (headsLocked E sc)
    \<and> sorted_wrt (\<lambda>a b. gm_get 0 (sc_cumWork sc) b < gm_get 0 (sc_cumWork sc) a
         \<or> gm_get 0 (sc_cumWork sc) a = gm_get 0 (sc_cumWork sc) b \<and> b < a) (headsLocked E sc)"
proof -
  let ?f = "\<lambda>h. (gm_get 0 (sc_cumWork sc) h, h)"
  obtain l where l: "headsLocked E sc = rev (sort_key ?f l)" by (simp add: headsLocked_def Let_def)
  have "sorted (map ?f (sort_key ?f l))" by (rule sorted_sort_key)
  moreover have "distinct (map ?f (sort_key ?f l))"
    using heads_distinct[OF assms(1), of E] by (simp add: l distinct_map inj_on_def)
  ultimately have "sorted_wrt (<) (map ?f (sort_key ?f l))" by (simp add: strict_sorted_iff)
  then have "sorted_wrt (\<lambda>a b. ?f b < ?f a) (headsLocked E sc)" by (simp add: l sorted_wrt_rev sorted_wrt_map)
  then have "sorted_wrt (\<lambda>a b. gm_get 0 (sc_cumWork sc) b < gm_get 0 (sc_cumWork sc) a
         \<or> gm_get 0 (sc_cumWork sc) a = gm_get 0 (sc_cumWork sc) b \<and> b < a) (headsLocked E sc)"
    by (rule sorted_wrt_mono_rel[rotated]) (auto simp: less_prod_def)
  moreover have "h \<in> set (headsLocked E sc) \<longleftrightarrow> HasShare sc h \<and> (\<forall>k s. held sc k = Some s \<longrightarrow> prev_key E s \<noteq> h)" for h
    unfolding heads_set[OF assms(1)] HasShare_def using assms(2) by (cases "h = ''''") simp_all
  then have "set (headsLocked E sc) = {h. HasShare sc h \<and> (\<forall>k s. held sc k = Some s \<longrightarrow> prev_key E s \<noteq> h)}" by blast
  ultimately show ?thesis using heads_distinct[OF assms(1)] by blast
qed


subsection \<open>Missing parents\<close>

text \<open>The reference for the memoised walk: where the chain below \<open>h\<close> ends, the empty key at genesis.\<close>

inductive ends_at :: "env \<Rightarrow> ShareChain \<Rightarrow> string \<Rightarrow> string \<Rightarrow> bool" for E sc where
  missing: "ends_at E sc h h" if "held sc h = None"
| root: "ends_at E sc h ''''" if "held sc h = Some s" "no_parent (share_prev s)"
| below: "ends_at E sc h t" if "held sc h = Some s" "\<not> no_parent (share_prev s)" "ends_at E sc (prev_key E s) t"

inductive_cases ends_at_heldE: "ends_at E sc h t"

lemma ends_at_unique: "ends_at E sc h t \<Longrightarrow> ends_at E sc h u \<Longrightarrow> t = u"
proof (induction arbitrary: u rule: ends_at.induct)
  case (missing h)
  then show ?case by (auto elim: ends_at_heldE)
next
  case (root h s)
  from root.prems show ?case by (cases rule: ends_at.cases) (use root.hyps in simp_all)
next
  case (below h s t)
  from below.prems show ?case
  proof cases
    case (below s')
    then show ?thesis using below.IH below.hyps by simp
  qed (use below.hyps in simp_all)
qed

definition tails_ok :: "env \<Rightarrow> ShareChain \<Rightarrow> (string, string) gomap \<Rightarrow> bool" where
  "tails_ok E sc tails \<longleftrightarrow> (\<forall>k t. map_of tails k = Some t \<longrightarrow> ends_at E sc k t)"

lemma path_bound:
  assumes "distinct path" "\<forall>p \<in> set path. held sc p \<noteq> None" shows "length path \<le> length (sc_shares sc)"
proof -
  have "set path \<subseteq> set (gm_keys (sc_shares sc))" using assms(2) by (auto simp: set_gm_keys simp del: set_map)
  then have "card (set path) \<le> card (set (gm_keys (sc_shares sc)))" by (intro card_mono) simp_all
  also have "\<dots> \<le> length (sc_shares sc)" by (metis card_length length_map)
  finally show ?thesis using assms(1) by (simp add: distinct_card)
qed

lemma tail_loop_ends:
  assumes rk: "ranked E (sc_shares sc) r" and tk: "tails_ok E sc tails"
    and "distinct path" "\<forall>p \<in> set path. held sc p \<noteq> None \<and> (held sc cur \<noteq> None \<longrightarrow> r cur < r p)"
  shows "ends_at E sc cur (fst (tail_loop E sc tails cur path))
    \<and> (\<forall>p \<in> set (snd (tail_loop E sc tails cur path)). p \<in> set path \<or> ends_at E sc p (fst (tail_loop E sc tails cur path)))"
  using assms(3,4)
proof (induction "length (sc_shares sc) - length path" arbitrary: cur path rule: less_induct)
  case (less path cur)
  note d = less.prems(1) and q = less.prems(2)
  show ?case
  proof (cases "map_of tails cur")
    case (Some t)
    then show ?thesis using tk by (simp add: tail_loop.simps[of E sc tails cur] tails_ok_def)
  next
    case None
    show ?thesis
    proof (cases "held sc cur")
      case h: None
      then show ?thesis using None by (simp add: tail_loop.simps[of E sc tails cur] ends_at.missing)
    next
      case (Some sh)
      have cur: "cur \<notin> set path" using q Some by auto
      then have len: "length (path @ [cur]) \<le> length (sc_shares sc)"
        using d q Some by (intro path_bound) auto
      show ?thesis
      proof (cases "no_parent (share_prev sh)")
        case True
        then show ?thesis using None Some ends_at.root[OF Some True] by (simp add: tail_loop.simps[of E sc tails cur])
      next
        case False
        let ?p = "prev_key E sh" and ?path = "path @ [cur]"
        have e: "tail_loop E sc tails cur path = tail_loop E sc tails ?p ?path"
          using None Some False len by (simp add: tail_loop.simps[of E sc tails cur])
        have st: "r ?p < r cur" if "held sc ?p \<noteq> None" using rk Some False that unfolding ranked_def by blast
        have "\<forall>p \<in> set ?path. held sc p \<noteq> None \<and> (held sc ?p \<noteq> None \<longrightarrow> r ?p < r p)"
        proof
          fix p assume "p \<in> set ?path"
          then have "held sc p \<noteq> None \<and> (p = cur \<or> r cur < r p)" using q Some by auto
          then show "held sc p \<noteq> None \<and> (held sc ?p \<noteq> None \<longrightarrow> r ?p < r p)" using st by auto
        qed
        then have ih: "ends_at E sc ?p (fst (tail_loop E sc tails ?p ?path))"
          "\<forall>p \<in> set (snd (tail_loop E sc tails ?p ?path)). p \<in> set ?path \<or> ends_at E sc p (fst (tail_loop E sc tails ?p ?path))"
          using less.hyps[of ?path ?p] len d cur by simp_all
        have "ends_at E sc cur (fst (tail_loop E sc tails ?p ?path))" by (rule ends_at.below[OF Some False ih(1)])
        then show ?thesis using ih(2) unfolding e by auto
      qed
    qed
  qed
qed


lemma missingTail_ok:
  assumes "ranked E (sc_shares sc) r" "tails_ok E sc tails"
  shows "ends_at E sc h (fst (missingTailLocked E sc h tails))" "tails_ok E sc (snd (missingTailLocked E sc h tails))"
proof -
  let ?t = "fst (tail_loop E sc tails h [])" and ?path = "snd (tail_loop E sc tails h [])"
  have l: "ends_at E sc h ?t" "\<forall>p \<in> set ?path. ends_at E sc p ?t" using tail_loop_ends[OF assms, of "[]" h] by auto
  then show "ends_at E sc h (fst (missingTailLocked E sc h tails))" by (simp add: missingTailLocked_def case_prod_beta)
  have "tails_ok E sc (fold (\<lambda>p ts. gm_set p ?t ts) path ts)" if "\<forall>p \<in> set path. ends_at E sc p ?t" "tails_ok E sc ts" for path ts
    using that
  proof (induction path arbitrary: ts)
    case (Cons p path)
    have "tails_ok E sc (gm_set p ?t ts)" using Cons.prems by (simp add: tails_ok_def)
    then show ?case using Cons by simp
  qed simp
  then show "tails_ok E sc (snd (missingTailLocked E sc h tails))"
    using l assms(2) by (simp add: missingTailLocked_def case_prod_beta)
qed

lemma missing_loop_spec:
  fixes hs :: "string list" and ct mx :: int
  assumes rk: "ranked E (sc_shares sc) r" and "tails_ok E sc tails" "distinct out" "0 < mx \<longrightarrow> int (length out) < mx"
  defines "R \<equiv> missing_loop E sc ct mx hs tails out"
  shows "distinct R \<and> set out \<subseteq> set R \<and> (0 < mx \<longrightarrow> int (length R) \<le> mx)
    \<and> (\<forall>t \<in> set R. t \<in> set out \<or> t \<noteq> '''' \<and> (\<exists>h \<in> set hs. wants_parent sc ct h \<and> ends_at E sc h t))
    \<and> (mx \<le> 0 \<longrightarrow> (\<forall>h \<in> set hs. wants_parent sc ct h \<longrightarrow> (\<forall>t. ends_at E sc h t \<longrightarrow> t = '''' \<or> t \<in> set R)))"
  using assms(2-4) unfolding R_def
proof (induction hs arbitrary: tails out)
  case (Cons h hs)
  let ?t = "fst (missingTailLocked E sc h tails)" and ?tl = "snd (missingTailLocked E sc h tails)"
  note mt = missingTail_ok[OF rk Cons.prems(1), of h]
  have u: "t = ?t" if "ends_at E sc h t" for t using ends_at_unique[OF that mt(1)] .
  consider "\<not> wants_parent sc ct h" | "wants_parent sc ct h" "?t = '''' \<or> ?t \<in> set out"
    | "wants_parent sc ct h" "?t \<noteq> ''''" "?t \<notin> set out" "0 < mx" "mx \<le> int (length (out @ [?t]))"
    | "wants_parent sc ct h" "?t \<noteq> ''''" "?t \<notin> set out" "\<not> (0 < mx \<and> mx \<le> int (length (out @ [?t])))" by blast
  then show ?case
  proof cases
    case 1
    then show ?thesis using Cons.IH[OF Cons.prems] by auto
  next
    case 2
    have e: "missing_loop E sc ct mx (h # hs) tails out = missing_loop E sc ct mx hs ?tl out"
      using 2 by (auto simp: case_prod_beta)
    show ?thesis using Cons.IH[OF mt(2) Cons.prems(2,3)] 2 u unfolding e by (auto dest: u)
  next
    case 3
    then have e: "missing_loop E sc ct mx (h # hs) tails out = out @ [?t]" by (simp add: case_prod_beta)
    show ?thesis using 3 Cons.prems mt(1) unfolding e by auto
  next
    case 4
    then have e: "missing_loop E sc ct mx (h # hs) tails out = missing_loop E sc ct mx hs ?tl (out @ [?t])"
      by (auto simp: case_prod_beta)
    have d: "distinct (out @ [?t])" "0 < mx \<longrightarrow> int (length (out @ [?t])) < mx" using 4 Cons.prems(2) by auto
    note ih = Cons.IH[OF mt(2) d]
    have "t \<in> set out \<or> t \<noteq> '''' \<and> (\<exists>h \<in> set (h # hs). wants_parent sc ct h \<and> ends_at E sc h t)"
      if "t \<in> set (missing_loop E sc ct mx hs ?tl (out @ [?t]))" for t
      using ih that 4(1,2) mt(1) by fastforce
    then show ?thesis using ih unfolding e by (auto dest: u)
  qed
qed auto

lemma ends_at_missing: "ends_at E sc h t \<Longrightarrow> t = '''' \<or> held sc t = None"
  by (induction rule: ends_at.induct) auto

text \<open>A node requests missing parents only: each hash of \<open>GetMissingParentHashes\<close> is not held and is where
  the chain of a recent head that is not yet deep enough breaks off, without repetition and within
  the limit; without a limit every such hash is requested.\<close>

theorem missing_parents_exact:
  fixes now :: time
  assumes "ranked E (sc_shares sc) r"
  defines "W \<equiv> {t. t \<noteq> '''' \<and> (\<exists>h \<in> set (headsLocked E sc). wants_parent sc (Unix (now - maxShareAge)) h \<and> ends_at E sc h t)}"
  shows "distinct (GetMissingParentHashes E now mx sc) \<and> set (GetMissingParentHashes E now mx sc) \<subseteq> W
    \<and> (\<forall>t \<in> set (GetMissingParentHashes E now mx sc). \<not> HasShare sc t)
    \<and> (0 < mx \<longrightarrow> int (length (GetMissingParentHashes E now mx sc)) \<le> mx)
    \<and> (mx \<le> 0 \<longrightarrow> set (GetMissingParentHashes E now mx sc) = W)"
proof -
  note s = missing_loop_spec[OF assms(1), of "[]" "[]" mx "Unix (now - maxShareAge)" "headsLocked E sc",
      folded GetMissingParentHashes_def, simplified tails_ok_def, simplified]
  have "set (GetMissingParentHashes E now mx sc) \<subseteq> W" using s unfolding W_def by blast
  moreover have "\<not> HasShare sc t" if "t \<in> W" for t using that unfolding W_def HasShare_def by (auto dest: ends_at_missing)
  moreover have "W \<subseteq> set (GetMissingParentHashes E now mx sc)" if "mx \<le> 0" using s that unfolding W_def by blast
  ultimately show ?thesis using s by blast
qed

subsection \<open>Replies\<close>

lemma reply_walk_props:
  fixes E :: env
  assumes "distinct seen" "length seen \<le> MaxShareReply" "\<forall>k \<in> set seen. held sc k \<noteq> None \<and> k \<notin> set stop"
  shows "distinct (reply_walk E sc stop n cur seen) \<and> length (reply_walk E sc stop n cur seen) \<le> MaxShareReply
    \<and> (\<forall>k \<in> set (reply_walk E sc stop n cur seen). held sc k \<noteq> None \<and> k \<notin> set stop)"
  using assms
  by (induction E sc stop n cur seen rule: reply_walk.induct) (auto split: option.splits)

lemma reply_keys_props:
  "distinct (reply_keys E hashes parents stops sc) \<and> length (reply_keys E hashes parents stops sc) \<le> MaxShareReply
   \<and> (\<forall>k \<in> set (reply_keys E hashes parents stops sc). held sc k \<noteq> None \<and> k \<notin> set stops)"
proof -
  have f: "distinct (foldl (\<lambda>seen cur. reply_walk E sc stops n cur seen) seen hs)
    \<and> length (foldl (\<lambda>seen cur. reply_walk E sc stops n cur seen) seen hs) \<le> MaxShareReply
    \<and> (\<forall>k \<in> set (foldl (\<lambda>seen cur. reply_walk E sc stops n cur seen) seen hs). held sc k \<noteq> None \<and> k \<notin> set stops)"
    if "distinct seen" "length seen \<le> MaxShareReply" "\<forall>k \<in> set seen. held sc k \<noteq> None \<and> k \<notin> set stops" for n seen hs
    using that
  proof (induction hs arbitrary: seen)
    case (Cons h hs)
    have "distinct (reply_walk E sc stops n h seen)" "length (reply_walk E sc stops n h seen) \<le> MaxShareReply"
      "\<forall>k \<in> set (reply_walk E sc stops n h seen). held sc k \<noteq> None \<and> k \<notin> set stops"
      using reply_walk_props[OF Cons.prems, of E n h] by blast+
    from Cons.IH[OF this] show ?case unfolding foldl.simps .
  qed (unfold foldl.simps, blast)
  show ?thesis unfolding reply_keys_def by (rule f) simp_all
qed

lemma reply_walk_lineage:
  assumes rk: "ranked E (sc_shares sc) r" and "\<forall>k \<in> set seen. r cur < r k"
  shows "map (\<lambda>k. the (held sc k)) (reply_walk E sc [] n cur seen)
    = map (\<lambda>k. the (held sc k)) seen @ take (MaxShareReply - length seen) (lineage E (sc_shares sc) n cur)"
  using assms(2)
proof (induction n arbitrary: cur seen)
  case (Suc n)
  show ?case
  proof (cases "held sc cur")
    case (Some s)
    show ?thesis
    proof (cases "MaxShareReply \<le> length seen")
      case False
      then obtain m where m: "MaxShareReply - length seen = Suc m" "MaxShareReply - Suc (length seen) = m"
        by (metis Suc_diff_Suc not_le)
      have cur: "cur \<notin> set seen" using Suc.prems(1) by auto
      show ?thesis
      proof (cases "no_parent (share_prev s) \<or> held sc (prev_key E s) = None")
        case True
        have "reply_walk E sc [] n k (seen @ [cur]) = seen @ [cur]" if "held sc k = None" for k
          using that by (cases n) auto
        moreover have "lineage E (sc_shares sc) n k = []" if "held sc k = None" for k using that by (cases n) auto
        moreover have "prev_key E s = e_HashString E (the (share_prev s))" if "\<not> no_parent (share_prev s)"
          using that by (auto simp: prev_key_def no_parent_def split: option.splits)
        ultimately show ?thesis using True Some m cur Suc.prems False by auto
      next
        case p: False
        then have k: "prev_key E s = e_HashString E (the (share_prev s))" "r (prev_key E s) < r cur"
          using rk Some unfolding ranked_def by (auto simp: prev_key_def no_parent_def split: option.splits)
        then have "\<forall>x \<in> set (seen @ [cur]). r (prev_key E s) < r x" using Suc.prems(1) by auto
        from Suc.IH[OF this] show ?thesis using Some m cur Suc.prems False p k by simp
      qed
    qed simp
  qed simp
qed simp


text \<open>A reply to a share request holds at most \<open>MaxShareReply\<close> shares, each held and none of them twice or
  under a stop hash. A request for one hash without stops is answered with the share and its
  ancestors, up to the number of parents asked for.\<close>

theorem share_reply_spec:
  assumes "ranked E (sc_shares sc) r"
  shows "length (GetSharesByHashWithParents E hashes parents stops sc) \<le> MaxShareReply
    \<and> distinct (reply_keys E hashes parents stops sc)
    \<and> (\<forall>s \<in> set (GetSharesByHashWithParents E hashes parents stops sc). \<exists>k. held sc k = Some s \<and> k \<notin> set stops)
    \<and> GetSharesByHashWithParents E [h] parents [] sc
        = take MaxShareReply (lineage E (sc_shares sc) (Suc (min (nat parents) MaxShareReply)) h)"
proof -
  note p = reply_keys_props[of E hashes parents stops sc]
  have "\<exists>k. held sc k = Some s \<and> k \<notin> set stops" if s: "s \<in> set (GetSharesByHashWithParents E hashes parents stops sc)" for s
  proof -
    obtain k where k: "k \<in> set (reply_keys E hashes parents stops sc)" "s = the (held sc k)"
      using s by (auto simp: GetSharesByHashWithParents_def split: if_splits)
    then show ?thesis using p by (intro exI[of _ k]) fastforce
  qed
  moreover have "reply_parents parents 1 = min (nat parents) MaxShareReply" by (simp add: reply_parents_def Let_def)
  then have "GetSharesByHashWithParents E [h] parents [] sc
        = take MaxShareReply (lineage E (sc_shares sc) (Suc (min (nat parents) MaxShareReply)) h)"
    using reply_walk_lineage[OF assms, of "[]" h "Suc (min (nat parents) MaxShareReply)"]
    by (simp add: GetSharesByHashWithParents_def reply_keys_def)
  moreover have "length (GetSharesByHashWithParents E hashes parents stops sc) \<le> MaxShareReply"
    using p by (simp add: GetSharesByHashWithParents_def)
  ultimately show ?thesis using p by blast
qed

subsection \<open>Stop hashes\<close>

lemma ancestor_held: "held sc h \<noteq> None \<Longrightarrow> held sc (ancestor E sc n h) \<noteq> None"
  by (induction n arbitrary: h) (auto simp: Let_def)

lemma stop_loop_props:
  assumes "distinct out" "\<forall>h \<in> set out. held sc h \<noteq> None" "\<forall>h \<in> set hs. held sc h \<noteq> None" "0 < mx \<longrightarrow> int (length out) \<le> mx"
  shows "distinct (stop_loop E sc mx hs out) \<and> (\<forall>h \<in> set (stop_loop E sc mx hs out). held sc h \<noteq> None)
    \<and> (0 < mx \<longrightarrow> int (length (stop_loop E sc mx hs out)) \<le> mx)"
  using assms
proof (induction hs arbitrary: out)
  case (Cons h hs)
  have st: "distinct (add_stop mx k l)" "\<forall>h \<in> set (add_stop mx k l). held sc h \<noteq> None" "0 < mx \<longrightarrow> int (length (add_stop mx k l)) \<le> mx"
    if "distinct l" "\<forall>h \<in> set l. held sc h \<noteq> None" "0 < mx \<longrightarrow> int (length l) \<le> mx" "held sc k \<noteq> None" for k l
    using that by (auto simp: add_stop_def)
  let ?o1 = "add_stop mx h out"
  have h: "held sc h \<noteq> None" using Cons.prems(3) by simp
  note o1 = st[OF Cons.prems(1,2,4) h]
  note o2 = st[OF o1 ancestor_held[OF h, of E 10]]
  have "\<forall>h \<in> set hs. held sc h \<noteq> None" using Cons.prems(3) by simp
  note ih = Cons.IH[OF o2(1,2) this o2(3)]
  then show ?case using Cons.prems unfolding stop_loop.simps by presburger
qed simp

text \<open>The stop hashes of a request are held shares, without repetition and within the limit.\<close>

theorem GetStopHashes_spec:
  assumes "gm_wf (sc_shares sc)"
  shows "distinct (GetStopHashes E mx sc) \<and> (\<forall>h \<in> set (GetStopHashes E mx sc). HasShare sc h)
    \<and> (0 < mx \<longrightarrow> int (length (GetStopHashes E mx sc)) \<le> mx)"
proof -
  have "\<forall>h \<in> set (headsLocked E sc). held sc h \<noteq> None" using heads_set[OF assms] by blast
  then show ?thesis using stop_loop_props[of "[]" sc "headsLocked E sc" mx E] unfolding GetStopHashes_def HasShare_def by simp
qed

subsection \<open>Examples\<close>

lemma demo_one: "sc_shares (demo_chain 1) = [(demo_key 0, demo_link 0)]" "sc_shares (demo_chain (Suc 0)) = [(demo_key 0, demo_link 0)]"
  by (simp_all add: demo_chain_def)

theorem headsLocked_spec_witness: "set (headsLocked demo_env (demo_chain 1)) \<subseteq> {demo_key 0}"
proof -
  have "gm_wf (sc_shares (demo_chain 1))" "held (demo_chain 1) '''' = None" using demo_key_ne[of 0] by (simp_all add: demo_one del: demo_key_ne)
  from headsLocked_spec[OF this, of demo_env] show ?thesis by (auto simp: demo_one HasShare_def split: if_splits)
qed

theorem missing_parents_exact_witness: "GetMissingParentHashes demo_env (seconds 2000) 0 (demo_chain 1) = []"
proof -
  have "ends_at demo_env (demo_chain 1) (demo_key 0) ''''" by (rule ends_at.root[of _ _ "demo_link 0"]) (simp_all add: demo_one)
  then have "\<not> ends_at demo_env (demo_chain 1) (demo_key 0) t" if "t \<noteq> ''''" for t
    using that ends_at_unique by blast
  moreover have "h = demo_key 0" if "h \<in> set (headsLocked demo_env (demo_chain 1))" for h
    using that heads_set[of "demo_chain 1" h demo_env] by (auto simp: demo_one split: if_splits)
  ultimately have "set (GetMissingParentHashes demo_env (seconds 2000) 0 (demo_chain 1)) = {}"
    using missing_parents_exact[OF demo_ranked, of "seconds 2000" 0] by auto
  then show ?thesis by simp
qed

theorem share_reply_spec_witness: "GetSharesByHashWithParents demo_env [demo_key 0] 5 [] (demo_chain 1) = [demo_link 0]"
proof -
  have "lineage demo_env (sc_shares (demo_chain 1)) (Suc n) (demo_key 0) = [demo_link 0]" for n by (simp add: demo_one)
  moreover have "take MaxShareReply [demo_link 0] = [demo_link 0]" by (simp add: MaxShareReply_def take_Cons')
  ultimately show ?thesis using share_reply_spec[OF demo_ranked, of "[demo_key 0]" 5 "[]" "demo_key 0"] by presburger
qed

theorem GetStopHashes_spec_witness: "length (GetStopHashes demo_env 1 (demo_chain 1)) \<le> 1"
  using GetStopHashes_spec[of "demo_chain 1" demo_env 1] by (simp add: demo_one)

end
