(* ===== verification/ShareStore.thy ===== *)
theory ShareStore
  imports ShareVerify
begin

text \<open>
  The persistent share store (\<open>work/sharestore.go\<close>): \<open>Load\<close>, the migration of an old JSON file, \<open>Commit\<close>,
  \<open>writeLocked\<close>, \<open>Close\<close>, \<open>ExportShares\<close> and \<open>DumpShareDB\<close>. The bbolt database is a parameter: a record of
  its transactions, of which the laws \<open>bolt_ok\<close> state the documented behaviour. The JSON document of a
  share stands for its exported fields. The lemmas show that every change of what is to be stored is
  marked dirty, that a commit stores exactly the verified shares or leaves the store and the marks as
  they were, and that loading gives back what was committed.
\<close>

text \<open>A JSON document of a share, and one that does not decode.\<close>

datatype doc = Doc Share | Malformed

definition exported :: "Share \<Rightarrow> Share" where
  "exported s = s\<lparr>s_decodedAddr := '''', s_targetDiff := 0, s_effDiff := 0, s_effDiffReady := False, s_prevKey := ''''\<rparr>"

definition json_Marshal :: "Share \<Rightarrow> doc" where "json_Marshal s = Doc (exported s)"

definition json_Unmarshal :: "doc \<Rightarrow> Share option" where
  "json_Unmarshal d = (case d of Doc s \<Rightarrow> Some s | Malformed \<Rightarrow> None)"

text \<open>bbolt: creating the bucket, a transaction of puts (\<open>Some\<close>) and deletions (\<open>None\<close>), and the entries of
  the bucket; \<open>None\<close> for an error, after which the database is as before.\<close>

record 'db bolt =
  b_Create :: "'db \<Rightarrow> 'db option"
  b_Update :: "'db \<Rightarrow> (hash \<times> doc option) list \<Rightarrow> 'db option"
  b_Entries :: "'db \<Rightarrow> (hash \<times> doc) list"

datatype StoreError = StoreOpen | StoreNotOpen | OpenFailed | KeyError | DbError | DecodeError | ReadFailed | RenameFailed

record 'db ShareStore =
  ss_chain :: ShareChain
  ss_db :: "'db option"

definition shareKey :: "env \<Rightarrow> string \<Rightarrow> hash option" where
  "shareKey E h = e_NewHashFromStr E h"

definition writeLocked ::
  "env \<Rightarrow> ('db, 'x) bolt_scheme \<Rightarrow> share_map \<Rightarrow> string list \<Rightarrow> 'db \<Rightarrow> StoreError + 'db" where
  "writeLocked E B puts dels db =
     (case those (map (\<lambda>(h, s). map_option (\<lambda>k. (k, Some (json_Marshal s))) (shareKey E h)) puts) of
        None \<Rightarrow> Inl KeyError
      | Some enc \<Rightarrow>
          (case those (map (\<lambda>h. map_option (\<lambda>k. (k, None)) (shareKey E h)) dels) of
             None \<Rightarrow> Inl KeyError
           | Some rm \<Rightarrow> (case b_Update B db (enc @ rm) of None \<Rightarrow> Inl DbError | Some db1 \<Rightarrow> Inr db1)))"

definition commit_puts :: "ShareChain \<Rightarrow> string list \<Rightarrow> share_map" where
  "commit_puts sc dirty =
     map (\<lambda>h. (h, the (held sc h))) (filter (\<lambda>h. held sc h \<noteq> None \<and> is_verified sc h) dirty)"

definition commit_dels :: "ShareChain \<Rightarrow> string list \<Rightarrow> string list" where
  "commit_dels sc dirty = filter (\<lambda>h. \<not> (held sc h \<noteq> None \<and> is_verified sc h)) dirty"

definition Commit :: "env \<Rightarrow> ('db, 'x) bolt_scheme \<Rightarrow> 'db ShareStore \<Rightarrow> StoreError option \<times> 'db ShareStore" where
  "Commit E B st =
     (case ss_db st of
        None \<Rightarrow> (Some StoreNotOpen, st)
      | Some db \<Rightarrow>
          let sc = ss_chain st; dirty = gm_keys (sc_dirty sc); sc1 = sc\<lparr>sc_dirty := []\<rparr>
          in if dirty = [] then (None, st)
             else (case writeLocked E B (commit_puts sc dirty) (commit_dels sc dirty) db of
                     Inl e \<Rightarrow> (Some e, st\<lparr>ss_chain := fold markDirtyLocked dirty sc1\<rparr>)
                   | Inr db1 \<Rightarrow> (None, st\<lparr>ss_chain := sc1, ss_db := Some db1\<rparr>)))"

text \<open>What reading the old JSON file gives.\<close>

datatype json_file = NoFile | Unreadable | Contents "Share list option"

definition migrate_puts :: "env \<Rightarrow> Share list \<Rightarrow> share_map" where
  "migrate_puts E fs =
     fold (\<lambda>sh m. let sh1 = with_hash E sh
                  in (case s_Hash sh1 of Some hh \<Rightarrow> gm_set (e_HashString E hh) sh1 m | None \<Rightarrow> m)) fs []"

definition migrateJSONLocked ::
  "env \<Rightarrow> ('db, 'x) bolt_scheme \<Rightarrow> json_file \<Rightarrow> bool \<Rightarrow> 'db \<Rightarrow> StoreError + 'db" where
  "migrateJSONLocked E B jf renamed db =
     (case jf of
        NoFile \<Rightarrow> Inr db
      | Unreadable \<Rightarrow> Inl ReadFailed
      | Contents None \<Rightarrow> Inl DecodeError
      | Contents (Some fs) \<Rightarrow>
          (case writeLocked E B (migrate_puts E fs) [] db of
             Inl e \<Rightarrow> Inl e
           | Inr db1 \<Rightarrow> if renamed then Inr db1 else Inl RenameFailed))"

text \<open>\<open>opened\<close> is what \<open>bbolt.Open\<close> gives, \<open>fresh\<close> whether the file did not exist before.\<close>

definition load ::
  "env \<Rightarrow> ('db, 'x) bolt_scheme \<Rightarrow> 'db option \<Rightarrow> bool \<Rightarrow> json_file \<Rightarrow> bool \<Rightarrow> time \<Rightarrow> MiningInfo option
   \<Rightarrow> 'db ShareStore \<Rightarrow> StoreError option \<times> 'db ShareStore" where
  "load E B opened fresh jf renamed now info st =
     (if ss_db st \<noteq> None then (Some StoreOpen, st)
      else (case opened of
              None \<Rightarrow> (Some OpenFailed, st)
            | Some db \<Rightarrow>
                (case b_Create B db of
                   None \<Rightarrow> (Some DbError, st)
                 | Some db1 \<Rightarrow>
                     (case (if fresh then migrateJSONLocked E B jf renamed db1 else Inr db1) of
                        Inl e \<Rightarrow> (Some e, st)
                      | Inr db2 \<Rightarrow>
                          (case those (map (json_Unmarshal \<circ> snd) (b_Entries B db2)) of
                             None \<Rightarrow> (Some DecodeError, st)
                           | Some fs \<Rightarrow>
                               (None, st\<lparr>ss_chain := loadTrusted E now info (sort_key share_ts fs) (ss_chain st),
                                         ss_db := Some db2\<rparr>))))))"

definition Close :: "'db ShareStore \<Rightarrow> 'db ShareStore" where
  "Close st = st\<lparr>ss_db := None\<rparr>"

definition ExportShares :: "int \<Rightarrow> ShareChain \<Rightarrow> Share list" where
  "ExportShares limit sc =
     (let out = sort_key share_ts (concat (map (\<lambda>h. case held sc h of Some s \<Rightarrow> [s] | None \<Rightarrow> []) (gm_keys (sc_verified sc))))
      in if 0 < limit \<and> limit < int (length out) then drop (length out - nat limit) out else out)"

definition DumpShareDB :: "('db, 'x) bolt_scheme \<Rightarrow> 'db option \<Rightarrow> StoreError + Share list" where
  "DumpShareDB B opened =
     (case opened of
        None \<Rightarrow> Inl OpenFailed
      | Some db \<Rightarrow> (case those (map (json_Unmarshal \<circ> snd) (b_Entries B db)) of
                     None \<Rightarrow> Inl DecodeError
                   | Some shares \<Rightarrow> Inr (sort_key share_ts shares)))"

subsection \<open>What the database and the hash strings promise\<close>

definition bolt_ok :: "('db, 'x) bolt_scheme \<Rightarrow> bool" where
  "bolt_ok B \<longleftrightarrow> (\<forall>db. gm_wf (b_Entries B db))
     \<and> (\<forall>db db1. b_Create B db = Some db1 \<longrightarrow> map_of (b_Entries B db1) = map_of (b_Entries B db))
     \<and> (\<forall>db ws db1. b_Update B db ws = Some db1 \<longrightarrow>
          map_of (b_Entries B db1) = foldl (\<lambda>m (k, v). m(k := v)) (map_of (b_Entries B db)) ws)"

text \<open>\<open>NewHashFromStr\<close> reads what \<open>Hash.String\<close> prints, and no hash prints as the empty string.\<close>

definition hash_strings :: "env \<Rightarrow> bool" where
  "hash_strings E \<longleftrightarrow> (\<forall>k. e_NewHashFromStr E (e_HashString E k) = Some k)"

lemma hash_string_inj: "hash_strings E \<Longrightarrow> e_HashString E a = e_HashString E b \<longleftrightarrow> a = b"
  by (metis hash_strings_def option.inject)

subsection \<open>What is to be stored, and the dirty marks\<close>

definition persistent :: "ShareChain \<Rightarrow> string \<Rightarrow> Share option" where
  "persistent sc h = (if is_verified sc h then map_option exported (held sc h) else None)"

abbreviation dirty_set :: "ShareChain \<Rightarrow> string set" where "dirty_set sc \<equiv> set (gm_keys (sc_dirty sc))"

definition tracks :: "env \<Rightarrow> ShareChain \<Rightarrow> ShareChain \<Rightarrow> bool" where
  "tracks E sc sc' \<longleftrightarrow> dirty_set sc \<subseteq> dirty_set sc' \<and> (\<forall>h. persistent sc' h \<noteq> persistent sc h \<longrightarrow> h \<in> dirty_set sc')
     \<and> (\<forall>h \<in> dirty_set sc'. h \<in> dirty_set sc \<or> (\<exists>k. h = e_HashString E k))"

text \<open>A database in step with the chain: a hash whose entry differs is marked dirty.\<close>

definition synced :: "env \<Rightarrow> ('db, 'x) bolt_scheme \<Rightarrow> ShareChain \<Rightarrow> 'db \<Rightarrow> bool" where
  "synced E B sc db \<longleftrightarrow> (\<forall>k. e_HashString E k \<notin> dirty_set sc \<longrightarrow>
       map_of (b_Entries B db) k = map_option Doc (persistent sc (e_HashString E k)))
     \<and> (\<forall>h \<in> dirty_set sc. \<exists>k. h = e_HashString E k)"


lemma tracks_trans: assumes "tracks E a b" "tracks E b c" shows "tracks E a c"
proof -
  have "h \<in> dirty_set c" if "persistent c h \<noteq> persistent a h" for h
    using that assms by (cases "persistent b h = persistent a h") (auto simp: tracks_def simp del: set_map)
  then show ?thesis using assms unfolding tracks_def by blast
qed

lemma tracks_same:
  assumes "\<And>h. persistent sc' h = persistent sc h" "sc_dirty sc' = sc_dirty sc" shows "tracks E sc sc'"
  using assms by (simp add: tracks_def)

lemma tracks_frame:
  assumes "sc_shares sc' = sc_shares sc" "sc_verified sc' = sc_verified sc" "sc_dirty sc' = sc_dirty sc"
  shows "tracks E sc sc'"
  by (rule tracks_same) (simp_all add: persistent_def assms)

lemma dirty_frames [simp]:
  "sc_dirty (updateStats E now info sc) = sc_dirty sc" "sc_dirty (considerTipLocked E hs sc) = sc_dirty sc"
  "sc_dirty (addWorkLocked E hs sc) = sc_dirty sc" "sc_dirty (recomputeWorkAndTipLocked E sc) = sc_dirty sc"
proof -
  have k: "sc_dirty (linkLocked E h sh s) = sc_dirty s" for h sh s by (simp add: linkLocked_def Let_def)
  have l: "sc_dirty (fold (link_held E) hs s) = sc_dirty s" "sc_dirty (fold (\<lambda>(h, sh). linkLocked E h sh) kvs s) = sc_dirty s" for hs kvs s
    by (induction hs arbitrary: s, simp_all add: link_held_def k split: option.split)
      (induction kvs arbitrary: s, simp_all add: k case_prod_beta)
  show c: "sc_dirty (considerTipLocked E hs sc) = sc_dirty sc" for hs sc
    by (simp add: considerTipLocked_def set_tip_def Let_def split: option.split)
  show "sc_dirty (updateStats E now info sc) = sc_dirty sc" by (simp add: updateStats_def Let_def split: option.split)
  show "sc_dirty (addWorkLocked E hs sc) = sc_dirty sc" by (simp add: addWorkLocked_def Let_def case_prod_beta l c)
  show "sc_dirty (recomputeWorkAndTipLocked E sc) = sc_dirty sc"
    by (simp add: recomputeWorkAndTipLocked_def selectTipLocked_def set_tip_def Let_def l split: option.split)
qed

lemma tracks_unlink: assumes "held sc h \<noteq> None \<longrightarrow> (\<exists>k. h = e_HashString E k)" shows "tracks E sc (snd (unlinkShareLocked E h sc))"
proof (cases "held sc h")
  case None
  then show ?thesis by (intro tracks_frame) (simp_all add: unlinkShareLocked_def)
next
  case (Some s)
  have d: "dirty_set (snd (unlinkShareLocked E h sc)) = insert h (dirty_set sc)"
    by (simp add: unlinkShareLocked_def Some Let_def markDirtyLocked_def unlink_child_def gm_keys_set del: set_map)
  have "persistent (snd (unlinkShareLocked E h sc)) k = persistent sc k" if "k \<noteq> h" for k
    using that by (simp add: persistent_def unlink_verified)
  then show ?thesis using assms Some unfolding tracks_def d by auto
qed

lemma tracks_mark: assumes "\<exists>k. h = e_HashString E k" shows "tracks E sc (markVerifiedLocked E h sc)"
proof -
  have "dirty_set (markVerifiedLocked E h sc) = insert h (dirty_set sc)"
    by (simp add: markVerifiedLocked_def markDirtyLocked_def gm_keys_set del: set_map)
  moreover have "persistent (markVerifiedLocked E h sc) k = persistent sc k" if "k \<noteq> h" for k
    using that by (simp add: persistent_def)
  ultimately show ?thesis using assms unfolding tracks_def by auto
qed

lemma tracks_unlink_all:
  assumes "\<forall>h \<in> set hs. held sc h \<noteq> None \<longrightarrow> (\<exists>k. h = e_HashString E k)" shows "tracks E sc (snd (unlink_all E hs b sc))"
  using assms
proof (induction hs arbitrary: b sc)
  case (Cons h hs)
  let ?sc1 = "snd (unlinkShareLocked E h sc)"
  have "tracks E sc ?sc1" using Cons.prems by (intro tracks_unlink) simp
  moreover have "tracks E ?sc1 (snd (unlink_all E hs c ?sc1))" for c using Cons.prems by (intro Cons.IH) auto
  ultimately show ?case by (auto simp: case_prod_beta intro: tracks_trans)
qed (simp add: tracks_frame)

lemma tracks_remove:
  assumes "\<forall>h \<in> set hs. held sc h \<noteq> None \<longrightarrow> (\<exists>k. h = e_HashString E k)" shows "tracks E sc (removeSharesLocked E hs sc)"
proof -
  have "tracks E (snd (unlink_all E hs False sc)) (removeSharesLocked E hs sc)"
    by (rule tracks_frame) (simp_all add: removeSharesLocked_def case_prod_beta)
  then show ?thesis by (rule tracks_trans[OF tracks_unlink_all[OF assms]])
qed

lemma tracks_verify_one: assumes "s_Hash sh \<noteq> None" shows "tracks E (vs_chain v) (vs_chain (verify_one E v sh))"
proof -
  obtain hh where hh: "s_Hash sh = Some hh" using assms by blast
  show ?thesis
  proof (cases rule: verify_one_cases[OF hh, where E = E and v = v, case_names keep reject accept])
    case keep
    then show ?thesis by (simp add: tracks_frame)
  next
    case reject
    let ?u = "snd (unlinkShareLocked E (e_HashString E hh) (vs_chain v))"
    have "tracks E ?u (?u\<lparr>sc_changes := sc_changes ?u + 1\<rparr>)" by (rule tracks_frame) simp_all
    then show ?thesis unfolding reject(1) using tracks_unlink[of "vs_chain v" "e_HashString E hh" E] tracks_trans by auto
  next
    case accept
    then show ?thesis using tracks_mark[of "e_HashString E hh" E "vs_chain v"] by auto
  qed
qed

lemma tracks_verifyPending: "tracks E sc (snd (snd (verifyPending E sc)))"
proof -
  let ?v0 = "\<lparr>vs_chain = sc, vs_count = 0, vs_rejected = []\<rparr>"
  have f: "tracks E (vs_chain v) (vs_chain (foldl (verify_one E) v pend))" if "\<forall>sh \<in> set pend. s_Hash sh \<noteq> None" for v pend
    using that
  proof (induction pend arbitrary: v)
    case (Cons sh pend)
    have "tracks E (vs_chain (verify_one E v sh)) (vs_chain (foldl (verify_one E) (verify_one E v sh) pend))"
      using Cons.prems by (intro Cons.IH) simp
    then show ?case using tracks_verify_one[of sh E v] Cons.prems tracks_trans by auto
  qed (simp add: tracks_frame)
  have "\<forall>sh \<in> set (pending_shares E sc). s_Hash sh \<noteq> None" by (auto simp: pending_shares_def)
  from f[OF this, of ?v0] have t: "tracks E sc (vs_chain (foldl (verify_one E) ?v0 (pending_shares E sc)))" by simp
  let ?v = "foldl (verify_one E) ?v0 (pending_shares E sc)"
  have "tracks E (vs_chain ?v) (snd (snd (verifyPending E sc)))"
    by (rule tracks_frame) (simp_all add: verifyPending_def Let_def)
  then show ?thesis by (rule tracks_trans[OF t])
qed


lemma add_loop_dirty: "sc_dirty (fst (add_loop E now sc shs)) = sc_dirty sc"
proof -
  have o: "sc_dirty (fst (add_one E now s sh)) = sc_dirty s" for s sh
    by (cases rule: add_one_cases[where E = E and now = now and sc = s and sh = sh]) simp_all
  show ?thesis by (induction shs arbitrary: sc) (simp_all add: case_prod_beta o)
qed

lemma tracks_AddShares:
  assumes inv: "sc_inv E sc" and nm: "\<forall>sh \<in> set shs. s_Hash (with_hash E sh) \<noteq> None \<longrightarrow> batch_key E sh \<noteq> ''''"
  shows "tracks E sc (snd (AddShares E now info shs sc))"
proof -
  let ?L = "add_loop E now sc shs"
  have b: "book_ok sc" "gm_wf (sc_shares sc)" using inv by (simp_all add: sc_inv_def books_def)
  obtain kvs where ad: "added E kvs sc (fst ?L)" using add_loop_added[OF b(2) nm] by blast
  have st: "stored kvs sc (fst ?L)" and ve: "sc_verified (fst ?L) = sc_verified sc" using ad by (simp_all add: added_def)
  have "held (fst ?L) h = held sc h" if "is_verified sc h" for h
  proof -
    have "held sc h \<noteq> None" using b(1) that unfolding book_ok_def by blast
    moreover have "\<forall>h \<in> set (gm_keys kvs). held sc h = None \<and> h \<noteq> ''''" using st by (simp add: stored_def del: set_map)
    ultimately have "h \<notin> set (gm_keys kvs)" by (auto simp del: set_map)
    then show ?thesis by (rule stored_old[OF st])
  qed
  then have "tracks E sc (fst ?L)" by (intro tracks_same) (simp_all add: persistent_def ve add_loop_dirty)
  moreover define sc2 where "sc2 = addWorkLocked E (filter (\<lambda>h. h \<noteq> '''') (map snd (snd ?L))) (fst ?L)"
  have "tracks E (fst ?L) sc2" unfolding sc2_def by (rule tracks_frame) (simp_all add: addWorkLocked_def Let_def case_prod_beta)
  moreover have "tracks E sc2 (snd (snd (verifyPending E sc2)))" by (rule tracks_verifyPending)
  moreover have "tracks E (snd (snd (verifyPending E sc2))) (snd (AddShares E now info shs sc))"
    by (rule tracks_frame) (simp_all add: AddShares_def AddSharesOutcomes_def sc2_def Let_def case_prod_beta)
  ultimately show ?thesis by (blast intro: tracks_trans)
qed

lemma keyed_hash: "keyed E sc \<Longrightarrow> held sc h \<noteq> None \<Longrightarrow> \<exists>k. h = e_HashString E k"
  unfolding keyed_def by blast

lemma tracks_maintain:
  assumes inv: "sc_inv E sc" and rk: "ranked E (sc_shares sc) r"
  shows "tracks E sc (maintenanceRound E now info sc)"
proof -
  let ?p = "PruneOldShares E now sc"
  have rem: "tracks E s (removeSharesLocked E hs (s\<lparr>sc_changes := sc_changes s + 1\<rparr>))" if "sc_inv E s" for s hs
  proof -
    have "keyed E s" using that by (simp add: sc_inv_def books_def)
    then have "tracks E (s\<lparr>sc_changes := sc_changes s + 1\<rparr>) (removeSharesLocked E hs (s\<lparr>sc_changes := sc_changes s + 1\<rparr>))"
      using keyed_hash by (intro tracks_remove) auto
    moreover have "tracks E s (s\<lparr>sc_changes := sc_changes s + 1\<rparr>)" by (rule tracks_frame) simp_all
    ultimately show ?thesis by (blast intro: tracks_trans)
  qed
  have self: "tracks E s s" for s by (rule tracks_frame) simp_all
  have "tracks E sc ?p" using rem[OF inv] self by (simp add: PruneOldShares_def pruneLocked_def Let_def)
  moreover have "tracks E ?p (pruneUnverified E now ?p)"
    using rem[OF prune_held(1)[OF inv rk]] self by (simp add: pruneUnverified_def Let_def)
  moreover have "tracks E (pruneUnverified E now ?p) (maintenanceRound E now info sc)"
    unfolding maintenanceRound_def by (rule tracks_frame) simp_all
  ultimately show ?thesis by (blast intro: tracks_trans)
qed

lemma synced_tracks:
  assumes "synced E B sc db" "tracks E sc sc'" shows "synced E B sc' db"
proof -
  have t: "h \<in> dirty_set sc \<Longrightarrow> h \<in> dirty_set sc'" "h \<notin> dirty_set sc' \<Longrightarrow> persistent sc' h = persistent sc h"
    "h \<in> dirty_set sc' \<Longrightarrow> h \<in> dirty_set sc \<or> (\<exists>k. h = e_HashString E k)" for h
    using assms(2) by (auto simp: tracks_def simp del: set_map)
  have s: "e_HashString E k \<notin> dirty_set sc \<Longrightarrow> map_of (b_Entries B db) k = map_option Doc (persistent sc (e_HashString E k))"
    "h \<in> dirty_set sc \<Longrightarrow> \<exists>k. h = e_HashString E k" for h k
    using assms(1) by (simp_all add: synced_def del: set_map)
  show ?thesis unfolding synced_def using s(1) s(2) t(1) t(2) t(3) by (simp del: set_map) blast
qed

subsection \<open>Commit\<close>

lemma those_Some_map: "(\<And>x. x \<in> set xs \<Longrightarrow> f x = Some (g x)) \<Longrightarrow> those (map f xs) = Some (map g xs)"
  by (induction xs) auto

lemma foldl_writes:
  assumes "\<forall>(k, v) \<in> set ws. v = f k"
  shows "foldl (\<lambda>m (k, v). m(k := v)) m ws = (\<lambda>k. if k \<in> fst ` set ws then f k else m k)"
  using assms by (induction ws arbitrary: m) (auto simp: fun_eq_iff)

lemma commit_puts_mem: "(h, s) \<in> set (commit_puts sc d) \<longleftrightarrow> h \<in> set d \<and> held sc h = Some s \<and> is_verified sc h"
  by (auto simp: commit_puts_def)

lemma commit_dels_mem: "h \<in> set (commit_dels sc d) \<longleftrightarrow> h \<in> set d \<and> (held sc h = None \<or> \<not> is_verified sc h)"
  by (auto simp: commit_dels_def)

lemma fold_markDirty: "fold markDirtyLocked ds s = s\<lparr>sc_dirty := sc_dirty (fold markDirtyLocked ds s)\<rparr>
    \<and> dirty_set (fold markDirtyLocked ds s) = dirty_set s \<union> set ds"
proof (induction ds arbitrary: s)
  case (Cons a ds)
  let ?s1 = "markDirtyLocked a s"
  have "fold markDirtyLocked ds ?s1 = ?s1\<lparr>sc_dirty := sc_dirty (fold markDirtyLocked ds ?s1)\<rparr>" using Cons.IH by blast
  also have "\<dots> = s\<lparr>sc_dirty := sc_dirty (fold markDirtyLocked ds ?s1)\<rparr>" by (simp add: markDirtyLocked_def)
  finally have e: "fold markDirtyLocked ds ?s1 = s\<lparr>sc_dirty := sc_dirty (fold markDirtyLocked ds ?s1)\<rparr>" .
  have "dirty_set ?s1 = insert a (dirty_set s)" by (simp add: markDirtyLocked_def gm_keys_set del: set_map)
  then have "dirty_set (fold markDirtyLocked ds ?s1) = dirty_set s \<union> set (a # ds)" using Cons.IH[of ?s1] by auto
  then show ?case using e by simp
qed simp

text \<open>The state a commit of an open store with dirty marks leaves.\<close>

lemma commit_cases:
  assumes hs: "hash_strings E" and B: "bolt_ok B" and sy: "synced E B sc db" and st: "ss_chain st = sc" "ss_db st = Some db"
  obtains (ok) st' db' where "Commit E B st = (None, st')" "ss_db st' = Some db'" "sc_dirty (ss_chain st') = []"
      "ss_chain st' = sc\<lparr>sc_dirty := []\<rparr>"
      "\<forall>k. map_of (b_Entries B db') k = map_option Doc (persistent sc (e_HashString E k))"
    | (failed) e st' where "Commit E B st = (Some e, st')" "ss_db st' = Some db" "dirty_set (ss_chain st') = dirty_set sc"
      "ss_chain st' = sc\<lparr>sc_dirty := sc_dirty (ss_chain st')\<rparr>"
proof (cases "sc_dirty sc = []")
  case True
  then have "\<forall>k. map_of (b_Entries B db) k = map_option Doc (persistent sc (e_HashString E k))"
    using sy by (simp add: synced_def)
  then show ?thesis using ok[of st db] st True by (simp add: Commit_def)
next
  case False
  define d where "d = gm_keys (sc_dirty sc)"
  define key where "key h = (THE k. h = e_HashString E k)" for h
  have kk: "key (e_HashString E k) = k" for k unfolding key_def using hash_string_inj[OF hs] by (intro the_equality) auto
  have dk: "h = e_HashString E (key h) \<and> shareKey E h = Some (key h)" if "h \<in> set d" for h
  proof -
    have "\<exists>k. h = e_HashString E k" using sy that by (simp add: synced_def d_def del: set_map)
    then obtain k where "h = e_HashString E k" by (elim exE)
    then show ?thesis using kk hs by (simp add: shareKey_def hash_strings_def)
  qed
  let ?p = "commit_puts sc d" and ?r = "commit_dels sc d"
  let ?enc = "map (\<lambda>(h, s). (key h, Some (json_Marshal s))) ?p" and ?rm = "map (\<lambda>h. (key h, None :: doc option)) ?r"
  have 1: "those (map (\<lambda>(h, s). map_option (\<lambda>k. (k, Some (json_Marshal s))) (shareKey E h)) ?p) = Some ?enc"
    using dk by (intro those_Some_map) (auto simp: commit_puts_mem)
  have 2: "those (map (\<lambda>h. map_option (\<lambda>k. (k, None :: doc option)) (shareKey E h)) ?r) = Some ?rm"
    using dk by (intro those_Some_map) (auto simp: commit_dels_mem)
  note w = writeLocked_def[of E B ?p ?r db, unfolded 1 2 option.case]
  show ?thesis
  proof (cases "b_Update B db (?enc @ ?rm)")
    case None
    show ?thesis
      using None w False st fold_markDirty[of d "sc\<lparr>sc_dirty := []\<rparr>"]
      by (intro failed[of DbError "st\<lparr>ss_chain := fold markDirtyLocked d (sc\<lparr>sc_dirty := []\<rparr>)\<rparr>"])
        (simp_all add: Commit_def Let_def d_def del: set_map)
  next
    case (Some db1)
    have "\<forall>(k, v) \<in> set (?enc @ ?rm). v = map_option Doc (persistent sc (e_HashString E k))"
      using dk by (auto simp: commit_puts_mem commit_dels_mem persistent_def json_Marshal_def)
    note fw = foldl_writes[OF this, of "map_of (b_Entries B db)"]
    have ks: "k \<in> fst ` set (?enc @ ?rm) \<longleftrightarrow> e_HashString E k \<in> set d" for k
    proof -
      have "fst ` set (?enc @ ?rm) = key ` set d"
      proof -
        have "fst ` set ?enc = key ` {h \<in> set d. held sc h \<noteq> None \<and> is_verified sc h}"
          by (simp add: commit_puts_def image_image)
        moreover have "fst ` set ?rm = key ` {h \<in> set d. \<not> (held sc h \<noteq> None \<and> is_verified sc h)}"
          by (simp add: commit_dels_def image_image)
        moreover have "key ` {h \<in> set d. P h} \<union> key ` {h \<in> set d. \<not> P h} = key ` set d" for P by blast
        ultimately show ?thesis by (simp only: set_append image_Un)
      qed
      moreover have "k \<in> key ` set d \<longleftrightarrow> e_HashString E k \<in> set d"
        using dk image_eqI[of k key "e_HashString E k" "set d"] by (auto simp: kk)
      ultimately show ?thesis by simp
    qed
    have "map_of (b_Entries B db1) = foldl (\<lambda>m (k, v). m(k := v)) (map_of (b_Entries B db)) (?enc @ ?rm)"
      using B Some unfolding bolt_ok_def by blast
    then have "map_of (b_Entries B db1) k = (if e_HashString E k \<in> set d then map_option Doc (persistent sc (e_HashString E k))
        else map_of (b_Entries B db) k)" for k
      unfolding fw ks by simp
    then have "\<forall>k. map_of (b_Entries B db1) k = map_option Doc (persistent sc (e_HashString E k))"
      using sy by (simp add: synced_def d_def)
    then show ?thesis using Some w False st
      by (intro ok[of "st\<lparr>ss_chain := sc\<lparr>sc_dirty := []\<rparr>, ss_db := Some db1\<rparr>" db1]) (simp_all add: Commit_def Let_def d_def)
  qed
qed


text \<open>C37: A commit stores exactly the verified shares the chain holds and clears the marks, or reports an error
  and leaves the database and the set of marks as they were.\<close>

theorem Commit_all_or_nothing:
  assumes "hash_strings E" "bolt_ok B" "ss_db st = Some db" "synced E B (ss_chain st) db"
  shows "case Commit E B st of
      (None, st') \<Rightarrow> \<exists>db'. ss_db st' = Some db' \<and> dirty_set (ss_chain st') = {}
         \<and> (\<forall>k. map_of (b_Entries B db') k = map_option Doc (persistent (ss_chain st) (e_HashString E k)))
    | (Some e, st') \<Rightarrow> ss_db st' = Some db \<and> dirty_set (ss_chain st') = dirty_set (ss_chain st)
         \<and> synced E B (ss_chain st') db"
proof (cases rule: commit_cases[OF assms(1,2,4) refl assms(3), case_names ok failed])
  case (ok st' db')
  then show ?thesis by simp
next
  case (failed e st')
  have "persistent (ss_chain st') = persistent (ss_chain st)" by (subst failed(4)) (simp add: persistent_def fun_eq_iff)
  then show ?thesis using failed(1-3) assms(4) by (simp add: synced_def del: set_map)
qed

subsection \<open>Loading what was committed\<close>

text \<open>A database as commits leave it: under each key the document of the share with that hash.\<close>

definition db_ok :: "('db, 'x) bolt_scheme \<Rightarrow> 'db \<Rightarrow> bool" where
  "db_ok B db \<longleftrightarrow> (\<forall>k d. map_of (b_Entries B db) k = Some d \<longrightarrow> (\<exists>s. d = Doc s \<and> s_Hash s = Some k \<and> exported s = s))"

lemma exported_simps [simp]: "s_Hash (exported s) = s_Hash s" "exported (exported s) = exported s"
  "exported (s\<lparr>s_decodedAddr := a\<rparr>) = exported s"
  by (simp_all add: exported_def)

lemma committed_db_ok:
  assumes "keyed E sc" "hash_strings E" "\<forall>k. map_of (b_Entries B db) k = map_option Doc (persistent sc (e_HashString E k))"
  shows "db_ok B db"
proof -
  have "\<exists>s. d = Doc s \<and> s_Hash s = Some k \<and> exported s = s" if t: "map_of (b_Entries B db) k = Some d" for k d
  proof -
    obtain s where s: "held sc (e_HashString E k) = Some s" "d = Doc (exported s)"
      using t spec[OF assms(3), of k] by (cases "held sc (e_HashString E k)") (auto simp: persistent_def split: if_splits)
    then have "s_Hash s = Some k" using assms(1,2) hash_string_inj unfolding keyed_def by metis
    then show ?thesis using s(2) by simp
  qed
  then show ?thesis unfolding db_ok_def by blast
qed

lemma load_fold_value:
  "held (foldl (load_one E) sc fs) h = Some s \<Longrightarrow> held sc h = Some s
     \<or> (\<exists>sh \<in> set fs. s_Hash (with_hash E sh) \<noteq> None \<and> batch_key E sh = h \<and> exported s = exported (with_hash E sh))"
proof (induction fs arbitrary: sc)
  case (Cons sh fs)
  then consider "held (load_one E sc sh) h = Some s"
    | "\<exists>sh \<in> set fs. s_Hash (with_hash E sh) \<noteq> None \<and> batch_key E sh = h \<and> exported s = exported (with_hash E sh)" by auto
  then show ?case
  proof cases
    case 1
    then show ?thesis by (cases "s_Hash (with_hash E sh)") (auto simp: load_one_def batch_key_def Let_def split: if_splits)
  next
    case 2
    then show ?thesis by auto
  qed
qed simp

lemma those_unmarshal:
  assumes "bolt_ok B" "db_ok B db"
  shows "\<exists>fs. those (map (json_Unmarshal \<circ> snd) (b_Entries B db)) = Some fs
    \<and> (\<forall>s. s \<in> set fs \<longleftrightarrow> (\<exists>k. map_of (b_Entries B db) k = Some (Doc s)))"
proof -
  have wf: "gm_wf (b_Entries B db)" using assms(1) unfolding bolt_ok_def by blast
  have d: "\<exists>s. d = Doc s" if "(k, d) \<in> set (b_Entries B db)" for k d
    using assms(2) that gm_mem_wf[OF wf] unfolding db_ok_def by blast
  define f where "f d = (case d of Doc s \<Rightarrow> s | Malformed \<Rightarrow> undefined)" for d
  have "those (map (json_Unmarshal \<circ> snd) (b_Entries B db)) = Some (map (f \<circ> snd) (b_Entries B db))"
    using d by (intro those_Some_map) (force simp: json_Unmarshal_def f_def)
  moreover have "s \<in> set (map (f \<circ> snd) (b_Entries B db)) \<longleftrightarrow> (\<exists>k. (k, Doc s) \<in> set (b_Entries B db))" for s
    using d by (force simp: f_def image_iff)
  ultimately show ?thesis using gm_mem_wf[OF wf] by auto
qed


lemma with_hash_id: "s_Hash s \<noteq> None \<Longrightarrow> with_hash E s = s"
  by (auto simp: with_hash_def)

lemma load_committed:
  assumes hs: "hash_strings E" and ne: "\<forall>k. e_HashString E k \<noteq> ''''" and B: "bolt_ok B" and dk: "db_ok B db"
    and st: "ss_db st = None" "ss_chain st = NewShareChain" and cr: "b_Create B db = Some db1"
    and rk: "\<And>m. (\<forall>h s. map_of m h = Some s \<longrightarrow> (\<exists>k s0. map_of (b_Entries B db) k = Some (Doc s0) \<and> h = e_HashString E k \<and> exported s = s0)) \<Longrightarrow> ranked E m r"
  shows "\<exists>st'. load E B (Some db) False jf renamed now info st = (None, st') \<and> ss_db st' = Some db1
    \<and> sc_inv E (ss_chain st') \<and> ranked E (sc_shares (ss_chain st')) r \<and> synced E B (ss_chain st') db1
    \<and> (\<forall>k. map_of (b_Entries B db) k = map_option Doc (persistent (ss_chain st') (e_HashString E k)))
    \<and> (\<forall>h s. held (ss_chain st') h = Some s \<longrightarrow> (\<exists>k s0. map_of (b_Entries B db) k = Some (Doc s0) \<and> h = e_HashString E k \<and> exported s = s0))"
proof -
  have en: "map_of (b_Entries B db1) = map_of (b_Entries B db)" using B cr unfolding bolt_ok_def by blast
  then have dk1: "db_ok B db1" using dk by (simp add: db_ok_def)
  obtain fs where fs: "those (map (json_Unmarshal \<circ> snd) (b_Entries B db1)) = Some fs"
    and mem: "\<And>s. s \<in> set fs \<longleftrightarrow> (\<exists>k. map_of (b_Entries B db1) k = Some (Doc s))"
    using those_unmarshal[OF B dk1] by blast
  let ?fs = "sort_key share_ts fs" and ?sc = "loadTrusted E now info (sort_key share_ts fs) NewShareChain"
  have ld: "load E B (Some db) False jf renamed now info st = (None, st\<lparr>ss_chain := ?sc, ss_db := Some db1\<rparr>)"
    using st cr fs by (simp add: load_def)
  have key: "\<exists>k. s_Hash s = Some k \<and> map_of (b_Entries B db) k = Some (Doc s) \<and> exported s = s" if s: "s \<in> set fs" for s
  proof -
    obtain k where k: "map_of (b_Entries B db1) k = Some (Doc s)" using iffD1[OF mem s] by (elim exE)
    then obtain s' where "Doc s = Doc s' \<and> s_Hash s' = Some k \<and> exported s' = s'" using dk1 unfolding db_ok_def by blast
    then show ?thesis using k unfolding en by auto
  qed
  have wh: "with_hash E s = s" "s_Hash s \<noteq> None" "batch_key E s = e_HashString E (the (s_Hash s))" if s: "s \<in> set fs" for s
  proof -
    obtain k where "s_Hash s = Some k" using key[OF s] by blast
    then show "with_hash E s = s" "s_Hash s \<noteq> None" "batch_key E s = e_HashString E (the (s_Hash s))"
      by (simp_all add: with_hash_id batch_key_def)
  qed
  have nm: "\<forall>sh \<in> set ?fs. s_Hash (with_hash E sh) \<noteq> None \<longrightarrow> batch_key E sh \<noteq> ''''" using ne by (simp add: batch_key_def)
  have val: "\<exists>k s0. map_of (b_Entries B db) k = Some (Doc s0) \<and> h = e_HashString E k \<and> exported s = s0"
    if h: "held (foldl (load_one E) NewShareChain ?fs) h = Some s" for h s
  proof -
    have "held NewShareChain h = None" by (simp add: NewShareChain_def)
    then obtain sh where sh: "sh \<in> set fs" "batch_key E sh = h" "exported s = exported (with_hash E sh)"
      using load_fold_value[OF h] by auto
    obtain k where "s_Hash sh = Some k" "map_of (b_Entries B db) k = Some (Doc sh)" "exported sh = sh" using key[OF sh(1)] by blast
    then show ?thesis using sh wh[OF sh(1)] by (intro exI[of _ k] exI[of _ sh]) simp
  qed
  have rk': "ranked E (sc_shares (foldl (load_one E) NewShareChain ?fs)) r" by (rule rk) (use val in blast)
  note lf = load_facts[OF nm rk', where now = now and info = info]
  have hd: "held ?sc = held (foldl (load_one E) NewShareChain ?fs)" by (simp add: load_shares)
  have p: "map_of (b_Entries B db) k = map_option Doc (persistent ?sc (e_HashString E k))" for k
  proof (cases "held ?sc (e_HashString E k)")
    case None
    then have nv: "\<not> HasShare ?sc (e_HashString E k)" by (simp add: HasShare_def)
    have "map_of (b_Entries B db) k = None"
    proof (rule ccontr)
      assume "map_of (b_Entries B db) k \<noteq> None"
      then obtain s where s: "map_of (b_Entries B db) k = Some (Doc s)" "s_Hash s = Some k" using dk unfolding db_ok_def by blast
      then have "s \<in> set fs" using mem en by metis
      then have "HasShare ?sc (e_HashString E k)" using lf wh s(2) by (metis option.sel set_sort)
      then show False using nv by simp
    qed
    then show ?thesis using None by (simp add: persistent_def)
  next
    case (Some s)
    then obtain k' s0 where k': "map_of (b_Entries B db) k' = Some (Doc s0)" "e_HashString E k = e_HashString E k'" "exported s = s0"
      using val unfolding hd by blast
    moreover have "is_verified ?sc (e_HashString E k)" using lf Some by (simp add: HasShare_def)
    ultimately show ?thesis using Some hash_string_inj[OF hs] by (simp add: persistent_def)
  qed
  have "dirty_set ?sc = {}"
  proof -
    have "sc_dirty (foldl (load_one E) sc fs) = sc_dirty sc" for sc fs
      by (induction fs arbitrary: sc) (auto simp: load_one_def Let_def split: option.split)
    then show ?thesis by (simp add: loadTrusted_def NewShareChain_def)
  qed
  then have "synced E B ?sc db1" using p en by (simp add: synced_def)
  moreover have "ranked E (sc_shares ?sc) r" using rk' by (simp add: load_shares)
  moreover have "\<forall>h s. held ?sc h = Some s \<longrightarrow> (\<exists>k s0. map_of (b_Entries B db) k = Some (Doc s0) \<and> h = e_HashString E k \<and> exported s = s0)"
    unfolding hd using val by blast
  ultimately show ?thesis using ld lf p by auto
qed


text \<open>The states of an open store: it is loaded from a database that commits left, shares are added,
  maintenance runs, and commits succeed or fail.\<close>

definition empty_store :: "'db ShareStore" where
  "empty_store = \<lparr>ss_chain = NewShareChain, ss_db = None\<rparr>"

text \<open>The parent links of the shares of a database fall in rank.\<close>

definition db_ranked :: "env \<Rightarrow> ('db, 'x) bolt_scheme \<Rightarrow> 'db \<Rightarrow> (string \<Rightarrow> nat) \<Rightarrow> bool" where
  "db_ranked E B db r \<longleftrightarrow> (\<forall>k s. map_of (b_Entries B db) k = Some (Doc s) \<longrightarrow> \<not> no_parent (share_prev s) \<longrightarrow>
     r (prev_key E s) < r (e_HashString E k))"

inductive store_state :: "env \<Rightarrow> ('db, 'x) bolt_scheme \<Rightarrow> (string \<Rightarrow> nat) \<Rightarrow> 'db ShareStore \<Rightarrow> bool" for E B r where
  loaded: "store_state E B r st"
    if "db_ok B db" "db_ranked E B db r" "load E B (Some db) False jf renamed now info empty_store = (None, st)"
| added: "store_state E B r (st\<lparr>ss_chain := snd (AddShares E now info shs (ss_chain st))\<rparr>)"
    if "store_state E B r st" "\<forall>sh \<in> set shs. forward E r sh"
| maintained: "store_state E B r (st\<lparr>ss_chain := maintenanceRound E now info (ss_chain st)\<rparr>)" if "store_state E B r st"
| committed: "store_state E B r (snd (Commit E B st))" if "store_state E B r st"

definition store_inv :: "env \<Rightarrow> ('db, 'x) bolt_scheme \<Rightarrow> (string \<Rightarrow> nat) \<Rightarrow> 'db ShareStore \<Rightarrow> bool" where
  "store_inv E B r st \<longleftrightarrow> (\<exists>db. ss_db st = Some db \<and> synced E B (ss_chain st) db)
     \<and> sc_inv E (ss_chain st) \<and> ranked E (sc_shares (ss_chain st)) r"

lemma dirty_inv: "sc_inv E (sc\<lparr>sc_dirty := d\<rparr>) = sc_inv E sc"
  by (simp add: sc_inv_def books_cong[of "sc\<lparr>sc_dirty := d\<rparr>" sc] work_cong[of "sc\<lparr>sc_dirty := d\<rparr>" sc])

lemma Commit_inv:
  assumes "hash_strings E" "bolt_ok B" "store_inv E B r st" shows "store_inv E B r (snd (Commit E B st))"
proof -
  obtain db where db: "ss_db st = Some db" "synced E B (ss_chain st) db" using assms(3) unfolding store_inv_def by blast
  show ?thesis
  proof (cases rule: commit_cases[OF assms(1,2) db(2) refl db(1), case_names ok failed])
    case (ok st' db')
    have "persistent (ss_chain st') = persistent (ss_chain st)" by (simp add: ok(4) persistent_def fun_eq_iff)
    then have "synced E B (ss_chain st') db'" using ok(3,5) by (simp add: synced_def)
    then show ?thesis using ok(1,2) assms(3) by (simp add: store_inv_def ok(4) dirty_inv)
  next
    case (failed e st')
    have p: "persistent (ss_chain st') = persistent (ss_chain st)" by (subst failed(4)) (simp add: persistent_def fun_eq_iff)
    have "synced E B (ss_chain st') db" using db(2) failed(3) p by (simp add: synced_def del: set_map)
    moreover have "sc_inv E (ss_chain st')" "sc_shares (ss_chain st') = sc_shares (ss_chain st)"
      using assms(3) by (subst failed(4), simp add: store_inv_def dirty_inv)+
    ultimately show ?thesis using failed(1,2) assms(3) by (simp add: store_inv_def)
  qed
qed

lemma db_descends:
  assumes "db_ranked E B db r"
    and "\<forall>h s. map_of m h = Some s \<longrightarrow> (\<exists>k s0. map_of (b_Entries B db) k = Some (Doc s0) \<and> h = e_HashString E k \<and> exported s = s0)"
  shows "descends E m r"
proof -
  have "share_prev (exported s) = share_prev s" "prev_key E (exported s) = prev_key E s" for s by (simp_all add: exported_def prev_key_def)
  then show ?thesis using assms unfolding descends_def db_ranked_def by metis
qed

lemma Commit_shares: "sc_shares (ss_chain (snd (Commit E B st))) = sc_shares (ss_chain st)"
  "sc_verified (ss_chain (snd (Commit E B st))) = sc_verified (ss_chain st)"
proof -
  have "sc_shares (fold markDirtyLocked ks sc) = sc_shares sc \<and> sc_verified (fold markDirtyLocked ks sc) = sc_verified sc" for ks sc
    by (induction ks arbitrary: sc) (simp_all add: markDirtyLocked_def)
  then show "sc_shares (ss_chain (snd (Commit E B st))) = sc_shares (ss_chain st)"
    "sc_verified (ss_chain (snd (Commit E B st))) = sc_verified (ss_chain st)"
    by (simp_all add: Commit_def Let_def split: option.split sum.split)
qed

lemma store_state_descends:
  assumes "hash_strings E" "\<forall>k. e_HashString E k \<noteq> ''''" "bolt_ok B" "store_state E B r st"
  shows "store_inv E B r st \<and> descends E (sc_shares (ss_chain st)) r"
  using assms(4)
proof induction
  case (loaded db jf renamed now info st)
  then obtain db1 where cr: "b_Create B db = Some db1" by (auto simp: load_def empty_store_def split: option.splits)
  have rk: "ranked E m r" if "\<forall>h s. map_of m h = Some s \<longrightarrow> (\<exists>k s0. map_of (b_Entries B db) k = Some (Doc s0) \<and> h = e_HashString E k \<and> exported s = s0)" for m
    by (rule descends_ranked[OF db_descends[OF loaded(2) that]])
  have "\<exists>st'. load E B (Some db) False jf renamed now info empty_store = (None, st') \<and> ss_db st' = Some db1
    \<and> sc_inv E (ss_chain st') \<and> ranked E (sc_shares (ss_chain st')) r \<and> synced E B (ss_chain st') db1
    \<and> (\<forall>k. map_of (b_Entries B db) k = map_option Doc (persistent (ss_chain st') (e_HashString E k)))
    \<and> (\<forall>h s. held (ss_chain st') h = Some s \<longrightarrow> (\<exists>k s0. map_of (b_Entries B db) k = Some (Doc s0) \<and> h = e_HashString E k \<and> exported s = s0))"
    by (rule load_committed[OF assms(1-3) loaded(1) _ _ cr rk]) (simp_all add: empty_store_def)
  then obtain st' where st': "load E B (Some db) False jf renamed now info empty_store = (None, st')" "ss_db st' = Some db1"
    "sc_inv E (ss_chain st')" "ranked E (sc_shares (ss_chain st')) r" "synced E B (ss_chain st') db1"
    "\<forall>h s. held (ss_chain st') h = Some s \<longrightarrow> (\<exists>k s0. map_of (b_Entries B db) k = Some (Doc s0) \<and> h = e_HashString E k \<and> exported s = s0)"
    by (elim exE conjE)
  have "st' = st" using st'(1) loaded(3) by simp
  then show ?case using st'(2-5) db_descends[OF loaded(2) st'(6)] by (simp add: store_inv_def)
next
  case (added st shs now info)
  then have i: "sc_inv E (ss_chain st)" "descends E (sc_shares (ss_chain st)) r" by (simp_all add: store_inv_def)
  note a = AddShares_descends[OF i added(2), where now = now and info = info]
  obtain db where db: "ss_db st = Some db" "synced E B (ss_chain st) db" using added.IH unfolding store_inv_def by (elim conjE exE)
  show ?case using a descends_ranked[OF a(2)] db(1) synced_tracks[OF db(2) tracks_AddShares[OF i(1) forward_named[OF added(2)]]]
    by (simp add: store_inv_def)
next
  case (maintained st now info)
  then have i: "sc_inv E (ss_chain st)" "descends E (sc_shares (ss_chain st)) r" by (simp_all add: store_inv_def)
  note m = maintain_descends[OF i, where now = now and info = info]
  obtain db where db: "ss_db st = Some db" "synced E B (ss_chain st) db" using maintained.IH unfolding store_inv_def by (elim conjE exE)
  show ?case using m descends_ranked[OF m(2)] db(1) synced_tracks[OF db(2) tracks_maintain[OF i(1) descends_ranked[OF i(2)]]]
    by (simp add: store_inv_def)
next
  case (committed st)
  then show ?case using Commit_inv[OF assms(1,3)] by (simp add: Commit_shares)
qed

lemma store_state_inv:
  assumes "hash_strings E" "\<forall>k. e_HashString E k \<noteq> ''''" "bolt_ok B" "store_state E B r st"
  shows "store_inv E B r st"
  using store_state_descends[OF assms] by blast

text \<open>In every state of the store, each hash whose database entry differs from what the chain would store
  is marked dirty, so the next successful commit brings the database up to date.\<close>

theorem store_state_synced:
  assumes "hash_strings E" "\<forall>k. e_HashString E k \<noteq> ''''" "bolt_ok B" "store_state E B r st"
  shows "(\<exists>db. ss_db st = Some db \<and> synced E B (ss_chain st) db) \<and> sc_inv E (ss_chain st)"
  using store_state_inv[OF assms] by (simp add: store_inv_def)

text \<open>C38: After a successful commit, a node that starts from the database has exactly the verified shares the
  committing node had, and a consistent chain.\<close>

theorem commit_reload:
  assumes hs: "hash_strings E" and ne: "\<forall>k. e_HashString E k \<noteq> ''''" and B: "bolt_ok B" and inv: "store_inv E B r st"
    and co: "Commit E B st = (None, st')" "ss_db st' = Some db'" and cr: "b_Create B db' = Some db1"
  shows "\<exists>st2. load E B (Some db') False jf renamed now info empty_store = (None, st2) \<and> sc_inv E (ss_chain st2)
    \<and> (\<forall>k. persistent (ss_chain st2) (e_HashString E k) = persistent (ss_chain st) (e_HashString E k))"
proof -
  obtain db where db: "ss_db st = Some db" "synced E B (ss_chain st) db" using inv unfolding store_inv_def by (elim conjE exE)
  have ki: "keyed E (ss_chain st)" and rk: "ranked E (sc_shares (ss_chain st)) r"
    using inv by (simp_all add: store_inv_def sc_inv_def books_def)
  have en: "\<forall>k. map_of (b_Entries B db') k = map_option Doc (persistent (ss_chain st) (e_HashString E k))"
    by (cases rule: commit_cases[OF hs B db(2) refl db(1)]) (use co in simp_all)
  have dr: "ranked E m r" if m: "\<forall>h s. map_of m h = Some s \<longrightarrow> (\<exists>k s0. map_of (b_Entries B db') k = Some (Doc s0) \<and> h = e_HashString E k \<and> exported s = s0)" for m
  proof -
    have hd: "\<exists>s1. held (ss_chain st) h = Some s1 \<and> exported s1 = exported s" if h: "map_of m h = Some s" for h s
    proof -
      obtain k where k: "map_of (b_Entries B db') k = Some (Doc (exported s))" "h = e_HashString E k" using m h by blast
      then show ?thesis using spec[OF en, of k] by (auto simp: persistent_def split: if_splits)
    qed
    have sp: "share_prev s1 = share_prev s" if "exported s1 = exported s" for s1 s
      using arg_cong[OF that, of share_prev] by (simp add: exported_def)
    show ?thesis unfolding ranked_def
    proof (intro allI impI)
      fix h s assume h: "map_of m h = Some s" "\<not> no_parent (share_prev s)" "map_of m (prev_key E s) \<noteq> None"
      obtain s1 where s1: "held (ss_chain st) h = Some s1" "exported s1 = exported s" using hd[OF h(1)] by (elim exE conjE)
      have pk: "prev_key E s1 = prev_key E s" "share_prev s1 = share_prev s" using sp[OF s1(2)] by (simp_all add: prev_key_def)
      obtain s2 where "map_of m (prev_key E s) = Some s2" using h(3) by (cases "map_of m (prev_key E s)") simp_all
      then have "held (ss_chain st) (prev_key E s) \<noteq> None" using hd by fastforce
      then show "r (prev_key E s) < r h" using rk s1(1) h(2) pk unfolding ranked_def by metis
    qed
  qed
  obtain st2 where st2: "load E B (Some db') False jf renamed now info empty_store = (None, st2)" "sc_inv E (ss_chain st2)"
    "\<forall>k. map_of (b_Entries B db') k = map_option Doc (persistent (ss_chain st2) (e_HashString E k))"
    using load_committed[OF hs ne B committed_db_ok[OF ki hs en] _ _ cr dr, of empty_store jf renamed now info]
    by (auto simp: empty_store_def)
  have "persistent (ss_chain st2) (e_HashString E k) = persistent (ss_chain st) (e_HashString E k)" for k
  proof -
    have "map_option Doc (persistent (ss_chain st2) (e_HashString E k)) = map_option Doc (persistent (ss_chain st) (e_HashString E k))"
      using spec[OF st2(3), of k] spec[OF en, of k] by simp
    then show ?thesis by (metis doc.inject option.inj_map_strong)
  qed
  then show ?thesis using st2(1,2) by blast
qed

subsection \<open>Exported shares\<close>

text \<open>The shares a node exports are held and verified, oldest first, and within the limit; without a limit
  all of them are.\<close>

theorem ExportShares_spec:
  "(\<forall>s \<in> set (ExportShares limit sc). \<exists>h \<in> set (gm_keys (sc_verified sc)). held sc h = Some s)
   \<and> sorted (map share_ts (ExportShares limit sc)) \<and> (0 < limit \<longrightarrow> int (length (ExportShares limit sc)) \<le> limit)
   \<and> (limit \<le> 0 \<longrightarrow> (\<forall>h \<in> set (gm_keys (sc_verified sc)). \<forall>s. held sc h = Some s \<longrightarrow> s \<in> set (ExportShares limit sc)))"
proof -
  define l where "l = concat (map (\<lambda>h. case held sc h of Some s \<Rightarrow> [s] | None \<Rightarrow> []) (gm_keys (sc_verified sc)))"
  have e: "ExportShares limit sc = (if 0 < limit \<and> limit < int (length l) then drop (length l - nat limit) (sort_key share_ts l) else sort_key share_ts l)"
    by (simp add: ExportShares_def l_def Let_def)
  have "s \<in> set (concat (map (\<lambda>h. case held sc h of Some s \<Rightarrow> [s] | None \<Rightarrow> []) ks)) \<longleftrightarrow> (\<exists>h \<in> set ks. held sc h = Some s)" for s ks
    by (induction ks) (auto split: option.split)
  then have m: "s \<in> set l \<longleftrightarrow> (\<exists>h \<in> set (gm_keys (sc_verified sc)). held sc h = Some s)" for s by (simp only: l_def)
  have "set (ExportShares limit sc) \<subseteq> set l" unfolding e using set_drop_subset[of _ "sort_key share_ts l"] by auto
  moreover have "sorted (map share_ts (ExportShares limit sc))"
    unfolding e using sorted_sort_key[of share_ts l] by (auto simp: drop_map[symmetric] sorted_wrt_drop)
  moreover have "0 < limit \<longrightarrow> int (length (ExportShares limit sc)) \<le> limit" by (simp add: e)
  moreover have "limit \<le> 0 \<longrightarrow> set (ExportShares limit sc) = set l" by (simp add: e)
  ultimately show ?thesis using m by blast
qed


subsection \<open>Examples\<close>

text \<open>A database held in a list.\<close>

definition write_one :: "(hash \<times> doc) list \<Rightarrow> hash \<times> doc option \<Rightarrow> (hash \<times> doc) list" where
  "write_one db w = (case w of (k, Some d) \<Rightarrow> gm_set k d db | (k, None) \<Rightarrow> gm_del k db)"

definition list_bolt :: "(hash \<times> doc) list bolt" where
  "list_bolt = \<lparr>b_Create = Some, b_Update = (\<lambda>db ws. if gm_wf db then Some (foldl write_one db ws) else None),
     b_Entries = (\<lambda>db. if gm_wf db then db else [])\<rparr>"

lemma list_bolt_ok: "bolt_ok list_bolt"
proof -
  have "gm_wf (foldl write_one db ws) \<and> map_of (foldl write_one db ws) = foldl (\<lambda>m (k, v). m(k := v)) (map_of db) ws"
    if "gm_wf db" for db ws
    using that
  proof (induction ws arbitrary: db)
    case (Cons w ws)
    have "gm_wf (write_one db w)" "map_of (write_one db w) = (map_of db)(fst w := snd w)"
      using Cons.prems by (cases w; cases "snd w"; simp add: write_one_def)+
    then show ?case using Cons.IH[of "write_one db w"] by (simp add: case_prod_beta)
  qed simp
  then show ?thesis by (auto simp: bolt_ok_def list_bolt_def)
qed

definition store_env :: env where
  "store_env = demo_env\<lparr>e_HashString := (\<lambda>k. CHR ''h'' # hex_EncodeToString k), e_NewHashFromStr := (\<lambda>s. hex_DecodeString (tl s))\<rparr>"

lemma store_env_ok: "hash_strings store_env" "\<forall>k. e_HashString store_env k \<noteq> ''''"
  by (simp_all add: hash_strings_def store_env_def hex_roundtrip)

definition store_share :: Share where
  "store_share = demo_share None (demo_hash 0) 1000"

definition demo_store :: "(hash \<times> doc) list ShareStore" where
  "demo_store = snd (load store_env list_bolt (Some [(demo_hash 0, Doc store_share)]) False NoFile True 0 None empty_store)"

lemma demo_store_loaded: "store_state store_env list_bolt (\<lambda>_. 0) demo_store"
proof -
  let ?db = "[(demo_hash 0, Doc store_share)]"
  have "db_ok list_bolt ?db" by (auto simp: db_ok_def list_bolt_def store_share_def demo_share_def exported_def split: if_splits)
  moreover have "db_ranked store_env list_bolt ?db (\<lambda>_. 0)"
  proof -
    have "no_parent (share_prev s)" if "exported s = store_share" for s
      using arg_cong[OF that, of share_prev] by (simp add: exported_def store_share_def demo_share_def no_parent_def)
    then show ?thesis unfolding db_ranked_def
      by (auto simp: list_bolt_def store_share_def demo_share_def no_parent_def split: if_splits)
  qed
  moreover have "fst (load store_env list_bolt (Some ?db) False NoFile True 0 None empty_store) = None"
    by (simp add: load_def empty_store_def list_bolt_def json_Unmarshal_def)
  ultimately show ?thesis unfolding demo_store_def by (intro store_state.loaded) (auto simp: prod_eq_iff)
qed

lemma demo_store_inv: "store_inv store_env list_bolt (\<lambda>_. 0) demo_store"
  by (rule store_state_inv[OF store_env_ok list_bolt_ok demo_store_loaded])

theorem store_state_synced_witness: "sc_inv store_env (ss_chain demo_store)"
  using store_state_synced[OF store_env_ok list_bolt_ok demo_store_loaded] by blast

lemma demo_store_db: "ss_db demo_store = Some [(demo_hash 0, Doc store_share)]"
  by (simp add: demo_store_def load_def empty_store_def list_bolt_def json_Unmarshal_def)

lemma demo_store_clean: "sc_dirty (ss_chain demo_store) = []"
proof -
  have "sc_dirty (load_one E sc s) = sc_dirty sc" for E sc s by (simp add: load_one_def Let_def split: option.split)
  then show ?thesis
    by (simp add: demo_store_def load_def empty_store_def list_bolt_def json_Unmarshal_def loadTrusted_def NewShareChain_def)
qed

text \<open>The verified share is not in the database yet, and is marked.\<close>

definition unsaved_store :: "(hash \<times> doc) list ShareStore" where
  "unsaved_store = \<lparr>ss_chain = markDirtyLocked (e_HashString store_env (demo_hash 0)) (ss_chain demo_store), ss_db = Some []\<rparr>"

lemma demo_persistent: "persistent (ss_chain demo_store) (e_HashString store_env k) = (if k = demo_hash 0 then Some store_share else None)"
proof -
  have "synced store_env list_bolt (ss_chain demo_store) [(demo_hash 0, Doc store_share)]"
    using demo_store_inv demo_store_db by (simp add: store_inv_def)
  then have "map_of [(demo_hash 0, Doc store_share)] k = map_option Doc (persistent (ss_chain demo_store) (e_HashString store_env k))"
    by (simp add: synced_def demo_store_clean list_bolt_def)
  then show ?thesis by (cases "persistent (ss_chain demo_store) (e_HashString store_env k)") (auto split: if_splits)
qed

lemma unsaved_dirty: "persistent (ss_chain unsaved_store) = persistent (ss_chain demo_store)"
  "sc_dirty (ss_chain unsaved_store) = [(e_HashString store_env (demo_hash 0), ())]"
  by (simp_all add: unsaved_store_def markDirtyLocked_def persistent_def fun_eq_iff demo_store_clean gm_set_def)

lemma unsaved_inv: "store_inv store_env list_bolt (\<lambda>_. 0) unsaved_store"
proof -
  have "synced store_env list_bolt (ss_chain unsaved_store) []"
    by (auto simp: synced_def unsaved_dirty demo_persistent list_bolt_def hash_string_inj[OF store_env_ok(1)])
  moreover have "sc_inv store_env (ss_chain unsaved_store)" "ranked store_env (sc_shares (ss_chain unsaved_store)) (\<lambda>_. 0)"
    using demo_store_inv by (simp_all add: unsaved_store_def markDirtyLocked_def dirty_inv store_inv_def)
  ultimately show ?thesis by (simp add: store_inv_def unsaved_store_def)
qed

lemma unsaved_commit: "\<exists>st'. Commit store_env list_bolt unsaved_store = (None, st') \<and> ss_db st' = Some [(demo_hash 0, Doc store_share)]"
proof -
  have "persistent (ss_chain unsaved_store) (e_HashString store_env (demo_hash 0)) = Some store_share"
    by (simp add: unsaved_dirty demo_persistent)
  then have h: "is_verified (ss_chain unsaved_store) (e_HashString store_env (demo_hash 0))"
    "map_option exported (held (ss_chain unsaved_store) (e_HashString store_env (demo_hash 0))) = Some store_share"
    by (simp_all add: persistent_def split: if_splits)
  have "e_NewHashFromStr store_env (e_HashString store_env (demo_hash 0)) = Some (demo_hash 0)" using store_env_ok(1) by (simp add: hash_strings_def)
  moreover have "ss_db unsaved_store = Some []" by (simp add: unsaved_store_def)
  ultimately show ?thesis using h
    by (auto simp: Commit_def Let_def unsaved_dirty commit_puts_def commit_dels_def writeLocked_def shareKey_def list_bolt_def write_one_def gm_set_def json_Marshal_def)
qed

theorem Commit_all_or_nothing_witness:
  "\<exists>st'. Commit store_env list_bolt unsaved_store = (None, st') \<and> dirty_set (ss_chain st') = {} \<and> dirty_set (ss_chain unsaved_store) \<noteq> {}
     \<and> map_of (b_Entries list_bolt (the (ss_db st'))) (demo_hash 0) = Some (Doc store_share)"
proof -
  obtain st' where c: "Commit store_env list_bolt unsaved_store = (None, st')" using unsaved_commit by blast
  have "ss_db unsaved_store = Some []" "synced store_env list_bolt (ss_chain unsaved_store) []"
    using unsaved_inv by (simp_all add: store_inv_def unsaved_store_def)
  from Commit_all_or_nothing[OF store_env_ok(1) list_bolt_ok this]
  show ?thesis using c by (auto simp: unsaved_dirty demo_persistent)
qed

theorem commit_reload_witness:
  "\<exists>st' st2. Commit store_env list_bolt unsaved_store = (None, st')
     \<and> load store_env list_bolt (ss_db st') False NoFile True 0 None empty_store = (None, st2) \<and> sc_inv store_env (ss_chain st2)
     \<and> persistent (ss_chain st2) (e_HashString store_env (demo_hash 0)) = Some store_share"
proof -
  obtain st' where c: "Commit store_env list_bolt unsaved_store = (None, st')" "ss_db st' = Some [(demo_hash 0, Doc store_share)]"
    using unsaved_commit by blast
  have "b_Create list_bolt [(demo_hash 0, Doc store_share)] = Some [(demo_hash 0, Doc store_share)]" by (simp add: list_bolt_def)
  from commit_reload[OF store_env_ok list_bolt_ok unsaved_inv c this, of NoFile True 0 None]
  show ?thesis using c by (auto simp: unsaved_dirty demo_persistent)
qed

end
