(* ===== verification/ShareCreate.thy ===== *)
theory ShareCreate
  imports ShareVerify
begin

text \<open>
  \<open>CreateShare\<close> (\<open>work/share.go\<close>): the share a node makes from a miner's solution of a job. Its checks
  come in the order of the code and each early return is an error; a nil template or chain, and bits
  of less than four bytes, panic. The lemmas show which times are admitted, that the share records the
  job, the tip and the miner, and that on the coinbase of that tip its payout is accepted.
\<close>

datatype create_error =
    InvalidNonce | InvalidTime | BelowMinTime | BehindCurTime | TooFarInFuture | BehindParent
  | PayoutError addr_error | NotVertcoin | ShortBase58 | InvalidBits | CoinbaseError coinbase_error
  | HashError share_error | CreatePanic

text \<open>\<open>binary.BigEndian.Uint32\<close> of at least four bytes.\<close>

definition be_Uint32 :: "byte list \<Rightarrow> u32" where
  "be_Uint32 b = of_int (big_SetBytes (take 4 b))"

definition hex4 :: "string \<Rightarrow> u32 option" where
  "hex4 h = (case hex_DecodeString h of Some b \<Rightarrow> if length b = 4 then Some (be_Uint32 b) else None | None \<Rightarrow> None)"

text \<open>The time checks on \<open>nTime\<close>.\<close>

definition check_job_time :: "env \<Rightarrow> time \<Rightarrow> BlockTemplate option \<Rightarrow> ShareChain option \<Rightarrow> int \<Rightarrow> create_error option" where
  "check_job_time E now job sc t =
     (let maxRef = (case job of Some j \<Rightarrow> if Unix now < t_CurTime j then t_CurTime j else Unix now | None \<Rightarrow> Unix now);
          tip = Option.bind sc (\<lambda>c. Option.bind (GetTipHash c) (\<lambda>h. GetShare c (e_HashString E h)))
      in if (case job of Some j \<Rightarrow> 0 < t_MinTime j \<and> t < t_MinTime j | None \<Rightarrow> False) then Some BelowMinTime
         else if (case job of Some j \<Rightarrow> 0 < t_CurTime j \<and> t < t_CurTime j - MaxShareTimePastSecs | None \<Rightarrow> False)
           then Some BehindCurTime
         else if maxRef + MaxShareTimeFutureSecs < t then Some TooFarInFuture
         else if (case tip of Some ts \<Rightarrow> t < share_ts ts - MaxShareTimePastSecs | None \<Rightarrow> False) then Some BehindParent
         else None)"

definition payout_pkh :: "env \<Rightarrow> string \<Rightarrow> create_error + byte \<times> byte list" where
  "payout_pkh E addr =
     (if is_segwit_prefix addr then
        (case DecodeSegwitAddress E addr of
           Inl e \<Rightarrow> Inl (PayoutError e)
         | Inr (hrp, ver, prog) \<Rightarrow> if hrp \<noteq> ''vtc'' \<and> hrp \<noteq> ''tvtc'' then Inl NotVertcoin else Inr (ver, prog))
      else let d = e_Base58Decode E addr
           in if length d < 5 then Inl ShortBase58 else Inr (hd d, take (length d - 5) (tl d)))"

definition template_txids :: "env \<Rightarrow> BlockTemplate \<Rightarrow> hash option list" where
  "template_txids E j = map (\<lambda>tx. e_NewHashFromStr E (if bt_TxID tx = '''' then bt_Hash tx else bt_TxID tx)) (t_Transactions j)"

text \<open>The share before its hashes are computed.\<close>

definition new_share ::
  "env \<Rightarrow> BlockTemplate \<Rightarrow> ShareChain \<Rightarrow> u32 \<Rightarrow> u32 \<Rightarrow> byte \<times> byte list \<Rightarrow> u32 \<Rightarrow> byte list
   \<Rightarrow> hash option \<Rightarrow> hash option list \<Rightarrow> hash option list \<Rightarrow> Share" where
  "new_share E j c ts nonce pkh bits cb wtxid txidBr cbBr =
     \<lparr>s_Type = ShareVersionV2,
      s_MinHeader = \<lparr>mh_Version = t_Version j, mh_PreviousBlock = e_NewHashFromStr E (t_PreviousBlockHash j),
                     mh_Timestamp = ts, mh_Bits = bits, mh_Nonce = nonce\<rparr>,
      s_ShareInfo = \<lparr>si_ShareData = \<lparr>sd_PreviousShareHash = GetTipHash c, sd_CoinBase = cb, sd_Nonce = nonce,
                        sd_PubKeyHash = snd pkh, sd_PubKeyHashVersion = fst pkh, sd_Subsidy = of_int (t_CoinbaseValue j),
                        sd_Donation = fee_hundredths E, sd_StaleInfo = StaleInfoNone, sd_DesiredVersion = 0\<rparr>,
                     si_SegwitData = Some \<lparr>sw_TXIDMerkleLink = \<lparr>ml_Branch = txidBr, ml_Index = 0\<rparr>, sw_WTXIDMerkleRoot = wtxid\<rparr>,
                     si_NewTransactionHashes = template_txids E j, si_TransactionHashRefs = [], si_FarShareHash = None,
                     si_MaxBits = bits, si_Bits = bits, si_Timestamp = ts, si_AbsHeight = of_int (t_Height j),
                     si_AbsWork = Some 0\<rparr>,
      s_RefMerkleLink = \<lparr>ml_Branch = [], ml_Index = 0\<rparr>, s_LastTxOutNonce = 0,
      s_HashLink = \<lparr>hl_State = [], hl_ExtraData = [], hl_Length = 0\<rparr>,
      s_MerkleLink = \<lparr>ml_Branch = cbBr, ml_Index = 0\<rparr>, s_Hash = None, s_POWHash = None, s_Target = None,
      s_decodedAddr = '''', s_targetDiff = 0, s_effDiff = 0, s_effDiffReady = False, s_prevKey = ''''\<rparr>"

definition CreateShare ::
  "env \<Rightarrow> time \<Rightarrow> BlockTemplate option \<Rightarrow> string \<Rightarrow> string \<Rightarrow> string \<Rightarrow> string \<Rightarrow> string \<Rightarrow> ShareChain option
   \<Rightarrow> byte list \<Rightarrow> hash option \<Rightarrow> hash option list \<Rightarrow> hash option list \<Rightarrow> byte list \<Rightarrow> create_error + Share" where
  "CreateShare E now job en1 en2 nTimeHex nonceHex addr sc wc wtxid txidBr cbBr prebuilt =
     (case hex4 nonceHex of
        None \<Rightarrow> Inl InvalidNonce
      | Some nonce \<Rightarrow>
      (case hex4 nTimeHex of
         None \<Rightarrow> Inl InvalidTime
       | Some ts \<Rightarrow>
       (case check_job_time E now job sc (uint ts) of
          Some e \<Rightarrow> Inl e
        | None \<Rightarrow>
        (case payout_pkh E addr of
           Inl e \<Rightarrow> Inl e
         | Inr pkh \<Rightarrow>
         (case job of
            None \<Rightarrow> Inl CreatePanic
          | Some j \<Rightarrow>
          (case hex_DecodeString (t_Bits j) of
             None \<Rightarrow> Inl InvalidBits
           | Some nb \<Rightarrow>
             if length nb < 4 then Inl CreatePanic
             else (case (if prebuilt \<noteq> [] then Inr prebuilt else CreateCoinbaseTx E j addr en1 en2 wc sc) of
                     Inl e \<Rightarrow> Inl (CoinbaseError e)
                   | Inr cb \<Rightarrow>
                     (case sc of
                        None \<Rightarrow> Inl CreatePanic
                      | Some c \<Rightarrow>
                        (case CalculateHashes E (new_share E j c ts nonce pkh (be_Uint32 nb) cb wtxid txidBr cbBr) of
                           Inl e \<Rightarrow> Inl (HashError e)
                         | Inr s \<Rightarrow> Inr s)))))))))"

subsection \<open>The created share\<close>

lemma CreateShare_cases:
  assumes "CreateShare E now job en1 en2 nTimeHex nonceHex addr sc wc wtxid txidBr cbBr prebuilt = Inr s"
  obtains ts nonce pkh j nb cb c where "hex4 nonceHex = Some nonce" "hex4 nTimeHex = Some ts"
    "check_job_time E now job sc (uint ts) = None" "payout_pkh E addr = Inr pkh" "job = Some j" "sc = Some c"
    "hex_DecodeString (t_Bits j) = Some nb" "4 \<le> length nb"
    "(if prebuilt \<noteq> [] then Inr prebuilt else CreateCoinbaseTx E j addr en1 en2 wc sc) = Inr cb"
    "CalculateHashes E (new_share E j c ts nonce pkh (be_Uint32 nb) cb wtxid txidBr cbBr) = Inr s"
  using assms unfolding CreateShare_def
  by (auto simp: not_less split: option.splits sum.splits if_splits)

lemma CalculateHashes_frame:
  assumes "CalculateHashes E s0 = Inr s"
  shows "s = s0\<lparr>s_Hash := s_Hash s, s_POWHash := s_POWHash s\<rparr>" "s_Hash s \<noteq> None"
proof -
  obtain s1 where s1: "CalculateHash E s0 = Inr s1" "CalculatePOWHash E s1 = Inr s"
    using assms by (auto simp: CalculateHashes_def split: sum.splits)
  obtain h where h: "s1 = s0\<lparr>s_Hash := Some h\<rparr>" using s1(1) by (auto simp: CalculateHash_def split: sum.splits)
  obtain p where "s = s1\<lparr>s_POWHash := p\<rparr>" using s1(2) by (auto simp: CalculatePOWHash_def split: sum.splits option.splits)
  then show "s = s0\<lparr>s_Hash := s_Hash s, s_POWHash := s_POWHash s\<rparr>" "s_Hash s \<noteq> None" by (simp_all add: h)
qed

definition lower_char :: "char \<Rightarrow> char" where
  "lower_char c = (let n = of_char c :: nat in if 65 \<le> n \<and> n \<le> 90 then char_of (n + 32) else c)"

lemma to_lower_map: "to_lower s = map lower_char s"
  by (simp add: to_lower_def lower_char_def fun_eq_iff)

lemma lower_char_props: "lower_char (lower_char c) = lower_char c" "is_space (lower_char c) = is_space c"
proof -
  have "of_char (char_of n :: char) = n" if "n < 256" for n :: nat using that by simp
  then show "lower_char (lower_char c) = lower_char c" "is_space (lower_char c) = is_space c"
    by (auto simp: lower_char_def is_space_def Let_def)
qed

lemma lower_trim: "to_lower (trim_space (to_lower s)) = to_lower (trim_space s)"
proof -
  have d: "dropWhile is_space (map lower_char xs) = map lower_char (dropWhile is_space xs)" for xs
    by (simp add: dropWhile_map comp_def lower_char_props(2))
  have "trim_space (to_lower s) = map lower_char (trim_space s)"
    by (simp only: trim_space_def to_lower_map d rev_map)
  then show ?thesis by (simp add: to_lower_map lower_char_props(1) comp_def)
qed

lemma payout_pkh_decodes: assumes "payout_pkh E addr = Inr pkh" shows "DecodeAddressToPKH E addr = pkh"
proof (cases "is_segwit_prefix addr")
  case True
  have "DecodeSegwitAddress E (to_lower addr) = DecodeSegwitAddress E addr" unfolding DecodeSegwitAddress_def lower_trim ..
  then show ?thesis using True assms
    by (auto simp: payout_pkh_def DecodeAddressToPKH_def is_segwit_prefix_def Let_def split: sum.splits prod.splits if_splits)
next
  case False
  then show ?thesis using assms
    by (auto simp: payout_pkh_def DecodeAddressToPKH_def is_segwit_prefix_def Let_def split: if_splits)
qed

lemma check_job_time_None:
  assumes "check_job_time E now (Some j) (Some c) t = None"
  shows "0 < t_MinTime j \<longrightarrow> t_MinTime j \<le> t" "0 < t_CurTime j \<longrightarrow> t_CurTime j - MaxShareTimePastSecs \<le> t"
    "t \<le> max (Unix now) (t_CurTime j) + MaxShareTimeFutureSecs"
    "\<And>h ts. GetTipHash c = Some h \<Longrightarrow> GetShare c (e_HashString E h) = Some ts \<Longrightarrow> share_ts ts - MaxShareTimePastSecs \<le> t"
  using assms by (auto simp: check_job_time_def Let_def max_def not_less split: if_splits option.splits)

text \<open>A created share carries the time and the nonce of the solution in its header, with a time within the
  bounds of the job, the clock and the parent; it builds on the current tip, credits the miner's
  address, and its hash is computed.\<close>

theorem CreateShare_spec:
  assumes "CreateShare E now (Some j) en1 en2 nTimeHex nonceHex addr (Some c) wc wtxid txidBr cbBr prebuilt = Inr s"
  shows "\<exists>ts. hex4 nTimeHex = Some ts \<and> hex4 nonceHex = Some (mh_Nonce (s_MinHeader s)) \<and> header_ts s = uint ts
    \<and> (0 < t_MinTime j \<longrightarrow> t_MinTime j \<le> uint ts) \<and> (0 < t_CurTime j \<longrightarrow> t_CurTime j - MaxShareTimePastSecs \<le> uint ts)
    \<and> uint ts \<le> max (Unix now) (t_CurTime j) + MaxShareTimeFutureSecs
    \<and> s_Type s = ShareVersionV2 \<and> share_prev s = GetTipHash c \<and> s_Hash s \<noteq> None
    \<and> (sd_PubKeyHashVersion (share_data s), sd_PubKeyHash (share_data s)) = DecodeAddressToPKH E addr"
proof -
  obtain ts nonce pkh nb cb where c: "hex4 nonceHex = Some nonce" "hex4 nTimeHex = Some ts"
    "check_job_time E now (Some j) (Some c) (uint ts) = None" "payout_pkh E addr = Inr pkh"
    "CalculateHashes E (new_share E j c ts nonce pkh (be_Uint32 nb) cb wtxid txidBr cbBr) = Inr s"
    by (rule CreateShare_cases[OF assms]) simp
  note f = CalculateHashes_frame[OF c(5)] and t = check_job_time_None[OF c(3)]
  have "mh_Nonce (s_MinHeader s) = nonce" "header_ts s = uint ts" "s_Type s = ShareVersionV2" "share_prev s = GetTipHash c"
    "(sd_PubKeyHashVersion (share_data s), sd_PubKeyHash (share_data s)) = pkh"
    by (subst f(1), simp add: new_share_def header_ts_def)+
  then show ?thesis using c(1,2) t(1-3) f(2) payout_pkh_decodes[OF c(4)] by (intro exI[of _ ts]) simp
qed

text \<open>C36: A share created at the tip of a chain on a coinbase built for that tip, once it is given the target of
  the expected difficulty there, is accepted by the payout check of every node with this chain, provided that the scripts
  the payout pays are pairwise different (\<open>shared_script_refused\<close> is the case where they are not), that the coinbase it
  carries decodes to the one that was built, and that its payout address reads back as the miner's.\<close>

theorem created_share_pays:
  assumes cr: "CreateShare E now (Some j) en1 en2 nTimeHex nonceHex addr (Some c) wc wtxid txidBr cbBr prebuilt = Inr s"
    and b: "buildCoinbaseMsgTxAtTip E j addr en wc (Some c) (GetTipHash c) = Inr tx" "share_coinbase E s = Some tx"
    and cb: "sd_CoinBase (share_data s) \<noteq> []" and ad: "share_address E s = addr"
    and R: "0 < t_CoinbaseValue j" "t_CoinbaseValue j < 2 ^ 63" "distinct (map out_PkScript (positive_outs tx))"
  shows "fst (VerifyShareCoinbase E (s\<lparr>s_Target := Some (DiffToTarget (GetExpectedShareDifficulty E c (GetTipHash c)))\<rparr>) (Some c))"
proof -
  let ?s = "s\<lparr>s_Target := Some (DiffToTarget (GetExpectedShareDifficulty E c (GetTipHash c)))\<rparr>"
  obtain ts nonce pkh nb cb0 where c: "payout_pkh E addr = Inr pkh"
    "CalculateHashes E (new_share E j c ts nonce pkh (be_Uint32 nb) cb0 wtxid txidBr cbBr) = Inr s"
    by (rule CreateShare_cases[OF cr]) simp
  note f = CalculateHashes_frame(1)[OF c(2)]
  have d: "s_Type s = ShareVersionV2" "share_prev s = GetTipHash c" "sd_Subsidy (share_data s) = of_int (t_CoinbaseValue j)"
    "sd_Donation (share_data s) = fee_hundredths E" "sd_StaleInfo (share_data s) = StaleInfoNone"
    "si_AbsHeight (s_ShareInfo s) = of_int (t_Height j)" "si_Timestamp (s_ShareInfo s) = mh_Timestamp (s_MinHeader s)"
    "(sd_PubKeyHashVersion (share_data s), sd_PubKeyHash (share_data s)) = DecodeAddressToPKH E addr"
    unfolding payout_pkh_decodes[OF c(1)] by (subst f, simp add: new_share_def)+
  have "share_address E ?s = share_address E s" "share_coinbase E ?s = share_coinbase E s"
    by (simp_all add: share_address_def share_coinbase_def share_ts_def Let_def split: option.split)
  then have "mined_for E j addr c (GetTipHash c) ?s" "share_coinbase E ?s = Some tx"
    using d cb ad b(2) by (simp_all add: mined_for_def)
  then show ?thesis using built_accepted[OF b(1) _ _ R] by blast
qed


subsection \<open>Examples\<close>

definition lone_chain :: ShareChain where "lone_chain = NewShareChain\<lparr>sc_TipHash := None\<rparr>"

definition lone_coinbase :: msgtx where
  "lone_coinbase = (case buildCoinbaseMsgTxAtTip demo_env (demo_tmpl 1250000000) demo_addr [1, 2] [] (Some lone_chain) None of Inr tx \<Rightarrow> tx | Inl _ \<Rightarrow> undefined)"

definition lone_env :: env where "lone_env = demo_env\<lparr>e_Deserialize := \<lambda>b. Some lone_coinbase\<rparr>"

lemma lone_frames:
  "e_Base58Decode lone_env demo_addr = 0x47 # replicate 20 3 @ [0, 0, 0, 0]" "e_Base58Decode demo_env demo_addr = 0x47 # replicate 20 3 @ [0, 0, 0, 0]"
  by (simp_all add: lone_env_def demo_env_def demo_addr_def hex_roundtrip)

lemma lone_walk: "getOrderedChainWalkLocked E lone_chain None n = []"
  by (simp add: lone_chain_def getOrderedChainWalkLocked_def walk_start_def NewShareChain_def no_parent_def)

lemma lone_want: "CalculatePPLNSOutputsAtTip E 1250000000 a (Some lone_chain) None = [\<lparr>po_Address = a, po_Amount = 1250000000\<rparr>]"
  by (simp add: CalculatePPLNSOutputsAtTip_def payout_shares_def GetTipHash_def GetSharesForPayout_def NewShareChain_def
      walk_start_def no_parent_def gm_set_def gm_get_def lone_chain_def)

lemma lone_meta: "metadata_script lone_env (demo_tmpl 1250000000) demo_addr (Some lone_chain) None
    = metadata_script demo_env (demo_tmpl 1250000000) demo_addr (Some lone_chain) None"
  using demo_addr_plain(2)
  by (simp add: metadata_script_def GetExpectedShareDifficulty_def getExpectedShareDifficultyLocked_def lone_walk TargetLookbehind_def
      DecodeAddressToPKH_def is_segwit_prefix_def lone_frames Let_def) (simp add: fee_hundredths_def lone_env_def)

lemma lone_script: "AddressToScriptPubKey lone_env demo_addr = Inr demo_script" "AddressToScriptPubKey demo_env demo_addr = Inr demo_script"
  by (simp_all add: AddressToScriptPubKey_def demo_addr_plain lone_frames demo_script_def Let_def)

lemma lone_build: "buildCoinbaseMsgTxAtTip lone_env (demo_tmpl 1250000000) demo_addr [1, 2] [] (Some lone_chain) None = Inr lone_coinbase"
proof -
  have "buildCoinbaseMsgTxAtTip lone_env (demo_tmpl 1250000000) demo_addr [1, 2] [] (Some lone_chain) None
      = buildCoinbaseMsgTxAtTip demo_env (demo_tmpl 1250000000) demo_addr [1, 2] [] (Some lone_chain) None"
    using lone_want lone_meta lone_script by (simp add: buildCoinbaseMsgTxAtTip_def demo_tmpl_def aux_data_def)
      (simp add: lone_env_def demo_env_def)
  moreover have "\<exists>tx. buildCoinbaseMsgTxAtTip demo_env (demo_tmpl 1250000000) demo_addr [1, 2] [] (Some lone_chain) None = Inr tx"
    using lone_want lone_script by (simp add: buildCoinbaseMsgTxAtTip_def demo_tmpl_def aux_data_def) (simp add: demo_env_def)
  ultimately show ?thesis by (auto simp: lone_coinbase_def)
qed

definition lone_share :: Share where
  "lone_share = (case CreateShare lone_env (seconds 1800000000) (Some (demo_tmpl 1250000000)) '''' '''' ''6b49d200'' ''00000007''
     demo_addr (Some lone_chain) [] None [] [] [9] of Inr s \<Rightarrow> s | Inl _ \<Rightarrow> undefined)"

lemma lone_hex: "hex4 ''6b49d200'' = Some 1800000000" "hex4 ''00000007'' = Some 7" "hex_DecodeString ''1b00ffff'' = Some [0x1b, 0, 0xff, 0xff]"
  by code_simp+

lemma tmpl_fields: "t_Bits (demo_tmpl v) = ''1b00ffff''" "t_CoinbaseValue (demo_tmpl v) = v"
  by (simp_all add: demo_tmpl_def)

lemma lone_created: "CreateShare lone_env (seconds 1800000000) (Some (demo_tmpl 1250000000)) '''' '''' ''6b49d200'' ''00000007''
     demo_addr (Some lone_chain) [] None [] [] [9] = Inr lone_share"
proof -
  have p: "payout_pkh lone_env demo_addr = Inr (0x47, replicate 20 3)"
    using demo_addr_plain(2) by (simp add: payout_pkh_def lone_frames Let_def)
  have t: "check_job_time lone_env (seconds 1800000000) (Some (demo_tmpl 1250000000)) (Some lone_chain) 1800000000 = None"
    by (simp add: check_job_time_def demo_tmpl_def Unix_def MaxShareTimeFutureSecs_def lone_chain_def GetTipHash_def)
  have "\<exists>s. CalculateHashes lone_env (new_share lone_env (demo_tmpl 1250000000) lone_chain 1800000000 7 (0x47, replicate 20 3)
      (be_Uint32 [0x1b, 0, 0xff, 0xff]) [9] None [] []) = Inr s"
    by (simp add: CalculateHashes_def CalculateHash_def CalculatePOWHash_def FullBlockHeader_def new_share_def lone_env_def demo_env_def
        demo_tmpl_def)
  then show ?thesis
    using p t by (auto simp: CreateShare_def lone_hex lone_share_def tmpl_fields simp del: hex_DecodeString.simps)
qed


theorem CreateShare_spec_witness: "header_ts lone_share = 1800000000 \<and> share_prev lone_share = None"
  using CreateShare_spec[OF lone_created] by (auto simp: lone_hex lone_chain_def GetTipHash_def)

theorem created_share_pays_witness:
  "fst (VerifyShareCoinbase lone_env (lone_share\<lparr>s_Target := Some (DiffToTarget (GetExpectedShareDifficulty lone_env lone_chain None))\<rparr>) (Some lone_chain))"
proof -
  obtain ts nonce pkh nb cb where c: "payout_pkh lone_env demo_addr = Inr pkh" "cb = [9]"
    "CalculateHashes lone_env (new_share lone_env (demo_tmpl 1250000000) lone_chain ts nonce pkh (be_Uint32 nb) cb None [] []) = Inr lone_share"
    by (rule CreateShare_cases[OF lone_created]) simp
  note f = CalculateHashes_frame(1)[OF c(3)]
  have p: "pkh = (0x47, replicate 20 3)" using c(1) demo_addr_plain(2) by (simp add: payout_pkh_def lone_frames Let_def)
  have t: "GetTipHash lone_chain = None" by (simp add: lone_chain_def GetTipHash_def)
  have 1: "share_coinbase lone_env lone_share = Some lone_coinbase" by (simp add: share_coinbase_def lone_env_def)
  have 2: "sd_CoinBase (share_data lone_share) \<noteq> []" by (subst f) (simp add: new_share_def c(2))
  have 3: "share_address lone_env lone_share = demo_addr"
    by (subst f) (simp add: share_address_def new_share_def p lone_env_def demo_env_def demo_addr_def Let_def)
  have "tx_TxOut lone_coinbase = [\<lparr>out_Value = 1250000000, out_PkScript = demo_script\<rparr>,
      \<lparr>out_Value = 0, out_PkScript = metadata_script lone_env (demo_tmpl 1250000000) demo_addr (Some lone_chain) None\<rparr>]"
    using lone_build[symmetric] lone_want[of lone_env demo_addr] lone_script(1)
    by (auto simp: buildCoinbaseMsgTxAtTip_def tmpl_fields split: option.splits) (erule ssubst, simp)
  then have 4: "distinct (map out_PkScript (positive_outs lone_coinbase))" by (simp add: positive_outs_def)
  show ?thesis
    using created_share_pays[OF lone_created lone_build[folded t] 1 2 3 _ _ 4] by (simp add: demo_tmpl_def t)
qed

end
