(* ===== verification/Rpc.thy ===== *)
theory Rpc
  imports ShareStats
begin

text \<open>
  The JSON-RPC client of the node (\<open>rpc/client.go\<close>, \<open>rpc/blocks.go\<close>). A JSON text is its value
  (\<open>json\<close>), or \<open>BadJson\<close> for a text that does not parse; decoding into a struct is a fold over the
  members in their order, with the field names compared without case as \<open>encoding/json\<close> does. The
  operating system (files, environment) and the HTTP server are arguments: the server is a function
  on a state \<open>'w\<close>, so that a theorem can speak of the requests it has seen. The lemmas show which
  errors are retried, that a call sends at most two requests, and that a block counts as accepted
  only when the node answered without an error and without a reason.
\<close>

datatype json =
    JNull | JBool bool | JInt int | JNum rat | JStr string | JArr "json list" | JObj "(string \<times> json) list"

datatype body = Json json | BadJson string

subsection \<open>Decoding\<close>

text \<open>A member named \<open>k\<close> sets the field \<open>name\<close>.\<close>

definition is_field :: "string \<Rightarrow> string \<Rightarrow> bool" where
  "is_field name k = (to_lower k = to_lower name)"

text \<open>The decoders of one value: \<open>null\<close> leaves the old value, a value of another type is an error.\<close>

definition dec_int :: "int \<Rightarrow> int \<Rightarrow> json \<Rightarrow> int option" where
  "dec_int bound old j = (case j of JNull \<Rightarrow> Some old
     | JInt n \<Rightarrow> if - bound \<le> n \<and> n < bound then Some n else None | _ \<Rightarrow> None)"

definition dec_float :: "rat \<Rightarrow> json \<Rightarrow> rat option" where
  "dec_float old j = (case j of JNull \<Rightarrow> Some old | JInt n \<Rightarrow> Some (f64 (of_int n)) | JNum q \<Rightarrow> Some (f64 q) | _ \<Rightarrow> None)"

definition dec_string :: "string \<Rightarrow> json \<Rightarrow> string option" where
  "dec_string old j = (case j of JNull \<Rightarrow> Some old | JStr s \<Rightarrow> Some s | _ \<Rightarrow> None)"

text \<open>A struct: \<open>null\<close> leaves it, an object sets its fields member by member.\<close>

definition dec_struct :: "(string \<Rightarrow> json \<Rightarrow> 'a \<Rightarrow> 'a option) \<Rightarrow> 'a \<Rightarrow> json \<Rightarrow> 'a option" where
  "dec_struct set_field old j =
     (case j of
        JNull \<Rightarrow> Some old
      | JObj ms \<Rightarrow> foldl (\<lambda>a (k, v). Option.bind a (set_field k v)) (Some old) ms
      | _ \<Rightarrow> None)"

record RPCError =
  re_Code :: int
  re_Message :: string

record RPCRequest =
  rq_Method :: string
  rq_Params :: "json list"
  rq_ID :: int
  rq_Jsonrpc :: string

record RPCResponse =
  rr_Result :: "json option"
  rr_Error :: "RPCError option"
  rr_ID :: int

record BlockInfo =
  bi_Hash :: string
  bi_Confirmations :: int
  bi_Height :: int

record BlockHeaderInfo =
  hi_Hash :: string
  hi_Confirmations :: int
  hi_Height :: int
  hi_Version :: int
  hi_VersionHex :: string
  hi_MerkleRoot :: string
  hi_Time :: int
  hi_MedianTime :: int
  hi_Nonce :: u32
  hi_Bits :: string
  hi_Difficulty :: rat
  hi_ChainWork :: string
  hi_NTx :: int
  hi_PreviousHash :: string
  hi_NextHash :: string

abbreviation int64 :: int where "int64 \<equiv> 2 ^ 63"
abbreviation int32 :: int where "int32 \<equiv> 2 ^ 31"

definition dec_RPCError :: "RPCError \<Rightarrow> json \<Rightarrow> RPCError option" where
  "dec_RPCError = dec_struct (\<lambda>k v e.
     if is_field ''code'' k then map_option (\<lambda>n. e\<lparr>re_Code := n\<rparr>) (dec_int int64 (re_Code e) v)
     else if is_field ''message'' k then map_option (\<lambda>s. e\<lparr>re_Message := s\<rparr>) (dec_string (re_Message e) v)
     else Some e)"

text \<open>\<open>Result\<close> is a \<open>json.RawMessage\<close>, which keeps \<open>null\<close>; \<open>Error\<close> is a pointer, which \<open>null\<close> clears.\<close>

definition dec_RPCResponse :: "json \<Rightarrow> RPCResponse option" where
  "dec_RPCResponse = dec_struct (\<lambda>k v r.
     if is_field ''result'' k then Some (r\<lparr>rr_Result := Some v\<rparr>)
     else if is_field ''error'' k then
       (if v = JNull then Some (r\<lparr>rr_Error := None\<rparr>)
        else map_option (\<lambda>e. r\<lparr>rr_Error := Some e\<rparr>)
          (dec_RPCError (case rr_Error r of Some e \<Rightarrow> e | None \<Rightarrow> \<lparr>re_Code = 0, re_Message = ''''\<rparr>) v))
     else if is_field ''id'' k then map_option (\<lambda>n. r\<lparr>rr_ID := n\<rparr>) (dec_int int64 (rr_ID r) v)
     else Some r) \<lparr>rr_Result = None, rr_Error = None, rr_ID = 0\<rparr>"

definition dec_body :: "body \<Rightarrow> RPCResponse option" where
  "dec_body b = (case b of Json j \<Rightarrow> dec_RPCResponse j | BadJson s \<Rightarrow> None)"

text \<open>\<open>json.Unmarshal\<close> of \<open>resp.Result\<close>; a nil result is the empty text, which is an error.\<close>

definition dec_result :: "(json \<Rightarrow> 'a option) \<Rightarrow> RPCResponse \<Rightarrow> 'a option" where
  "dec_result f r = Option.bind (rr_Result r) f"

definition dec_MiningInfo :: "json \<Rightarrow> MiningInfo option" where
  "dec_MiningInfo = dec_struct (\<lambda>k v m.
     if is_field ''networkhashps'' k then map_option (\<lambda>x. m\<lparr>mi_NetworkHashPS := x\<rparr>) (dec_float (mi_NetworkHashPS m) v)
     else if is_field ''difficulty'' k then map_option (\<lambda>x. m\<lparr>mi_Difficulty := x\<rparr>) (dec_float (mi_Difficulty m) v)
     else Some m) \<lparr>mi_NetworkHashPS = 0, mi_Difficulty = 0\<rparr>"

definition dec_BlockInfo :: "json \<Rightarrow> BlockInfo option" where
  "dec_BlockInfo = dec_struct (\<lambda>k v b.
     if is_field ''hash'' k then map_option (\<lambda>x. b\<lparr>bi_Hash := x\<rparr>) (dec_string (bi_Hash b) v)
     else if is_field ''confirmations'' k then map_option (\<lambda>x. b\<lparr>bi_Confirmations := x\<rparr>) (dec_int int64 (bi_Confirmations b) v)
     else if is_field ''height'' k then map_option (\<lambda>x. b\<lparr>bi_Height := x\<rparr>) (dec_int int32 (bi_Height b) v)
     else Some b) \<lparr>bi_Hash = '''', bi_Confirmations = 0, bi_Height = 0\<rparr>"

definition dec_u32 :: "u32 \<Rightarrow> json \<Rightarrow> u32 option" where
  "dec_u32 old j = (case j of JNull \<Rightarrow> Some old | JInt n \<Rightarrow> if 0 \<le> n \<and> n < 2 ^ 32 then Some (of_int n) else None | _ \<Rightarrow> None)"

definition dec_BlockHeaderInfo :: "json \<Rightarrow> BlockHeaderInfo option" where
  "dec_BlockHeaderInfo = dec_struct (\<lambda>k v h.
     if is_field ''hash'' k then map_option (\<lambda>x. h\<lparr>hi_Hash := x\<rparr>) (dec_string (hi_Hash h) v)
     else if is_field ''confirmations'' k then map_option (\<lambda>x. h\<lparr>hi_Confirmations := x\<rparr>) (dec_int int64 (hi_Confirmations h) v)
     else if is_field ''height'' k then map_option (\<lambda>x. h\<lparr>hi_Height := x\<rparr>) (dec_int int64 (hi_Height h) v)
     else if is_field ''version'' k then map_option (\<lambda>x. h\<lparr>hi_Version := x\<rparr>) (dec_int int64 (hi_Version h) v)
     else if is_field ''versionHex'' k then map_option (\<lambda>x. h\<lparr>hi_VersionHex := x\<rparr>) (dec_string (hi_VersionHex h) v)
     else if is_field ''merkleroot'' k then map_option (\<lambda>x. h\<lparr>hi_MerkleRoot := x\<rparr>) (dec_string (hi_MerkleRoot h) v)
     else if is_field ''time'' k then map_option (\<lambda>x. h\<lparr>hi_Time := x\<rparr>) (dec_int int64 (hi_Time h) v)
     else if is_field ''mediantime'' k then map_option (\<lambda>x. h\<lparr>hi_MedianTime := x\<rparr>) (dec_int int64 (hi_MedianTime h) v)
     else if is_field ''nonce'' k then map_option (\<lambda>x. h\<lparr>hi_Nonce := x\<rparr>) (dec_u32 (hi_Nonce h) v)
     else if is_field ''bits'' k then map_option (\<lambda>x. h\<lparr>hi_Bits := x\<rparr>) (dec_string (hi_Bits h) v)
     else if is_field ''difficulty'' k then map_option (\<lambda>x. h\<lparr>hi_Difficulty := x\<rparr>) (dec_float (hi_Difficulty h) v)
     else if is_field ''chainwork'' k then map_option (\<lambda>x. h\<lparr>hi_ChainWork := x\<rparr>) (dec_string (hi_ChainWork h) v)
     else if is_field ''nTx'' k then map_option (\<lambda>x. h\<lparr>hi_NTx := x\<rparr>) (dec_int int64 (hi_NTx h) v)
     else if is_field ''previousblockhash'' k then map_option (\<lambda>x. h\<lparr>hi_PreviousHash := x\<rparr>) (dec_string (hi_PreviousHash h) v)
     else if is_field ''nextblockhash'' k then map_option (\<lambda>x. h\<lparr>hi_NextHash := x\<rparr>) (dec_string (hi_NextHash h) v)
     else Some h) \<lparr>hi_Hash = '''', hi_Confirmations = 0, hi_Height = 0, hi_Version = 0, hi_VersionHex = '''', hi_MerkleRoot = '''', hi_Time = 0, hi_MedianTime = 0, hi_Nonce = 0, hi_Bits = '''', hi_Difficulty = 0, hi_ChainWork = '''', hi_NTx = 0, hi_PreviousHash = '''', hi_NextHash = ''''\<rparr>"

subsection \<open>Strings and paths (\<open>strings\<close>, \<open>path/filepath\<close>)\<close>

fun split_char :: "char \<Rightarrow> string \<Rightarrow> string list" where
  "split_char c [] = [[]]"
| "split_char c (x # xs) =
     (if x = c then [] # split_char c xs
      else (case split_char c xs of [] \<Rightarrow> [[x]] | y # ys \<Rightarrow> (x # y) # ys))"

text \<open>\<open>strings.SplitN(s, c, 2)\<close>: the text after the first \<open>c\<close>, if there is one.\<close>

definition split2 :: "char \<Rightarrow> string \<Rightarrow> (string \<times> string) option" where
  "split2 c s = (let a = takeWhile (\<lambda>x. x \<noteq> c) s
     in if length a < length s then Some (a, drop (Suc (length a)) s) else None)"

definition clean_part :: "bool \<Rightarrow> string list \<Rightarrow> string \<Rightarrow> string list" where
  "clean_part rooted st p =
     (if p = '''' \<or> p = ''.'' then st
      else if p \<noteq> ''..'' then st @ [p]
      else if st \<noteq> [] \<and> last st \<noteq> ''..'' then butlast st
      else if rooted then st else st @ [p])"

fun join_with :: "string \<Rightarrow> string list \<Rightarrow> string" where
  "join_with c [] = ''''"
| "join_with c [x] = x"
| "join_with c (x # y # ys) = x @ c @ join_with c (y # ys)"

definition path_Clean :: "string \<Rightarrow> string" where
  "path_Clean p =
     (let rooted = (p \<noteq> '''' \<and> hd p = CHR ''/'');
          r = (if rooted then ''/'' else '''') @ join_with ''/'' (foldl (clean_part rooted) [] (split_char (CHR ''/'') p))
      in if r = '''' then ''.'' else r)"

definition path_Join :: "string list \<Rightarrow> string" where
  "path_Join ps = (case filter (\<lambda>p. p \<noteq> '''') ps of [] \<Rightarrow> '''' | qs \<Rightarrow> path_Clean (join_with ''/'' qs))"

subsection \<open>Errors\<close>

datatype reason = Reason string | RawReason json

datatype rpc_error =
    BadEndpoint | Transport | JsonParse nat body | RPCErr RPCError | HTTPErr nat body
  | BlockRejected reason | DecodeFailed | SerializeFailed

definition rpcInWarmup :: int where "rpcInWarmup = - 28"

definition IsTransient :: "rpc_error option \<Rightarrow> bool" where
  "IsTransient err =
     (case err of
        None \<Rightarrow> False
      | Some (BlockRejected r) \<Rightarrow> False
      | Some (RPCErr e) \<Rightarrow> re_Code e = rpcInWarmup
      | Some (HTTPErr st b) \<Rightarrow>
          (case Option.bind (dec_body b) rr_Error of
             Some e \<Rightarrow> re_Code e = rpcInWarmup
           | None \<Rightarrow> 500 \<le> st)
      | Some _ \<Rightarrow> True)"

subsection \<open>The client\<close>

record Client =
  cl_endpoint :: string
  cl_username :: string
  cl_password :: string
  cl_cookieFile :: string

text \<open>
  The world of the client: \<open>os.UserHomeDir\<close> and \<open>APPDATA\<close> (empty when unset), \<open>os.ReadFile\<close> and
  \<open>os.Stat\<close>, whether \<open>http.NewRequest\<close> takes an endpoint, and one HTTP exchange: the status and
  body read, or \<open>None\<close> when the exchange or the reading of the body failed.
\<close>

record 'w world =
  w_HomeDir :: string
  w_AppData :: string
  w_ReadFile :: "'w \<Rightarrow> string \<Rightarrow> string option"
  w_Stat :: "'w \<Rightarrow> string \<Rightarrow> bool"
  w_UrlOk :: "string \<Rightarrow> bool"
  w_Do :: "'w \<Rightarrow> string \<Rightarrow> string \<times> string \<Rightarrow> RPCRequest \<Rightarrow> (nat \<times> body) option \<times> 'w"

text \<open>The \<open>datadir\<close> lines of a \<open>vertcoin.conf\<close>, each put before the directories so far.\<close>

definition conf_dirs :: "string \<Rightarrow> string list \<Rightarrow> string list" where
  "conf_dirs text dirs =
     foldl (\<lambda>ds ln. if has_prefix (trim_space ln) ''datadir='' then
                      (case split2 (CHR ''='') ln of Some (_, v) \<Rightarrow> trim_space v # ds | None \<Rightarrow> ds)
                    else ds) dirs (split_char (CHR 0x0A) text)"

definition cookie_dirs :: "'w world \<Rightarrow> 'w \<Rightarrow> string list" where
  "cookie_dirs W w =
     (let dirs = [path_Join [w_HomeDir W, ''.vertcoin''], path_Join [w_AppData W, ''Vertcoin'']]
      in foldl (\<lambda>ds base. case w_ReadFile W w (path_Join [base, ''vertcoin.conf'']) of
                            Some b \<Rightarrow> conf_dirs b ds | None \<Rightarrow> ds) dirs dirs)"

definition cookie_path :: "env \<Rightarrow> 'w world \<Rightarrow> 'w \<Rightarrow> string" where
  "cookie_path E W w =
     (let sub = (\<lambda>d. if c_Testnet (e_Active E) then path_Join [d, ''testnet3''] else d)
      in case List.find (\<lambda>d. w_Stat W w (path_Join [sub d, ''.cookie''])) (cookie_dirs W w) of
           Some d \<Rightarrow> path_Join [sub d, ''.cookie''] | None \<Rightarrow> '''')"

definition loadCookie :: "env \<Rightarrow> 'w world \<Rightarrow> 'w \<Rightarrow> Client \<Rightarrow> bool \<times> Client" where
  "loadCookie E W w c =
     (let p = (if cl_cookieFile c = '''' then cookie_path E W w else cl_cookieFile c)
      in case w_ReadFile W w p of
           None \<Rightarrow> (False, c)
         | Some b \<Rightarrow> (case split2 (CHR '':'') (trim_space b) of
               Some (u, pw) \<Rightarrow> (True, c\<lparr>cl_username := u, cl_password := pw, cl_cookieFile := p\<rparr>)
             | None \<Rightarrow> (False, c)))"

function callInternal ::
  "env \<Rightarrow> 'w world \<Rightarrow> string \<Rightarrow> json list \<Rightarrow> bool \<Rightarrow> Client \<Rightarrow> 'w \<Rightarrow> (rpc_error + RPCResponse) \<times> Client \<times> 'w" where
  "callInternal E W meth params retry401 c w =
     (let request = \<lparr>rq_Method = meth, rq_Params = params, rq_ID = 1, rq_Jsonrpc = ''2.0''\<rparr>
      in if \<not> w_UrlOk W (cl_endpoint c) then (Inl BadEndpoint, c, w)
         else
           (let c1 = (if cl_password c = '''' \<or> cl_cookieFile c \<noteq> '''' then snd (loadCookie E W w c) else c);
                (resp, w1) = w_Do W w (cl_endpoint c1) (cl_username c1, cl_password c1) request
            in case resp of
                 None \<Rightarrow> (Inl Transport, c1, w1)
               | Some (st, b) \<Rightarrow>
                   let (ok, c2) = (if st = 401 \<and> \<not> retry401 then loadCookie E W w1 c1 else (False, c1))
                   in if ok then callInternal E W meth params True c2 w1
                      else if st < 200 \<or> 300 \<le> st then (Inl (HTTPErr st b), c2, w1)
                      else (case dec_body b of
                              None \<Rightarrow> (Inl (JsonParse st b), c2, w1)
                            | Some r \<Rightarrow> (case rr_Error r of
                                Some e \<Rightarrow> (Inl (RPCErr e), c2, w1)
                              | None \<Rightarrow> (Inr r, c2, w1)))))"
  by pat_completeness auto
termination
  by (relation "measure (\<lambda>(E, W, meth, params, retry, c, w). if retry then 0 else 1)") (auto split: if_splits)

declare callInternal.simps [simp del]

definition Call :: "env \<Rightarrow> 'w world \<Rightarrow> string \<Rightarrow> json list \<Rightarrow> Client \<Rightarrow> 'w \<Rightarrow> (rpc_error + RPCResponse) \<times> Client \<times> 'w" where
  "Call E W meth params c w = callInternal E W meth params False c w"

text \<open>\<open>fmt.Sprintf\<close> with \<open>%d\<close> of a non-negative number.\<close>

fun dec_digits :: "nat \<Rightarrow> string" where
  "dec_digits n = (if n < 10 then [hex_digit n] else dec_digits (n div 10) @ [hex_digit (n mod 10)])"

declare dec_digits.simps [simp del]

record RpcConfig =
  rc_RPCHost :: string
  rc_RPCPort :: nat
  rc_RPCUser :: string
  rc_RPCPass :: string
  rc_RPCCookieFile :: string

definition NewClient :: "RpcConfig \<Rightarrow> Client" where
  "NewClient cfg = \<lparr>cl_endpoint = ''http://'' @ rc_RPCHost cfg @ '':'' @ dec_digits (rc_RPCPort cfg),
     cl_username = rc_RPCUser cfg, cl_password = rc_RPCPass cfg, cl_cookieFile = rc_RPCCookieFile cfg\<rparr>"

subsection \<open>The calls\<close>

text \<open>A call whose result is decoded by \<open>f\<close>.\<close>

definition call_decode ::
  "env \<Rightarrow> 'w world \<Rightarrow> (json \<Rightarrow> 'a option) \<Rightarrow> string \<Rightarrow> json list \<Rightarrow> Client \<Rightarrow> 'w \<Rightarrow> (rpc_error + 'a) \<times> Client \<times> 'w" where
  "call_decode E W f meth params c w =
     (case Call E W meth params c w of
        (Inl e, c1, w1) \<Rightarrow> (Inl e, c1, w1)
      | (Inr r, c1, w1) \<Rightarrow> ((case dec_result f r of Some x \<Rightarrow> Inr x | None \<Rightarrow> Inl DecodeFailed), c1, w1))"

definition GetMiningInfo :: "env \<Rightarrow> 'w world \<Rightarrow> Client \<Rightarrow> 'w \<Rightarrow> (rpc_error + MiningInfo) \<times> Client \<times> 'w" where
  "GetMiningInfo E W = call_decode E W dec_MiningInfo ''getmininginfo'' []"

definition SendMany :: "env \<Rightarrow> 'w world \<Rightarrow> (string, rat) gomap \<Rightarrow> Client \<Rightarrow> 'w \<Rightarrow> (rpc_error + string) \<times> Client \<times> 'w" where
  "SendMany E W amounts = call_decode E W (dec_string '''') ''sendmany''
     [JStr '''', JObj (map (\<lambda>(a, x). (a, JNum x)) (sort_key fst amounts)), JInt 1, JStr ''p2pool-go-vtc payout'']"

definition GetRawBlockHeaderHex :: "env \<Rightarrow> 'w world \<Rightarrow> string \<Rightarrow> Client \<Rightarrow> 'w \<Rightarrow> (rpc_error + string) \<times> Client \<times> 'w" where
  "GetRawBlockHeaderHex E W h = call_decode E W (dec_string '''') ''getblockheader'' [JStr h, JBool False]"

definition GetBlockHeader :: "env \<Rightarrow> 'w world \<Rightarrow> hash \<Rightarrow> Client \<Rightarrow> 'w \<Rightarrow> (rpc_error + BlockHeaderInfo) \<times> Client \<times> 'w" where
  "GetBlockHeader E W h = call_decode E W dec_BlockHeaderInfo ''getblockheader'' [JStr (e_HashString E h), JBool True]"

definition GetBlock :: "env \<Rightarrow> 'w world \<Rightarrow> hash \<Rightarrow> Client \<Rightarrow> 'w \<Rightarrow> (rpc_error + BlockInfo) \<times> Client \<times> 'w" where
  "GetBlock E W h = call_decode E W dec_BlockInfo ''getblock'' [JStr (e_HashString E h), JInt 1]"

definition GetBlockTemplate :: "env \<Rightarrow> 'w world \<Rightarrow> Client \<Rightarrow> 'w \<Rightarrow> (rpc_error + json option) \<times> Client \<times> 'w" where
  "GetBlockTemplate E W c w =
     (case Call E W ''getblocktemplate'' [JObj [(''rules'', JArr [JStr ''segwit''])]] c w of
        (Inl e, c1, w1) \<Rightarrow> (Inl e, c1, w1)
      | (Inr r, c1, w1) \<Rightarrow> (Inr (rr_Result r), c1, w1))"

text \<open>
  Blocks (btcd's \<open>wire.MsgBlock\<close>), and the functions of btcd on blocks and headers. \<open>k_CalcMerkleRoot\<close>
  is \<open>blockchain.CalcMerkleRoot\<close> without the witness flag, \<open>k_DoubleHashH\<close> is \<open>chainhash.DoubleHashH\<close>.
\<close>

record msgblock =
  mb_Header :: block_header
  mb_Transactions :: "msgtx list"

record btcd =
  k_SerializeBlock :: "msgblock \<Rightarrow> byte list option"
  k_DeserializeBlock :: "byte list \<Rightarrow> msgblock option"
  k_DeserializeHeader :: "byte list \<Rightarrow> block_header option"
  k_CalcMerkleRoot :: "msgtx list \<Rightarrow> hash"
  k_DoubleHashH :: "byte list \<Rightarrow> hash"

definition ProposeBlock ::
  "env \<Rightarrow> btcd \<Rightarrow> 'w world \<Rightarrow> msgblock \<Rightarrow> Client \<Rightarrow> 'w \<Rightarrow> (rpc_error + reason) \<times> Client \<times> 'w" where
  "ProposeBlock E K W blk c w =
     (case k_SerializeBlock K blk of
        None \<Rightarrow> (Inl SerializeFailed, c, w)
      | Some bs \<Rightarrow>
          (case Call E W ''getblocktemplate'' [JObj [(''mode'', JStr ''proposal''), (''data'', JStr (hex_EncodeToString bs)),
                  (''rules'', JArr [JStr ''segwit''])]] c w of
             (Inl e, c1, w1) \<Rightarrow> (Inl e, c1, w1)
           | (Inr r, c1, w1) \<Rightarrow>
               (Inr (case rr_Result r of
                       None \<Rightarrow> Reason ''accepted''
                     | Some JNull \<Rightarrow> Reason ''accepted''
                     | Some j \<Rightarrow> (case dec_string '''' j of
                         None \<Rightarrow> RawReason j
                       | Some rs \<Rightarrow> if rs = '''' then Reason ''accepted'' else Reason rs)), c1, w1)))"

definition SubmitBlock ::
  "env \<Rightarrow> btcd \<Rightarrow> 'w world \<Rightarrow> msgblock \<Rightarrow> Client \<Rightarrow> 'w \<Rightarrow> rpc_error option \<times> Client \<times> 'w" where
  "SubmitBlock E K W blk c w =
     (case k_SerializeBlock K blk of
        None \<Rightarrow> (Some SerializeFailed, c, w)
      | Some bs \<Rightarrow>
          (case Call E W ''submitblock'' [JStr (hex_EncodeToString bs)] c w of
             (Inl e, c1, w1) \<Rightarrow> (Some e, c1, w1)
           | (Inr r, c1, w1) \<Rightarrow>
               ((case rr_Result r of
                   None \<Rightarrow> None
                 | Some JNull \<Rightarrow> None
                 | Some j \<Rightarrow> (case dec_string '''' j of
                     Some rs \<Rightarrow> if rs \<noteq> '''' then Some (BlockRejected (Reason rs)) else Some (BlockRejected (RawReason j))
                   | None \<Rightarrow> Some (BlockRejected (RawReason j)))), c1, w1)))"

subsection \<open>Requests sent and replies trusted\<close>

text \<open>The world after \<open>n\<close> exchanges of the request \<open>rq\<close>.\<close>

fun exchanges :: "'w world \<Rightarrow> RPCRequest \<Rightarrow> nat \<Rightarrow> 'w \<Rightarrow> 'w \<Rightarrow> bool" where
  "exchanges W rq 0 w w' = (w' = w)"
| "exchanges W rq (Suc n) w w' = (\<exists>ep auth. exchanges W rq n (snd (w_Do W w ep auth rq)) w')"

text \<open>The server's reply: the last exchange gave a 2xx status and the response \<open>r\<close> without an error.\<close>

definition replied :: "'w world \<Rightarrow> RPCRequest \<Rightarrow> RPCResponse \<Rightarrow> 'w \<Rightarrow> bool" where
  "replied W rq r w' = (\<exists>w ep auth st j. w_Do W w ep auth rq = (Some (st, Json j), w')
     \<and> 200 \<le> st \<and> st < 300 \<and> dec_RPCResponse j = Some r \<and> rr_Error r = None)"

definition request_of :: "string \<Rightarrow> json list \<Rightarrow> RPCRequest" where
  "request_of meth params = \<lparr>rq_Method = meth, rq_Params = params, rq_ID = 1, rq_Jsonrpc = ''2.0''\<rparr>"

text \<open>What one exchange of a call gives: the outcome, or the retry after a 401.\<close>

lemma callInternal_cases:
  assumes "callInternal E W meth params retry c w = (res, c', w')"
  obtains (refused) "res = Inl BadEndpoint" "w' = w"
  | (once) ep auth where "w' = snd (w_Do W w ep auth (request_of meth params))"
      "\<And>r. res = Inr r \<Longrightarrow> replied W (request_of meth params) r w'"
      "\<And>e. res = Inl e \<Longrightarrow> (\<forall>rs. e \<noteq> BlockRejected rs) \<and> e \<noteq> SerializeFailed \<and> e \<noteq> DecodeFailed"
  | (again) ep auth c2 where "\<not> retry"
      "callInternal E W meth params True c2 (snd (w_Do W w ep auth (request_of meth params))) = (res, c', w')"
proof (cases "w_UrlOk W (cl_endpoint c)")
  case False
  then show ?thesis using assms refused by (simp add: callInternal.simps[of E W meth params retry] Let_def)
next
  case True
  define c1 where "c1 = (if cl_password c = '''' \<or> cl_cookieFile c \<noteq> '''' then snd (loadCookie E W w c) else c)"
  let ?ep = "cl_endpoint c1" and ?au = "(cl_username c1, cl_password c1)"
  obtain resp w1 where d: "w_Do W w ?ep ?au (request_of meth params) = (resp, w1)" by fastforce
  note s = assms[unfolded callInternal.simps[of E W meth params retry c] Let_def request_of_def[symmetric] c1_def[symmetric] d]
  show ?thesis
  proof (cases resp)
    case None
    then show ?thesis using s True once[of ?ep ?au] d by auto
  next
    case (Some sb)
    obtain st b where sb: "sb = (st, b)" by fastforce
    obtain ok c2 where l: "(if st = 401 \<and> \<not> retry then loadCookie E W w1 c1 else (False, c1)) = (ok, c2)" by fastforce
    show ?thesis
    proof (cases ok)
      case t: True
      then have "\<not> retry" using l by (auto split: if_splits)
      then show ?thesis using again[of c2 ?ep ?au] s True Some sb l t d by simp
    next
      case f: False
      have "replied W (request_of meth params) r w'" if t: "res = Inr r" for r
      proof -
        obtain j where j: "b = Json j" "200 \<le> st \<and> st < 300" "dec_RPCResponse j = Some r" "rr_Error r = None" "w' = w1"
          using s True Some sb l f t by (auto simp: dec_body_def not_less not_le split: if_splits option.splits body.splits)
        then show ?thesis unfolding replied_def using d Some sb by blast
      qed
      moreover have "w' = w1" using s True Some sb l f by (auto split: if_splits option.splits)
      moreover have "(\<forall>rs. e \<noteq> BlockRejected rs) \<and> e \<noteq> SerializeFailed \<and> e \<noteq> DecodeFailed" if t: "res = Inl e" for e
        using s True Some sb l f t by (auto split: if_splits option.splits)
      ultimately show ?thesis using once[of ?ep ?au] d by auto
    qed
  qed
qed

text \<open>A call sends its request at most twice, and its answer is one the server gave with a 2xx status.\<close>

lemma callInternal_answer:
  assumes "callInternal E W meth params retry c w = (res, c', w')"
  shows "\<exists>n \<le> (if retry then 1 else 2). exchanges W (request_of meth params) n w w'"
    and "res = Inr r \<Longrightarrow> replied W (request_of meth params) r w'"
    and "res = Inl e \<Longrightarrow> (\<forall>rs. e \<noteq> BlockRejected rs) \<and> e \<noteq> SerializeFailed \<and> e \<noteq> DecodeFailed"
proof -
  have one: "\<exists>n \<le> 1. exchanges W (request_of meth params) n w w'" "res = Inr r \<longrightarrow> replied W (request_of meth params) r w'"
    "res = Inl e \<longrightarrow> (\<forall>rs. e \<noteq> BlockRejected rs) \<and> e \<noteq> SerializeFailed \<and> e \<noteq> DecodeFailed"
    if "callInternal E W meth params True c w = (res, c', w')" for c w
    using that by (rule callInternal_cases; fastforce intro: exI[of _ "0::nat"] exI[of _ "1::nat"])+
  show "\<exists>n \<le> (if retry then 1 else 2). exchanges W (request_of meth params) n w w'"
    using assms
  proof (cases rule: callInternal_cases)
    case refused
    then show ?thesis by (auto intro: exI[of _ "0::nat"])
  next
    case (once ep auth)
    then have "exchanges W (request_of meth params) 1 w w'" unfolding One_nat_def exchanges.simps by blast
    then show ?thesis by (rule exI[of _ "1::nat", OF conjI, rotated]) simp
  next
    case (again ep auth c2)
    obtain n where "n \<le> 1" "exchanges W (request_of meth params) n (snd (w_Do W w ep auth (request_of meth params))) w'"
      using one(1)[OF again(2)] by blast
    then have "Suc n \<le> 2" "exchanges W (request_of meth params) (Suc n) w w'"
      unfolding exchanges.simps by (simp, blast)
    then show ?thesis using again(1) by (intro exI[of _ "Suc n"] conjI) simp_all
  qed
  show "res = Inr r \<Longrightarrow> replied W (request_of meth params) r w'"
    using assms by (rule callInternal_cases) (use one(2) in blast)+
  show "res = Inl e \<Longrightarrow> (\<forall>rs. e \<noteq> BlockRejected rs) \<and> e \<noteq> SerializeFailed \<and> e \<noteq> DecodeFailed"
    using assms by (rule callInternal_cases) (use one(3) in blast)+
qed

text \<open>
  A block is accepted exactly by the node: \<open>SubmitBlock\<close> returns no error only when the block was
  serialised, the request \<open>submitblock\<close> with its bytes was sent once or twice, and the node's reply had
  a 2xx status, no error and no reason; a rejection carries a reason the node replied with.
\<close>

theorem SubmitBlock_sound:
  assumes "SubmitBlock E K W blk c w = (err, c', w')" and "err = None \<or> (\<exists>rs. err = Some (BlockRejected rs))"
  shows "\<exists>bs r n. k_SerializeBlock K blk = Some bs \<and> n \<le> 2
    \<and> exchanges W (request_of ''submitblock'' [JStr (hex_EncodeToString bs)]) n w w'
    \<and> replied W (request_of ''submitblock'' [JStr (hex_EncodeToString bs)]) r w'
    \<and> (err = None \<longleftrightarrow> rr_Result r \<in> {None, Some JNull})"
proof -
  obtain bs where bs: "k_SerializeBlock K blk = Some bs"
    using assms by (cases "k_SerializeBlock K blk") (auto simp: SubmitBlock_def)
  let ?rq = "[JStr (hex_EncodeToString bs)]"
  obtain res c1 w1 where r: "callInternal E W ''submitblock'' ?rq False c w = (res, c1, w1)" by (metis prod_cases3)
  note s = assms(1)[unfolded SubmitBlock_def bs Call_def r option.case]
  have w: "w1 = w'" using s by (auto split: sum.splits)
  obtain x where x: "res = Inr x"
    using callInternal_answer(3)[OF r] s assms(2) by (cases res) auto
  have "err = None \<longleftrightarrow> rr_Result x \<in> {None, Some JNull}"
    using s unfolding x by (auto split: option.splits json.splits if_splits)
  then show ?thesis
    using bs callInternal_answer(1)[OF r] callInternal_answer(2)[OF r x] w by auto
qed

text \<open>
  Which failures are retried: never a success, a rejection or an answered RPC error other than the
  warm-up; an HTTP failure when its body says warm-up, or carries no error and the status is 5xx.
\<close>

theorem IsTransient_spec:
  "IsTransient None = False" "IsTransient (Some (BlockRejected r)) = False"
  "IsTransient (Some (RPCErr e)) = (re_Code e = - 28)" "IsTransient (Some Transport)"
  "IsTransient (Some (HTTPErr st (BadJson t))) = (500 \<le> st)"
  "IsTransient (Some (HTTPErr st (Json (JObj [(''error'', JObj [(''code'', JInt n), (''message'', JStr m)])]))))
     = (if - int64 \<le> n \<and> n < int64 then n = - 28 else 500 \<le> st)"
  by (simp_all add: IsTransient_def rpcInWarmup_def dec_body_def dec_RPCResponse_def dec_struct_def is_field_def
      to_lower_def dec_RPCError_def dec_int_def dec_string_def)

subsection \<open>Examples\<close>

text \<open>A node that counts its requests, asks for the cookie's password and accepts every block.\<close>

definition demo_world :: "nat world" where
  "demo_world = \<lparr>w_HomeDir = ''/home/n'', w_AppData = '''',
     w_ReadFile = (\<lambda>w p. if p = ''/home/n/.vertcoin/.cookie'' then Some ''u:secret'' else None),
     w_Stat = (\<lambda>w p. p = ''/home/n/.vertcoin/.cookie''), w_UrlOk = (\<lambda>u. True),
     w_Do = (\<lambda>w ep auth rq. (if auth = (''u'', ''secret'') then Some (200, Json (JObj [(''result'', JNull)]))
                             else Some (401, BadJson ''''), Suc w))\<rparr>"

definition demo_client :: Client where
  "demo_client = \<lparr>cl_endpoint = ''http://127.0.0.1:5888'', cl_username = ''a'', cl_password = ''old'', cl_cookieFile = ''''\<rparr>"

definition demo_btcd :: btcd where
  "demo_btcd = \<lparr>k_SerializeBlock = (\<lambda>b. Some [1, 2]), k_DeserializeBlock = (\<lambda>b. None), k_DeserializeHeader = (\<lambda>b. None),
     k_CalcMerkleRoot = (\<lambda>ts. replicate 32 0), k_DoubleHashH = (\<lambda>b. replicate 32 0)\<rparr>"

lemma demo_cookie: "cookie_path demo_env demo_world w = ''/home/n/.vertcoin/.cookie''"
  by (simp add: cookie_path_def cookie_dirs_def demo_world_def demo_env_def demo_config_def path_Join_def path_Clean_def clean_part_def)

definition demo_authed :: Client where
  "demo_authed = demo_client\<lparr>cl_username := ''u'', cl_password := ''secret'', cl_cookieFile := ''/home/n/.vertcoin/.cookie''\<rparr>"

lemma demo_world_fields: "w_UrlOk demo_world u"
  "w_Do demo_world w ep auth rq = (if auth = (''u'', ''secret'') then Some (200, Json (JObj [(''result'', JNull)])) else Some (401, BadJson ''''), Suc w)"
  by (simp_all add: demo_world_def)

lemma demo_loadCookie: "loadCookie demo_env demo_world w demo_client = (True, demo_authed)"
  "loadCookie E demo_world w demo_authed = (True, demo_authed)"
  by (simp add: loadCookie_def demo_cookie demo_client_def demo_authed_def,
      simp add: demo_world_def split2_def trim_space_def is_space_def)+

lemma demo_response: "dec_body (Json (JObj [(''result'', JNull)])) = Some \<lparr>rr_Result = Some JNull, rr_Error = None, rr_ID = 0\<rparr>"
  by (simp add: dec_body_def dec_RPCResponse_def dec_struct_def is_field_def to_lower_def)

lemma demo_call:
  "callInternal E demo_world m ps retry demo_authed w = (Inr \<lparr>rr_Result = Some JNull, rr_Error = None, rr_ID = 0\<rparr>, demo_authed, Suc w)"
  "callInternal demo_env demo_world m ps False demo_client w = (Inr \<lparr>rr_Result = Some JNull, rr_Error = None, rr_ID = 0\<rparr>, demo_authed, Suc (Suc w))"
proof -
  have a: "cl_username demo_authed = ''u''" "cl_password demo_authed = ''secret''" "cl_cookieFile demo_authed \<noteq> ''''"
    "cl_password demo_client = ''old''" "cl_cookieFile demo_client = ''''" by (simp_all add: demo_authed_def demo_client_def)
  show f: "callInternal E demo_world m ps retry demo_authed w = (Inr \<lparr>rr_Result = Some JNull, rr_Error = None, rr_ID = 0\<rparr>, demo_authed, Suc w)"
    for E retry w
    by (subst callInternal.simps) (simp add: demo_world_fields demo_loadCookie a demo_response)
  show "callInternal demo_env demo_world m ps False demo_client w = (Inr \<lparr>rr_Result = Some JNull, rr_Error = None, rr_ID = 0\<rparr>, demo_authed, Suc (Suc w))"
    by (subst callInternal.simps) (simp add: demo_world_fields demo_loadCookie a f)
qed

lemma demo_submit: "SubmitBlock demo_env demo_btcd demo_world blk demo_client 0 = (None, demo_authed, 2)"
  by (simp add: SubmitBlock_def Call_def demo_call demo_btcd_def)

theorem SubmitBlock_sound_witness:
  "\<exists>r n. n \<le> 2 \<and> exchanges demo_world (request_of ''submitblock'' [JStr ''0102'']) n 0 2
    \<and> replied demo_world (request_of ''submitblock'' [JStr ''0102'']) r 2 \<and> rr_Result r \<in> {None, Some JNull}"
  using SubmitBlock_sound[OF demo_submit[of undefined]]
  by (auto simp: demo_btcd_def hex_EncodeToString_def hex_digit_def)

end
