(* ===== verification/FoundBlocks.thy ===== *)
theory FoundBlocks
  imports Rpc ShareCheck "HOL-Library.Multiset"
begin

text \<open>
  The work manager's state and the list of blocks the pool has found (\<open>work/manager.go\<close>): loading and
  saving \<open>blocks.json\<close>, blocks found by peers, maturing, merging a peer's list and the queries of the
  dashboard. The file is part of the state (\<open>wm_file\<close>), with \<open>wm_fileOk\<close> whether a write succeeds; its
  text is the list it encodes, or \<open>None\<close> when it does not decode. A \<open>BlockState\<close> is an \<open>int\<close>, since a
  peer may send any number. The lemmas show that at most one block is recorded per height, that a
  restart restores the list except its \<open>Confirmed\<close> marks, and how blocks mature and leave the list.
\<close>

type_synonym BlockState = int

definition StatePending :: BlockState where "StatePending = 0"
definition StateMature :: BlockState where "StateMature = 1"
definition StatePaid :: BlockState where "StatePaid = 2"
definition StateOrphan :: BlockState where "StateOrphan = 3"

lemmas state_defs = StatePending_def StateMature_def StatePaid_def StateOrphan_def

record PayoutBlock =
  pb_BlockHash :: "hash option"
  pb_BlockFindShareHash :: "hash option"
  pb_BlockHeight :: u32
  pb_FoundTime :: time
  pb_State :: BlockState
  pb_Confirmed :: bool

record persistedBlock =
  db_BlockHash :: string
  db_ShareHash :: string
  db_BlockHeight :: u32
  db_FoundTime :: time
  db_State :: BlockState
  db_Confirmed :: bool

record peerTmplVote =
  v_peerID :: string
  v_pinned :: bool
  v_prev :: string
  v_txHash :: string
  v_bits :: string
  v_height :: int
  v_txs :: "BlockTemplateTx list"
  v_ts :: time

datatype blocks_file = NoBlocksFile | BadBlocksFile | BlocksFile "persistedBlock list option"

text \<open>
  \<open>wm_NewBlockChan\<close> holds the templates queued in the channel, \<open>wm_ForceNewTemplate\<close> the tokens in its
  one-place channel, \<open>wm_broadcast\<close> and \<open>wm_relayed\<close> what was handed to \<open>OnTemplateBroadcast\<close> and
  \<open>RelayBlockHexFunc\<close>.
\<close>

record WorkManager =
  wm_client :: Client
  wm_ShareChain :: ShareChain
  wm_Templates :: "(string, BlockTemplate) gomap"
  wm_PendingBlocks :: "PayoutBlock list"
  wm_NewBlockChan :: "BlockTemplate list"
  wm_ForceNewTemplate :: nat
  wm_broadcast :: "BlockTemplate list"
  wm_relayed :: "string list"
  wm_lastBroadcast :: time
  wm_peerTmpl :: "(string, peerTmplVote) gomap"
  wm_peerScores :: "(string, int) gomap"
  wm_seenBlocks :: "(string, time) gomap"
  wm_lastRPCOk :: bool
  wm_lastAgreedTime :: time
  wm_lastBlockUpdate :: time
  wm_verifiedBlocks :: "(string, bool) gomap"
  wm_cachedPrevHdrHex :: string
  wm_cachedPrevHash :: string
  wm_cachedAncestorsHex :: "string list"
  wm_file :: blocks_file
  wm_fileOk :: bool

text \<open>The zero \<open>time.Time\<close>: the first of January of the year 1.\<close>

definition zeroTime :: time where "zeroTime = seconds (- 62135596800)"

abbreviation zeroHash :: hash where "zeroHash \<equiv> genesisHash"

definition minutes :: "int \<Rightarrow> time" where "minutes n = seconds (60 * n)"

subsection \<open>The file of found blocks\<close>

definition hash_or_zero :: "env \<Rightarrow> string \<Rightarrow> hash" where
  "hash_or_zero E s = (case e_NewHashFromStr E s of Some h \<Rightarrow> h | None \<Rightarrow> zeroHash)"

definition hash_text :: "env \<Rightarrow> hash option \<Rightarrow> string" where
  "hash_text E h = (case h of Some x \<Rightarrow> e_HashString E x | None \<Rightarrow> '''')"

definition to_disk :: "env \<Rightarrow> PayoutBlock \<Rightarrow> persistedBlock" where
  "to_disk E pb = \<lparr>db_BlockHash = hash_text E (pb_BlockHash pb), db_ShareHash = hash_text E (pb_BlockFindShareHash pb),
     db_BlockHeight = pb_BlockHeight pb, db_FoundTime = pb_FoundTime pb, db_State = pb_State pb, db_Confirmed = False\<rparr>"

definition saveBlocksLocked :: "env \<Rightarrow> WorkManager \<Rightarrow> WorkManager" where
  "saveBlocksLocked E wm =
     (if wm_fileOk wm then wm\<lparr>wm_file := BlocksFile (Some (map (to_disk E) (wm_PendingBlocks wm)))\<rparr> else wm)"

definition SaveBlocks :: "env \<Rightarrow> WorkManager \<Rightarrow> WorkManager" where
  "SaveBlocks E wm = saveBlocksLocked E wm"

definition from_disk :: "env \<Rightarrow> persistedBlock \<Rightarrow> PayoutBlock" where
  "from_disk E db = \<lparr>pb_BlockHash = Some (hash_or_zero E (db_BlockHash db)),
     pb_BlockFindShareHash = Some (hash_or_zero E (db_ShareHash db)), pb_BlockHeight = db_BlockHeight db,
     pb_FoundTime = db_FoundTime db, pb_State = db_State db, pb_Confirmed = db_Confirmed db\<rparr>"

definition dup_block :: "env \<Rightarrow> persistedBlock \<Rightarrow> PayoutBlock \<Rightarrow> bool" where
  "dup_block E db existing =
     ((0 <s pb_BlockHeight existing \<and> pb_BlockHeight existing = db_BlockHeight db)
      \<or> (hash_or_zero E (db_BlockHash db) \<noteq> zeroHash \<and> pb_BlockHash existing = Some (hash_or_zero E (db_BlockHash db))))"

definition load_block :: "env \<Rightarrow> PayoutBlock list \<Rightarrow> persistedBlock \<Rightarrow> PayoutBlock list" where
  "load_block E loaded db = (if list_ex (dup_block E db) loaded then loaded else loaded @ [from_disk E db])"

definition LoadBlocks :: "env \<Rightarrow> WorkManager \<Rightarrow> WorkManager" where
  "LoadBlocks E wm =
     (case wm_file wm of
        NoBlocksFile \<Rightarrow> wm
      | BadBlocksFile \<Rightarrow> wm
      | BlocksFile None \<Rightarrow> wm
      | BlocksFile (Some disk) \<Rightarrow>
          (let loaded = foldl (load_block E) [] disk; wm1 = wm\<lparr>wm_PendingBlocks := loaded\<rparr>
           in if length loaded < length disk then saveBlocksLocked E wm1 else wm1))"

definition NewWorkManager :: "env \<Rightarrow> Client \<Rightarrow> ShareChain \<Rightarrow> blocks_file \<Rightarrow> bool \<Rightarrow> WorkManager" where
  "NewWorkManager E c sc file ok =
     LoadBlocks E \<lparr>wm_client = c, wm_ShareChain = sc, wm_Templates = [], wm_PendingBlocks = [], wm_NewBlockChan = [],
       wm_ForceNewTemplate = 0, wm_broadcast = [], wm_relayed = [], wm_lastBroadcast = zeroTime, wm_peerTmpl = [],
       wm_peerScores = [], wm_seenBlocks = [], wm_lastRPCOk = False, wm_lastAgreedTime = zeroTime,
       wm_lastBlockUpdate = zeroTime, wm_verifiedBlocks = [], wm_cachedPrevHdrHex = '''', wm_cachedPrevHash = '''',
       wm_cachedAncestorsHex = [], wm_file = file, wm_fileOk = ok\<rparr>"

definition GetPersistedBlocksJSON :: "env \<Rightarrow> WorkManager \<Rightarrow> persistedBlock list" where
  "GetPersistedBlocksJSON E wm = map (to_disk E) (wm_PendingBlocks wm)"

text \<open>A peer's list; \<open>None\<close> when its text is empty or does not decode.\<close>

definition merge_block :: "env \<Rightarrow> PayoutBlock list \<times> nat \<Rightarrow> persistedBlock \<Rightarrow> PayoutBlock list \<times> nat" where
  "merge_block E acc rb =
     (if list_ex (\<lambda>pb. pb_BlockHeight pb = db_BlockHeight rb) (fst acc) then acc
      else (fst acc @ [(from_disk E rb)\<lparr>pb_Confirmed := False\<rparr>], Suc (snd acc)))"

definition MergeRemoteBlocksJSON :: "env \<Rightarrow> persistedBlock list option \<Rightarrow> WorkManager \<Rightarrow> nat \<times> WorkManager" where
  "MergeRemoteBlocksJSON E data wm =
     (case data of
        None \<Rightarrow> (0, wm)
      | Some remote \<Rightarrow>
          (let (pbs, added) = foldl (merge_block E) (wm_PendingBlocks wm, 0) remote;
               wm1 = wm\<lparr>wm_PendingBlocks := pbs\<rparr>
           in (added, if 0 < added then saveBlocksLocked E wm1 else wm1)))"

subsection \<open>Blocks found by peers\<close>

definition known_share_block :: "Share \<Rightarrow> PayoutBlock \<Rightarrow> bool" where
  "known_share_block s pb =
     ((pb_BlockFindShareHash pb \<noteq> None \<and> s_Hash s \<noteq> None \<and> pb_BlockFindShareHash pb = s_Hash s)
      \<or> pb_BlockHeight pb = si_AbsHeight (s_ShareInfo s))"

text \<open>The body of the loop of \<open>WatchFoundBlocks\<close>, for one share of the channel.\<close>

definition WatchFoundBlocks :: "env \<Rightarrow> Share \<Rightarrow> WorkManager \<Rightarrow> WorkManager" where
  "WatchFoundBlocks E s wm =
     (if list_ex (known_share_block s) (wm_PendingBlocks wm) then wm
      else (case FullBlockHeader E s of
              Inl e \<Rightarrow> wm
            | Inr header \<Rightarrow>
                (let bh = e_BlockHash E header
                 in if list_ex (\<lambda>pb. pb_BlockHash pb = Some bh) (wm_PendingBlocks wm) then wm
                    else saveBlocksLocked E (wm\<lparr>wm_PendingBlocks := wm_PendingBlocks wm @
                      [\<lparr>pb_BlockHash = Some bh, pb_BlockFindShareHash = s_Hash s, pb_BlockHeight = si_AbsHeight (s_ShareInfo s),
                        pb_FoundTime = seconds (share_ts s), pb_State = StatePending, pb_Confirmed = False\<rparr>]\<rparr>))))"

subsection \<open>Maturing\<close>

definition requiredConfirmations :: int where "requiredConfirmations = 100"

text \<open>What a reply to \<open>getblock\<close> makes of a pending block: its new state, and whether it is kept.\<close>

definition mature_reply :: "rpc_error + BlockInfo \<Rightarrow> (BlockState \<times> bool) option" where
  "mature_reply res =
     (case res of
        Inl (RPCErr e) \<Rightarrow> if re_Code e = - 5 then Some (StateOrphan, False) else None
      | Inl e \<Rightarrow> None
      | Inr b \<Rightarrow> if bi_Confirmations b < 0 then Some (StateOrphan, False)
                 else if requiredConfirmations \<le> bi_Confirmations b then Some (StatePaid, True) else None)"

text \<open>One block of a round: the block if it is kept, and whether something changed.\<close>

definition mature_block ::
  "env \<Rightarrow> 'w world \<Rightarrow> time \<Rightarrow> PayoutBlock \<Rightarrow> Client \<Rightarrow> 'w \<Rightarrow> PayoutBlock option \<times> bool \<times> Client \<times> 'w" where
  "mature_block E W now pb c w =
     (if pb_State pb = StatePaid \<or> pb_State pb = StateOrphan then
        (if seconds (7 * 24 * 3600) < now - pb_FoundTime pb then (None, True, c, w) else (Some pb, False, c, w))
      else if pb_State pb = StatePending then
        (case pb_BlockHash pb of
           None \<Rightarrow> (Some (pb\<lparr>pb_State := StatePaid\<rparr>), True, c, w)
         | Some h \<Rightarrow>
             if h = zeroHash then (Some (pb\<lparr>pb_State := StatePaid\<rparr>), True, c, w)
             else (let (res, c1, w1) = GetBlock E W h c w
                   in case mature_reply res of
                        None \<Rightarrow> (Some pb, False, c1, w1)
                      | Some (st, keep) \<Rightarrow> (if keep then Some (pb\<lparr>pb_State := st\<rparr>) else None, True, c1, w1)))
      else (Some pb, False, c, w))"

fun mature_loop ::
  "env \<Rightarrow> 'w world \<Rightarrow> time \<Rightarrow> PayoutBlock list \<Rightarrow> Client \<Rightarrow> 'w \<Rightarrow> PayoutBlock list \<times> bool \<times> Client \<times> 'w" where
  "mature_loop E W now [] c w = ([], False, c, w)"
| "mature_loop E W now (pb # pbs) c w =
     (let (kept, ch, c1, w1) = mature_block E W now pb c w;
          (kepts, chs, c2, w2) = mature_loop E W now pbs c1 w1
      in (case kept of Some b \<Rightarrow> b # kepts | None \<Rightarrow> kepts, ch \<or> chs, c2, w2))"

text \<open>One tick of \<open>WatchMaturedBlocks\<close>.\<close>

definition WatchMaturedBlocks :: "env \<Rightarrow> 'w world \<Rightarrow> time \<Rightarrow> WorkManager \<Rightarrow> 'w \<Rightarrow> WorkManager \<times> 'w" where
  "WatchMaturedBlocks E W now wm w =
     (if c_LightMode (e_Active E) then (wm, w)
      else (let (kept, changed, c1, w1) = mature_loop E W now (wm_PendingBlocks wm) (wm_client wm) w;
                wm1 = wm\<lparr>wm_PendingBlocks := kept, wm_client := c1\<rparr>
            in (if changed then saveBlocksLocked E wm1 else wm1, w1)))"

subsection \<open>Queries\<close>

definition IsSynced :: "time \<Rightarrow> WorkManager \<Rightarrow> bool" where
  "IsSynced now wm = (now - wm_lastBlockUpdate wm < minutes 5)"

definition IsRPCHealthy :: "WorkManager \<Rightarrow> bool" where
  "IsRPCHealthy wm = wm_lastRPCOk wm"

text \<open>\<open>GetRecentBlocks\<close> sorts the list in place; \<open>make\<close> panics on a negative count.\<close>

definition GetRecentBlocks :: "int \<Rightarrow> WorkManager \<Rightarrow> PayoutBlock list option \<times> WorkManager" where
  "GetRecentBlocks cnt wm =
     (let pbs = sort_key (\<lambda>pb. - sint (pb_BlockHeight pb)) (wm_PendingBlocks wm)
      in (if cnt < 0 then None else Some (take (nat cnt) pbs), wm\<lparr>wm_PendingBlocks := pbs\<rparr>))"

definition GetLastBlockFoundTime :: "WorkManager \<Rightarrow> time" where
  "GetLastBlockFoundTime wm = foldl (\<lambda>t b. if t < pb_FoundTime b then pb_FoundTime b else t) zeroTime (wm_PendingBlocks wm)"

definition GetBlocksFoundInLast :: "time \<Rightarrow> time \<Rightarrow> WorkManager \<Rightarrow> nat" where
  "GetBlocksFoundInLast now window wm =
     length (filter (\<lambda>pb. now - window < pb_FoundTime pb \<and> pb_State pb \<noteq> StateOrphan) (wm_PendingBlocks wm))"

subsection \<open>At most one block per height\<close>

definition one_per_height :: "PayoutBlock list \<Rightarrow> bool" where
  "one_per_height pbs = distinct (map pb_BlockHeight (filter (\<lambda>pb. 0 <s pb_BlockHeight pb) pbs))"

lemma one_per_height_Nil [simp]: "one_per_height []"
  by (simp add: one_per_height_def)

lemma one_per_height_snoc:
  "one_per_height (pbs @ [b]) \<longleftrightarrow> one_per_height pbs \<and> (0 <s pb_BlockHeight b \<longrightarrow> (\<forall>p \<in> set pbs. pb_BlockHeight p \<noteq> pb_BlockHeight b))"
  by (auto simp: one_per_height_def) (metis (mono_tags, lifting) image_eqI mem_Collect_eq)

lemma one_per_height_mset: "mset pbs = mset qs \<Longrightarrow> one_per_height pbs \<longleftrightarrow> one_per_height qs"
  unfolding one_per_height_def by (metis mset_eq_imp_distinct_iff mset_filter mset_map)

lemma one_per_height_heights:
  assumes "map pb_BlockHeight pbs = map pb_BlockHeight qs"
  shows "one_per_height pbs \<longleftrightarrow> one_per_height qs"
  using arg_cong[OF assms, of "filter (\<lambda>h. 0 <s h)"] by (simp add: one_per_height_def filter_map o_def)

text \<open>
  Every operation that records a block first looks for a known one. The contract: a recorded block
  of a positive height is known once its height is in the list.
\<close>

locale block_recorder =
  fixes known :: "'x \<Rightarrow> PayoutBlock \<Rightarrow> bool" and made :: "'x \<Rightarrow> PayoutBlock"
  assumes known_height: "0 <s pb_BlockHeight (made x) \<Longrightarrow> pb_BlockHeight b = pb_BlockHeight (made x) \<Longrightarrow> known x b"
begin

lemma record_one:
  "one_per_height pbs \<Longrightarrow> one_per_height (if list_ex (known x) pbs then pbs else pbs @ [made x])"
  using known_height by (auto simp: one_per_height_snoc list_ex_iff)

lemma record_all:
  "one_per_height pbs \<Longrightarrow> one_per_height (foldl (\<lambda>l x. if list_ex (known x) l then l else l @ [made x]) pbs xs)"
  by (induction xs arbitrary: pbs) (simp_all add: record_one del: if_split)

end

interpretation disk: block_recorder "dup_block E" "from_disk E"
  by unfold_locales (auto simp: dup_block_def from_disk_def)

interpretation remote: block_recorder "\<lambda>rb pb. pb_BlockHeight pb = db_BlockHeight rb" "\<lambda>rb. (from_disk E rb)\<lparr>pb_Confirmed := False\<rparr>"
  by unfold_locales (auto simp: from_disk_def)

definition share_block :: "Share \<times> hash \<Rightarrow> PayoutBlock" where
  "share_block x = \<lparr>pb_BlockHash = Some (snd x), pb_BlockFindShareHash = s_Hash (fst x),
     pb_BlockHeight = si_AbsHeight (s_ShareInfo (fst x)), pb_FoundTime = seconds (share_ts (fst x)), pb_State = StatePending,
     pb_Confirmed = False\<rparr>"

interpretation found: block_recorder "\<lambda>x pb. known_share_block (fst x) pb" share_block
  by unfold_locales (auto simp: known_share_block_def share_block_def)

lemma pending_save [simp]: "wm_PendingBlocks (saveBlocksLocked E wm) = wm_PendingBlocks wm"
  by (simp add: saveBlocksLocked_def)

lemma LoadBlocks_one_per_height: "one_per_height (wm_PendingBlocks wm) \<Longrightarrow> one_per_height (wm_PendingBlocks (LoadBlocks E wm))"
  using disk.record_all[of "[]" E]
  by (auto simp: LoadBlocks_def load_block_def[abs_def] Let_def split: blocks_file.split option.split)

lemma merge_fold: "fst (foldl (merge_block E) acc rs) = foldl (\<lambda>l rb. if list_ex (\<lambda>pb. pb_BlockHeight pb = db_BlockHeight rb) l then l
     else l @ [(from_disk E rb)\<lparr>pb_Confirmed := False\<rparr>]) (fst acc) rs"
  by (induction rs arbitrary: acc) (simp_all add: merge_block_def)

lemma Merge_one_per_height:
  "one_per_height (wm_PendingBlocks wm) \<Longrightarrow> one_per_height (wm_PendingBlocks (snd (MergeRemoteBlocksJSON E data wm)))"
  using remote.record_all[of "wm_PendingBlocks wm"] merge_fold[of E "(wm_PendingBlocks wm, 0)"]
  by (auto simp: MergeRemoteBlocksJSON_def case_prod_beta Let_def split: option.split)

lemma WatchFound_one_per_height:
  assumes "one_per_height (wm_PendingBlocks wm)"
  shows "one_per_height (wm_PendingBlocks (WatchFoundBlocks E s wm))"
proof -
  have "\<not> list_ex (known_share_block s) (wm_PendingBlocks wm) \<Longrightarrow> one_per_height (wm_PendingBlocks wm @ [share_block (s, bh)])" for bh
    using found.record_one[OF assms, of "(s, bh)"] by simp
  then show ?thesis
    using assms by (auto simp: WatchFoundBlocks_def Let_def share_block_def split: sum.split)
qed

lemma recent_one_per_height:
  "one_per_height (wm_PendingBlocks (snd (GetRecentBlocks n wm))) = one_per_height (wm_PendingBlocks wm)"
  by (simp add: GetRecentBlocks_def Let_def) (rule one_per_height_mset, simp)

subsection \<open>Restart\<close>

text \<open>A block as it comes back from the file.\<close>

definition reloaded :: "PayoutBlock \<Rightarrow> PayoutBlock" where
  "reloaded pb = pb\<lparr>pb_BlockHash := Some (case pb_BlockHash pb of Some h \<Rightarrow> h | None \<Rightarrow> zeroHash),
     pb_BlockFindShareHash := Some (case pb_BlockFindShareHash pb of Some h \<Rightarrow> h | None \<Rightarrow> zeroHash), pb_Confirmed := False\<rparr>"

text \<open>Hash strings parse back, and the empty string to nothing or the zero hash (\<open>chainhash\<close>).\<close>

definition hash_texts :: "env \<Rightarrow> bool" where
  "hash_texts E = ((\<forall>h. length h = 32 \<longrightarrow> e_NewHashFromStr E (e_HashString E h) = Some h) \<and> hash_or_zero E '''' = zeroHash)"

definition hashes_ok :: "PayoutBlock list \<Rightarrow> bool" where
  "hashes_ok pbs = (distinct (map (pb_BlockHash o reloaded) (filter (\<lambda>pb. pb_BlockHash (reloaded pb) \<noteq> Some zeroHash) pbs))
     \<and> list_all (\<lambda>pb. (\<forall>h \<in> set_option (pb_BlockHash pb) \<union> set_option (pb_BlockFindShareHash pb). length h = 32)) pbs)"

lemma hash_text_back:
  assumes "hash_texts E" "\<forall>x \<in> set_option h. length x = 32"
  shows "hash_or_zero E (hash_text E h) = (case h of Some x \<Rightarrow> x | None \<Rightarrow> zeroHash)"
  using assms by (cases h) (simp_all add: hash_texts_def hash_text_def hash_or_zero_def)

lemma disk_back:
  assumes "hash_texts E" "\<forall>h \<in> set_option (pb_BlockHash pb) \<union> set_option (pb_BlockFindShareHash pb). length h = 32"
  shows "from_disk E (to_disk E pb) = reloaded pb"
  using assms by (simp add: from_disk_def to_disk_def reloaded_def hash_text_back)

lemma distinct_before:
  assumes "distinct (map f (filter (\<lambda>x. Q (f x)) (ps @ b # qs)))" "p \<in> set ps" "Q (f b)"
  shows "f p \<noteq> f b"
proof
  assume e: "f p = f b"
  then have "p \<in> set (filter (\<lambda>x. Q (f x)) ps)" using assms(2,3) by simp
  then have "f p \<in> set (map f (filter (\<lambda>x. Q (f x)) ps))" unfolding set_map by (rule imageI)
  then show False using assms(1,3) unfolding e by simp
qed

lemma load_saved:
  assumes "hash_texts E" "one_per_height (ps @ pbs)" "hashes_ok (ps @ pbs)"
  shows "foldl (load_block E) (map reloaded ps) (map (to_disk E) pbs) = map reloaded (ps @ pbs)"
  using assms(2,3)
proof (induction pbs arbitrary: ps)
  case (Cons b pbs)
  have l: "\<forall>h \<in> set_option (pb_BlockHash b) \<union> set_option (pb_BlockFindShareHash b). length h = 32"
    using Cons.prems(2) by (simp add: hashes_ok_def)
  have h: "hash_or_zero E (db_BlockHash (to_disk E b)) = the (pb_BlockHash (reloaded b))"
    using l hash_text_back[OF assms(1)] by (simp add: to_disk_def reloaded_def)
  have "\<not> dup_block E (to_disk E b) (reloaded p)" if p: "p \<in> set ps" for p
  proof -
    have "\<not> (0 <s pb_BlockHeight p \<and> pb_BlockHeight p = pb_BlockHeight b)"
      using distinct_before[of pb_BlockHeight "\<lambda>h. 0 <s h" ps b pbs p] Cons.prems(1) p unfolding one_per_height_def by auto
    moreover have "pb_BlockHash (reloaded b) \<noteq> Some zeroHash \<Longrightarrow> pb_BlockHash (reloaded p) \<noteq> pb_BlockHash (reloaded b)"
      using distinct_before[of "pb_BlockHash o reloaded" "\<lambda>h. h \<noteq> Some zeroHash" ps b pbs p] Cons.prems(2) p
      unfolding hashes_ok_def by simp
    ultimately show ?thesis by (auto simp: dup_block_def h) (simp_all add: reloaded_def to_disk_def)
  qed
  then have "load_block E (map reloaded ps) (to_disk E b) = map reloaded (ps @ [b])"
    by (auto simp: load_block_def list_ex_iff disk_back[OF assms(1) l])
  then show ?case using Cons.IH[of "ps @ [b]"] Cons.prems by simp
qed simp

text \<open>
  A restart after a successful save restores the found blocks in order, with their hashes, heights,
  times and states; every \<open>Confirmed\<close> mark is lost, since \<open>saveBlocksLocked\<close> does not write it.
\<close>

theorem restart_blocks:
  assumes "hash_texts E" "wm_fileOk wm" "one_per_height (wm_PendingBlocks wm)" "hashes_ok (wm_PendingBlocks wm)"
  shows "wm_PendingBlocks (NewWorkManager E c sc (wm_file (saveBlocksLocked E wm)) ok) = map reloaded (wm_PendingBlocks wm)"
  using load_saved[of E "[]" "wm_PendingBlocks wm"] assms
  by (simp add: NewWorkManager_def saveBlocksLocked_def LoadBlocks_def Let_def)

subsection \<open>The life of a found block\<close>

text \<open>What a round makes of a block: kept as it is, paid, or dropped, and why.\<close>

inductive matures :: "env \<Rightarrow> 'w world \<Rightarrow> time \<Rightarrow> PayoutBlock \<Rightarrow> PayoutBlock option \<Rightarrow> bool"
  for E :: env and W :: "'w world" and now :: time where
  keep: "matures E W now pb (Some pb)"
| no_hash: "pb_State pb = StatePending \<Longrightarrow> pb_BlockHash pb \<in> {None, Some zeroHash} \<Longrightarrow>
    matures E W now pb (Some (pb\<lparr>pb_State := StatePaid\<rparr>))"
| mature: "pb_State pb = StatePending \<Longrightarrow> pb_BlockHash pb = Some h \<Longrightarrow> GetBlock E W h c w = (Inr b, c1, w1) \<Longrightarrow>
    100 \<le> bi_Confirmations b \<Longrightarrow> matures E W now pb (Some (pb\<lparr>pb_State := StatePaid\<rparr>))"
| orphan: "pb_State pb = StatePending \<Longrightarrow> pb_BlockHash pb = Some h \<Longrightarrow> GetBlock E W h c w = (res, c1, w1) \<Longrightarrow>
    (case res of Inr b \<Rightarrow> bi_Confirmations b < 0 | Inl e \<Rightarrow> \<exists>r. e = RPCErr r \<and> re_Code r = - 5) \<Longrightarrow> matures E W now pb None"
| old: "pb_State pb \<in> {StatePaid, StateOrphan} \<Longrightarrow> seconds (7 * 24 * 3600) < now - pb_FoundTime pb \<Longrightarrow> matures E W now pb None"

lemma mature_reply_cases:
  "mature_reply res = Some (st, k) \<longleftrightarrow>
    (st = StateOrphan \<and> \<not> k \<and> (case res of Inr b \<Rightarrow> bi_Confirmations b < 0 | Inl e \<Rightarrow> \<exists>r. e = RPCErr r \<and> re_Code r = - 5))
    \<or> (st = StatePaid \<and> k \<and> (\<exists>b. res = Inr b \<and> 100 \<le> bi_Confirmations b))"
  by (auto simp: mature_reply_def requiredConfirmations_def split: sum.splits rpc_error.splits if_splits)

lemma mature_block_matures: "matures E W now pb (fst (mature_block E W now pb c w))"
proof (cases "pb_State pb = StatePending \<and> pb_BlockHash pb \<notin> {None, Some zeroHash}")
  case True
  then obtain h where h: "pb_BlockHash pb = Some h" "h \<noteq> zeroHash" "pb_State pb = StatePending" by auto
  obtain res c1 w1 where r: "GetBlock E W h c w = (res, c1, w1)" by (metis prod_cases3)
  have e: "fst (mature_block E W now pb c w) =
      (case mature_reply res of None \<Rightarrow> Some pb | Some (st, k) \<Rightarrow> if k then Some (pb\<lparr>pb_State := st\<rparr>) else None)"
    using h by (simp add: mature_block_def r state_defs split: option.split prod.split)
  show ?thesis
  proof (cases "mature_reply res")
    case None
    then show ?thesis by (simp add: e matures.keep)
  next
    case (Some sk)
    obtain st k where sk: "sk = (st, k)" by fastforce
    consider "sk = (StateOrphan, False)" "case res of Inr b \<Rightarrow> bi_Confirmations b < 0 | Inl e \<Rightarrow> \<exists>r. e = RPCErr r \<and> re_Code r = - 5"
      | b where "sk = (StatePaid, True)" "res = Inr b" "100 \<le> bi_Confirmations b"
      using Some[unfolded sk mature_reply_cases] unfolding sk by (elim disjE conjE exE) simp_all
    then show ?thesis
    proof cases
      case 1
      then show ?thesis using matures.orphan[OF h(3,1) r] Some e by simp
    next
      case 2
      then show ?thesis using matures.mature[OF h(3,1) r[unfolded 2]] Some e by simp
    qed
  qed
next
  case False
  then show ?thesis
    by (auto simp: mature_block_def state_defs split: option.splits intro: matures.intros[unfolded state_defs])
qed

fun kept_blocks :: "PayoutBlock option list \<Rightarrow> PayoutBlock list" where
  "kept_blocks [] = []"
| "kept_blocks (None # rs) = kept_blocks rs"
| "kept_blocks (Some b # rs) = b # kept_blocks rs"

lemma mature_loop_matures:
  "\<exists>rs. list_all2 (matures E W now) pbs rs \<and> fst (mature_loop E W now pbs c w) = kept_blocks rs"
proof (induction pbs arbitrary: c w)
  case Nil
  then show ?case by simp
next
  case (Cons pb pbs)
  obtain kept ch c1 w1 where b: "mature_block E W now pb c w = (kept, ch, c1, w1)" by (metis prod_cases4)
  obtain kepts chs c2 w2 where l: "mature_loop E W now pbs c1 w1 = (kepts, chs, c2, w2)" by (metis prod_cases4)
  obtain rs where rs: "list_all2 (matures E W now) pbs rs" "kepts = kept_blocks rs" using Cons[of c1 w1] l by auto
  have "list_all2 (matures E W now) (pb # pbs) (kept # rs)" using rs mature_block_matures[of E W now pb c w] b by simp
  moreover have "fst (mature_loop E W now (pb # pbs) c w) = kept_blocks (kept # rs)"
    using rs b l by (simp split: option.split)
  ultimately show ?case by blast
qed

text \<open>
  A round of \<open>WatchMaturedBlocks\<close> on a full node treats every block by the rules of \<open>matures\<close>, in the
  order of the list: a pending block is paid only without a hash or with 100 confirmations the node
  reported, and dropped only when the node reported it orphaned; a settled block is dropped only after
  seven days; any other block stays as it was.
\<close>

theorem matured_round:
  assumes "\<not> c_LightMode (e_Active E)" "WatchMaturedBlocks E W now wm w = (wm', w')"
  shows "\<exists>rs. list_all2 (matures E W now) (wm_PendingBlocks wm) rs \<and> wm_PendingBlocks wm' = kept_blocks rs"
  using assms mature_loop_matures[of E W now "wm_PendingBlocks wm" "wm_client wm" w]
  by (auto simp: WatchMaturedBlocks_def Let_def split: prod.splits if_splits)

lemma matures_height: "matures E W now pb (Some b) \<Longrightarrow> pb_BlockHeight b = pb_BlockHeight pb"
  by (erule matures.cases) auto

lemma matures_filter:
  "list_all2 (matures E W now) pbs rs \<Longrightarrow> one_per_height pbs \<Longrightarrow> one_per_height (kept_blocks rs)
    \<and> pb_BlockHeight ` set (kept_blocks rs) \<subseteq> pb_BlockHeight ` set pbs"
proof (induction rule: list_all2_induct)
  case (Cons pb pbs r rs)
  then have "one_per_height pbs" by (auto simp: one_per_height_def split: if_splits)
  then have ih: "one_per_height (kept_blocks rs)" "pb_BlockHeight ` set (kept_blocks rs) \<subseteq> pb_BlockHeight ` set pbs"
    using Cons.IH by auto
  show ?case
  proof (cases r)
    case None
    then show ?thesis using ih by auto
  next
    case (Some b)
    then have h: "pb_BlockHeight b = pb_BlockHeight pb" using matures_height Cons.hyps(1) by blast
    have "0 <s pb_BlockHeight pb \<Longrightarrow> pb_BlockHeight pb \<notin> pb_BlockHeight ` {x \<in> set pbs. 0 <s pb_BlockHeight x}"
      using Cons.prems by (simp add: one_per_height_def)
    then have "0 <s pb_BlockHeight pb \<Longrightarrow> pb_BlockHeight pb \<notin> pb_BlockHeight ` set pbs" by auto
    then have "one_per_height (b # kept_blocks rs)" using ih h by (auto simp: one_per_height_def)
    then show ?thesis using ih h Some by auto
  qed
qed simp

lemma WatchMatured_one_per_height:
  assumes "one_per_height (wm_PendingBlocks wm)"
  shows "one_per_height (wm_PendingBlocks (fst (WatchMaturedBlocks E W now wm w)))"
  using assms mature_loop_matures[of E W now "wm_PendingBlocks wm" "wm_client wm" w] matures_filter
  by (fastforce simp: WatchMaturedBlocks_def Let_def split: prod.splits)

text \<open>An error the node sends with an HTTP error status never settles a pending block, whatever its code.\<close>

lemma http_error_keeps_pending:
  assumes "pb_State pb = StatePending" "pb_BlockHash pb = Some h" "h \<noteq> zeroHash"
    "GetBlock E W h c w = (Inl (HTTPErr st b), c1, w1)"
  shows "mature_block E W now pb c w = (Some pb, False, c1, w1)"
  using assms by (simp add: mature_block_def mature_reply_def state_defs)

subsection \<open>Examples\<close>

definition block_env :: env where
  "block_env = demo_env\<lparr>e_NewHashFromStr := (\<lambda>s. if s = '''' then Some zeroHash else map_option rev (hex_DecodeString s))\<rparr>"

lemma block_env_texts: "hash_texts block_env"
proof -
  have "hex_EncodeToString (rev h) \<noteq> ''''" if "length h = 32" for h
    using hex_inj[of "rev h" "[]"] that by (auto simp: hex_EncodeToString_def)
  then show ?thesis by (simp add: hash_texts_def block_env_def demo_env_def hex_roundtrip hash_or_zero_def)
qed

definition demo_block :: PayoutBlock where
  "demo_block = \<lparr>pb_BlockHash = Some (replicate 32 7), pb_BlockFindShareHash = Some (replicate 32 9), pb_BlockHeight = 5,
     pb_FoundTime = 0, pb_State = StatePending, pb_Confirmed = True\<rparr>"

definition demo_wm :: WorkManager where
  "demo_wm = (NewWorkManager block_env demo_authed NewShareChain NoBlocksFile True)\<lparr>wm_PendingBlocks := [demo_block]\<rparr>"

lemma demo_wm_fields: "wm_fileOk demo_wm" "wm_PendingBlocks demo_wm = [demo_block]" "wm_client demo_wm = demo_authed"
  by (simp_all add: demo_wm_def NewWorkManager_def LoadBlocks_def)

theorem restart_blocks_witness:
  "wm_PendingBlocks (NewWorkManager block_env demo_authed NewShareChain (wm_file (saveBlocksLocked block_env demo_wm)) True)
   = [demo_block\<lparr>pb_Confirmed := False\<rparr>]"
proof -
  have "0 <s (5 :: u32)" by (simp add: word_sless_alt)
  then have "one_per_height [demo_block]" "hashes_ok [demo_block]"
    by (simp_all add: one_per_height_def hashes_ok_def demo_block_def)
  then show ?thesis
    using restart_blocks[OF block_env_texts demo_wm_fields(1), of demo_authed NewShareChain True]
    unfolding demo_wm_fields by (simp add: reloaded_def demo_block_def)
qed

theorem matured_round_witness:
  "\<exists>rs. list_all2 (matures block_env demo_world 0) [demo_block] rs
    \<and> wm_PendingBlocks (fst (WatchMaturedBlocks block_env demo_world 0 demo_wm 0)) = kept_blocks rs"
proof -
  have "\<not> c_LightMode (e_Active block_env)" by (simp add: block_env_def demo_env_def demo_config_def)
  then show ?thesis
    using matured_round[of block_env demo_world 0 demo_wm 0] demo_wm_fields(2) prod.collapse by metis
qed

end
