(* ===== verification/Submit.thy ===== *)
theory Submit
  imports FoundBlocks
begin

text \<open>
  Submitting solved blocks (\<open>work/manager.go\<close>): building the block from a share and its template, the
  proposal check, submission with retries, recording the block, and blocks relayed by peers. A nil
  dereference is \<open>SubmitPanic\<close>. The lemmas show that at most four attempts are made and what decides
  their result, that a block is submitted only with the merkle root of its own transactions, and that a
  submission that returns nil has recorded the block and asked for a new template.
\<close>

datatype submit_error =
    CoinbaseDecode | BitsParse | TxDecode | MerkleMismatch | RpcFailed rpc_error | SubmitPanic

text \<open>\<open>strconv.ParseUint(s, 16, 32)\<close>.\<close>

definition parse_hex32 :: "string \<Rightarrow> u32 option" where
  "parse_hex32 s =
     (if s = '''' \<or> None \<in> set (map hex_value s) then None
      else (let v = foldl (\<lambda>a c. a * 16 + the (hex_value c)) 0 s in if v < 2 ^ 32 then Some (of_nat v) else None))"

text \<open>The bytes \<open>hex.DecodeString\<close> returns beside its error: those before the first bad digit.\<close>

fun hex_partial :: "string \<Rightarrow> byte list" where
  "hex_partial (a # b # cs) =
     (case (hex_value a, hex_value b) of (Some x, Some y) \<Rightarrow> of_nat (16 * x + y) # hex_partial cs | _ \<Rightarrow> [])"
| "hex_partial cs = []"

definition template_msgtxs :: "env \<Rightarrow> BlockTemplateTx list \<Rightarrow> msgtx list option" where
  "template_msgtxs E txs = those (map (\<lambda>tx. e_Deserialize E (hex_partial (bt_Data tx))) txs)"

definition buildMsgBlockFromShare :: "env \<Rightarrow> Share \<Rightarrow> BlockTemplate \<Rightarrow> submit_error + msgblock" where
  "buildMsgBlockFromShare E s t =
     (case e_Deserialize E (sd_CoinBase (share_data s)) of
        None \<Rightarrow> Inl CoinbaseDecode
      | Some cb \<Rightarrow>
          (case ComputeMerkleRootFromLink (Some (e_TxHash E cb)) (ml_Branch (s_MerkleLink s)) (ml_Index (s_MerkleLink s)) of
             None \<Rightarrow> Inl SubmitPanic
           | Some mroot \<Rightarrow>
               (case parse_hex32 (t_Bits t) of
                  None \<Rightarrow> Inl BitsParse
                | Some bits \<Rightarrow>
                    (case (mh_PreviousBlock (s_MinHeader s), mroot) of
                       (Some prev, Some r) \<Rightarrow>
                         (case template_msgtxs E (t_Transactions t) of
                            None \<Rightarrow> Inl TxDecode
                          | Some txs \<Rightarrow>
                              Inr \<lparr>mb_Header = \<lparr>bh_Version = mh_Version (s_MinHeader s), bh_PrevBlock = prev, bh_MerkleRoot = r,
                                     bh_Timestamp = header_ts s, bh_Bits = bits, bh_Nonce = mh_Nonce (s_MinHeader s)\<rparr>,
                                   mb_Transactions = cb # txs\<rparr>)
                     | _ \<Rightarrow> Inl SubmitPanic))))"

text \<open>\<open>VerifyCandidateBlock\<close> only logs; its value is whether it reports the block as valid.\<close>

definition VerifyCandidateBlock ::
  "env \<Rightarrow> btcd \<Rightarrow> 'w world \<Rightarrow> Share \<Rightarrow> BlockTemplate \<Rightarrow> WorkManager \<Rightarrow> 'w \<Rightarrow> bool \<times> WorkManager \<times> 'w" where
  "VerifyCandidateBlock E K W s t wm w =
     (if c_LightMode (e_Active E) then (False, wm, w)
      else (case buildMsgBlockFromShare E s t of
              Inl e \<Rightarrow> (False, wm, w)
            | Inr blk \<Rightarrow> (let (res, c1, w1) = ProposeBlock E K W blk (wm_client wm) w
                          in (res = Inr (Reason ''accepted''), wm\<lparr>wm_client := c1\<rparr>, w1))))"

definition submitBlockBackoff :: "time list" where "submitBlockBackoff = [seconds 1, seconds 2, seconds 4]"

text \<open>The loop of \<open>submitBlockWithRetry\<close>, with \<open>n\<close> retries left.\<close>

fun submit_attempts ::
  "env \<Rightarrow> btcd \<Rightarrow> 'w world \<Rightarrow> msgblock \<Rightarrow> nat \<Rightarrow> Client \<Rightarrow> 'w \<Rightarrow> rpc_error option \<times> Client \<times> 'w" where
  "submit_attempts E K W blk n c w =
     (let (err, c1, w1) = SubmitBlock E K W blk c w
      in if err = Some (BlockRejected (Reason ''duplicate'')) then (None, c1, w1)
         else if \<not> IsTransient err \<or> n = 0 then (err, c1, w1)
         else submit_attempts E K W blk (n - 1) c1 w1)"

declare submit_attempts.simps [simp del]

definition submitBlockWithRetry ::
  "env \<Rightarrow> btcd \<Rightarrow> 'w world \<Rightarrow> msgblock \<Rightarrow> Client \<Rightarrow> 'w \<Rightarrow> rpc_error option \<times> Client \<times> 'w" where
  "submitBlockWithRetry E K W blk c w = submit_attempts E K W blk (length submitBlockBackoff) c w"

definition recorded :: "hash \<Rightarrow> Share \<Rightarrow> BlockTemplate \<Rightarrow> PayoutBlock \<Rightarrow> bool" where
  "recorded bh s t pb =
     (pb_BlockHash pb = Some bh
      \<or> (pb_BlockFindShareHash pb \<noteq> None \<and> s_Hash s \<noteq> None \<and> pb_BlockFindShareHash pb = s_Hash s)
      \<or> pb_BlockHeight pb = of_int (t_Height t))"

definition solved_block :: "time \<Rightarrow> hash \<Rightarrow> Share \<Rightarrow> BlockTemplate \<Rightarrow> PayoutBlock" where
  "solved_block now bh s t = \<lparr>pb_BlockHash = Some bh, pb_BlockFindShareHash = s_Hash s, pb_BlockHeight = of_int (t_Height t),
     pb_FoundTime = now, pb_State = StatePending, pb_Confirmed = False\<rparr>"

definition record_solved :: "env \<Rightarrow> time \<Rightarrow> hash \<Rightarrow> Share \<Rightarrow> BlockTemplate \<Rightarrow> WorkManager \<Rightarrow> WorkManager" where
  "record_solved E now bh s t wm =
     (let wm1 = (if list_ex (recorded bh s t) (wm_PendingBlocks wm) then wm
                 else saveBlocksLocked E (wm\<lparr>wm_PendingBlocks := wm_PendingBlocks wm @ [solved_block now bh s t]\<rparr>))
      in wm1\<lparr>wm_Templates := gm_del (t_PreviousBlockHash t) (wm_Templates wm1), wm_ForceNewTemplate := 1\<rparr>)"

text \<open>\<open>relay\<close> tells whether \<open>RelayBlockHexFunc\<close> is set.\<close>

definition relay_block :: "btcd \<Rightarrow> bool \<Rightarrow> msgblock \<Rightarrow> WorkManager \<Rightarrow> WorkManager" where
  "relay_block K relay blk wm =
     (case k_SerializeBlock K blk of
        Some bs \<Rightarrow> if relay then wm\<lparr>wm_relayed := wm_relayed wm @ [hex_EncodeToString bs]\<rparr> else wm
      | None \<Rightarrow> wm)"

definition wm_SubmitBlock ::
  "env \<Rightarrow> btcd \<Rightarrow> 'w world \<Rightarrow> bool \<Rightarrow> time \<Rightarrow> Share \<Rightarrow> BlockTemplate \<Rightarrow> WorkManager \<Rightarrow> 'w
   \<Rightarrow> submit_error option \<times> WorkManager \<times> 'w" where
  "wm_SubmitBlock E K W relay now s t wm w =
     (case buildMsgBlockFromShare E s t of
        Inl e \<Rightarrow> (Some e, wm, w)
      | Inr blk \<Rightarrow>
          (let bh = e_BlockHash E (mb_Header blk)
           in if k_CalcMerkleRoot K (mb_Transactions blk) \<noteq> bh_MerkleRoot (mb_Header blk) then (Some MerkleMismatch, wm, w)
              else (let wm1 = relay_block K relay blk wm
                    in if c_LightMode (e_Active E) then (None, record_solved E now bh s t wm1, w)
                       else (let (err, c1, w1) = submitBlockWithRetry E K W blk (wm_client wm1) w;
                                 wm2 = wm1\<lparr>wm_client := c1\<rparr>
                             in case err of
                                  Some e \<Rightarrow> (Some (RpcFailed e), wm2, w1)
                                | None \<Rightarrow> (None, record_solved E now bh s t wm2, w1)))))"

text \<open>A block relayed by a peer.\<close>

definition expire_seen :: "time \<Rightarrow> (string, time) gomap \<Rightarrow> (string, time) gomap" where
  "expire_seen now seen = filter (\<lambda>(k, ts). \<not> minutes 30 < now - ts) seen"

definition SubmitRawBlockHex ::
  "env \<Rightarrow> btcd \<Rightarrow> 'w world \<Rightarrow> bool \<Rightarrow> time \<Rightarrow> string \<Rightarrow> string \<Rightarrow> WorkManager \<Rightarrow> 'w \<Rightarrow> bool \<times> WorkManager \<times> 'w" where
  "SubmitRawBlockHex E K W relay now peerID hexStr wm w =
     (case Option.bind (hex_DecodeString hexStr) (k_DeserializeBlock K) of
        None \<Rightarrow> (False, wm, w)
      | Some blk \<Rightarrow>
          (let bh = e_HashString E (e_BlockHash E (mb_Header blk));
               wm1 = wm\<lparr>wm_seenBlocks := expire_seen now (wm_seenBlocks wm)\<rparr>
           in if gm_get zeroTime (wm_seenBlocks wm1) bh \<noteq> zeroTime then (True, wm1, w)
              else (let wm2 = wm1\<lparr>wm_seenBlocks := gm_set bh now (wm_seenBlocks wm1)\<rparr>;
                        sent = (\<lambda>x. if relay then x\<lparr>wm_relayed := wm_relayed x @ [hexStr]\<rparr> else x)
                    in if c_LightMode (e_Active E) then (False, sent wm2, w)
                       else (let (err, c1, w1) = SubmitBlock E K W blk (wm_client wm2) w; wm3 = wm2\<lparr>wm_client := c1\<rparr>;
                                 sc = gm_get 0 (wm_peerScores wm3) peerID
                             in case err of
                                  Some e \<Rightarrow> (False, wm3\<lparr>wm_peerScores := gm_set peerID (sc - 1) (wm_peerScores wm3)\<rparr>, w1)
                                | None \<Rightarrow> (True, sent (wm3\<lparr>wm_peerScores := gm_set peerID (sc + 2) (wm_peerScores wm3)\<rparr>), w1)))))"

subsection \<open>Retries\<close>

text \<open>The \<open>i\<close>-th attempt to submit a block, each on the client and world the one before left.\<close>

fun attempt :: "env \<Rightarrow> btcd \<Rightarrow> 'w world \<Rightarrow> msgblock \<Rightarrow> nat \<Rightarrow> Client \<Rightarrow> 'w \<Rightarrow> rpc_error option \<times> Client \<times> 'w" where
  "attempt E K W blk 0 c w = SubmitBlock E K W blk c w"
| "attempt E K W blk (Suc i) c w = (let (err, c1, w1) = SubmitBlock E K W blk c w in attempt E K W blk i c1 w1)"

abbreviation held_by_node :: "rpc_error option \<Rightarrow> bool" where
  "held_by_node err \<equiv> err = None \<or> err = Some (BlockRejected (Reason ''duplicate''))"

lemma held_not_transient: "held_by_node err \<Longrightarrow> \<not> IsTransient err"
  by (auto simp: IsTransient_def)

lemma submit_attempts_at:
  "\<exists>k \<le> n. (\<forall>i < k. IsTransient (fst (attempt E K W blk i c w))) \<and> (k = n \<or> \<not> IsTransient (fst (attempt E K W blk k c w)))
     \<and> fst (submit_attempts E K W blk n c w)
       = (if held_by_node (fst (attempt E K W blk k c w)) then None else fst (attempt E K W blk k c w))
     \<and> snd (submit_attempts E K W blk n c w) = snd (attempt E K W blk k c w)"
proof (induction n arbitrary: c w)
  case 0
  then show ?case by (auto simp: submit_attempts.simps[of E K W blk 0] Let_def split: prod.split)
next
  case (Suc n)
  obtain err c1 w1 where s: "SubmitBlock E K W blk c w = (err, c1, w1)" by (metis prod_cases3)
  show ?case
  proof (cases "IsTransient err")
    case True
    then have "\<not> held_by_node err" using held_not_transient by blast
    then have r: "submit_attempts E K W blk (Suc n) c w = submit_attempts E K W blk n c1 w1"
      using True s by (simp add: submit_attempts.simps[of E K W blk "Suc n"])
    have a: "attempt E K W blk (Suc i) c w = attempt E K W blk i c1 w1" for i by (simp add: s)
    obtain k where k: "k \<le> n" "\<forall>i < k. IsTransient (fst (attempt E K W blk i c1 w1))"
      "k = n \<or> \<not> IsTransient (fst (attempt E K W blk k c1 w1))"
      "fst (submit_attempts E K W blk n c1 w1)
         = (if held_by_node (fst (attempt E K W blk k c1 w1)) then None else fst (attempt E K W blk k c1 w1))"
      "snd (submit_attempts E K W blk n c1 w1) = snd (attempt E K W blk k c1 w1)"
      using Suc[of c1 w1] by blast
    have "IsTransient (fst (attempt E K W blk i c w))" if "i < Suc k" for i
      using that k(2) True s by (cases i) simp_all
    then show ?thesis using k unfolding r a[symmetric] by (intro exI[of _ "Suc k"]) auto
  next
    case False
    then show ?thesis
      by (intro exI[of _ "0::nat"]) (auto simp: s submit_attempts.simps[of E K W blk "Suc n"])
  qed
qed

text \<open>C32: 
  A submission succeeds exactly when one of at most four attempts finds the block held by the node
  (accepted, or a duplicate) and every attempt before it failed transiently. So a node that is warming
  up or unreachable for up to three attempts does not lose the block, and no rejection is retried.
\<close>

theorem submit_retry:
  "fst (submitBlockWithRetry E K W blk c w) = None \<longleftrightarrow>
   (\<exists>k \<le> 3. held_by_node (fst (attempt E K W blk k c w)) \<and> (\<forall>i < k. IsTransient (fst (attempt E K W blk i c w))))"
proof -
  have "length submitBlockBackoff = 3" by (simp add: submitBlockBackoff_def)
  then obtain k where k: "k \<le> 3" "\<forall>i < k. IsTransient (fst (attempt E K W blk i c w))"
    "k = 3 \<or> \<not> IsTransient (fst (attempt E K W blk k c w))"
    "fst (submitBlockWithRetry E K W blk c w)
       = (if held_by_node (fst (attempt E K W blk k c w)) then None else fst (attempt E K W blk k c w))"
    using submit_attempts_at[of 3 E K W blk c w] unfolding submitBlockWithRetry_def by metis
  have "j = k" if j: "j \<le> 3" "held_by_node (fst (attempt E K W blk j c w))" "\<forall>i < j. IsTransient (fst (attempt E K W blk i c w))" for j
  proof (rule linorder_cases[of j k])
    assume "j < k"
    then show ?thesis using k(2) held_not_transient[OF j(2)] by simp
  next
    assume l: "k < j"
    then show ?thesis using k(3) j(1) j(3)[rule_format, OF l] by auto
  qed
  moreover have "fst (submitBlockWithRetry E K W blk c w) = None \<longleftrightarrow> held_by_node (fst (attempt E K W blk k c w))"
    unfolding k(4) by simp
  ultimately show ?thesis using k(1,2) by blast
qed

subsection \<open>Outcome of a submission\<close>

interpretation solved: block_recorder "\<lambda>(now, bh, s, t) pb. recorded bh s t pb" "\<lambda>(now, bh, s, t). solved_block now bh s t"
  by unfold_locales (auto simp: recorded_def solved_block_def split: prod.split_asm)

lemma record_solved_fields [simp]:
  "wm_PendingBlocks (record_solved E now bh s t wm) =
     (if list_ex (recorded bh s t) (wm_PendingBlocks wm) then wm_PendingBlocks wm
      else wm_PendingBlocks wm @ [solved_block now bh s t])"
  "wm_Templates (record_solved E now bh s t wm) = gm_del (t_PreviousBlockHash t) (wm_Templates wm)"
  "wm_ForceNewTemplate (record_solved E now bh s t wm) = 1"
  by (simp_all add: record_solved_def Let_def saveBlocksLocked_def)

lemma relay_block_fields [simp]:
  "wm_PendingBlocks (relay_block K relay blk wm) = wm_PendingBlocks wm"
  "wm_Templates (relay_block K relay blk wm) = wm_Templates wm" "wm_client (relay_block K relay blk wm) = wm_client wm"
  by (simp_all add: relay_block_def split: option.split)

lemma recorded_solved [simp]: "recorded bh s t (solved_block now bh s t)"
  by (simp add: recorded_def solved_block_def)

lemma submit_one_per_height:
  assumes "one_per_height (wm_PendingBlocks wm)"
  shows "one_per_height (wm_PendingBlocks (fst (snd (wm_SubmitBlock E K W relay now s t wm w))))"
proof -
  have "one_per_height (wm_PendingBlocks wm @ [solved_block now bh s t])" if "\<not> list_ex (recorded bh s t) (wm_PendingBlocks wm)" for bh
    using solved.record_one[OF assms, of "(now, bh, s, t)"] that by simp
  then show ?thesis
    using assms by (auto simp: wm_SubmitBlock_def Let_def split: sum.split prod.split option.split)
qed

text \<open>The relayed form of a block, when a relay function is set and the block serialises.\<close>

definition relay_form :: "btcd \<Rightarrow> bool \<Rightarrow> msgblock \<Rightarrow> string list" where
  "relay_form K relay blk =
     (case k_SerializeBlock K blk of Some bs \<Rightarrow> if relay then [hex_EncodeToString bs] else [] | None \<Rightarrow> [])"

lemma relay_block_relayed [simp]: "wm_relayed (relay_block K relay blk wm) = wm_relayed wm @ relay_form K relay blk"
  by (simp add: relay_block_def relay_form_def split: option.split)

lemma record_solved_rest [simp]:
  "wm_relayed (record_solved E now bh s t wm) = wm_relayed wm" "wm_client (record_solved E now bh s t wm) = wm_client wm"
  by (simp_all add: record_solved_def Let_def saveBlocksLocked_def)

lemma built_block:
  assumes "buildMsgBlockFromShare E s t = Inr blk"
  shows "\<exists>cb txs. e_Deserialize E (sd_CoinBase (share_data s)) = Some cb \<and> template_msgtxs E (t_Transactions t) = Some txs
    \<and> mb_Transactions blk = cb # txs \<and> mh_PreviousBlock (s_MinHeader s) = Some (bh_PrevBlock (mb_Header blk))
    \<and> bh_Nonce (mb_Header blk) = mh_Nonce (s_MinHeader s)"
  using assms by (auto simp: buildMsgBlockFromShare_def split: option.splits)

text \<open>C33: 
  Nothing of a solved share leaves the node unless its block (the share's header and coinbase with the
  template's transactions) can be built and its header's merkle root is the root of those transactions:
  otherwise an error is returned, nothing is relayed, the node is not contacted and no state changes.
  When the root matches, exactly this block is relayed (where a relay function is set) and, on a full
  node, submitted with retries, whose result is the result of the call. On success the block is appended
  to the found blocks, unless one of the same hash, share or height is already there, its template is
  dropped and a new one is asked for; on failure the found blocks and the templates stay as they were.
\<close>

theorem SubmitBlock_outcome:
  assumes "wm_SubmitBlock E K W relay now s t wm w = (err, wm', w')"
  shows "if \<nexists>blk. buildMsgBlockFromShare E s t = Inr blk \<and> k_CalcMerkleRoot K (mb_Transactions blk) = bh_MerkleRoot (mb_Header blk)
    then err \<noteq> None \<and> wm' = wm \<and> w' = w
    else (\<exists>blk cb txs. buildMsgBlockFromShare E s t = Inr blk
        \<and> e_Deserialize E (sd_CoinBase (share_data s)) = Some cb \<and> template_msgtxs E (t_Transactions t) = Some txs
        \<and> mb_Transactions blk = cb # txs \<and> k_CalcMerkleRoot K (cb # txs) = bh_MerkleRoot (mb_Header blk)
        \<and> wm_relayed wm' = wm_relayed wm @ relay_form K relay blk
        \<and> (err, wm_client wm', w') = (if c_LightMode (e_Active E) then (None, wm_client wm, w)
             else case submitBlockWithRetry E K W blk (wm_client wm) w of (r, c1, w1) \<Rightarrow> (map_option RpcFailed r, c1, w1))
        \<and> wm_PendingBlocks wm' = wm_PendingBlocks wm @
             (if err = None \<and> \<not> list_ex (recorded (e_BlockHash E (mb_Header blk)) s t) (wm_PendingBlocks wm)
              then [solved_block now (e_BlockHash E (mb_Header blk)) s t] else [])
        \<and> wm_Templates wm' = (if err = None then gm_del (t_PreviousBlockHash t) (wm_Templates wm) else wm_Templates wm)
        \<and> (err = None \<longrightarrow> wm_ForceNewTemplate wm' = 1))"
proof (cases "buildMsgBlockFromShare E s t")
  case (Inl e)
  then show ?thesis using assms by (auto simp: wm_SubmitBlock_def)
next
  case (Inr blk)
  obtain cb txs where b: "e_Deserialize E (sd_CoinBase (share_data s)) = Some cb" "template_msgtxs E (t_Transactions t) = Some txs"
    "mb_Transactions blk = cb # txs" using built_block[OF Inr] by blast
  obtain e c1 w1 where r: "submitBlockWithRetry E K W blk (wm_client wm) w = (e, c1, w1)" by (metis prod_cases3)
  show ?thesis
  proof (cases "k_CalcMerkleRoot K (mb_Transactions blk) = bh_MerkleRoot (mb_Header blk)")
    case True
    then show ?thesis
      using assms by (auto simp: wm_SubmitBlock_def Inr r b Let_def split: if_splits option.splits)
  next
    case False
    then show ?thesis using assms by (auto simp: wm_SubmitBlock_def Inr b Let_def)
  qed
qed

subsection \<open>Blocks relayed by peers\<close>

lemma gm_get_expire:
  assumes "gm_wf seen" "gm_get zeroTime seen k = ts" "ts \<noteq> zeroTime" "now - ts \<le> minutes 30"
  shows "gm_get zeroTime (expire_seen now seen) k = ts"
proof -
  have "map_of seen k = Some ts" using assms(2,3) by (auto simp: gm_get_def split: option.splits)
  then have "(k, ts) \<in> set (expire_seen now seen)" using assms(4) map_of_SomeD[of seen k ts] by (auto simp: expire_seen_def)
  moreover have "gm_wf (expire_seen now seen)" using assms(1) by (simp add: expire_seen_def distinct_map_filter)
  ultimately show ?thesis by (simp add: gm_get_def)
qed

lemma SubmitRaw_remembers:
  assumes "SubmitRawBlockHex E K W relay now p hexStr wm w = (r, wm1, w1)" "gm_wf (wm_seenBlocks wm)"
    and blk: "Option.bind (hex_DecodeString hexStr) (k_DeserializeBlock K) = Some blk"
    and f: "gm_get zeroTime (expire_seen now (wm_seenBlocks wm)) (e_HashString E (e_BlockHash E (mb_Header blk))) = zeroTime"
  shows "gm_wf (wm_seenBlocks wm1)" "gm_get zeroTime (wm_seenBlocks wm1) (e_HashString E (e_BlockHash E (mb_Header blk))) = now"
proof -
  have "gm_wf (expire_seen now (wm_seenBlocks wm))" using assms(2) by (simp add: expire_seen_def distinct_map_filter)
  then have "gm_wf (wm_seenBlocks wm1) \<and> gm_get zeroTime (wm_seenBlocks wm1) (e_HashString E (e_BlockHash E (mb_Header blk))) = now"
    using assms(1) f unfolding SubmitRawBlockHex_def blk by (auto simp: Let_def split: if_splits prod.splits option.splits)
  then show "gm_wf (wm_seenBlocks wm1)" "gm_get zeroTime (wm_seenBlocks wm1) (e_HashString E (e_BlockHash E (mb_Header blk))) = now"
    by auto
qed

text \<open>
  A relayed block reaches the node once: after a first delivery, whatever the node made of it, every
  delivery within half an hour is answered positively without contacting the node, relaying the block
  or changing a peer's score.
\<close>

theorem relayed_block_once:
  assumes "SubmitRawBlockHex E K W relay now p hexStr wm w = (r, wm1, w1)" "gm_wf (wm_seenBlocks wm)" "now \<noteq> zeroTime"
    and "Option.bind (hex_DecodeString hexStr) (k_DeserializeBlock K) = Some blk"
    and "gm_get zeroTime (expire_seen now (wm_seenBlocks wm)) (e_HashString E (e_BlockHash E (mb_Header blk))) = zeroTime"
    and "now' - now \<le> minutes 30"
  shows "SubmitRawBlockHex E K W relay now' p' hexStr wm1 w2
    = (True, wm1\<lparr>wm_seenBlocks := expire_seen now' (wm_seenBlocks wm1)\<rparr>, w2)"
  using gm_get_expire[OF SubmitRaw_remembers[OF assms(1,2,4,5)] assms(3,6)] assms(3)
  by (simp add: SubmitRawBlockHex_def assms(4) Let_def)

subsection \<open>Examples\<close>

definition demo_msgblock :: msgblock where
  "demo_msgblock = \<lparr>mb_Header = \<lparr>bh_Version = 1, bh_PrevBlock = zeroHash, bh_MerkleRoot = zeroHash, bh_Timestamp = 0, bh_Bits = 1,
     bh_Nonce = 5\<rparr>, mb_Transactions = []\<rparr>"

definition relay_btcd :: btcd where
  "relay_btcd = demo_btcd\<lparr>k_DeserializeBlock := \<lambda>b. Some demo_msgblock\<rparr>"

lemma demo_attempt: "attempt demo_env demo_btcd demo_world blk 0 demo_client 0 = (None, demo_authed, 2)"
  by (simp add: demo_submit)

theorem submit_retry_witness: "fst (submitBlockWithRetry demo_env demo_btcd demo_world demo_msgblock demo_client 0) = None"
  unfolding submit_retry using demo_attempt[of demo_msgblock] by (intro exI[of _ "0::nat"]) simp

lemma demo_wm_seen: "wm_seenBlocks demo_wm = []" "wm_peerScores demo_wm = []" "wm_relayed demo_wm = []" "wm_Templates demo_wm = []"
  by (simp_all add: demo_wm_def NewWorkManager_def LoadBlocks_def)

theorem relayed_block_once_witness:
  "fst (SubmitRawBlockHex block_env relay_btcd demo_world True (minutes 20) ''b'' ''00''
     (fst (snd (SubmitRawBlockHex block_env relay_btcd demo_world True (minutes 1) ''a'' ''00'' demo_wm 0))) 7) = True"
proof -
  obtain r wm1 w1 where s: "SubmitRawBlockHex block_env relay_btcd demo_world True (minutes 1) ''a'' ''00'' demo_wm 0 = (r, wm1, w1)"
    by (metis prod_cases3)
  have "Option.bind (hex_DecodeString ''00'') (k_DeserializeBlock relay_btcd) = Some demo_msgblock"
    by (simp add: relay_btcd_def hex_value_def)
  moreover have "gm_wf (wm_seenBlocks demo_wm)" "gm_get zeroTime (expire_seen (minutes 1) (wm_seenBlocks demo_wm)) k = zeroTime" for k
    by (simp_all add: demo_wm_seen expire_seen_def)
  moreover have "minutes 1 \<noteq> zeroTime" "minutes 20 - minutes 1 \<le> minutes 30" by (simp_all add: minutes_def zeroTime_def)
  ultimately show ?thesis
    using relayed_block_once[OF s, of demo_msgblock "minutes 20" "''b''" 7] by (simp add: s)
qed

text \<open>A solved share with an empty coinbase branch, whose coinbase hash is the root of its block.\<close>

definition solve_env :: env where
  "solve_env = block_env\<lparr>e_Deserialize := \<lambda>b. Some \<lparr>tx_Version = 1, tx_TxIn = [], tx_TxOut = [], tx_LockTime = 0\<rparr>\<rparr>"

definition solve_template :: BlockTemplate where
  "solve_template = \<lparr>t_Version = 1, t_PreviousBlockHash = ''00'', t_Transactions = [], t_CoinbaseAuxFlags = '''',
     t_CoinbaseValue = 1, t_MinTime = 0, t_CurTime = 0, t_Bits = ''1b'', t_Height = 9, t_FullNode = True,
     t_PrevBlockHeaderHex = '''', t_AncestorHeadersHex = []\<rparr>"

definition solve_share :: Share where "solve_share = demo_share None (replicate 32 4) 0"

lemma solve_built: "\<exists>blk. buildMsgBlockFromShare solve_env solve_share solve_template = Inr blk \<and> bh_MerkleRoot (mb_Header blk) = replicate 32 0"
  by (simp add: buildMsgBlockFromShare_def solve_env_def block_env_def demo_env_def solve_share_def demo_share_def
      solve_template_def template_msgtxs_def parse_hex32_def hex_value_def)

theorem SubmitBlock_outcome_witness:
  "\<exists>wm' w' bh. wm_SubmitBlock solve_env demo_btcd demo_world False 0 solve_share solve_template demo_wm 0 = (None, wm', w')
     \<and> wm_ForceNewTemplate wm' = 1 \<and> wm_PendingBlocks wm' = [demo_block, solved_block 0 bh solve_share solve_template]"
proof -
  obtain blk where b: "buildMsgBlockFromShare solve_env solve_share solve_template = Inr blk"
    "bh_MerkleRoot (mb_Header blk) = replicate 32 0" using solve_built by blast
  obtain err wm' w' where s: "wm_SubmitBlock solve_env demo_btcd demo_world False 0 solve_share solve_template demo_wm 0 = (err, wm', w')"
    by (metis prod_cases3)
  have "SubmitBlock solve_env demo_btcd demo_world blk demo_authed 0 = (None, demo_authed, 1)"
    by (simp add: SubmitBlock_def Call_def demo_call(1) demo_btcd_def)
  then have "err = None"
    using s b by (auto simp: wm_SubmitBlock_def Let_def demo_wm_fields submitBlockWithRetry_def demo_btcd_def
        submit_attempts.simps[of _ _ _ _ "length _"] IsTransient_def split: if_splits)
  moreover have "k_CalcMerkleRoot demo_btcd (mb_Transactions blk) = bh_MerkleRoot (mb_Header blk)"
    using b(2) by (simp add: demo_btcd_def)
  moreover have "\<not> recorded (e_BlockHash solve_env (mb_Header blk)) solve_share solve_template demo_block"
    by (auto simp: recorded_def demo_block_def solve_env_def block_env_def demo_env_def solve_share_def demo_share_def solve_template_def
        dest: arg_cong[of _ _ hd])
  ultimately show ?thesis using demo_wm_fields(2) SubmitBlock_outcome[OF s] s b(1)
    by (auto split: if_splits)
qed

end
