(* ===== verification/LightMode.thy ===== *)
theory LightMode
  imports Templates
begin

text \<open>
  Light mode (\<open>work/manager.go\<close>, \<open>IsTrustedPeer\<close> of \<open>config/config.go\<close>): a node without vertcoind takes
  templates from peers. \<open>verifyHeader80\<close> and \<open>verifyTemplatePrevHeader\<close> check the header a template
  builds on, \<open>ApplyRemoteTemplateJSON\<close> counts the peers' votes and stores the template or a reduced one.
  \<open>None\<close> is the panic of \<open>t.PreviousBlockHash[:12]\<close>. The goroutine that asks peers for confirmations is
  \<open>apply_confirmations\<close>, run on the results it gathered. Sums of \<open>int64\<close> wrap (\<open>wrap64\<close>).
\<close>

definition wrap64 :: "int \<Rightarrow> int" where "wrap64 x = (x + 2 ^ 63) mod 2 ^ 64 - 2 ^ 63"

subsection \<open>Trusted peers\<close>

text \<open>The text after the last \<open>/p2p/\<close>, if there is one.\<close>

fun after_last :: "string \<Rightarrow> string \<Rightarrow> string option" where
  "after_last p [] = (if p = [] then Some [] else None)"
| "after_last p (c # s) =
     (case after_last p s of Some r \<Rightarrow> Some r | None \<Rightarrow> if has_prefix (c # s) p then Some (drop (length p) (c # s)) else None)"

definition IsTrustedPeer :: "env \<Rightarrow> string \<Rightarrow> bool" where
  "IsTrustedPeer E peerID =
     (peerID \<noteq> '''' \<and> list_ex (\<lambda>tp. let tp1 = trim_space tp
        in (case after_last ''/p2p/'' tp1 of Some r \<Rightarrow> trim_space r | None \<Rightarrow> tp1) = peerID) (c_TrustedPeers (e_Active E)))"

subsection \<open>The header a template builds on\<close>

definition target_diff_of :: "env \<Rightarrow> u32 \<Rightarrow> rat" where
  "target_diff_of E bits = TargetToDiff (Some (e_CompactToBig E bits))"

text \<open>The program serves peers only after \<open>SetNetwork\<close> has installed an engine, so the test for a missing
  engine around the proof of work is always passed and \<open>e_Verthash\<close> is that engine.\<close>

definition verifyHeader80 :: "env \<Rightarrow> btcd \<Rightarrow> string \<Rightarrow> string \<Rightarrow> rat \<Rightarrow> block_header option" where
  "verifyHeader80 E K rawHex expectedHash refDiff =
     (if length rawHex \<noteq> 160 then None
      else (case hex_DecodeString rawHex of
              None \<Rightarrow> None
            | Some raw \<Rightarrow>
                if length raw \<noteq> 80 then None
                else (case k_DeserializeHeader K raw of
                        None \<Rightarrow> None
                      | Some hdr \<Rightarrow>
                          (let hdrDiff = target_diff_of E (bh_Bits hdr)
                           in if expectedHash \<noteq> '''' \<and> e_HashString E (e_BlockHash E hdr) \<noteq> expectedHash then None
                              else if bh_Bits hdr = 0 then None
                              else if hdrDiff \<le> 0 \<or> refDiff \<le> 0 then None
                              else if hdrDiff < fmul refDiff (1 / 2) \<or> fmul refDiff 2 < hdrDiff then None
                              else (case e_Verthash E raw of
                                      None \<Rightarrow> None
                                    | Some pow \<Rightarrow>
                                        if length pow \<noteq> 32 then None
                                        else if e_CompactToBig E (bh_Bits hdr) < big_SetBytes (ReverseBytes pow) then None
                                        else Some hdr)))))"

text \<open>The walk over the ancestors' headers: \<open>None\<close> when one fails, else whether one links to the chain.\<close>

fun link_ancestors :: "env \<Rightarrow> btcd \<Rightarrow> ShareChain \<Rightarrow> rat \<Rightarrow> string \<Rightarrow> string list \<Rightarrow> bool \<Rightarrow> bool option" where
  "link_ancestors E K sc refDiff curPrev [] linked = Some linked"
| "link_ancestors E K sc refDiff curPrev (ancHex # r) linked =
     (if linked then Some True
      else (case verifyHeader80 E K ancHex curPrev refDiff of
              None \<Rightarrow> None
            | Some hdr \<Rightarrow>
                if KnowsBlockHash E sc curPrev \<or> KnowsBlockHash E sc (e_HashString E (bh_PrevBlock hdr)) then Some True
                else link_ancestors E K sc refDiff (e_HashString E (bh_PrevBlock hdr)) r False))"

text \<open>The range of the template's own difficulty: the reference difficulty when it is in range.\<close>

definition template_ref :: "env \<Rightarrow> BlockTemplate \<Rightarrow> ShareChain \<Rightarrow> rat option" where
  "template_ref E t sc =
     (case parse_hex32 (t_Bits t) of
        None \<Rightarrow> None
      | Some bits \<Rightarrow>
          (let tmplDiff = target_diff_of E bits; refBits = GetRecentNetworkBits E sc; refDiff = target_diff_of E refBits
           in if bits = 0 \<or> tmplDiff \<le> 0 then None
              else if refBits = 0 then None
              else if refDiff \<le> 0 \<or> tmplDiff < fmul refDiff (1 / 2) \<or> fmul refDiff 2 < tmplDiff then None
              else Some refDiff))"

text \<open>\<open>t.PreviousBlockHash[:12]\<close> in a log line of a rejection.\<close>

definition log_reject :: "BlockTemplate \<Rightarrow> bool option" where
  "log_reject t = (if length (t_PreviousBlockHash t) < 12 then None else Some False)"

definition verifyTemplatePrevHeader :: "env \<Rightarrow> btcd \<Rightarrow> BlockTemplate \<Rightarrow> WorkManager \<Rightarrow> bool option \<times> WorkManager" where
  "verifyTemplatePrevHeader E K t wm =
     (case template_ref E t (wm_ShareChain wm) of
        None \<Rightarrow> (Some False, wm)
      | Some refDiff \<Rightarrow>
          if gm_get False (wm_verifiedBlocks wm) (t_PreviousBlockHash t) then (Some True, wm)
          else if t_PrevBlockHeaderHex t = '''' then (log_reject t, wm)
          else (case verifyHeader80 E K (t_PrevBlockHeaderHex t) (t_PreviousBlockHash t) refDiff of
                  None \<Rightarrow> (log_reject t, wm)
                | Some hdr \<Rightarrow>
                    (let sc = wm_ShareChain wm; prevStr = e_HashString E (bh_PrevBlock hdr)
                     in case link_ancestors E K sc refDiff prevStr (t_AncestorHeadersHex t)
                               (KnowsBlockHash E sc (t_PreviousBlockHash t) \<or> KnowsBlockHash E sc prevStr) of
                          None \<Rightarrow> (Some False, wm)
                        | Some False \<Rightarrow> (log_reject t, wm)
                        | Some True \<Rightarrow> (Some True, wm\<lparr>wm_verifiedBlocks := gm_set (t_PreviousBlockHash t) True (wm_verifiedBlocks wm)\<rparr>))))"

subsection \<open>Votes\<close>

definition tx_key :: "BlockTemplateTx \<Rightarrow> string" where
  "tx_key tx = (if bt_TxID tx = '''' then bt_Hash tx else bt_TxID tx)"

definition intersectTemplateTxs :: "BlockTemplateTx list \<Rightarrow> BlockTemplateTx list \<Rightarrow> BlockTemplateTx list \<times> int" where
  "intersectTemplateTxs a b =
     (if a = [] \<or> b = [] then ([], 0)
      else (let inB = filter (\<lambda>k. k \<noteq> '''') (map tx_key b);
                out = filter (\<lambda>tx. tx_key tx \<noteq> '''' \<and> tx_key tx \<in> set inB \<and> bt_Depends tx = []) a
            in (out, foldl (\<lambda>f tx. wrap64 (f + bt_Fee tx)) 0 out)))"

record tally =
  y_exact :: nat
  y_header :: nat
  y_trusted :: bool
  y_pinned :: "peerTmplVote option"
  y_other :: "peerTmplVote option"

definition vote_agrees :: "time \<Rightarrow> BlockTemplate \<Rightarrow> peerTmplVote \<Rightarrow> bool" where
  "vote_agrees now t v = (now - v_ts v < minutes 2 \<and> v_prev v = t_PreviousBlockHash t \<and> v_bits v = t_Bits t)"

definition count_vote :: "time \<Rightarrow> BlockTemplate \<Rightarrow> string \<Rightarrow> tally \<Rightarrow> peerTmplVote \<Rightarrow> tally" where
  "count_vote now t th y v =
     (if \<not> vote_agrees now t v then y
      else (let y1 = y\<lparr>y_header := Suc (y_header y)\<rparr>;
                y2 = (if v_pinned v then
                        (case y_pinned y1 of
                           None \<Rightarrow> y1\<lparr>y_pinned := Some v\<rparr>
                         | Some p \<Rightarrow> if y_other y1 = None \<and> v_peerID v \<noteq> v_peerID p then y1\<lparr>y_other := Some v\<rparr> else y1)
                      else if y_other y1 = None then y1\<lparr>y_other := Some v\<rparr> else y1)
            in if v_txHash v = th then y2\<lparr>y_exact := Suc (y_exact y2), y_trusted := y_trusted y2 \<or> v_pinned v\<rparr> else y2))"

definition count_votes :: "time \<Rightarrow> BlockTemplate \<Rightarrow> string \<Rightarrow> (string, peerTmplVote) gomap \<Rightarrow> tally" where
  "count_votes now t th votes =
     foldl (count_vote now t th) \<lparr>y_exact = 0, y_header = 0, y_trusted = False, y_pinned = None, y_other = None\<rparr> (map snd votes)"

text \<open>
  The block subsidy, and the template after the vote: as sent, reduced to the common or to no
  transactions, or none. A single vote counts when it is \<open>alone\<close>: its previous block is verified and its
  peer is trusted or the only voter.
\<close>

definition subsidy :: "BlockTemplate \<Rightarrow> int" where
  "subsidy t = drop_bit (nat (t_Height t div 840000)) 5000000000"

definition agreed_template :: "tally \<Rightarrow> bool \<Rightarrow> BlockTemplate \<Rightarrow> BlockTemplate option" where
  "agreed_template y alone t =
     (if 2 \<le> y_exact y \<and> y_trusted y then Some t
      else case (if 2 \<le> y_header y then (y_pinned y, y_other y) else (None, None)) of
        (Some p, Some q) \<Rightarrow>
          (let (common, fees) = intersectTemplateTxs (v_txs p) (v_txs q)
           in Some (t\<lparr>t_Transactions := common, t_CoinbaseValue := wrap64 (subsidy t + fees)\<rparr>))
      | _ \<Rightarrow> if 2 \<le> y_header y \<or> (y_header y = 1 \<and> alone) then Some (t\<lparr>t_Transactions := [], t_CoinbaseValue := subsidy t\<rparr>)
             else None)"

definition template_fees :: "BlockTemplate \<Rightarrow> int" where
  "template_fees t =
     (let fees = foldl (\<lambda>f tx. wrap64 (f + bt_Fee tx)) 0 (t_Transactions t) in if subsidy t < fees then subsidy t else fees)"

definition bad_tx :: "BlockTemplateTx \<Rightarrow> bool" where
  "bad_tx tx = (bt_Fee tx < 0 \<or> (bt_Data tx = '''' \<and> bt_TxID tx = '''' \<and> bt_Hash tx = ''''))"

definition template_ok :: "BlockTemplate \<Rightarrow> bool" where
  "template_ok t = (t_FullNode t \<and> 0 < t_Height t \<and> t_PreviousBlockHash t \<noteq> '''' \<and> t_Bits t \<noteq> ''''
     \<and> \<not> list_ex bad_tx (t_Transactions t))"

text \<open>The highest template held: its height, key and transaction set; nothing when the last agreement is
  three minutes old.\<close>

definition current_template :: "env \<Rightarrow> btcd \<Rightarrow> time \<Rightarrow> WorkManager \<Rightarrow> int \<times> string \<times> string" where
  "current_template E K now wm =
     (let cur = foldl (\<lambda>c (k, v). if fst c \<le> t_Height v then (t_Height v, k, txSetHash E K (t_Transactions v)) else c)
                  (0, '''', '''') (wm_Templates wm)
      in if 0 < fst cur \<and> minutes 3 < now - wm_lastAgreedTime wm then (0, '''', '''') else cur)"

subsection \<open>Found blocks on a light node\<close>

definition depth :: "int \<Rightarrow> PayoutBlock \<Rightarrow> int" where
  "depth height pb = wrap64 (height - sint (pb_BlockHeight pb))"

definition settle :: "int \<Rightarrow> PayoutBlock \<Rightarrow> PayoutBlock" where
  "settle height pb =
     (if 100 \<le> depth height pb then pb\<lparr>pb_State := if pb_Confirmed pb then StatePaid else StateOrphan\<rparr>
      else if \<not> pb_Confirmed pb \<and> 6 \<le> depth height pb then pb\<lparr>pb_State := StateOrphan\<rparr> else pb)"

definition settles :: "int \<Rightarrow> PayoutBlock \<Rightarrow> bool" where
  "settles height pb = (100 \<le> depth height pb \<or> (\<not> pb_Confirmed pb \<and> 6 \<le> depth height pb))"

text \<open>One block of the loop in \<open>ApplyRemoteTemplateJSON\<close>: the block, whether it changed, and the hash to
  query. \<open>ask\<close> tells whether \<open>CheckBlockConfirmationsFunc\<close> is set.\<close>

definition confirm_block :: "env \<Rightarrow> ShareChain \<Rightarrow> bool \<Rightarrow> BlockTemplate \<Rightarrow> PayoutBlock \<Rightarrow> PayoutBlock \<times> bool \<times> string list" where
  "confirm_block E sc ask t pb =
     (case pb_BlockHash pb of
        None \<Rightarrow> (pb, False, [])
      | Some h \<Rightarrow>
          (let bhStr = e_HashString E h;
               now_conf = (\<not> pb_Confirmed pb \<and> (bhStr = t_PreviousBlockHash t \<or> HasShareWithPrevBlock E sc bhStr));
               pb1 = (if now_conf then pb\<lparr>pb_Confirmed := True\<rparr> else pb)
           in if pb_State pb1 = StatePending \<and> \<not> pb_Confirmed pb1 \<and> 1 \<le> depth (t_Height t) pb1 \<and> ask then (pb1, now_conf, [bhStr])
              else if pb_State pb1 = StatePending \<and> settles (t_Height t) pb1 then (settle (t_Height t) pb1, True, [])
              else (pb1, now_conf, [])))"

definition confirm_blocks :: "env \<Rightarrow> bool \<Rightarrow> BlockTemplate \<Rightarrow> WorkManager \<Rightarrow> WorkManager \<times> string list" where
  "confirm_blocks E ask t wm =
     (let rs = map (confirm_block E (wm_ShareChain wm) ask t) (wm_PendingBlocks wm);
          wm1 = wm\<lparr>wm_PendingBlocks := map fst rs\<rparr>
      in (if list_ex (\<lambda>r. fst (snd r)) rs then saveBlocksLocked E wm1 else wm1, concat (map (\<lambda>r. snd (snd r)) rs)))"

text \<open>The goroutine's update, with the confirmations the peers reported.\<close>

definition confirm_result :: "env \<Rightarrow> int \<Rightarrow> (string, int) gomap \<Rightarrow> PayoutBlock \<Rightarrow> PayoutBlock \<times> bool" where
  "confirm_result E height results pb =
     (case pb_BlockHash pb of
        None \<Rightarrow> (pb, False)
      | Some h \<Rightarrow>
          if pb_State pb \<noteq> StatePending then (pb, False)
          else (let seen = (case map_of results (e_HashString E h) of Some n \<Rightarrow> 0 < n | None \<Rightarrow> False) \<and> \<not> pb_Confirmed pb;
                    pb1 = (if seen then pb\<lparr>pb_Confirmed := True\<rparr> else pb)
                in (settle height pb1, seen \<or> settles height pb1)))"

definition apply_confirmations :: "env \<Rightarrow> int \<Rightarrow> (string, int) gomap \<Rightarrow> WorkManager \<Rightarrow> WorkManager" where
  "apply_confirmations E height results wm =
     (let rs = map (confirm_result E height results) (wm_PendingBlocks wm);
          wm1 = wm\<lparr>wm_PendingBlocks := map fst rs\<rparr>
      in if list_ex snd rs then saveBlocksLocked E wm1 else wm1)"

subsection \<open>Applying a peer's template\<close>

definition cast_vote :: "env \<Rightarrow> btcd \<Rightarrow> time \<Rightarrow> string \<Rightarrow> string \<Rightarrow> BlockTemplate \<Rightarrow> WorkManager \<Rightarrow> WorkManager" where
  "cast_vote E K now peerID voterKey t wm =
     (if voterKey = '''' then wm
      else wm\<lparr>wm_peerTmpl := gm_set voterKey \<lparr>v_peerID = peerID, v_pinned = IsTrustedPeer E peerID, v_prev = t_PreviousBlockHash t,
                v_txHash = txSetHash E K (t_Transactions t), v_bits = t_Bits t, v_height = t_Height t, v_txs = t_Transactions t,
                v_ts = now\<rparr> (wm_peerTmpl wm)\<rparr>)"

text \<open>After the agreement on \<open>t\<close>: whether it is news, and the state.\<close>

definition accept_template ::
  "env \<Rightarrow> btcd \<Rightarrow> (string \<Rightarrow> u32 option) \<Rightarrow> bool \<Rightarrow> time \<Rightarrow> string \<Rightarrow> string \<Rightarrow> BlockTemplate \<Rightarrow> WorkManager \<Rightarrow> bool \<times> WorkManager \<times> string list" where
  "accept_template E K scan ask now curPrev curTH t wm =
     (let prevChanged = (t_PreviousBlockHash t \<noteq> curPrev); txChanged = (txSetHash E K (t_Transactions t) \<noteq> curTH);
          wm1 = wm\<lparr>wm_lastAgreedTime := now\<rparr>;
          wm2 = (if prevChanged \<or> txChanged
                 then wm1\<lparr>wm_Templates := gm_set (t_PreviousBlockHash t) t (if prevChanged then [] else wm_Templates wm1)\<rparr> else wm1);
          wm3 = wm2\<lparr>wm_ShareChain := SetCurrentBlockTarget E (t_PreviousBlockHash t) (scan (t_Bits t)) (wm_ShareChain wm2),
                    wm_lastBlockUpdate := now\<rparr>;
          (wm4, toQuery) = confirm_blocks E ask t wm3
      in (prevChanged \<or> txChanged, if prevChanged \<or> txChanged then push_new_block t wm4 else wm4, toQuery))"

text \<open>The part under the template lock, once the header is verified.\<close>

definition vote_template ::
  "env \<Rightarrow> btcd \<Rightarrow> (string \<Rightarrow> u32 option) \<Rightarrow> bool \<Rightarrow> time \<Rightarrow> string \<Rightarrow> string \<Rightarrow> BlockTemplate \<Rightarrow> WorkManager \<Rightarrow> bool \<times> WorkManager \<times> string list" where
  "vote_template E K scan ask now peerID voterKey t wm =
     (if gm_get 0 (wm_peerScores wm) peerID < - 2 then (False, wm, [])
      else if t_CoinbaseValue t \<le> 0 \<or> subsidy t + template_fees t < t_CoinbaseValue t
        then (False, wm\<lparr>wm_peerScores := gm_set peerID (gm_get 0 (wm_peerScores wm) peerID - 1) (wm_peerScores wm)\<rparr>, [])
      else (let th = txSetHash E K (t_Transactions t);
                wm1 = cast_vote E K now peerID voterKey t wm;
                (curH, curPrev, curTH) = current_template E K now wm1;
                y = count_votes now t th (wm_peerTmpl wm1);
                alone = gm_get False (wm_verifiedBlocks wm1) (t_PreviousBlockHash t)
                          \<and> (IsTrustedPeer E peerID \<or> length (wm_peerTmpl wm1) = 1)
            in if 0 < curH \<and> (t_Height t < curH \<or> wrap64 (curH + 100) < t_Height t) then (False, wm1, [])
               else (case agreed_template y alone t of
                       None \<Rightarrow> (False, wm1, [])
                     | Some t1 \<Rightarrow> accept_template E K scan ask now curPrev curTH t1 wm1)))"

definition ApplyRemoteTemplateJSON ::
  "env \<Rightarrow> btcd \<Rightarrow> (string \<Rightarrow> u32 option) \<Rightarrow> bool \<Rightarrow> time \<Rightarrow> string \<Rightarrow> string \<Rightarrow> body \<Rightarrow> WorkManager
   \<Rightarrow> bool option \<times> WorkManager \<times> string list" where
  "ApplyRemoteTemplateJSON E K scan ask now peerID voterKey raw wm =
     (if \<not> c_LightMode (e_Active E) then (Some False, wm, [])
      else (case (case raw of Json j \<Rightarrow> dec_BlockTemplate j | BadJson s \<Rightarrow> None) of
              None \<Rightarrow> (Some False, wm, [])
            | Some t \<Rightarrow>
                if \<not> template_ok t then (Some False, wm, [])
                else (case verifyTemplatePrevHeader E K t wm of
                        (None, wm1) \<Rightarrow> (None, wm1, [])
                      | (Some False, wm1) \<Rightarrow> (Some False, wm1, [])
                      | (Some True, wm1) \<Rightarrow>
                          (let (r, wm2, q) = vote_template E K scan ask now peerID (if voterKey = '''' then peerID else voterKey) t wm1
                           in (Some r, wm2, q)))))"

subsection \<open>Checked headers\<close>

text \<open>A header checked for the hash \<open>h\<close>: the hash is its own, its proof of work meets its target, and its
  difficulty is between half and twice the reference.\<close>

definition header_ok :: "env \<Rightarrow> btcd \<Rightarrow> rat \<Rightarrow> string \<Rightarrow> block_header \<Rightarrow> bool" where
  "header_ok E K ref h hdr =
     (\<exists>raw pow. length raw = 80 \<and> k_DeserializeHeader K raw = Some hdr \<and> e_HashString E (e_BlockHash E hdr) = h
        \<and> e_Verthash E raw = Some pow \<and> big_SetBytes (ReverseBytes pow) \<le> e_CompactToBig E (bh_Bits hdr)
        \<and> fmul ref (1 / 2) \<le> target_diff_of E (bh_Bits hdr) \<and> target_diff_of E (bh_Bits hdr) \<le> fmul ref 2)"

text \<open>A block that a chain of checked headers joins to a block the share chain knows.\<close>

inductive linked :: "env \<Rightarrow> btcd \<Rightarrow> ShareChain \<Rightarrow> rat \<Rightarrow> string \<Rightarrow> bool"
  for E :: env and K :: btcd and sc :: ShareChain and ref :: rat where
  known: "KnowsBlockHash E sc h \<Longrightarrow> linked E K sc ref h"
| step: "header_ok E K ref h hdr \<Longrightarrow> linked E K sc ref (e_HashString E (bh_PrevBlock hdr)) \<Longrightarrow> linked E K sc ref h"

lemma verifyHeader80_ok:
  assumes "verifyHeader80 E K rawHex h ref = Some hdr" "h \<noteq> ''''"
  shows "header_ok E K ref h hdr"
proof -
  obtain raw pow where "length raw = 80" "k_DeserializeHeader K raw = Some hdr" "e_HashString E (e_BlockHash E hdr) = h"
    "e_Verthash E raw = Some pow" "big_SetBytes (ReverseBytes pow) \<le> e_CompactToBig E (bh_Bits hdr)"
    "fmul ref (1 / 2) \<le> target_diff_of E (bh_Bits hdr)" "target_diff_of E (bh_Bits hdr) \<le> fmul ref 2"
    using assms unfolding verifyHeader80_def
    by (auto simp: Let_def not_less split: if_splits option.splits)
  then show ?thesis unfolding header_ok_def by blast
qed

lemma link_ancestors_linked:
  assumes "link_ancestors E K sc ref h hexes l = Some True" "l \<Longrightarrow> linked E K sc ref h" "\<forall>x. e_HashString E x \<noteq> ''''" "h \<noteq> ''''"
  shows "linked E K sc ref h"
  using assms
proof (induction hexes arbitrary: h l)
  case (Cons a hexes)
  show ?case
  proof (cases l)
    case False
    then obtain hdr where hdr: "verifyHeader80 E K a h ref = Some hdr" using Cons.prems(1) by (auto split: option.splits)
    have ok: "header_ok E K ref h hdr" using verifyHeader80_ok[OF hdr Cons.prems(4)] .
    consider "KnowsBlockHash E sc h" | "KnowsBlockHash E sc (e_HashString E (bh_PrevBlock hdr))"
      | "link_ancestors E K sc ref (e_HashString E (bh_PrevBlock hdr)) hexes False = Some True"
      using Cons.prems(1) False hdr by (auto split: if_splits)
    then show ?thesis
    proof cases
      case 3
      then have "linked E K sc ref (e_HashString E (bh_PrevBlock hdr))"
        using Cons.IH[of "e_HashString E (bh_PrevBlock hdr)" False] Cons.prems(3) by simp
      then show ?thesis by (rule linked.step[OF ok])
    qed (auto intro: linked.known linked.step[OF ok])
  qed (use Cons.prems in simp)
qed simp

text \<open>The block \<open>h\<close> is joined to the share chain \<open>sc\<close>: it has a checked header, and checked headers lead from it
  to a block that \<open>sc\<close> knows, all of them at a difficulty near that of the recent shares of \<open>sc\<close>.\<close>

definition joined :: "env \<Rightarrow> btcd \<Rightarrow> ShareChain \<Rightarrow> string \<Rightarrow> bool" where
  "joined E K sc h = (let bits = GetRecentNetworkBits E sc; ref = target_diff_of E bits
     in bits \<noteq> 0 \<and> 0 < ref \<and> (\<exists>hdr. header_ok E K ref h hdr) \<and> linked E K sc ref h)"

text \<open>Every block marked as verified was joined to one of the chains \<open>H\<close>.\<close>

definition verified_ok :: "env \<Rightarrow> btcd \<Rightarrow> ShareChain set \<Rightarrow> WorkManager \<Rightarrow> bool" where
  "verified_ok E K H wm = (\<forall>h. gm_get False (wm_verifiedBlocks wm) h \<longrightarrow> (\<exists>sc \<in> H. joined E K sc h))"

lemma verified_ok_mono: "verified_ok E K H wm \<Longrightarrow> H \<subseteq> H' \<Longrightarrow> verified_ok E K H' wm"
  unfolding verified_ok_def by blast

lemma template_ref_eq:
  "template_ref E t sc = Some ref \<Longrightarrow> ref = target_diff_of E (GetRecentNetworkBits E sc) \<and> GetRecentNetworkBits E sc \<noteq> 0 \<and> 0 < ref"
  by (auto simp: template_ref_def Let_def split: option.splits if_splits)

lemma verify_joined:
  assumes "verifyTemplatePrevHeader E K t wm = (Some True, wm')" "\<forall>x. e_HashString E x \<noteq> ''''" "t_PreviousBlockHash t \<noteq> ''''"
  shows "gm_get False (wm_verifiedBlocks wm) (t_PreviousBlockHash t) \<or> joined E K (wm_ShareChain wm) (t_PreviousBlockHash t)"
    and "wm' = wm\<lparr>wm_verifiedBlocks := wm_verifiedBlocks wm'\<rparr>"
    and "gm_get False (wm_verifiedBlocks wm') = (gm_get False (wm_verifiedBlocks wm))(t_PreviousBlockHash t := True)"
    and "template_ref E t (wm_ShareChain wm) \<noteq> None"
proof -
  obtain ref where ref: "template_ref E t (wm_ShareChain wm) = Some ref"
    using assms(1) by (cases "template_ref E t (wm_ShareChain wm)") (auto simp: verifyTemplatePrevHeader_def)
  then show "template_ref E t (wm_ShareChain wm) \<noteq> None" by simp
  let ?sc = "wm_ShareChain wm" and ?p = "t_PreviousBlockHash t"
  have "(gm_get False (wm_verifiedBlocks wm) ?p \<or> joined E K ?sc ?p) \<and> wm' = wm\<lparr>wm_verifiedBlocks := wm_verifiedBlocks wm'\<rparr>
      \<and> gm_get False (wm_verifiedBlocks wm') = (gm_get False (wm_verifiedBlocks wm))(?p := True)"
  proof (cases "gm_get False (wm_verifiedBlocks wm) ?p")
    case True
    then show ?thesis using assms(1) by (auto simp: verifyTemplatePrevHeader_def ref fun_eq_iff)
  next
    case False
    note s = assms(1)[unfolded verifyTemplatePrevHeader_def ref option.case if_not_P[OF False]]
    obtain hdr where hdr: "verifyHeader80 E K (t_PrevBlockHeaderHex t) ?p ref = Some hdr"
      using s by (auto simp: log_reject_def split: if_splits option.splits)
    let ?q = "e_HashString E (bh_PrevBlock hdr)"
    have la: "link_ancestors E K ?sc ref ?q (t_AncestorHeadersHex t) (KnowsBlockHash E ?sc ?p \<or> KnowsBlockHash E ?sc ?q) = Some True"
      and w: "wm' = wm\<lparr>wm_verifiedBlocks := gm_set ?p True (wm_verifiedBlocks wm)\<rparr>"
      using s unfolding hdr by (auto simp: Let_def log_reject_def split: if_splits option.splits bool.splits)
    have ok: "header_ok E K ref ?p hdr" by (rule verifyHeader80_ok[OF hdr assms(3)])
    have "linked E K ?sc ref ?p"
    proof (cases "KnowsBlockHash E ?sc ?p")
      case True
      then show ?thesis by (rule linked.known)
    next
      case f: False
      have "linked E K ?sc ref ?q"
        using link_ancestors_linked[OF la] assms(2) f by (auto intro: linked.known)
      then show ?thesis by (rule linked.step[OF ok])
    qed
    then have "joined E K ?sc ?p" using ok template_ref_eq[OF ref] by (auto simp: joined_def Let_def)
    then show ?thesis using w by (auto simp: fun_eq_iff)
  qed
  then show "gm_get False (wm_verifiedBlocks wm) (t_PreviousBlockHash t) \<or> joined E K (wm_ShareChain wm) (t_PreviousBlockHash t)"
    "wm' = wm\<lparr>wm_verifiedBlocks := wm_verifiedBlocks wm'\<rparr>"
    "gm_get False (wm_verifiedBlocks wm') = (gm_get False (wm_verifiedBlocks wm))(t_PreviousBlockHash t := True)" by blast+
qed

lemma verify_ok:
  assumes "verifyTemplatePrevHeader E K t wm = (Some True, wm')" "\<forall>x. e_HashString E x \<noteq> ''''" "t_PreviousBlockHash t \<noteq> ''''"
    and "verified_ok E K H wm" "wm_ShareChain wm \<in> H"
  shows "verified_ok E K H wm'"
  using verify_joined(1)[OF assms(1-3)] assms(4,5) unfolding verified_ok_def verify_joined(3)[OF assms(1-3)] by auto

subsection \<open>Counting votes\<close>

definition agreeing :: "time \<Rightarrow> BlockTemplate \<Rightarrow> peerTmplVote list \<Rightarrow> peerTmplVote list" where
  "agreeing now t vs = filter (vote_agrees now t) vs"

definition tally_of :: "time \<Rightarrow> BlockTemplate \<Rightarrow> string \<Rightarrow> peerTmplVote list \<Rightarrow> tally \<Rightarrow> bool" where
  "tally_of now t th vs y \<longleftrightarrow> y_header y = length (agreeing now t vs)
     \<and> y_exact y = length (filter (\<lambda>v. v_txHash v = th) (agreeing now t vs))
     \<and> (y_trusted y \<longleftrightarrow> (\<exists>v \<in> set (agreeing now t vs). v_txHash v = th \<and> v_pinned v))
     \<and> (\<forall>p. y_pinned y = Some p \<longrightarrow> p \<in> set (agreeing now t vs) \<and> v_pinned p)
     \<and> (\<forall>q. y_other y = Some q \<longrightarrow> q \<in> set (agreeing now t vs))"

lemma count_vote_tally:
  assumes "tally_of now t th vs y"
  shows "tally_of now t th (vs @ [v]) (count_vote now t th y v)"
proof (cases "vote_agrees now t v")
  case True
  then show ?thesis
    using assms
    by (cases "y_pinned y"; cases "y_other y"; simp add: tally_of_def count_vote_def agreeing_def Let_def; blast)
next
  case False
  then show ?thesis using assms by (simp add: tally_of_def count_vote_def agreeing_def)
qed

lemma count_votes_tally: "tally_of now t th (map snd votes) (count_votes now t th votes)"
proof -
  have "tally_of now t th (us @ vs) (foldl (count_vote now t th) y vs)" if "tally_of now t th us y" for us vs y
    using that by (induction vs arbitrary: us y) (simp, metis append.assoc append_Cons append_Nil count_vote_tally foldl_Cons)
  moreover have "tally_of now t th [] \<lparr>y_exact = 0, y_header = 0, y_trusted = False, y_pinned = None, y_other = None\<rparr>"
    by (simp add: tally_of_def agreeing_def)
  ultimately show ?thesis unfolding count_votes_def by (metis append_Nil)
qed

text \<open>What the stored template \<open>t'\<close> has to do with the received \<open>t\<close> and the votes for its header.\<close>

definition agreed_on :: "env \<Rightarrow> btcd \<Rightarrow> time \<Rightarrow> peerTmplVote list \<Rightarrow> BlockTemplate \<Rightarrow> BlockTemplate \<Rightarrow> bool" where
  "agreed_on E K now vs t t' =
     ((t' = t \<and> 2 \<le> length (filter (\<lambda>v. v_txHash v = txSetHash E K (t_Transactions t)) (agreeing now t vs))
         \<and> (\<exists>v \<in> set (agreeing now t vs). v_txHash v = txSetHash E K (t_Transactions t) \<and> v_pinned v))
      \<or> (2 \<le> length (agreeing now t vs) \<and> (\<exists>p \<in> set (agreeing now t vs). \<exists>q \<in> set (agreeing now t vs). v_pinned p
         \<and> t' = t\<lparr>t_Transactions := fst (intersectTemplateTxs (v_txs p) (v_txs q)),
                  t_CoinbaseValue := wrap64 (subsidy t + snd (intersectTemplateTxs (v_txs p) (v_txs q)))\<rparr>))
      \<or> (agreeing now t vs \<noteq> [] \<and> t' = t\<lparr>t_Transactions := [], t_CoinbaseValue := subsidy t\<rparr>))"

lemma agreed_template_on:
  assumes "agreed_template (count_votes now t (txSetHash E K (t_Transactions t)) votes) alone t = Some t'"
  shows "agreed_on E K now (map snd votes) t t'"
proof -
  define y where "y = count_votes now t (txSetHash E K (t_Transactions t)) votes"
  have y: "tally_of now t (txSetHash E K (t_Transactions t)) (map snd votes) y" unfolding y_def by (rule count_votes_tally)
  note yd = y[unfolded tally_of_def]
  consider "t' = t" "2 \<le> y_exact y" "y_trusted y"
    | p q where "2 \<le> y_header y" "y_pinned y = Some p" "y_other y = Some q"
        "t' = t\<lparr>t_Transactions := fst (intersectTemplateTxs (v_txs p) (v_txs q)),
                  t_CoinbaseValue := wrap64 (subsidy t + snd (intersectTemplateTxs (v_txs p) (v_txs q)))\<rparr>"
    | "1 \<le> y_header y" "t' = t\<lparr>t_Transactions := [], t_CoinbaseValue := subsidy t\<rparr>"
    using assms unfolding y_def[symmetric] agreed_template_def
    by (auto simp: Let_def case_prod_beta split: if_splits option.splits)
  then show ?thesis
  proof cases
    case 1
    then show ?thesis using yd unfolding agreed_on_def by (intro disjI1) simp
  next
    case (2 p q)
    then show ?thesis using yd unfolding agreed_on_def by (metis (no_types, lifting))
  next
    case 3
    then show ?thesis using yd unfolding agreed_on_def by auto
  qed
qed

subsection \<open>Acceptance\<close>

lemma confirm_blocks_frame:
  assumes "confirm_blocks E ask t wm = (wm', q)"
  shows "wm' = wm\<lparr>wm_PendingBlocks := wm_PendingBlocks wm', wm_file := wm_file wm'\<rparr>"
  using assms by (auto simp: confirm_blocks_def Let_def saveBlocksLocked_def split: if_splits)

lemma accept_template_fields:
  assumes "accept_template E K scan ask now cp cth t wm = (r, wm', q)"
  shows "wm_verifiedBlocks wm' = wm_verifiedBlocks wm" "wm_peerTmpl wm' = wm_peerTmpl wm"
    "r \<Longrightarrow> map_of (wm_Templates wm') (t_PreviousBlockHash t) = Some t"
    "wm_Templates wm' = (if r then gm_set (t_PreviousBlockHash t) t (if t_PreviousBlockHash t \<noteq> cp then [] else wm_Templates wm)
       else wm_Templates wm)"
    "wm_NewBlockChan wm' = (if r \<and> length (wm_NewBlockChan wm) < 10 then wm_NewBlockChan wm @ [t] else wm_NewBlockChan wm)"
    "wm_ForceNewTemplate wm' = wm_ForceNewTemplate wm"
    "\<exists>wm0. wm_PendingBlocks wm0 = wm_PendingBlocks wm \<and> wm_PendingBlocks wm' = wm_PendingBlocks (fst (confirm_blocks E ask t wm0))"
proof -
  define pc where "pc = (t_PreviousBlockHash t \<noteq> cp)"
  define tc where "tc = (txSetHash E K (t_Transactions t) \<noteq> cth)"
  define wm3 where "wm3 = (if pc \<or> tc then wm\<lparr>wm_lastAgreedTime := now,
        wm_Templates := gm_set (t_PreviousBlockHash t) t (if pc then [] else wm_Templates wm)\<rparr>
      else wm\<lparr>wm_lastAgreedTime := now\<rparr>)
      \<lparr>wm_ShareChain := SetCurrentBlockTarget E (t_PreviousBlockHash t) (scan (t_Bits t)) (wm_ShareChain wm), wm_lastBlockUpdate := now\<rparr>"
  obtain wm4 q4 where c: "confirm_blocks E ask t wm3 = (wm4, q4)" by fastforce
  note f = confirm_blocks_frame[OF c]
  have e: "accept_template E K scan ask now cp cth t wm = (pc \<or> tc, if pc \<or> tc then push_new_block t wm4 else wm4, q4)"
    using c unfolding accept_template_def pc_def[symmetric] tc_def[symmetric] wm3_def by (auto simp: Let_def split: if_splits)
  have r: "r = (pc \<or> tc)" "wm' = (if r then push_new_block t wm4 else wm4)" using assms unfolding e by auto
  have g: "wm_verifiedBlocks wm4 = wm_verifiedBlocks wm" "wm_peerTmpl wm4 = wm_peerTmpl wm" "wm_NewBlockChan wm4 = wm_NewBlockChan wm"
    "wm_ForceNewTemplate wm4 = wm_ForceNewTemplate wm"
    "wm_Templates wm4 = (if r then gm_set (t_PreviousBlockHash t) t (if pc then [] else wm_Templates wm) else wm_Templates wm)"
    by (subst f, simp add: wm3_def r(1))+
  have p: "wm_PendingBlocks wm' = wm_PendingBlocks wm4" by (simp add: r push_new_block_def)
  show "wm_verifiedBlocks wm' = wm_verifiedBlocks wm" "wm_peerTmpl wm' = wm_peerTmpl wm" "wm_ForceNewTemplate wm' = wm_ForceNewTemplate wm"
    "wm_NewBlockChan wm' = (if r \<and> length (wm_NewBlockChan wm) < 10 then wm_NewBlockChan wm @ [t] else wm_NewBlockChan wm)"
    using g by (simp_all add: r(2) push_new_block_def)
  show t: "wm_Templates wm' = (if r then gm_set (t_PreviousBlockHash t) t (if t_PreviousBlockHash t \<noteq> cp then [] else wm_Templates wm)
       else wm_Templates wm)"
    using g(5) by (simp add: r(2) push_new_block_def pc_def)
  show "r \<Longrightarrow> map_of (wm_Templates wm') (t_PreviousBlockHash t) = Some t" by (simp add: t)
  show "\<exists>wm0. wm_PendingBlocks wm0 = wm_PendingBlocks wm \<and> wm_PendingBlocks wm' = wm_PendingBlocks (fst (confirm_blocks E ask t wm0))"
    by (rule exI[of _ wm3]) (simp add: p c, simp add: wm3_def)
qed

lemma agreed_prev: "agreed_template y alone t = Some t' \<Longrightarrow> t_PreviousBlockHash t' = t_PreviousBlockHash t"
  by (auto simp: agreed_template_def Let_def case_prod_beta split: if_splits option.splits)

text \<open>The ways through the part under the lock: refused with the templates as they were, or accepted.\<close>

lemma vote_template_cases:
  assumes "vote_template E K scan ask now p vk t wm = (r, wm', q)"
  obtains (refused) "\<not> r" "wm_Templates wm' = wm_Templates wm" "wm_NewBlockChan wm' = wm_NewBlockChan wm"
      "wm_verifiedBlocks wm' = wm_verifiedBlocks wm" "wm_PendingBlocks wm' = wm_PendingBlocks wm"
      "wm_ForceNewTemplate wm' = wm_ForceNewTemplate wm"
  | (accepted) wm1 t1 cp cth where "wm1 = cast_vote E K now p vk t wm" "cp = fst (snd (current_template E K now wm1))"
      "agreed_on E K now (map snd (wm_peerTmpl wm1)) t t1" "t_PreviousBlockHash t1 = t_PreviousBlockHash t"
      "accept_template E K scan ask now cp cth t1 wm1 = (r, wm', q)"
      "0 < t_CoinbaseValue t" "t_CoinbaseValue t \<le> subsidy t + template_fees t"
proof -
  define wm1 where "wm1 = cast_vote E K now p vk t wm"
  obtain curH cp cth where c: "current_template E K now wm1 = (curH, cp, cth)" by (metis prod_cases3)
  have f: "wm_Templates wm1 = wm_Templates wm" "wm_NewBlockChan wm1 = wm_NewBlockChan wm" "wm_verifiedBlocks wm1 = wm_verifiedBlocks wm"
    "wm_PendingBlocks wm1 = wm_PendingBlocks wm" "wm_ForceNewTemplate wm1 = wm_ForceNewTemplate wm" by (simp_all add: wm1_def cast_vote_def)
  let ?y = "count_votes now t (txSetHash E K (t_Transactions t)) (wm_peerTmpl wm1)"
  let ?al = "gm_get False (wm_verifiedBlocks wm1) (t_PreviousBlockHash t) \<and> (IsTrustedPeer E p \<or> length (wm_peerTmpl wm1) = 1)"
  note s = assms[unfolded vote_template_def Let_def wm1_def[symmetric] c prod.case]
  show ?thesis
  proof (cases "gm_get 0 (wm_peerScores wm) p < - 2 \<or> t_CoinbaseValue t \<le> 0 \<or> subsidy t + template_fees t < t_CoinbaseValue t
      \<or> (0 < curH \<and> (t_Height t < curH \<or> wrap64 (curH + 100) < t_Height t)) \<or> agreed_template ?y ?al t = None")
    case True
    have "\<not> r \<and> (wm' = wm \<or> wm' = wm1 \<or> (\<exists>ps. wm' = wm\<lparr>wm_peerScores := ps\<rparr>))"
      using s True by (auto split: if_splits option.splits)
    then show ?thesis using refused f by auto
  next
    case False
    then obtain t1 where t1: "agreed_template ?y ?al t = Some t1" by blast
    have "accept_template E K scan ask now cp cth t1 wm1 = (r, wm', q)" using s False t1 by (simp split: if_splits)
    then show ?thesis
      using accepted[of wm1 cp t1 cth] wm1_def c agreed_template_on[OF t1] agreed_prev[OF t1] False by simp
  qed
qed


text \<open>
  A light node crashes on a peer's template whose previous block hash is shorter than twelve
  characters and whose previous header is missing, once its difficulty is in range: the log line of the
  rejection slices the hash.
\<close>

theorem short_hash_panics:
  assumes "c_LightMode (e_Active E)" "dec_BlockTemplate j = Some t" "template_ok t" "template_ref E t (wm_ShareChain wm) \<noteq> None"
    and "\<not> gm_get False (wm_verifiedBlocks wm) (t_PreviousBlockHash t)" "t_PrevBlockHeaderHex t = ''''"
    and "length (t_PreviousBlockHash t) < 12"
  shows "fst (ApplyRemoteTemplateJSON E K scan ask now p vk (Json j) wm) = None"
  using assms by (auto simp: ApplyRemoteTemplateJSON_def verifyTemplatePrevHeader_def log_reject_def)

subsection \<open>Found blocks on a light node\<close>

lemma settle_fields [simp]:
  "pb_BlockHeight (settle n pb) = pb_BlockHeight pb" "pb_Confirmed (settle n pb) = pb_Confirmed pb" "pb_BlockHash (settle n pb) = pb_BlockHash pb"
  by (simp_all add: settle_def)

lemma depth_State [simp]: "depth n (pb\<lparr>pb_Confirmed := b\<rparr>) = depth n pb"
  by (simp add: depth_def)

lemma confirm_block_height: "pb_BlockHeight (fst (confirm_block E sc ask t pb)) = pb_BlockHeight pb"
  by (simp add: confirm_block_def Let_def split: option.split)

lemma confirm_blocks_heights: "map pb_BlockHeight (wm_PendingBlocks (fst (confirm_blocks E ask t wm))) = map pb_BlockHeight (wm_PendingBlocks wm)"
  by (simp add: confirm_blocks_def Let_def confirm_block_height)

lemma apply_confirmations_heights:
  "map pb_BlockHeight (wm_PendingBlocks (apply_confirmations E n res wm)) = map pb_BlockHeight (wm_PendingBlocks wm)"
proof -
  have "pb_BlockHeight (fst (confirm_result E n res pb)) = pb_BlockHeight pb" for pb
    by (simp add: confirm_result_def Let_def split: option.split)
  then show ?thesis by (simp add: apply_confirmations_def Let_def)
qed

text \<open>How a found block may change on a light node.\<close>

definition light_step :: "int \<Rightarrow> PayoutBlock \<Rightarrow> PayoutBlock \<Rightarrow> bool" where
  "light_step height pb r \<longleftrightarrow> r = pb\<lparr>pb_State := pb_State r, pb_Confirmed := pb_Confirmed r\<rparr> \<and> (pb_Confirmed pb \<longrightarrow> pb_Confirmed r)
     \<and> (pb_State r \<noteq> pb_State pb \<longrightarrow> pb_State pb = StatePending
         \<and> (if pb_Confirmed r then pb_State r = StatePaid \<and> 100 \<le> depth height pb
            else pb_State r = StateOrphan \<and> 6 \<le> depth height pb))"

lemma settle_light_step:
  "pb_State pb = StatePending \<Longrightarrow> light_step n pb (settle n pb)"
  "pb_State pb = StatePending \<Longrightarrow> light_step n pb (settle n (pb\<lparr>pb_Confirmed := True\<rparr>))"
  by (auto simp: light_step_def settle_def)

text \<open>C39: 
  On a light node a new template, or the confirmations peers report, change a found block only so: a
  confirmation is never taken back; a pending block is paid only when confirmed and a hundred blocks
  deep, and given up only when unconfirmed and six deep; nothing else changes.
\<close>

theorem light_settlement:
  "list_all2 (light_step (t_Height t)) (wm_PendingBlocks wm) (wm_PendingBlocks (fst (confirm_blocks E ask t wm)))
   \<and> list_all2 (light_step n) (wm_PendingBlocks wm) (wm_PendingBlocks (apply_confirmations E n res wm))"
proof
  have "light_step (t_Height t) pb (fst (confirm_block E (wm_ShareChain wm) ask t pb))" for pb
    using settle_light_step[of pb "t_Height t"]
    by (auto simp: confirm_block_def Let_def split: option.split) (auto simp: light_step_def)
  then show "list_all2 (light_step (t_Height t)) (wm_PendingBlocks wm) (wm_PendingBlocks (fst (confirm_blocks E ask t wm)))"
    by (simp add: confirm_blocks_def Let_def list_all2_map2 list_all2_same)
  have "light_step n pb (fst (confirm_result E n res pb))" for pb
    using settle_light_step[of pb n]
    by (auto simp: confirm_result_def Let_def split: option.split) (auto simp: light_step_def)
  then show "list_all2 (light_step n) (wm_PendingBlocks wm) (wm_PendingBlocks (apply_confirmations E n res wm))"
    by (simp add: apply_confirmations_def Let_def list_all2_map2 list_all2_same)
qed

text \<open>The mark a restart loses decides: a confirmed block six deep stays pending, and the same block read
  back from the file is given up when no peer reports it.\<close>

lemma restart_forgets_confirmation:
  assumes "pb_State pb = StatePending" "pb_Confirmed pb" "pb_BlockHash pb = Some h" "6 \<le> depth n pb" "depth n pb < 100"
  shows "fst (confirm_result E n [] pb) = pb" "pb_State (fst (confirm_result E n [] (reloaded pb))) = StateOrphan"
  using assms by (auto simp: confirm_result_def settle_def reloaded_def depth_def Let_def)

text \<open>The reward of a template as sent is at most twice the subsidy; that of a template reduced to common
  transactions has no such bound.\<close>

lemma subsidy_bounds: "0 \<le> subsidy t" "subsidy t \<le> 5000000000"
proof -
  have "subsidy t = 5000000000 div 2 ^ nat (t_Height t div 840000)" by (simp add: subsidy_def drop_bit_eq_div)
  then show "0 \<le> subsidy t" "subsidy t \<le> 5000000000"
    by (simp_all add: pos_imp_zdiv_nonneg_iff) (metis (mono_tags) div_by_1 zdiv_mono2 one_le_power zero_less_one_class.zero_le_one zero_le_numeral one_le_numeral zero_less_one)
qed

lemma sent_reward_bound: "t_CoinbaseValue t \<le> subsidy t + template_fees t \<Longrightarrow> t_CoinbaseValue t \<le> 2 * subsidy t"
  by (auto simp: template_fees_def Let_def split: if_splits)

lemma reduced_reward_unbounded:
  defines "tx \<equiv> \<lparr>bt_Data = ''00'', bt_TxID = ''a'', bt_Hash = ''a'', bt_Depends = [], bt_Fee = 20000000000, bt_SigOps = 0, bt_Weight = 0\<rparr>"
  assumes "2 \<le> y_header y" "y_exact y = 0" "y_pinned y = Some p" "y_other y = Some q" "v_txs p = [tx]" "v_txs q = [tx]"
  shows "\<exists>t'. agreed_template y alone t = Some t' \<and> 2 * subsidy t < t_CoinbaseValue t'"
proof -
  have "intersectTemplateTxs [tx] [tx] = ([tx], 20000000000)" by (simp add: intersectTemplateTxs_def tx_key_def tx_def wrap64_def)
  moreover have "wrap64 (subsidy t + 20000000000) = subsidy t + 20000000000" using subsidy_bounds[of t] by (simp add: wrap64_def)
  ultimately show ?thesis using assms(2-) subsidy_bounds[of t] by (simp add: agreed_template_def)
qed

subsection \<open>Examples\<close>

lemma half_to_double: "0 < d \<Longrightarrow> f64 d = d \<Longrightarrow> fmul d (1 / 2) \<le> d \<and> d \<le> fmul d 2"
  using f64.rnd_mono[of "d * (1 / 2)" d] f64.rnd_mono[of d "d * 2"] by simp

lemma target_diff_of_f64 [simp]: "f64 (target_diff_of E b) = target_diff_of E b"
  by (simp add: target_diff_of_def)

lemma template_ref_same:
  assumes "parse_hex32 (t_Bits t) = Some b" "b \<noteq> 0" "GetRecentNetworkBits E sc \<noteq> 0" "0 < target_diff_of E b"
    "target_diff_of E (GetRecentNetworkBits E sc) = target_diff_of E b"
  shows "template_ref E t sc = Some (target_diff_of E b)"
  using half_to_double[OF assms(4)] assms by (simp add: template_ref_def Let_def not_less)

definition light_env :: env where
  "light_env = block_env\<lparr>e_Active := demo_config\<lparr>c_LightMode := True, c_TrustedPeers := [''P'']\<rparr>,
     e_CompactToBig := (\<lambda>b. DiffToTarget 1), e_HashString := (\<lambda>h. CHR ''h'' # hex_EncodeToString h)\<rparr>"

lemma light_env_diff: "0 < target_diff_of light_env b"
  using TargetToDiff_DiffToTarget(1)[of 1] by (simp add: target_diff_of_def light_env_def)

text \<open>A chain with one verified share, which builds on the block of the zero hash.\<close>

definition light_wm :: WorkManager where
  "light_wm = NewWorkManager light_env demo_client
     (NewShareChain\<lparr>sc_shares := [(''k'', demo_share None zeroHash 0)], sc_verified := [(''k'', True)], sc_TipHash := None\<rparr>) NoBlocksFile True"

lemma light_wm_fields: "wm_verifiedBlocks light_wm = []" "wm_peerTmpl light_wm = []" "wm_peerScores light_wm = []" "wm_Templates light_wm = []"
  "wm_ShareChain light_wm = NewShareChain\<lparr>sc_shares := [(''k'', demo_share None zeroHash 0)], sc_verified := [(''k'', True)], sc_TipHash := None\<rparr>"
  by (simp_all add: light_wm_def NewWorkManager_def LoadBlocks_def)

lemma light_bits: "GetRecentNetworkBits light_env (wm_ShareChain light_wm) = 0x1b00ffff"
  by (simp add: light_wm_fields GetRecentNetworkBits_def tip_share_def demo_share_def gm_get_def)

definition light_fields :: "string \<Rightarrow> (string \<times> json) list" where
  "light_fields prev = [(''previousblockhash'', JStr prev), (''coinbasevalue'', JInt 7), (''bits'', JStr ''1b''), (''height'', JInt 9),
     (''full_node'', JBool True)]"

definition light_template :: "string \<Rightarrow> string \<Rightarrow> BlockTemplate" where
  "light_template prev hdr = \<lparr>t_Version = 0, t_PreviousBlockHash = prev, t_Transactions = [], t_CoinbaseAuxFlags = '''',
     t_CoinbaseValue = 7, t_MinTime = 0, t_CurTime = 0, t_Bits = ''1b'', t_Height = 9, t_FullNode = True,
     t_PrevBlockHeaderHex = hdr, t_AncestorHeadersHex = []\<rparr>"

lemma light_dec: "dec_BlockTemplate (JObj (light_fields prev)) = Some (light_template prev '''')"
  "dec_BlockTemplate (JObj (light_fields prev @ [(''prev_header_hex'', JStr hdr)])) = Some (light_template prev hdr)"
  by (simp_all add: light_fields_def light_template_def dec_BlockTemplate_def dec_struct_def is_field_def to_lower_def
      dec_string_def dec_int_def dec_bool_def)

lemma light_ref: "template_ref light_env (light_template prev hdr) (wm_ShareChain light_wm) = Some (target_diff_of light_env 27)"
  by (rule template_ref_same)
    (simp_all add: light_template_def parse_hex32_def hex_value_def light_bits light_env_diff, simp add: target_diff_of_def light_env_def)

theorem short_hash_panics_witness:
  "fst (ApplyRemoteTemplateJSON light_env demo_btcd (\<lambda>s. None) False 0 ''x'' ''x'' (Json (JObj (light_fields ''ab''))) light_wm) = None"
  by (rule short_hash_panics[OF _ light_dec(1)])
    (simp_all add: light_ref, simp_all add: light_env_def template_ok_def light_template_def light_wm_fields)

definition light_hdr :: block_header where
  "light_hdr = \<lparr>bh_Version = 1, bh_PrevBlock = zeroHash, bh_MerkleRoot = zeroHash, bh_Timestamp = 0, bh_Bits = 27, bh_Nonce = 5\<rparr>"

definition light_btcd :: btcd where
  "light_btcd = demo_btcd\<lparr>k_DeserializeHeader := \<lambda>b. Some light_hdr\<rparr>"

definition light_prev :: string where "light_prev = e_HashString light_env (e_BlockHash light_env light_hdr)"

definition light_hex :: string where "light_hex = hex_EncodeToString (replicate 80 0)"

lemma light_header: "verifyHeader80 light_env light_btcd light_hex light_prev (target_diff_of light_env 27) = Some light_hdr"
proof -
  have l: "length light_hex = 160" by (simp add: light_hex_def hex_EncodeToString_def length_concat sum_list_replicate)
  have d: "hex_DecodeString light_hex = Some (replicate 80 0)" by (simp only: light_hex_def hex_roundtrip)
  have f: "k_DeserializeHeader light_btcd b = Some light_hdr" "bh_Bits light_hdr = 27" for b
    by (simp_all add: light_btcd_def light_hdr_def)
  have v: "e_Verthash light_env b = Some (replicate 32 0)" for b by (simp add: light_env_def block_env_def demo_env_def)
  have "big_SetBytes (ReverseBytes (replicate 32 0)) = 0"
    by (simp add: ReverseBytes_def big_SetBytes_def upt_rec[of _ 32] numeral_eq_Suc)
  moreover have "0 < e_CompactToBig light_env 27"
  proof (rule ccontr)
    assume "\<not> 0 < e_CompactToBig light_env 27"
    then show False using light_env_diff[of 27] by (simp add: target_diff_of_def TargetToDiff_def split: if_splits)
  qed
  moreover have "\<not> target_diff_of light_env 27 \<le> 0" "\<not> target_diff_of light_env 27 < fmul (target_diff_of light_env 27) (1 / 2)"
    "\<not> fmul (target_diff_of light_env 27) 2 < target_diff_of light_env 27"
    using half_to_double[OF light_env_diff[of 27]] light_env_diff[of 27] by (auto simp: not_less)
  ultimately show ?thesis
    by (simp add: verifyHeader80_def l d f v light_prev_def Let_def)
qed

lemma light_verified:
  "verifyTemplatePrevHeader light_env light_btcd (light_template light_prev light_hex) light_wm
   = (Some True, light_wm\<lparr>wm_verifiedBlocks := [(light_prev, True)]\<rparr>)"
proof -
  have k: "KnowsBlockHash light_env (wm_ShareChain light_wm) (e_HashString light_env (bh_PrevBlock light_hdr))"
    by (simp add: KnowsBlockHash_def light_wm_fields light_hdr_def prev_block_string_def demo_share_def gm_get_def light_env_def)
  have f: "t_PreviousBlockHash (light_template light_prev light_hex) = light_prev" "t_PrevBlockHeaderHex (light_template light_prev light_hex) = light_hex"
    "t_AncestorHeadersHex (light_template light_prev light_hex) = []" by (simp_all add: light_template_def)
  have "light_hex \<noteq> ''''" by (simp add: light_hex_def hex_EncodeToString_def)
  then show ?thesis
    by (simp add: verifyTemplatePrevHeader_def light_ref f light_header light_wm_fields(1) k Let_def gm_set_def)
qed

lemma light_vote:
  "fst (vote_template light_env light_btcd scan ask 0 ''P'' ''P'' (light_template light_prev light_hex)
     (light_wm\<lparr>wm_verifiedBlocks := [(light_prev, True)]\<rparr>))"
proof -
  let ?t = "light_template light_prev light_hex"
  define wm1 where "wm1 = cast_vote light_env light_btcd 0 ''P'' ''P'' ?t (light_wm\<lparr>wm_verifiedBlocks := [(light_prev, True)]\<rparr>)"
  have tr: "IsTrustedPeer light_env ''P''"
    by (simp add: IsTrustedPeer_def light_env_def trim_space_def is_space_def has_prefix_def)
  have f: "t_PreviousBlockHash ?t = light_prev" "t_CoinbaseValue ?t = 7" "t_Height ?t = 9" "t_Transactions ?t = []" "t_Bits ?t = ''1b''"
    by (simp_all add: light_template_def)
  have s: "subsidy ?t = 5000000000" "template_fees ?t = 0" by (simp_all add: subsidy_def template_fees_def f)
  have v: "map snd (wm_peerTmpl wm1) = [\<lparr>v_peerID = ''P'', v_pinned = True, v_prev = light_prev,
      v_txHash = txSetHash light_env light_btcd [], v_bits = ''1b'', v_height = 9, v_txs = [], v_ts = 0\<rparr>]"
    by (simp add: wm1_def cast_vote_def light_wm_fields tr f gm_set_def)
  then have l: "length (wm_peerTmpl wm1) = 1" by (metis length_map length_Cons list.size(3) One_nat_def)
  have c: "current_template light_env light_btcd 0 wm1 = (0, '''', '''')"
    by (simp add: current_template_def wm1_def cast_vote_def light_wm_fields)
  have y: "y_exact y = 1" "y_header y = 1" "y_other y = None"
    if "y = count_votes 0 ?t (txSetHash light_env light_btcd []) (wm_peerTmpl wm1)" for y
    using that by (simp_all add: count_votes_def v count_vote_def vote_agrees_def f minutes_def Let_def)
  have b: "gm_get False (wm_verifiedBlocks wm1) light_prev" by (simp add: wm1_def cast_vote_def gm_get_def)
  have p: "light_prev \<noteq> ''''" by (simp add: light_prev_def light_env_def)
  show ?thesis
    using y[OF refl] b tr p
    by (simp add: vote_template_def light_wm_fields f s wm1_def[symmetric] c agreed_template_def accept_template_def case_prod_beta Let_def)
qed

lemma light_applied:
  "\<exists>wm' q. ApplyRemoteTemplateJSON light_env light_btcd (\<lambda>s. None) False 0 ''P'' ''''
       (Json (JObj (light_fields light_prev @ [(''prev_header_hex'', JStr light_hex)]))) light_wm = (Some True, wm', q)
     \<and> gm_get False (wm_verifiedBlocks wm') light_prev"
proof -
  have p: "light_prev \<noteq> ''''" by (simp add: light_prev_def light_env_def)
  have ok: "template_ok (light_template light_prev light_hex)" using p by (simp add: template_ok_def light_template_def)
  obtain wm' q where r: "vote_template light_env light_btcd (\<lambda>s. None) False 0 ''P'' ''P'' (light_template light_prev light_hex)
     (light_wm\<lparr>wm_verifiedBlocks := [(light_prev, True)]\<rparr>) = (True, wm', q)"
    using light_vote[of "\<lambda>s. None" False] by (metis (full_types) prod.collapse)
  have "wm_verifiedBlocks wm' = [(light_prev, True)]"
    using r
  proof (cases rule: vote_template_cases)
    case (accepted wm1 t1 cp cth)
    then show ?thesis using accept_template_fields(1)[OF accepted(5)] by (simp add: cast_vote_def)
  qed simp
  then have "gm_get False (wm_verifiedBlocks wm') light_prev" by (simp add: gm_get_def)
  then show ?thesis
    by (intro exI[of _ wm'] exI[of _ q] conjI) (simp add: ApplyRemoteTemplateJSON_def light_dec ok light_verified r, simp add: light_env_def)
qed


end
