(* ===== verification/Manager.thy ===== *)
theory Manager
  imports LightMode
begin

text \<open>
  The reachable states of the work manager: every operation of the theories \<open>FoundBlocks\<close>, \<open>Submit\<close>,
  \<open>Templates\<close> and \<open>LightMode\<close> as a step, in any order, with any replies of the node and any messages of
  peers. The invariant: at most one block per height, at most one template, filed under the block it
  builds on, channels within their capacity, and every verified block joined to a share chain the node has had.
\<close>

definition templates_ok :: "WorkManager \<Rightarrow> bool" where
  "templates_ok wm = (length (wm_Templates wm) \<le> 1 \<and> (\<forall>(k, t) \<in> set (wm_Templates wm). k = t_PreviousBlockHash t))"

definition wm_inv :: "env \<Rightarrow> btcd \<Rightarrow> ShareChain set \<Rightarrow> WorkManager \<Rightarrow> bool" where
  "wm_inv E K H wm \<longleftrightarrow> one_per_height (wm_PendingBlocks wm) \<and> templates_ok wm \<and> length (wm_NewBlockChan wm) \<le> 10
     \<and> wm_ForceNewTemplate wm \<le> 1 \<and> verified_ok E K H wm"

text \<open>\<open>H\<close> is the set of share chains the node has had, the present one among them.\<close>

inductive wm_state :: "env \<Rightarrow> btcd \<Rightarrow> 'w world \<Rightarrow> ShareChain set \<Rightarrow> WorkManager \<Rightarrow> bool"
  for E :: env and K :: btcd and W :: "'w world" where
  start: "wm_state E K W {sc} (NewWorkManager E c sc file ok)"
| found: "wm_state E K W H wm \<Longrightarrow> wm_state E K W H (WatchFoundBlocks E s wm)"
| matured: "wm_state E K W H wm \<Longrightarrow> WatchMaturedBlocks E W now wm w = (wm', w') \<Longrightarrow> wm_state E K W H wm'"
| fetched: "wm_state E K W H wm \<Longrightarrow> fetchBlockTemplate E K W scan bcast now wm w = (wm', w')
    \<Longrightarrow> wm_state E K W (insert (wm_ShareChain wm') H) wm'"
| submitted: "wm_state E K W H wm \<Longrightarrow> wm_SubmitBlock E K W relay now s t wm w = (err, wm', w') \<Longrightarrow> wm_state E K W H wm'"
| relayed: "wm_state E K W H wm \<Longrightarrow> SubmitRawBlockHex E K W relay now p hexStr wm w = (r, wm', w') \<Longrightarrow> wm_state E K W H wm'"
| merged: "wm_state E K W H wm \<Longrightarrow> MergeRemoteBlocksJSON E data wm = (n, wm') \<Longrightarrow> wm_state E K W H wm'"
| recent: "wm_state E K W H wm \<Longrightarrow> GetRecentBlocks cnt wm = (Some l, wm') \<Longrightarrow> wm_state E K W H wm'"
| remote: "wm_state E K W H wm \<Longrightarrow> ApplyRemoteTemplateJSON E K scan ask now p vk raw wm = (Some r, wm', q)
    \<Longrightarrow> wm_state E K W (insert (wm_ShareChain wm') H) wm'"
| confirmed: "wm_state E K W H wm \<Longrightarrow> wm_state E K W H (apply_confirmations E height results wm)"
| taken: "wm_state E K W H wm \<Longrightarrow> wm_state E K W H (wm\<lparr>wm_NewBlockChan := tl (wm_NewBlockChan wm)\<rparr>)"
| forced: "wm_state E K W H wm \<Longrightarrow> wm_state E K W H (wm\<lparr>wm_ForceNewTemplate := 0\<rparr>)"
| chain: "wm_state E K W H wm \<Longrightarrow> wm_state E K W (insert sc H) (wm\<lparr>wm_ShareChain := sc\<rparr>)"

text \<open>A step that keeps the templates, the channels, the verified blocks and the share chain.\<close>

definition same_work :: "WorkManager \<Rightarrow> WorkManager \<Rightarrow> bool" where
  "same_work wm wm' \<longleftrightarrow> wm_Templates wm' = wm_Templates wm \<and> wm_NewBlockChan wm' = wm_NewBlockChan wm
     \<and> wm_ForceNewTemplate wm' = wm_ForceNewTemplate wm \<and> wm_verifiedBlocks wm' = wm_verifiedBlocks wm
     \<and> wm_ShareChain wm' = wm_ShareChain wm"

lemma same_work_inv: "same_work wm wm' \<Longrightarrow> wm_inv E K H wm \<Longrightarrow> one_per_height (wm_PendingBlocks wm') \<Longrightarrow> wm_inv E K H wm'"
  by (simp add: same_work_def wm_inv_def templates_ok_def verified_ok_def)

lemma same_work_save [simp]: "same_work wm (saveBlocksLocked E wm') = same_work wm wm'"
  by (simp add: same_work_def saveBlocksLocked_def)

lemma same_work_steps:
  "same_work wm (WatchFoundBlocks E s wm)" "same_work wm (fst (WatchMaturedBlocks E W now wm w))"
  "same_work wm (snd (MergeRemoteBlocksJSON E data wm))" "same_work wm (snd (GetRecentBlocks cnt wm))"
  "same_work wm (apply_confirmations E n res wm)" "same_work wm (fst (snd (SubmitRawBlockHex E K W relay now p h wm w)))"
  by (simp_all add: WatchFoundBlocks_def WatchMaturedBlocks_def MergeRemoteBlocksJSON_def GetRecentBlocks_def apply_confirmations_def
      SubmitRawBlockHex_def Let_def case_prod_beta split: sum.split option.split) (simp_all add: same_work_def)

lemma gm_set_single:
  assumes "length m \<le> 1" "m = [] \<or> map_of m k \<noteq> None"
  shows "gm_set k v m = [(k, v)]"
  using assms by (cases m) (auto simp: gm_set_def split: if_splits)
lemma push_new_block_inv: "length (wm_NewBlockChan wm) \<le> 10 \<Longrightarrow> length (wm_NewBlockChan (push_new_block t wm)) \<le> 10"
  by (simp add: push_new_block_def)

lemma push_new_block_fields [simp]:
  "wm_Templates (push_new_block t wm) = wm_Templates wm" "wm_PendingBlocks (push_new_block t wm) = wm_PendingBlocks wm"
  "wm_ForceNewTemplate (push_new_block t wm) = wm_ForceNewTemplate wm" "wm_verifiedBlocks (push_new_block t wm) = wm_verifiedBlocks wm"
  by (simp_all add: push_new_block_def)

lemma store_template_inv:
  assumes "wm_inv E K H wm"
  shows "wm_inv E K H (store_template E K bcast now t wm)"
proof -
  let ?p = "t_PreviousBlockHash t" and ?old = "map_of (wm_Templates wm) (t_PreviousBlockHash t)"
  have g: "gm_set ?p t (if ?old = None then [] else wm_Templates wm) = [(?p, t)]"
    using assms by (auto intro!: gm_set_single simp: wm_inv_def templates_ok_def)
  define wm1 where "wm1 = push_new_block t (wm\<lparr>wm_Templates := gm_set ?p t (if ?old = None then [] else wm_Templates wm)\<rparr>)"
  have "wm_inv E K H wm1"
    using assms push_new_block_inv[of "wm\<lparr>wm_Templates := [(?p, t)]\<rparr>" t]
    by (simp add: wm1_def g wm_inv_def templates_ok_def verified_ok_def)
  moreover have "wm_inv E K H (x\<lparr>wm_lastBroadcast := now, wm_broadcast := b\<rparr>) = wm_inv E K H x" for x b
    by (simp add: wm_inv_def templates_ok_def verified_ok_def)
  ultimately show ?thesis using assms by (simp add: store_template_def Let_def wm1_def)
qed

lemma prev_headers_inv:
  assumes "prev_headers E K W prev wm w = (h, a, wm', w')"
  shows "wm_inv E K H wm' = wm_inv E K H wm"
  using assms by (auto simp: prev_headers_def wm_inv_def templates_ok_def verified_ok_def split: if_splits prod.splits sum.splits)

lemma fetch_inv:
  assumes "fetchBlockTemplate E K W scan bcast now wm w = (wm', w')" "wm_inv E K H wm"
  shows "wm_inv E K H wm'"
proof -
  have f: "wm_inv E K H (x\<lparr>wm_client := c\<rparr>) = wm_inv E K H x" "wm_inv E K H (x\<lparr>wm_client := c, wm_lastRPCOk := b\<rparr>) = wm_inv E K H x"
    "wm_inv E K H (x\<lparr>wm_ShareChain := s, wm_lastBlockUpdate := n, wm_lastRPCOk := b\<rparr>) = wm_inv E K H x" for x c b s n
    by (simp_all add: wm_inv_def templates_ok_def verified_ok_def)
  show ?thesis
    using assms unfolding fetchBlockTemplate_def
    by (auto simp: f Let_def split: if_splits prod.splits sum.splits option.splits intro!: store_template_inv dest!: prev_headers_inv)
qed

lemma submit_inv:
  assumes "wm_inv E K H wm"
  shows "wm_inv E K H (fst (snd (wm_SubmitBlock E K W relay now s t wm w)))"
proof -
  let ?wm' = "fst (snd (wm_SubmitBlock E K W relay now s t wm w))"
  have v: "wm_verifiedBlocks (relay_block K relay blk x) = wm_verifiedBlocks x" "wm_NewBlockChan (relay_block K relay blk x) = wm_NewBlockChan x"
    "wm_ForceNewTemplate (relay_block K relay blk x) = wm_ForceNewTemplate x"
    "wm_verifiedBlocks (record_solved E now bh s t x) = wm_verifiedBlocks x" "wm_NewBlockChan (record_solved E now bh s t x) = wm_NewBlockChan x"
    for blk bh x
    by (simp_all add: relay_block_def record_solved_def saveBlocksLocked_def Let_def split: option.split)
  have "wm_verifiedBlocks ?wm' = wm_verifiedBlocks wm \<and> wm_NewBlockChan ?wm' = wm_NewBlockChan wm
      \<and> wm_ForceNewTemplate ?wm' \<in> {wm_ForceNewTemplate wm, 1}
      \<and> wm_Templates ?wm' \<in> {wm_Templates wm, gm_del (t_PreviousBlockHash t) (wm_Templates wm)}"
    by (auto simp: wm_SubmitBlock_def Let_def v split: sum.split prod.split option.split)
  then have f: "wm_verifiedBlocks ?wm' = wm_verifiedBlocks wm" "wm_NewBlockChan ?wm' = wm_NewBlockChan wm"
    "wm_ForceNewTemplate ?wm' \<in> {wm_ForceNewTemplate wm, 1}"
    "wm_Templates ?wm' \<in> {wm_Templates wm, gm_del (t_PreviousBlockHash t) (wm_Templates wm)}" by blast+
  have d: "length (gm_del k m) \<le> length m" "set (gm_del k m) \<subseteq> set m" for k and m :: "(string, BlockTemplate) gomap"
    by (auto simp: gm_del_def AList.delete_eq intro: le_trans[OF length_filter_le])
  have "length (wm_Templates ?wm') \<le> length (wm_Templates wm)" "set (wm_Templates ?wm') \<subseteq> set (wm_Templates wm)"
    using f(4) d[of "t_PreviousBlockHash t" "wm_Templates wm"] by (elim insertE; simp)+
  then have "templates_ok ?wm'" using assms unfolding wm_inv_def templates_ok_def by (meson order_trans subsetD)
  then show ?thesis
    using assms submit_one_per_height[of wm E K W relay now s t w] f(1-3) by (auto simp: wm_inv_def verified_ok_def)
qed

lemma current_template_key:
  assumes "templates_ok wm" "fst (snd (current_template E K now wm)) = k" "k \<noteq> ''''"
  shows "map_of (wm_Templates wm) k \<noteq> None"
proof (cases "wm_Templates wm")
  case Nil
  then show ?thesis using assms by (simp add: current_template_def)
next
  case (Cons kv r)
  then show ?thesis using assms by (auto simp: current_template_def templates_ok_def Let_def split: if_splits prod.splits)
qed

lemma vote_inv:
  assumes "vote_template E K scan ask now p vk t wm = (r, wm', q)" "wm_inv E K H wm" "t_PreviousBlockHash t \<noteq> ''''"
  shows "wm_inv E K H wm'"
  using assms(1)
proof (cases rule: vote_template_cases)
  case refused
  then show ?thesis using assms(2) by (simp add: wm_inv_def templates_ok_def verified_ok_def)
next
  case (accepted wm1 t1 cp cth)
  note f = accept_template_fields[OF accepted(5)]
  let ?p = "t_PreviousBlockHash t1"
  have i: "wm_inv E K H wm1" using assms(2) by (simp add: accepted(1) cast_vote_def wm_inv_def templates_ok_def verified_ok_def)
  then have t1: "templates_ok wm1" "length (wm_Templates wm1) \<le> 1" by (simp_all add: wm_inv_def templates_ok_def)
  have "gm_set ?p t1 (if ?p \<noteq> cp then [] else wm_Templates wm1) = [(?p, t1)]"
    using current_template_key[OF t1(1), of E K now cp] accepted(2,4) assms(3) t1(2) by (intro gm_set_single) auto
  then have "templates_ok wm'" using f(4) t1(1) by (simp add: templates_ok_def)
  moreover have "one_per_height (wm_PendingBlocks wm')"
    using f(7) confirm_blocks_heights one_per_height_heights i by (metis wm_inv_def)
  moreover have "length (wm_NewBlockChan wm') \<le> 10" using f(5) i by (simp add: wm_inv_def)
  ultimately show ?thesis using i f(1,6) by (simp add: wm_inv_def verified_ok_def)
qed

lemma verify_inv:
  assumes "verifyTemplatePrevHeader E K t wm = (r, wm')" "wm_inv E K H wm" "wm_ShareChain wm \<in> H" "\<forall>x. e_HashString E x \<noteq> ''''"
    "t_PreviousBlockHash t \<noteq> ''''"
  shows "wm_inv E K H wm'"
proof (cases "r = Some True")
  case True
  note v = assms(1)[unfolded True]
  have "verified_ok E K H wm'" using verify_ok[OF v assms(4,5) _ assms(3)] assms(2) by (simp add: wm_inv_def)
  moreover obtain vb where "wm' = wm\<lparr>wm_verifiedBlocks := vb\<rparr>" using verify_joined(2)[OF v assms(4,5)] by blast
  ultimately show ?thesis using assms(2) by (simp add: wm_inv_def templates_ok_def)
next
  case False
  then have "wm' = wm"
    using assms(1) by (auto simp: verifyTemplatePrevHeader_def log_reject_def Let_def split: option.splits if_splits bool.splits)
  then show ?thesis using assms(2) by simp
qed

lemma remote_inv:
  assumes "ApplyRemoteTemplateJSON E K scan ask now p vk raw wm = (r, wm', q)" "wm_inv E K H wm" "wm_ShareChain wm \<in> H"
    "\<forall>x. e_HashString E x \<noteq> ''''"
  shows "wm_inv E K H wm'"
proof (cases "wm' = wm")
  case False
  obtain t where t: "template_ok t" "\<exists>r1 wm1. verifyTemplatePrevHeader E K t wm = (r1, wm1) \<and>
      (wm' = wm1 \<or> (\<exists>vk' r2 q2. vote_template E K scan ask now p vk' t wm1 = (r2, wm', q2)))"
    using assms(1) False unfolding ApplyRemoteTemplateJSON_def
    by (auto split: if_splits body.splits option.splits prod.splits bool.splits; blast)
  have ne: "t_PreviousBlockHash t \<noteq> ''''" using t(1) by (simp add: template_ok_def)
  from t(2) obtain r1 wm1 where v: "verifyTemplatePrevHeader E K t wm = (r1, wm1)"
    "wm' = wm1 \<or> (\<exists>vk' r2 q2. vote_template E K scan ask now p vk' t wm1 = (r2, wm', q2))" by blast
  have "wm_inv E K H wm1" by (rule verify_inv[OF v(1) assms(2-4) ne])
  then show ?thesis using v(2) vote_inv[OF _ _ ne] by blast
qed (use assms in simp)

lemma wm_inv_mono: "wm_inv E K H wm \<Longrightarrow> H \<subseteq> H' \<Longrightarrow> wm_inv E K H' wm"
  unfolding wm_inv_def using verified_ok_mono by blast

lemma submit_ShareChain: "wm_SubmitBlock E K W relay now s t wm w = (err, wm', w') \<Longrightarrow> wm_ShareChain wm' = wm_ShareChain wm"
  by (auto simp: wm_SubmitBlock_def record_solved_def relay_block_def saveBlocksLocked_def Let_def
      split: sum.splits prod.splits option.splits if_splits)

lemma NewWorkManager_ShareChain [simp]: "wm_ShareChain (NewWorkManager E c sc file ok) = sc"
  by (simp add: NewWorkManager_def LoadBlocks_def saveBlocksLocked_def Let_def split: blocks_file.split option.split)

lemma wm_state_chain:
  assumes "wm_state E K W H wm" shows "wm_ShareChain wm \<in> H"
  using assms
proof induction
  case (matured H wm now w wm' w')
  then show ?case using same_work_steps(2)[of wm E W now w] by (simp add: same_work_def)
next
  case (merged H wm data n wm')
  then show ?case using same_work_steps(3)[of wm E data] by (simp add: same_work_def)
next
  case (recent H wm cnt l wm')
  then show ?case using same_work_steps(4)[of wm cnt] by (simp add: same_work_def)
next
  case (relayed H wm relay now p hexStr w r wm' w')
  then show ?case using same_work_steps(6)[of wm E K W relay now p hexStr w] by (simp add: same_work_def)
qed (use same_work_steps(1,5) in \<open>auto simp: same_work_def submit_ShareChain\<close>)

lemma new_inv: "wm_inv E K H (NewWorkManager E c sc file ok)"
proof -
  have l: "same_work wm (LoadBlocks E wm)" for wm
    by (simp add: LoadBlocks_def Let_def split: blocks_file.split option.split) (simp add: same_work_def)
  define wm0 where "wm0 = (\<lambda>c. \<lparr>wm_client = c, wm_ShareChain = sc, wm_Templates = [], wm_PendingBlocks = [], wm_NewBlockChan = [],
       wm_ForceNewTemplate = 0, wm_broadcast = [], wm_relayed = [], wm_lastBroadcast = zeroTime, wm_peerTmpl = [],
       wm_peerScores = [], wm_seenBlocks = [], wm_lastRPCOk = False, wm_lastAgreedTime = zeroTime,
       wm_lastBlockUpdate = zeroTime, wm_verifiedBlocks = [], wm_cachedPrevHdrHex = '''', wm_cachedPrevHash = '''',
       wm_cachedAncestorsHex = [], wm_file = file, wm_fileOk = ok\<rparr>) c"
  have "wm_inv E K H wm0" by (simp add: wm0_def wm_inv_def templates_ok_def verified_ok_def)
  moreover have "one_per_height (wm_PendingBlocks (LoadBlocks E wm0))" by (rule LoadBlocks_one_per_height) (simp add: wm0_def)
  ultimately have "wm_inv E K H (LoadBlocks E wm0)" using same_work_inv[OF l] by blast
  then show ?thesis by (simp add: NewWorkManager_def wm0_def)
qed

text \<open>C35: 
  Every reachable state of the work manager is well formed: no height has two recorded blocks, at most
  one template is held and it is filed under the block it builds on, the channels are within their
  capacity, and every block marked verified was joined, by headers with proof of work at a difficulty near
  that of its recent shares, to a share chain the node has had (\<open>H\<close>).
\<close>

theorem wm_state_inv:
  assumes "wm_state E K W H wm" "\<forall>x. e_HashString E x \<noteq> ''''"
  shows "wm_inv E K H wm"
  using assms(1)
proof induction
  case (start sc c fl ok)
  then show ?case by (rule new_inv)
next
  case (found H wm s)
  then show ?case using same_work_inv[OF same_work_steps(1), of E K H wm E s] WatchFound_one_per_height[of wm E s] by (simp add: wm_inv_def)
next
  case (matured H wm now w wm' w')
  then show ?case using same_work_inv[OF same_work_steps(2), of E K H wm E W now w] WatchMatured_one_per_height[of wm E W now w] by (simp add: wm_inv_def)
next
  case (fetched H wm scan bcast now w wm' w')
  then show ?case by (metis wm_inv_mono[OF fetch_inv subset_insertI])
next
  case (submitted H wm relay now s t w err wm' w')
  then show ?case using submit_inv[of E K H wm W relay now s t w] by simp
next
  case (relayed H wm relay now p hexStr w r wm' w')
  moreover have "wm_PendingBlocks (fst (snd (SubmitRawBlockHex E K W relay now p hexStr wm w))) = wm_PendingBlocks wm"
    by (simp add: SubmitRawBlockHex_def Let_def case_prod_beta split: option.split)
  ultimately show ?case using same_work_inv[OF same_work_steps(6), of E K H wm E K W relay now p hexStr w] by (simp add: wm_inv_def)
next
  case (merged H wm data n wm')
  then show ?case using same_work_inv[OF same_work_steps(3), of E K H wm E data] Merge_one_per_height[of wm E data] by (simp add: wm_inv_def)
next
  case (recent H wm cnt l wm')
  then show ?case using same_work_inv[OF same_work_steps(4), of E K H wm cnt] recent_one_per_height[of cnt wm] by (simp add: wm_inv_def)
next
  case (remote H wm scan ask now p vk raw r wm' q)
  then show ?case using remote_inv[OF _ _ wm_state_chain assms(2)] wm_inv_mono[OF _ subset_insertI] by blast
next
  case (confirmed H wm height results)
  then show ?case using same_work_inv[OF same_work_steps(5), of E K H wm E height results]
      one_per_height_heights[OF apply_confirmations_heights[of E height results wm]] by (simp add: wm_inv_def)
next
  case (chain H wm sc)
  then have "wm_inv E K (insert sc H) wm" using wm_inv_mono[OF _ subset_insertI] by blast
  then show ?case by (simp add: wm_inv_def templates_ok_def verified_ok_def)
qed (auto simp: wm_inv_def templates_ok_def verified_ok_def)

text \<open>A light node that takes a template from a trusted peer and then learns of a block found by a peer: the
  block the template builds on is marked, and was joined to its chain.\<close>

theorem wm_state_inv_witness:
  "\<exists>H wm. wm_state light_env light_btcd demo_world H wm \<and> gm_get False (wm_verifiedBlocks wm) light_prev
     \<and> wm_inv light_env light_btcd H wm"
proof -
  let ?raw = "Json (JObj (light_fields light_prev @ [(''prev_header_hex'', JStr light_hex)]))"
  have h: "\<forall>x. e_HashString light_env x \<noteq> ''''" by (simp add: light_env_def)
  obtain wm' q where a: "ApplyRemoteTemplateJSON light_env light_btcd (\<lambda>s. None) False 0 ''P'' '''' ?raw light_wm = (Some True, wm', q)"
    "gm_get False (wm_verifiedBlocks wm') light_prev" using light_applied by blast
  have "\<exists>H. wm_state light_env light_btcd demo_world H light_wm" unfolding light_wm_def by (blast intro: wm_state.start)
  then obtain H where "wm_state light_env light_btcd demo_world H wm'" using wm_state.remote[OF _ a(1)] by blast
  then have s: "wm_state light_env light_btcd demo_world H (WatchFoundBlocks light_env (demo_share None zeroHash 0) wm')"
    by (rule wm_state.found)
  moreover have "gm_get False (wm_verifiedBlocks (WatchFoundBlocks light_env (demo_share None zeroHash 0) wm')) light_prev"
    using a(2) same_work_steps(1)[of wm' light_env] by (simp add: same_work_def)
  ultimately show ?thesis using wm_state_inv[OF s h] by blast
qed

end
