(* ===== verification/Miner.thy ===== *)
theory Miner
  imports Manager ShareCreate
begin

text \<open>
  The data of the stratum server (\<open>stratum/client.go\<close>, \<open>stratum/job.go\<close>, \<open>stratum/protocol.go\<close>) and its
  functions on single values (\<open>stratum/server.go\<close>): the rate monitor, jobs, miners, addresses, the user
  name and password of an authorisation, and the byte order of the previous hash. The lemmas show that
  the monitor keeps exactly the recent work and reports a span of at least a second.
\<close>

subsection \<open>Rate monitor\<close>

record ShareDatum =
  d_Work :: rat
  d_IsDead :: bool
  d_WorkerName :: string
  d_ShareTarget :: "int option"
  d_PubKeyHash :: "byte list"

text \<open>The entries carry the time in seconds as \<open>float64\<close>.\<close>

record RateMonitor =
  rm_maxLookback :: time
  rm_datums :: "(rat \<times> ShareDatum) list"
  rm_first :: rat

definition NewRateMonitor :: "time \<Rightarrow> RateMonitor" where
  "NewRateMonitor lookback = \<lparr>rm_maxLookback = lookback, rm_datums = [], rm_first = 0\<rparr>"

definition float_now :: "time \<Rightarrow> rat" where
  "float_now now = fdiv (f64 (of_int now)) 1000000000"

definition prune :: "time \<Rightarrow> RateMonitor \<Rightarrow> RateMonitor" where
  "prune now rm = rm\<lparr>rm_datums := dropWhile (\<lambda>e. \<not> fsub (float_now now) (duration_seconds (rm_maxLookback rm)) < fst e) (rm_datums rm)\<rparr>"

definition AddDatum :: "time \<Rightarrow> ShareDatum \<Rightarrow> RateMonitor \<Rightarrow> RateMonitor" where
  "AddDatum now d rm0 =
     (let rm = prune now rm0; t = float_now now
      in rm\<lparr>rm_first := (if rm_first rm = 0 then t else rm_first rm), rm_datums := rm_datums rm @ [(t, d)]\<rparr>)"

definition GetDatumsInLast :: "time \<Rightarrow> time \<Rightarrow> RateMonitor \<Rightarrow> ShareDatum list \<times> time \<times> RateMonitor" where
  "GetDatumsInLast now dt0 rm0 =
     (let rm = prune now rm0; t = float_now now;
          dt = (if rm_maxLookback rm < dt0 then rm_maxLookback rm else dt0);
          found = map snd (filter (\<lambda>e. fsub t (duration_seconds dt) < fst e) (rm_datums rm));
          elapsed = fsub t (rm_first rm);
          actual = (if rm_first rm = 0 then seconds 1
                    else if elapsed < duration_seconds dt then trunc_rat (fmul elapsed 1000000000) else dt)
      in (found, if actual < seconds 1 then seconds 1 else actual, rm))"

subsection \<open>Jobs and miners\<close>

record Job =
  j_ShareTarget :: "int option"
  j_PoolShareDiff :: rat
  j_ID :: string
  j_BlockTemplate :: BlockTemplate
  j_ExtraNonce1 :: string
  j_Difficulty :: rat
  j_Coinb1 :: string
  j_Coinb2 :: string
  j_WitnessCommitment :: "byte list"
  j_WTXIDMerkleRoot :: "hash option"
  j_TXIDMerkleLink :: "hash option list"
  j_CoinbaseMerkleLink :: "hash option list"
  j_TipHash :: "hash option"
  j_Submitted :: "string list"

text \<open>\<open>m_host\<close> is the host of the connection's remote address (\<open>clientHostKey\<close>).\<close>

record Miner =
  m_ID :: u64
  m_SubscriptionID :: string
  m_ExtraNonce1 :: string
  m_Nonce2Size :: int
  m_WorkerName :: string
  m_Authorized :: bool
  m_LastActivity :: time
  m_ActiveJobs :: "(string, Job) gomap"
  m_CurrentDifficulty :: rat
  m_LocalRateMonitor :: RateMonitor
  m_closed :: bool
  m_AcceptedShares :: u64
  m_RejectedShares :: u64
  m_host :: string

definition NewMiner :: "u64 \<Rightarrow> byte list \<Rightarrow> string \<Rightarrow> time \<Rightarrow> Miner" where
  "NewMiner i rnd host now = \<lparr>m_ID = i, m_SubscriptionID = '''', m_ExtraNonce1 = hex_EncodeToString rnd, m_Nonce2Size = 4,
     m_WorkerName = '''', m_Authorized = False, m_LastActivity = now, m_ActiveJobs = [], m_CurrentDifficulty = - 1,
     m_LocalRateMonitor = NewRateMonitor (minutes 10), m_closed = False, m_AcceptedShares = 0, m_RejectedShares = 0, m_host = host\<rparr>"

definition GetRejectedRate :: "Miner \<Rightarrow> rat" where
  "GetRejectedRate c =
     (let total = m_AcceptedShares c + m_RejectedShares c
      in if total = 0 then 0 else fdiv (f64 (of_int (uint (m_RejectedShares c)))) (f64 (of_int (uint total))))"

definition GetAverageShareTime :: "time \<Rightarrow> Miner \<Rightarrow> time" where
  "GetAverageShareTime now c =
     (let (datums, sp, _) = GetDatumsInLast now (minutes 10) (m_LocalRateMonitor c)
      in if datums = [] \<or> duration_seconds sp \<le> 0 then 0
         else seconds (trunc_rat (fdiv (duration_seconds sp) (of_nat (length datums)))))"

subsection \<open>Messages\<close>

text \<open>What a miner is sent: a reply to the request \<open>id\<close>, a difficulty, or a job.\<close>

record notify =
  n_jobID :: string
  n_prevHash :: string
  n_coinb1 :: string
  n_coinb2 :: string
  n_branch :: "string list"
  n_version :: string
  n_bits :: string
  n_time :: string
  n_clean :: bool

datatype message =
    Reply json bool
  | ReplyError json int string
  | ReplyFalse json int string
  | ReplySubscribe json string int
  | SetDifficulty rat
  | Notify notify

text \<open>\<open>fmt.Sprintf\<close> with \<open>%08x\<close>.\<close>

fun hex_nat :: "nat \<Rightarrow> string" where
  "hex_nat n = (if n < 16 then [hex_digit n] else hex_nat (n div 16) @ [hex_digit (n mod 16)])"

declare hex_nat.simps [simp del]

definition fmt_08x :: "int \<Rightarrow> string" where
  "fmt_08x n = (let sign = (if n < 0 then ''-'' else ''''); ds = hex_nat (nat \<bar>n\<bar>)
     in sign @ replicate (8 - length sign - length ds) (CHR ''0'') @ ds)"

subsection \<open>Addresses, previous hash, authorisation\<close>

definition isValidVtcAddress :: "env \<Rightarrow> time \<Rightarrow> string \<Rightarrow> bool" where
  "isValidVtcAddress E now addr0 =
     (let addr = trim_space addr0
      in if is_segwit_prefix addr then
           (case DecodeSegwitAddress E addr of
              Inl e \<Rightarrow> False
            | Inr (hrp, ver, prog) \<Rightarrow>
                if ver = 1 \<and> Unix now < TaprootPayoutActivationTime then False
                else hrp = (if c_Testnet (e_Active E) then ''tvtc'' else ''vtc'') \<and> IsStandardPayout ver (length prog) True)
         else (let d = e_Base58Decode E addr
               in if length d < 5 then False
                  else (let payload = take (length d - 4) d
                        in if drop (length d - 4) d \<noteq> take 4 (Sha256d payload) then False
                           else if length payload \<noteq> 21 then False
                           else if c_Testnet (e_Active E) then hd payload = 0x6f \<or> hd payload = 0xc4
                           else hd payload = 0x47 \<or> hd payload = 0x05)))"

definition swap_words :: "byte list \<Rightarrow> byte list" where
  "swap_words b = concat (map (\<lambda>i. rev (take 4 (drop (4 * i) b))) [0..<8])"

definition formatStratumPrevHash :: "env \<Rightarrow> string \<Rightarrow> string" where
  "formatStratumPrevHash E s = (case e_NewHashFromStr E s of None \<Rightarrow> s | Some h \<Rightarrow> hex_EncodeToString (swap_words h))"

text \<open>\<open>pf\<close> is the finite value \<open>strconv.ParseFloat\<close> reads. A positive value is a hint.\<close>

definition hint_value :: "(string \<Rightarrow> rat option) \<Rightarrow> string \<Rightarrow> rat option" where
  "hint_value pf s = (case pf (trim_space s) of Some v \<Rightarrow> if 0 < v then Some v else None | None \<Rightarrow> None)"

text \<open>The text before and after the last \<open>c\<close>.\<close>

definition split_last :: "char \<Rightarrow> string \<Rightarrow> (string \<times> string) option" where
  "split_last c s = (if c \<in> set s
     then (let b = rev (takeWhile (\<lambda>x. x \<noteq> c) (rev s)) in Some (take (length s - length b - 1) s, b)) else None)"

text \<open>\<open>strings.FieldsFunc\<close> at the separators of a password.\<close>

definition pass_tokens :: "string \<Rightarrow> string list" where
  "pass_tokens p = filter (\<lambda>t. t \<noteq> '''') (foldr (\<lambda>c ts. if c \<in> {CHR '','', CHR '';'', CHR '' '', CHR 0x09} then '''' # ts
     else (case ts of [] \<Rightarrow> [[c]] | t # r \<Rightarrow> (c # t) # r)) p [''''])"

definition token_value :: "string \<Rightarrow> string" where
  "token_value tok0 =
     (let tok = trim_space tok0; lower = to_lower tok
      in if has_prefix lower ''d='' then drop 2 tok
         else if has_prefix lower ''diff='' then drop 5 tok
         else if has_prefix lower ''sd='' then drop 3 tok else '''')"

fun pass_hint :: "(string \<Rightarrow> rat option) \<Rightarrow> string list \<Rightarrow> rat" where
  "pass_hint pf [] = 0"
| "pass_hint pf (tok # r) =
     (case (if token_value tok \<noteq> '''' then hint_value pf (token_value tok) else None) of Some v \<Rightarrow> v | None \<Rightarrow> pass_hint pf r)"

definition parseAuthorizeUserAndHint :: "(string \<Rightarrow> rat option) \<Rightarrow> string \<Rightarrow> string \<Rightarrow> string \<times> rat" where
  "parseAuthorizeUserAndHint pf rawUser rawPass =
     (let user = trim_space rawUser;
          (userPart, hint) = (case split_last (CHR ''+'') user of
             Some (a, b) \<Rightarrow> if a \<noteq> '''' then (a, case hint_value pf b of Some v \<Rightarrow> v | None \<Rightarrow> 0) else (user, 0)
           | None \<Rightarrow> (user, 0));
          addr = trim_space (hd (split_char (CHR ''.'') userPart))
      in (addr, if hint \<le> 0 \<and> rawPass \<noteq> '''' then pass_hint pf (pass_tokens rawPass) else hint))"

subsection \<open>Facts\<close>

text \<open>The span is at least a second, so the rates computed from it are finite.\<close>

lemma span_at_least_second: "GetDatumsInLast now dt rm = (ds, sp, rm') \<Longrightarrow> seconds 1 \<le> sp"
  by (auto simp: GetDatumsInLast_def Let_def split: if_splits)

text \<open>With entries in the order of time, pruning keeps exactly the entries within the lookback.\<close>

definition in_order :: "RateMonitor \<Rightarrow> bool" where "in_order rm = sorted (map fst (rm_datums rm))"

lemma prune_filter:
  assumes "in_order rm"
  shows "rm_datums (prune now rm) = filter (\<lambda>e. fsub (float_now now) (duration_seconds (rm_maxLookback rm)) < fst e) (rm_datums rm)"
proof -
  have "dropWhile (\<lambda>e. \<not> b < fst e) l = filter (\<lambda>e. b < fst e) l" if "sorted (map fst l)" for b :: rat and l :: "(rat \<times> ShareDatum) list"
    using that by (induction l) (auto, metis (mono_tags, lifting) filter_True less_le_trans)
  then show ?thesis using assms by (simp add: prune_def in_order_def)
qed

lemma AddDatum_in_order:
  assumes "in_order rm" "\<forall>e \<in> set (rm_datums rm). fst e \<le> float_now now"
  shows "in_order (AddDatum now d rm)"
  using assms prune_filter[OF assms(1), of now]
  by (auto simp: AddDatum_def Let_def in_order_def sorted_append sorted_filter)

end
