(* ===== verification/Stratum.thy ===== *)
theory Stratum
  imports Miner
begin

text \<open>
  The stratum server (\<open>stratum/server.go\<close>): authorisation, difficulty, jobs and submissions. The miners
  are objects in \<open>sv_miners\<close>; \<open>sv_clients\<close> lists the registered ones. A \<open>go\<close> statement is a \<open>task\<close> the
  handler returns, to be run later in any order. \<open>None\<close> is a panic. What is sent is appended to \<open>sv_sent\<close>.
  Where the order of a Go map shows (the halving of a miner's jobs) it is an argument. \<open>sendMiningJob\<close> reads
  the tip, the expected difficulty and the pool's difficulty of one share chain, though the code takes its
  lock for each, so that the chain may grow in between.
\<close>

record StratumServer =
  sv_wm :: WorkManager
  sv_miners :: "(u64, Miner) gomap"
  sv_clients :: "u64 list"
  sv_lastJob :: "Job option"
  sv_latestPrev :: "hash option"
  sv_diffCache :: "(string, rat \<times> time) gomap"
  sv_jobCounter :: u64
  sv_lastVerifiedHeight :: int
  sv_sent :: "(u64 \<times> message) list"

datatype task =
    SendJob u64 BlockTemplate bool
  | DropClient u64
  | AddShare Share
  | SubmitShare Share BlockTemplate
  | VerifyCandidate Share BlockTemplate

abbreviation sv_chain :: "StratumServer \<Rightarrow> ShareChain" where "sv_chain sv \<equiv> wm_ShareChain (sv_wm sv)"

abbreviation miner :: "StratumServer \<Rightarrow> u64 \<Rightarrow> Miner option" where "miner sv i \<equiv> map_of (sv_miners sv) i"

definition upd_miner :: "u64 \<Rightarrow> (Miner \<Rightarrow> Miner) \<Rightarrow> StratumServer \<Rightarrow> StratumServer" where
  "upd_miner i f sv = (case miner sv i of Some c \<Rightarrow> sv\<lparr>sv_miners := gm_set i (f c) (sv_miners sv)\<rparr> | None \<Rightarrow> sv)"

definition send :: "u64 \<Rightarrow> message \<Rightarrow> StratumServer \<Rightarrow> StratumServer" where
  "send i m sv = (case miner sv i of
     Some c \<Rightarrow> if m_closed c then sv else sv\<lparr>sv_sent := sv_sent sv @ [(i, m)]\<rparr> | None \<Rightarrow> sv)"

subsection \<open>Remembered difficulties\<close>

definition reconnectDiffTTL :: time where "reconnectDiffTTL = minutes 30"

definition rememberClientDiff :: "time \<Rightarrow> Miner \<Rightarrow> string \<Rightarrow> rat \<Rightarrow> StratumServer \<Rightarrow> StratumServer" where
  "rememberClientDiff now c worker diff sv =
     (if worker = '''' \<or> diff \<le> 0 then sv
      else (let cache = filter (\<lambda>(k, d, t). \<not> reconnectDiffTTL < now - t) (sv_diffCache sv);
                cache1 = (if m_host c \<noteq> '''' then gm_set (m_host c @ ''|'' @ worker) (diff, now) cache else cache)
            in sv\<lparr>sv_diffCache := gm_set worker (diff, now) cache1\<rparr>))"

definition fresh_diff :: "time \<Rightarrow> (rat \<times> time) option \<Rightarrow> rat option" where
  "fresh_diff now e = (case e of Some (d, t) \<Rightarrow> if now - t \<le> reconnectDiffTTL \<and> 0 < d then Some d else None | None \<Rightarrow> None)"

definition lookupCachedDiff :: "time \<Rightarrow> Miner \<Rightarrow> string \<Rightarrow> StratumServer \<Rightarrow> rat option" where
  "lookupCachedDiff now c worker sv =
     (if worker = '''' then None
      else case (if m_host c \<noteq> '''' then fresh_diff now (map_of (sv_diffCache sv) (m_host c @ ''|'' @ worker)) else None) of
        Some d \<Rightarrow> Some d | None \<Rightarrow> fresh_diff now (map_of (sv_diffCache sv) worker))"

subsection \<open>Initial difficulty\<close>

record estimate =
  x_work :: rat
  x_matched :: nat
  x_earliest :: int
  x_latest :: int

definition norm_addr :: "string \<Rightarrow> string" where
  "norm_addr a = (if is_segwit_prefix a then to_lower a else a)"

definition count_share :: "env \<Rightarrow> string \<Rightarrow> int \<Rightarrow> estimate \<Rightarrow> Share \<Rightarrow> estimate" where
  "count_share E worker cutoff x sh =
     (let ts = share_ts sh; d = fst (GetEffectiveShareDiff sh)
      in if ts < cutoff \<or> is_stale sh then x
         else if norm_addr (fst (DecodeShareAddress E sh)) \<noteq> worker \<or> no_target sh then x
         else if d \<le> 0 then x
         else \<lparr>x_work = fadd (x_work x) d, x_matched = Suc (x_matched x),
               x_earliest = (if x_earliest x = 0 \<or> ts < x_earliest x then ts else x_earliest x),
               x_latest = (if x_latest x < ts then ts else x_latest x)\<rparr>)"

definition estimateDiffFromShareChain :: "env \<Rightarrow> time \<Rightarrow> string \<Rightarrow> rat \<Rightarrow> ShareChain \<Rightarrow> rat" where
  "estimateDiffFromShareChain E now worker targetTime sc =
     (if worker = '''' then 0
      else (let x = foldl (count_share E worker (Unix (now - reconnectDiffTTL))) \<lparr>x_work = 0, x_matched = 0, x_earliest = 0, x_latest = 0\<rparr>
                  (GetRecentShares E sc 120);
                span0 = f64 (of_int (x_latest x - x_earliest x));
                span1 = (if span0 < 60 then 60 else span0);
                span2 = (if 1800 < span1 then 1800 else span1)
            in if x_matched x < 2 then 0
               else fmul (fdiv (x_work x) span2) (if targetTime \<le> 0 then 5 else targetTime)))"

definition min_diff :: "env \<Rightarrow> rat" where
  "min_diff E = (if c_MinDiff (e_Active E) \<le> 0 then f64 (1 / 100) else c_MinDiff (e_Active E))"

definition target_time :: "env \<Rightarrow> rat" where
  "target_time E = (if c_TargetTime (e_Active E) \<le> 0 then 5 else c_TargetTime (e_Active E))"

text \<open>The upper bound after one look at the pool difficulty.\<close>

definition cap_diff :: "rat \<Rightarrow> rat \<Rightarrow> rat" where
  "cap_diff pool mx = (if 0 < pool \<and> pool < mx then pool else mx)"

definition initialDifficultyForClient :: "env \<Rightarrow> time \<Rightarrow> Miner \<Rightarrow> string \<Rightarrow> rat \<Rightarrow> StratumServer \<Rightarrow> rat" where
  "initialDifficultyForClient E now c worker hint sv =
     (let maxDiff = cap_diff (GetPoolShareDifficulty E (sv_chain sv)) 10;
          minDiff = (if maxDiff < min_diff E then maxDiff else min_diff E);
          est = estimateDiffFromShareChain E now worker (target_time E) (sv_chain sv);
          chosen = (if 0 < hint then hint
                    else case lookupCachedDiff now c worker sv of
                      Some d \<Rightarrow> d | None \<Rightarrow> if minDiff < est then est else minDiff);
          chosen1 = (if chosen < minDiff then minDiff else chosen)
      in if maxDiff < chosen1 then maxDiff else chosen1)"

definition sendDifficulty :: "time \<Rightarrow> u64 \<Rightarrow> rat \<Rightarrow> StratumServer \<Rightarrow> StratumServer" where
  "sendDifficulty now i diff sv =
     (case miner sv i of
        None \<Rightarrow> sv
      | Some c \<Rightarrow>
          if m_closed c then sv
          else (let sv1 = upd_miner i (\<lambda>c. c\<lparr>m_CurrentDifficulty := diff\<rparr>) sv;
                    sv2 = (if m_WorkerName c \<noteq> '''' \<and> 0 < diff then rememberClientDiff now c (m_WorkerName c) diff sv1 else sv1)
                in send i (SetDifficulty diff) sv2))"

definition dropClient :: "time \<Rightarrow> u64 \<Rightarrow> StratumServer \<Rightarrow> StratumServer" where
  "dropClient now i sv =
     (case miner sv i of
        None \<Rightarrow> sv
      | Some c \<Rightarrow>
          if m_closed c then sv
          else (let sv1 = upd_miner i (\<lambda>c. c\<lparr>m_closed := True\<rparr>) sv;
                    sv2 = (if m_WorkerName c \<noteq> '''' \<and> 0 < m_CurrentDifficulty c
                           then rememberClientDiff now c (m_WorkerName c) (m_CurrentDifficulty c) sv1 else sv1)
                in sv2\<lparr>sv_clients := filter (\<lambda>k. k \<noteq> i) (sv_clients sv2)\<rparr>))"

subsection \<open>Retargeting\<close>

text \<open>The new difficulty from the recent work, before its bounds.\<close>

definition retarget_diff :: "env \<Rightarrow> rat \<Rightarrow> ShareDatum list \<Rightarrow> time \<Rightarrow> rat" where
  "retarget_diff E cur datums sp =
     (if datums = [] then fmul cur (1 / 2)
      else (let avg = fdiv (duration_seconds sp) (of_nat (length datums)); ratio = fdiv (target_time E) avg
            in fmul cur (if 2 < ratio then 2 else if ratio < 1 / 2 then 1 / 2 else ratio)))"

text \<open>The bounds of the new difficulty.\<close>

definition clamp_diff :: "env \<Rightarrow> rat \<Rightarrow> rat \<Rightarrow> rat" where
  "clamp_diff E mx new0 = (let new1 = (if new0 < min_diff E then min_diff E else new0) in if mx < new1 then mx else new1)"

definition retargetSecs :: "env \<Rightarrow> time" where
  "retargetSecs E = (let r = seconds (trunc_rat (c_RetargetTime (e_Active E))) in if r \<le> 0 then seconds 30 else r)"

text \<open>The job a retarget announces: the last one with a later time.\<close>

definition bump_time :: "time \<Rightarrow> BlockTemplate \<Rightarrow> BlockTemplate" where
  "bump_time now t = t\<lparr>t_CurTime := if t_CurTime t < Unix now then Unix now else t_CurTime t + 1\<rparr>"

text \<open>One tick of \<open>vardiffLoop\<close>; \<open>mx\<close> is the loop's \<open>maxDiff\<close>.\<close>

definition vardiff_tick :: "env \<Rightarrow> time \<Rightarrow> u64 \<Rightarrow> rat \<Rightarrow> StratumServer \<Rightarrow> rat \<times> StratumServer \<times> task list" where
  "vardiff_tick E now i mx sv =
     (case miner sv i of
        None \<Rightarrow> (mx, sv, [])
      | Some c \<Rightarrow>
          if m_closed c \<or> \<not> m_Authorized c then (mx, sv, [])
          else (let (datums, sp, rm) = GetDatumsInLast now (retargetSecs E) (m_LocalRateMonitor c);
                    cur = (if m_CurrentDifficulty c \<le> 0 then min_diff E else m_CurrentDifficulty c);
                    new0 = retarget_diff E cur datums sp;
                    mx1 = cap_diff (GetPoolShareDifficulty E (sv_chain sv)) mx;
                    new = clamp_diff E mx1 new0;
                    ratio = fdiv new cur;
                    sv1 = upd_miner i (\<lambda>c. c\<lparr>m_LocalRateMonitor := rm\<rparr>) sv
                in if ratio < f64 (85 / 100) \<or> f64 (115 / 100) < ratio
                   then (mx1, sendDifficulty now i new sv1,
                         case sv_lastJob sv of None \<Rightarrow> [] | Some j \<Rightarrow> [SendJob i (bump_time now (j_BlockTemplate j)) True])
                   else (mx1, sv1, [])))"

subsection \<open>Connections, subscription, authorisation\<close>

text \<open>The first request of a connection registers the miner.\<close>

definition register_miner :: "Miner \<Rightarrow> StratumServer \<Rightarrow> StratumServer" where
  "register_miner c sv = sv\<lparr>sv_miners := gm_set (m_ID c) c (sv_miners sv), sv_clients := sv_clients sv @ [m_ID c]\<rparr>"

definition handleSubscribe :: "u64 \<Rightarrow> json \<Rightarrow> StratumServer \<Rightarrow> StratumServer" where
  "handleSubscribe i rid sv =
     (case miner sv i of
        None \<Rightarrow> sv
      | Some c \<Rightarrow> send i (ReplySubscribe rid (m_ExtraNonce1 c) (m_Nonce2Size c))
                   (upd_miner i (\<lambda>c. c\<lparr>m_SubscriptionID := m_ExtraNonce1 c\<rparr>) sv))"

definition string_params :: "json option \<Rightarrow> string list option" where
  "string_params params = Option.bind params (dec_list (dec_string ''''))"

definition handleAuthorize ::
  "env \<Rightarrow> (string \<Rightarrow> rat option) \<Rightarrow> time \<Rightarrow> u64 \<Rightarrow> json \<Rightarrow> json option \<Rightarrow> StratumServer \<Rightarrow> StratumServer \<times> task list" where
  "handleAuthorize E pf now i rid params sv =
     (case miner sv i of
        None \<Rightarrow> (sv, [])
      | Some c \<Rightarrow>
          if \<not> IsSynced now (sv_wm sv) then (send i (ReplyFalse rid 27 ''Node not synced'') sv, [])
          else (case string_params params of
                  None \<Rightarrow> (send i (ReplyFalse rid 24 ''Malformed authorize params'') sv, [DropClient i])
                | Some [] \<Rightarrow> (send i (ReplyFalse rid 24 ''Malformed authorize params'') sv, [DropClient i])
                | Some (p # ps) \<Rightarrow>
                    (let (addr, hint) = parseAuthorizeUserAndHint pf (trim_space p) (case ps of [] \<Rightarrow> '''' | q # _ \<Rightarrow> trim_space q)
                     in if \<not> isValidVtcAddress E now addr
                        then (send i (ReplyFalse rid 24 ''Invalid VTC address'') sv, [DropClient i])
                        else (let sv1 = upd_miner i (\<lambda>c. c\<lparr>m_WorkerName := norm_addr addr, m_Authorized := True\<rparr>) sv;
                                  start = initialDifficultyForClient E now c (norm_addr addr) hint sv1
                              in (sendDifficulty now i start (send i (Reply rid True) sv1),
                                  case sv_lastJob sv of None \<Rightarrow> [] | Some j \<Rightarrow> [SendJob i (j_BlockTemplate j) True])))))"

subsection \<open>Jobs\<close>

text \<open>The master job of a new template; \<open>None\<close> is the panic on a nil commitment or merkle branch.\<close>

definition template_leaves :: "env \<Rightarrow> BlockTemplate \<Rightarrow> byte list list" where
  "template_leaves E t = replicate 32 0 # concat (map (\<lambda>tx. case e_NewHashFromStr E (if bt_TxID tx = '''' then bt_Hash tx else bt_TxID tx) of
     Some h \<Rightarrow> [h] | None \<Rightarrow> []) (t_Transactions t))"

definition master_job :: "env \<Rightarrow> u64 \<Rightarrow> BlockTemplate \<Rightarrow> ShareChain \<Rightarrow> Job option" where
  "master_job E n t sc =
     (case (CalculateWitnessCommitment E t, CalculateMerkleLink (template_leaves E t) 0) of
        (Inr (Some (wr, wc)), Some br) \<Rightarrow>
          Some \<lparr>j_ShareTarget = None, j_PoolShareDiff = 0, j_ID = dec_digits (unat n), j_BlockTemplate = t, j_ExtraNonce1 = '''', j_Difficulty = 0,
                j_Coinb1 = '''', j_Coinb2 = '''', j_WitnessCommitment = wc, j_WTXIDMerkleRoot = Some wr, j_TXIDMerkleLink = br,
                j_CoinbaseMerkleLink = br, j_TipHash = GetTipHash sc, j_Submitted = []\<rparr>
      | _ \<Rightarrow> None)"

definition is_active :: "StratumServer \<Rightarrow> u64 \<Rightarrow> bool" where
  "is_active sv i = (case miner sv i of Some c \<Rightarrow> m_Authorized c \<and> \<not> m_closed c | None \<Rightarrow> False)"

text \<open>One round of \<open>jobBroadcaster\<close>, on a template taken from the channel.\<close>

definition jobBroadcaster :: "env \<Rightarrow> BlockTemplate \<Rightarrow> StratumServer \<Rightarrow> (StratumServer \<times> task list) option" where
  "jobBroadcaster E t sv =
     (let n = sv_jobCounter sv + 1
      in map_option (\<lambda>j. (sv\<lparr>sv_jobCounter := n, sv_lastJob := Some j, sv_latestPrev := e_NewHashFromStr E (t_PreviousBlockHash t)\<rparr>,
             map (\<lambda>i. SendJob i t True) (filter (is_active sv) (sv_clients sv))))
           (master_job E n t (sv_chain sv)))"

definition job_difficulty :: "env \<Rightarrow> rat \<Rightarrow> ShareChain \<Rightarrow> rat" where
  "job_difficulty E cur sc =
     (let d = (if cur \<le> 0 then min_diff E else cur); p = GetPoolShareDifficulty E sc in if p < d then p else d)"

text \<open>\<open>ord\<close> is the order in which the keys of the map are listed; the first half of them is deleted.\<close>

definition halve_jobs :: "string list \<Rightarrow> (string, Job) gomap \<Rightarrow> (string, Job) gomap" where
  "halve_jobs ord jobs = (if 20 < length jobs then foldl (\<lambda>m k. gm_del k m) jobs (take (length ord div 2) ord) else jobs)"

definition miner_job :: "env \<Rightarrow> u64 \<Rightarrow> BlockTemplate \<Rightarrow> Job \<Rightarrow> Miner \<Rightarrow> ShareChain \<Rightarrow> string \<times> string \<Rightarrow> Job" where
  "miner_job E n t master c sc cbs =
     \<lparr>j_ShareTarget = Some (DiffToTarget (GetExpectedShareDifficulty E sc (GetTipHash sc))),
      j_PoolShareDiff = GetExpectedShareDifficulty E sc (GetTipHash sc), j_ID = dec_digits (unat n), j_BlockTemplate = t,
      j_ExtraNonce1 = m_ExtraNonce1 c, j_Difficulty = job_difficulty E (m_CurrentDifficulty c) sc, j_Coinb1 = fst cbs, j_Coinb2 = snd cbs,
      j_WitnessCommitment = j_WitnessCommitment master, j_WTXIDMerkleRoot = j_WTXIDMerkleRoot master,
      j_TXIDMerkleLink = j_TXIDMerkleLink master, j_CoinbaseMerkleLink = j_CoinbaseMerkleLink master,
      j_TipHash = GetTipHash sc, j_Submitted = []\<rparr>"

definition notify_of :: "env \<Rightarrow> Job \<Rightarrow> bool \<Rightarrow> notify" where
  "notify_of E j clean =
     \<lparr>n_jobID = j_ID j, n_prevHash = formatStratumPrevHash E (t_PreviousBlockHash (j_BlockTemplate j)), n_coinb1 = j_Coinb1 j,
      n_coinb2 = j_Coinb2 j, n_branch = map (\<lambda>h. hex_EncodeToString (the h)) (j_CoinbaseMerkleLink j),
      n_version = fmt_08x (uint (t_Version (j_BlockTemplate j))), n_bits = t_Bits (j_BlockTemplate j),
      n_time = fmt_08x (t_CurTime (j_BlockTemplate j)), n_clean = clean\<rparr>"

text \<open>\<open>ok\<close> tells whether the write to the connection succeeds, \<open>ord\<close> is the order of the miner's jobs.\<close>

definition sendMiningJob ::
  "env \<Rightarrow> time \<Rightarrow> bool \<Rightarrow> string list \<Rightarrow> u64 \<Rightarrow> BlockTemplate \<Rightarrow> bool \<Rightarrow> StratumServer \<Rightarrow> StratumServer \<times> task list" where
  "sendMiningJob E now ok ord i t clean sv =
     (case miner sv i of
        None \<Rightarrow> (sv, [])
      | Some c \<Rightarrow>
          if m_closed c then (sv, [])
          else (let n = sv_jobCounter sv + 1; sv1 = sv\<lparr>sv_jobCounter := n\<rparr>; sc = sv_chain sv; tip = GetTipHash sc
                in case sv_lastJob sv of
                     None \<Rightarrow> (sv1, [])
                   | Some master \<Rightarrow>
                       (case SplitCoinbaseForStratumAtTip E t (m_WorkerName c) (j_WitnessCommitment master) (Some sc) tip of
                          Inl e \<Rightarrow> (sv1, [])
                        | Inr cbs \<Rightarrow>
                            (let job = miner_job E n t master c sc cbs;
                                 jobs = (if clean then halve_jobs ord (m_ActiveJobs c) else m_ActiveJobs c)
                             in if \<not> clean \<and> tip \<noteq> None
                                   \<and> list_ex (\<lambda>(k, aj). j_TipHash aj = tip \<and> j_Difficulty aj = j_Difficulty job) jobs
                                then (sv1, [])
                                else (let sv2 = upd_miner i (\<lambda>c. c\<lparr>m_ActiveJobs := gm_set (j_ID job) job jobs\<rparr>) sv1
                                      in if ok then (send i (Notify (notify_of E job clean)) sv2, []) else (sv2, [DropClient i]))))))"

definition NotifyNewShare :: "StratumServer \<Rightarrow> task list" where
  "NotifyNewShare sv =
     (case sv_lastJob sv of
        None \<Rightarrow> []
      | Some j \<Rightarrow>
          (let newTip = GetTipHash (sv_chain sv);
               same = (\<lambda>i. case miner sv i of
                   Some c \<Rightarrow> list_ex (\<lambda>(k, aj). j_TipHash aj \<noteq> None \<and> newTip \<noteq> None \<and> j_TipHash aj = newTip) (m_ActiveJobs c)
                 | None \<Rightarrow> False)
           in map (\<lambda>i. SendJob i (j_BlockTemplate j) False) (filter (\<lambda>i. is_active sv i \<and> \<not> same i) (sv_clients sv))))"

subsection \<open>Submissions\<close>

definition reject :: "u64 \<Rightarrow> json \<Rightarrow> int \<Rightarrow> string \<Rightarrow> StratumServer \<Rightarrow> StratumServer" where
  "reject i rid code text sv =
     upd_miner i (\<lambda>c. c\<lparr>m_RejectedShares := m_RejectedShares c + 1\<rparr>) (send i (ReplyError rid code text) sv)"

definition mark_submitted :: "u64 \<Rightarrow> string \<Rightarrow> string \<Rightarrow> StratumServer \<Rightarrow> StratumServer" where
  "mark_submitted i jobID key sv =
     upd_miner i (\<lambda>c. c\<lparr>m_ActiveJobs := (case map_of (m_ActiveJobs c) jobID of
         Some j \<Rightarrow> gm_set jobID (j\<lparr>j_Submitted := j_Submitted j @ [key]\<rparr>) (m_ActiveJobs c) | None \<Rightarrow> m_ActiveJobs c)\<rparr>) sv"

definition ntime_ok :: "time \<Rightarrow> BlockTemplate \<Rightarrow> string \<Rightarrow> bool" where
  "ntime_ok now t nTime = (case parse_hex32 nTime of
     None \<Rightarrow> False | Some n \<Rightarrow> uint n \<le> Unix (now + MaxShareTimeFuture) \<and> t_MinTime t \<le> uint n)"

text \<open>A share that met its job's difficulty and is not stale: the miner's credit, and what follows from it. \<open>parse_partial\<close>
  is the value \<open>strconv.ParseUint\<close> returns whatever its error: 0 for a bad digit, the maximum for a value out of range.\<close>

fun parse_partial :: "nat \<Rightarrow> string \<Rightarrow> u32" where
  "parse_partial n [] = of_nat n"
| "parse_partial n (c # cs) =
     (case hex_value c of None \<Rightarrow> 0 | Some d \<Rightarrow> if 2 ^ 32 \<le> n * 16 + d then - 1 else parse_partial (n * 16 + d) cs)"

definition net_target :: "env \<Rightarrow> BlockTemplate \<Rightarrow> int" where
  "net_target E t = e_CompactToBig E (parse_partial 0 (t_Bits t))"

definition credit_share :: "env \<Rightarrow> bool \<Rightarrow> time \<Rightarrow> u64 \<Rightarrow> Job \<Rightarrow> rat \<Rightarrow> int \<Rightarrow> int \<Rightarrow> Share \<Rightarrow> StratumServer \<Rightarrow> StratumServer \<times> task list" where
  "credit_share E force now i job diff committed pow s sv =
     (let t = j_BlockTemplate job; net = net_target E t; net1 = (if force then 2 ^ 256 - 1 else net);
          sv1 = upd_miner i (\<lambda>c. c\<lparr>m_AcceptedShares := m_AcceptedShares c + 1,
                  m_LocalRateMonitor := AddDatum now \<lparr>d_Work = diff, d_IsDead = False, d_WorkerName = m_WorkerName c, d_ShareTarget = None, d_PubKeyHash = []\<rparr>
                    (m_LocalRateMonitor c)\<rparr>) sv
      in (sv1\<lparr>sv_lastVerifiedHeight := t_Height t\<rparr>,
          (if sv_lastVerifiedHeight sv \<noteq> t_Height t then [VerifyCandidate s t] else [])
          @ (if (pow \<le> committed \<or> pow \<le> net) \<and> fst (IsValid E s) then [AddShare s] else [])
          @ (if pow \<le> net1 then [SubmitShare s t] else [])))"

definition job_diff :: "env \<Rightarrow> Job \<Rightarrow> rat" where
  "job_diff E job = (if j_Difficulty job \<le> 0 then min_diff E else j_Difficulty job)"

definition committed_target :: "env \<Rightarrow> ShareChain \<Rightarrow> Job \<Rightarrow> int" where
  "committed_target E sc job =
     (case j_ShareTarget job of Some t \<Rightarrow> t | None \<Rightarrow> DiffToTarget (GetExpectedShareDifficulty E sc (j_TipHash job)))"

text \<open>The share of a submission, with the tip its job was built on.\<close>

definition prebuilt_coinbase :: "env \<Rightarrow> Job \<Rightarrow> string \<Rightarrow> byte list" where
  "prebuilt_coinbase E job en2 =
     (if j_Coinb1 job \<noteq> '''' \<and> j_Coinb2 job \<noteq> ''''
      then (case RebuildCoinbaseFromStratumParts E (j_Coinb1 job) (j_ExtraNonce1 job) en2 (j_Coinb2 job) of Inr b \<Rightarrow> b | Inl e \<Rightarrow> [])
      else [])"

definition submitted_share :: "env \<Rightarrow> time \<Rightarrow> Job \<Rightarrow> string \<Rightarrow> string \<Rightarrow> string \<Rightarrow> string \<Rightarrow> ShareChain \<Rightarrow> create_error + Share" where
  "submitted_share E now job payout en2 nTime nonceHex sc =
     map_sum id (\<lambda>s. case j_TipHash job of
         None \<Rightarrow> s
       | Some tip \<Rightarrow> s\<lparr>s_ShareInfo := (s_ShareInfo s)\<lparr>si_ShareData := (share_data s)\<lparr>sd_PreviousShareHash := Some tip\<rparr>\<rparr>\<rparr>)
       (CreateShare E now (Some (j_BlockTemplate job)) (j_ExtraNonce1 job) en2 nTime nonceHex payout (Some sc) (j_WitnessCommitment job)
          (j_WTXIDMerkleRoot job) (j_TXIDMerkleLink job) (j_CoinbaseMerkleLink job) (prebuilt_coinbase E job en2))"

definition is_stale_job :: "env \<Rightarrow> Job \<Rightarrow> StratumServer \<Rightarrow> bool" where
  "is_stale_job E job sv =
     (sv_latestPrev sv \<noteq> None \<and> e_NewHashFromStr E (t_PreviousBlockHash (j_BlockTemplate job)) \<noteq> sv_latestPrev sv)"

text \<open>From the check for a repeated hash on.\<close>

definition judge_share ::
  "env \<Rightarrow> bool \<Rightarrow> time \<Rightarrow> u64 \<Rightarrow> json \<Rightarrow> string \<Rightarrow> Job \<Rightarrow> Share \<Rightarrow> StratumServer \<Rightarrow> StratumServer \<times> task list" where
  "judge_share E force now i rid jobID job s sv =
     (let jobs = (case miner sv i of Some c \<Rightarrow> map snd (m_ActiveJobs c) | None \<Rightarrow> []);
          repeated = (case s_Hash s of Some h \<Rightarrow> list_ex (\<lambda>j. e_HashString E h \<in> set (j_Submitted j)) jobs | None \<Rightarrow> False)
      in if repeated then (reject i rid 22 ''Duplicate share'' sv, [])
         else (let sv1 = (case s_Hash s of Some h \<Rightarrow> mark_submitted i jobID (e_HashString E h) sv | None \<Rightarrow> sv);
                   committed = committed_target E (sv_chain sv) job; diff = job_diff E job
               in case CalculateHashes E (s\<lparr>s_Target := Some committed\<rparr>) of
                    Inl e \<Rightarrow> (send i (Reply rid False) sv1, [])
                  | Inr s1 \<Rightarrow>
                      (case s_POWHash s1 of
                         None \<Rightarrow> (send i (Reply rid False) sv1, [])
                       | Some powHash \<Rightarrow>
                           (let pow = big_SetBytes powHash; accepted = (pow \<le> DiffToTarget diff \<and> \<not> is_stale_job E job sv);
                                (sv2, ts) = (if accepted then credit_share E force now i job diff committed pow s1 sv1
                                             else (upd_miner i (\<lambda>c. c\<lparr>m_RejectedShares := m_RejectedShares c + 1\<rparr>) sv1, []))
                            in (send i (Reply rid accepted) sv2, ts)))))"

definition handleSubmit ::
  "env \<Rightarrow> bool \<Rightarrow> time \<Rightarrow> u64 \<Rightarrow> json \<Rightarrow> json option \<Rightarrow> StratumServer \<Rightarrow> (StratumServer \<times> task list) option" where
  "handleSubmit E force now i rid params sv =
     (case miner sv i of
        None \<Rightarrow> Some (sv, [])
      | Some c \<Rightarrow>
          (case string_params params of
             Some (user # jobID # en2 # nTime # nonceHex # rest) \<Rightarrow>
               (case map_of (m_ActiveJobs c) jobID of
                  None \<Rightarrow> Some (reject i rid 21 ''Stale share'' sv, [])
                | Some job \<Rightarrow>
                    (let key = en2 @ '':'' @ nTime @ '':'' @ nonceHex
                     in if key \<in> set (j_Submitted job) then Some (reject i rid 22 ''Duplicate share'' sv, [])
                        else (let sv1 = mark_submitted i jobID key sv
                              in if \<not> ntime_ok now (j_BlockTemplate job) nTime then Some (reject i rid 20 ''ntime out of range'' sv1, [])
                                 else (case submitted_share E now job (m_WorkerName c) en2 nTime nonceHex (sv_chain sv) of
                                         Inl CreatePanic \<Rightarrow> None
                                       | Inl e \<Rightarrow> Some (send i (ReplyError rid 26 ''Internal error'') sv1, [])
                                       | Inr s \<Rightarrow> Some (judge_share E force now i rid jobID job s sv1)))))
           | _ \<Rightarrow> Some (send i (ReplyError rid 25 ''Malformed submission'') sv, [])))"

text \<open>A request of a registered miner: the method selects the handler.\<close>

definition handle_request ::
  "env \<Rightarrow> (string \<Rightarrow> rat option) \<Rightarrow> bool \<Rightarrow> time \<Rightarrow> u64 \<Rightarrow> string \<Rightarrow> json \<Rightarrow> json option \<Rightarrow> StratumServer \<Rightarrow> (StratumServer \<times> task list) option" where
  "handle_request E pf force now i method rid params sv =
     (let sv1 = upd_miner i (\<lambda>c. c\<lparr>m_LastActivity := now\<rparr>) sv
      in if method = ''mining.subscribe'' then Some (handleSubscribe i rid sv1, [])
         else if method = ''mining.authorize'' then Some (handleAuthorize E pf now i rid params sv1)
         else if method = ''mining.submit'' then handleSubmit E force now i rid params sv1
         else Some (sv1, []))"

subsection \<open>Local statistics\<close>

definition hashrateConstant :: rat where "hashrateConstant = 16777216"

abbreviation clients :: "StratumServer \<Rightarrow> Miner list" where
  "clients sv \<equiv> concat (map (\<lambda>i. case miner sv i of Some c \<Rightarrow> [c] | None \<Rightarrow> []) (sv_clients sv))"

definition GetLocalEfficiency :: "StratumServer \<Rightarrow> rat" where
  "GetLocalEfficiency sv =
     (let acc = foldl (\<lambda>n c. n + m_AcceptedShares c) 0 (clients sv); rej = foldl (\<lambda>n c. n + m_RejectedShares c) 0 (clients sv);
          total = acc + rej
      in if total = 0 then 100 else fmul (fdiv (f64 (of_int (uint acc))) (f64 (of_int (uint total)))) 100)"

definition GetHashrateForClient :: "time \<Rightarrow> u64 \<Rightarrow> StratumServer \<Rightarrow> rat" where
  "GetHashrateForClient now i sv =
     (if i \<notin> set (sv_clients sv) then 0
      else case miner sv i of
        None \<Rightarrow> 0
      | Some c \<Rightarrow>
          (let (datums, sp, rm) = GetDatumsInLast now (minutes 10) (m_LocalRateMonitor c)
           in if length datums < 2 \<or> sp < seconds 5 then 0
              else fdiv (fmul (foldl (\<lambda>w d. fadd w (d_Work d)) 0 datums) hashrateConstant) (duration_seconds sp)))"

definition GetLocalHashrate :: "time \<Rightarrow> StratumServer \<Rightarrow> rat" where
  "GetLocalHashrate now sv = foldl (\<lambda>t c. fadd t (GetHashrateForClient now (m_ID c) sv)) 0 (clients sv)"

definition GetLocalSharesPerSecond :: "time \<Rightarrow> StratumServer \<Rightarrow> rat" where
  "GetLocalSharesPerSecond now sv =
     foldl (\<lambda>t c. let (datums, sp, rm) = GetDatumsInLast now (minutes 5) (m_LocalRateMonitor c)
       in if datums \<noteq> [] \<and> 1 < duration_seconds sp then fadd t (fdiv (of_nat (length datums)) (duration_seconds sp)) else t) 0 (clients sv)"

subsection \<open>Frames\<close>

lemma miner_upd [simp]: "miner (upd_miner i f sv) k = (if k = i then map_option f (miner sv i) else miner sv k)"
  by (auto simp: upd_miner_def split: option.split)

lemma upd_frame [simp]:
  "sv_jobCounter (upd_miner i f sv) = sv_jobCounter sv" "sv_wm (upd_miner i f sv) = sv_wm sv" "sv_lastJob (upd_miner i f sv) = sv_lastJob sv"
  "sv_latestPrev (upd_miner i f sv) = sv_latestPrev sv" "sv_clients (upd_miner i f sv) = sv_clients sv"
  by (simp_all add: upd_miner_def split: option.split)

lemma send_frame [simp]:
  "sv_miners (send i m sv) = sv_miners sv" "sv_jobCounter (send i m sv) = sv_jobCounter sv" "sv_wm (send i m sv) = sv_wm sv"
  "sv_lastJob (send i m sv) = sv_lastJob sv" "sv_latestPrev (send i m sv) = sv_latestPrev sv" "sv_clients (send i m sv) = sv_clients sv"
  by (simp_all add: send_def split: option.split)

lemma remember_frame [simp]:
  "sv_miners (rememberClientDiff now c w d sv) = sv_miners sv" "sv_jobCounter (rememberClientDiff now c w d sv) = sv_jobCounter sv"
  "sv_wm (rememberClientDiff now c w d sv) = sv_wm sv" "sv_lastJob (rememberClientDiff now c w d sv) = sv_lastJob sv"
  by (simp_all add: rememberClientDiff_def Let_def)

text \<open>What every operation keeps: miners stay, the job counter grows, and a job a miner holds afterwards is either
  numbered after the old counter or one it held before, with at least the submissions recorded then.\<close>

definition job_number :: "string \<Rightarrow> nat \<Rightarrow> nat \<Rightarrow> bool" where
  "job_number j a b = (\<exists>n > a. n \<le> b \<and> j = dec_digits n)"

definition jobs_kept :: "nat \<Rightarrow> nat \<Rightarrow> Miner \<Rightarrow> Miner \<Rightarrow> bool" where
  "jobs_kept a b c c' \<longleftrightarrow> (gm_wf (m_ActiveJobs c) \<longrightarrow> gm_wf (m_ActiveJobs c') \<and>
     (\<forall>j job'. map_of (m_ActiveJobs c') j = Some job' \<longrightarrow> job_number j a b
        \<or> (\<exists>job. map_of (m_ActiveJobs c) j = Some job \<and> set (j_Submitted job) \<subseteq> set (j_Submitted job'))))"

definition served :: "StratumServer \<Rightarrow> StratumServer \<Rightarrow> bool" where
  "served sv sv' \<longleftrightarrow> sv_jobCounter sv \<le> sv_jobCounter sv' \<and>
     (\<forall>i. rel_option (jobs_kept (unat (sv_jobCounter sv)) (unat (sv_jobCounter sv'))) (miner sv i) (miner sv' i))"

lemma jobs_kept_refl: "m_ActiveJobs c' = m_ActiveJobs c \<Longrightarrow> jobs_kept a b c c'"
  by (auto simp: jobs_kept_def)

lemma served_refl [simp]: "served sv sv"
  by (auto simp: served_def jobs_kept_refl intro!: option.rel_refl)

lemma job_number_mono: "job_number j a b \<Longrightarrow> a' \<le> a \<Longrightarrow> b \<le> b' \<Longrightarrow> job_number j a' b'"
  unfolding job_number_def by (elim exE conjE, rule exI, intro conjI; (assumption | linarith))

lemma jobs_kept_trans:
  assumes "jobs_kept a b c1 c2" "jobs_kept b d c2 c3" "a \<le> b" "b \<le> d" shows "jobs_kept a d c1 c3"
  unfolding jobs_kept_def
proof (intro impI conjI allI)
  assume w: "gm_wf (m_ActiveJobs c1)"
  then have w2: "gm_wf (m_ActiveJobs c2)" using assms(1) by (simp add: jobs_kept_def)
  then show "gm_wf (m_ActiveJobs c3)" using assms(2) by (simp add: jobs_kept_def)
  fix j job3 assume "map_of (m_ActiveJobs c3) j = Some job3"
  then consider "job_number j b d" | job2 where "map_of (m_ActiveJobs c2) j = Some job2" "set (j_Submitted job2) \<subseteq> set (j_Submitted job3)"
    using assms(2) w2 unfolding jobs_kept_def by blast
  then show "job_number j a d \<or> (\<exists>job. map_of (m_ActiveJobs c1) j = Some job \<and> set (j_Submitted job) \<subseteq> set (j_Submitted job3))"
  proof cases
    case 1
    then show ?thesis using job_number_mono[OF _ assms(3), of j d d] by blast
  next
    case 2
    then show ?thesis using assms(1) w job_number_mono[OF _ le_refl assms(4), of j a] unfolding jobs_kept_def by blast
  qed
qed

lemma served_trans:
  assumes "served s1 s2" "served s2 s3" shows "served s1 s3"
  unfolding served_def
proof (intro conjI allI)
  note a = assms[unfolded served_def]
  show "sv_jobCounter s1 \<le> sv_jobCounter s3" using a by (meson order_trans)
  have n: "unat (sv_jobCounter s1) \<le> unat (sv_jobCounter s2)" "unat (sv_jobCounter s2) \<le> unat (sv_jobCounter s3)"
    using a by (simp_all add: word_le_nat_alt)
  fix i
  show "rel_option (jobs_kept (unat (sv_jobCounter s1)) (unat (sv_jobCounter s3))) (miner s1 i) (miner s3 i)"
    using a(1)[THEN conjunct2, rule_format, of i] a(2)[THEN conjunct2, rule_format, of i]
    by (auto simp: option.rel_sel jobs_kept_trans[OF _ _ n])
qed

lemma served_upd:
  assumes "\<And>c. jobs_kept (unat (sv_jobCounter sv)) (unat (sv_jobCounter sv)) c (f c)"
  shows "served sv (upd_miner i f sv)"
  using assms by (auto simp: served_def option.rel_sel jobs_kept_refl)

lemma served_same: "sv_miners sv' = sv_miners sv \<Longrightarrow> sv_jobCounter sv \<le> sv_jobCounter sv' \<Longrightarrow> served sv sv'"
  by (auto simp: served_def jobs_kept_refl intro!: option.rel_refl)

lemma served_send: "served sv sv' \<Longrightarrow> served sv (send i m sv')"
  by (erule served_trans) (simp add: served_same)

lemma served_upd_keep: "served sv sv' \<Longrightarrow> (\<And>c. m_ActiveJobs (f c) = m_ActiveJobs c) \<Longrightarrow> served sv (upd_miner i f sv')"
  by (erule served_trans) (simp add: served_upd jobs_kept_refl)

lemma served_mark: "served sv sv' \<Longrightarrow> served sv (mark_submitted i jobID key sv')"
  unfolding mark_submitted_def by (erule served_trans, rule served_upd) (auto simp: jobs_kept_def simp del: map_of_eq_Some_iff Some_eq_map_of_iff split: option.splits if_splits)

lemma served_remember: "served sv sv' \<Longrightarrow> served sv (rememberClientDiff now c w d sv')"
  by (erule served_trans) (simp add: served_same)

lemma served_clients: "served sv sv' \<Longrightarrow> served sv (sv'\<lparr>sv_clients := l\<rparr>)"
  by (erule served_trans) (simp add: served_same)

lemma served_height: "served sv sv' \<Longrightarrow> served sv (sv'\<lparr>sv_lastVerifiedHeight := h\<rparr>)"
  by (erule served_trans) (simp add: served_same)

lemmas served_intros = served_refl served_send served_upd_keep served_remember served_clients served_height served_mark

lemma served_sendDifficulty: "served sv sv' \<Longrightarrow> served sv (sendDifficulty now i d sv')"
  unfolding sendDifficulty_def by (auto simp: Let_def split: option.split intro!: served_intros)

lemma served_dropClient: "served sv (dropClient now i sv)"
  unfolding dropClient_def by (auto simp: Let_def split: option.split intro!: served_intros)

lemma served_handleSubscribe: "served sv (handleSubscribe i rid sv)"
  unfolding handleSubscribe_def by (auto split: option.split intro!: served_intros)

lemma served_vardiff_tick: "served sv (fst (snd (vardiff_tick E now i mx sv)))"
  unfolding vardiff_tick_def Let_def case_prod_beta
  by (simp split: option.split) (intro impI conjI allI served_sendDifficulty served_intros; simp)

lemma served_handleAuthorize: "served sv (fst (handleAuthorize E pf now i rid params sv))"
  unfolding handleAuthorize_def Let_def case_prod_beta
  by (simp split: option.split list.split) (intro impI conjI allI served_sendDifficulty served_intros; simp)

lemma gm_del_all:
  assumes "gm_wf m"
  shows "gm_wf (foldl (\<lambda>m k. gm_del k m) m ks)" "map_of (foldl (\<lambda>m k. gm_del k m) m ks) j = Some v \<Longrightarrow> map_of m j = Some v"
proof -
  show "gm_wf (foldl (\<lambda>m k. gm_del k m) m ks)" using assms by (induction ks arbitrary: m) simp_all
  show "map_of (foldl (\<lambda>m k. gm_del k m) m ks) j = Some v \<Longrightarrow> map_of m j = Some v"
  proof (induction ks arbitrary: m)
    case (Cons k ks)
    have "map_of (gm_del k m) j = Some v" by (rule Cons.IH) (use Cons.prems in simp)
    then show ?case by (simp del: map_of_eq_Some_iff split: if_splits)
  qed simp
qed

lemma halve_jobs_kept:
  assumes "gm_wf m" shows "gm_wf (halve_jobs ord m)" "map_of (halve_jobs ord m) j = Some job \<Longrightarrow> map_of m j = Some job"
  using gm_del_all[OF assms] assms by (auto simp: halve_jobs_def simp del: map_of_eq_Some_iff split: if_splits)

lemma counter_step:
  assumes "(n :: u64) + 1 \<noteq> 0" shows "unat (n + 1) = unat n + 1" "n \<le> n + 1"
  using assms unatSuc[of n] by (simp_all add: add.commute word_le_nat_alt)

lemma served_sendMiningJob:
  assumes "sv_jobCounter sv + 1 \<noteq> 0" shows "served sv (fst (sendMiningJob E now ok ord i t clean sv))"
proof -
  let ?n = "sv_jobCounter sv + 1"
  note n = counter_step[OF assms]
  have c: "served sv (sv\<lparr>sv_jobCounter := ?n\<rparr>)" using n by (simp add: served_same)
  have "jobs_kept (unat (sv_jobCounter sv)) (unat ?n) x
          (x\<lparr>m_ActiveJobs := gm_set (dec_digits (unat ?n)) job (if clean then halve_jobs ord (m_ActiveJobs x) else m_ActiveJobs x)\<rparr>)" for job x
    using halve_jobs_kept[of "m_ActiveJobs x" ord] n(1)
    by (auto simp: jobs_kept_def job_number_def simp del: map_of_eq_Some_iff Some_eq_map_of_iff split: if_splits)
  then have "served sv (upd_miner i (\<lambda>c. c\<lparr>m_ActiveJobs := gm_set (dec_digits (unat ?n)) job
        (if clean then halve_jobs ord (m_ActiveJobs x) else m_ActiveJobs x)\<rparr>) (sv\<lparr>sv_jobCounter := ?n\<rparr>))" if "miner sv i = Some x" for job x
    using that n by (auto simp: served_def option.rel_sel jobs_kept_refl)
  then show ?thesis using c
    unfolding sendMiningJob_def Let_def by (auto simp: miner_job_def split: option.split sum.split intro!: served_send)
qed

lemma served_jobBroadcaster:
  assumes "jobBroadcaster E t sv = Some (sv', ts)" "sv_jobCounter sv + 1 \<noteq> 0" shows "served sv sv'"
  using assms counter_step[OF assms(2)] by (auto simp: jobBroadcaster_def Let_def intro!: served_same)

lemma served_reject: "served sv sv' \<Longrightarrow> served sv (reject i rid code txt sv')"
  unfolding reject_def by (intro served_intros; simp)

lemma served_credit: "served sv sv' \<Longrightarrow> served sv (fst (credit_share E force now i job d tgt pow s sv'))"
  unfolding credit_share_def Let_def by (simp, intro served_intros) simp_all

lemma served_judge: "served sv sv' \<Longrightarrow> served sv (fst (judge_share E force now i rid jobID job s sv'))"
  unfolding judge_share_def Let_def case_prod_beta
  by (simp split: sum.split option.split) (intro impI conjI allI served_send served_credit served_reject served_mark served_upd_keep; simp)

lemma served_handleSubmit:
  assumes "handleSubmit E force now i rid params sv = Some (sv', ts)" shows "served sv sv'"
proof -
  have j: "served sv x" if "judge_share E force now i rid jobID job s (mark_submitted i jobID key sv) = (x, y)" for jobID job s key x y
    using served_judge[OF served_mark[OF served_refl], of sv E force now i rid jobID job s i jobID key] that by simp
  show ?thesis using assms unfolding handleSubmit_def Let_def
    by (auto split: option.splits list.splits if_splits sum.splits create_error.splits intro!: served_reject served_intros intro: j)
qed

subsection \<open>Credit\<close>

definition accepted :: "StratumServer \<Rightarrow> u64 \<Rightarrow> u64 option" where
  "accepted sv i = map_option m_AcceptedShares (miner sv i)"

lemma accepted_upd [simp]:
  assumes "\<And>c. m_AcceptedShares (f c) = m_AcceptedShares c" shows "accepted (upd_miner i f sv) k = accepted sv k"
  using assms by (simp add: accepted_def option.map_comp comp_def)


lemma counter_frame [simp]:
  "sv_jobCounter (mark_submitted i jobID key sv) = sv_jobCounter sv" "sv_jobCounter (reject i rid code txt sv) = sv_jobCounter sv"
  by (simp_all add: mark_submitted_def reject_def)

lemma accepted_frame [simp]:
  "accepted (send i m sv) k = accepted sv k" "accepted (mark_submitted i jobID key sv) k = accepted sv k"
  "accepted (reject i rid code txt sv) k = accepted sv k" "accepted (sendDifficulty now i d sv) k = accepted sv k"
  "accepted (rememberClientDiff now c w d sv) k = accepted sv k" "accepted (dropClient now i sv) k = accepted sv k"
  "accepted (handleSubscribe i rid sv) k = accepted sv k" "accepted (sv\<lparr>sv_jobCounter := n\<rparr>) k = accepted sv k"
  by (simp_all add: accepted_def mark_submitted_def reject_def sendDifficulty_def dropClient_def handleSubscribe_def Let_def option.map_comp comp_def
      split: option.split)

lemma accepted_ops [simp]:
  "accepted (fst (snd (vardiff_tick E now i mx sv))) k = accepted sv k"
  "accepted (fst (handleAuthorize E pf now i rid params sv)) k = accepted sv k"
  "accepted (fst (sendMiningJob E now ok ord i t clean sv)) k = accepted sv k"
  "jobBroadcaster E t sv = Some (sv', ts) \<Longrightarrow> accepted sv' k = accepted sv k"
  subgoal by (simp add: vardiff_tick_def Let_def case_prod_beta split: option.split)
  subgoal by (simp add: handleAuthorize_def Let_def case_prod_beta split: option.split list.split)
  subgoal by (simp add: sendMiningJob_def Let_def split: option.split sum.split)
  subgoal by (auto simp: accepted_def jobBroadcaster_def Let_def)
  done

lemma credit_accepted:
  "accepted (fst (credit_share E force now i job d tgt pow s sv)) k = (if k = i then map_option (\<lambda>n. n + 1) (accepted sv k) else accepted sv k)"
  "sv_jobCounter (fst (credit_share E force now i job d tgt pow s sv)) = sv_jobCounter sv"
  by (simp_all add: accepted_def credit_share_def Let_def option.map_comp comp_def)

lemma judge_accepted:
  assumes "judge_share E force now i rid jobID job s sv = (sv', ts)"
  shows "accepted sv' = accepted sv \<or> accepted sv' = (accepted sv)(i := map_option (\<lambda>n. n + 1) (accepted sv i))"
    and "sv_jobCounter sv' = sv_jobCounter sv"
proof -
  have sv': "sv' = fst (judge_share E force now i rid jobID job s sv)" using assms by simp
  show "accepted sv' = accepted sv \<or> accepted sv' = (accepted sv)(i := map_option (\<lambda>n. n + 1) (accepted sv i))"
    "sv_jobCounter sv' = sv_jobCounter sv"
    unfolding sv' judge_share_def Let_def case_prod_beta
    by (auto simp: credit_accepted fun_eq_iff split: sum.split option.split)
qed

lemma rehash_frame:
  "FullBlockHeader E (x\<lparr>s_Hash := a\<rparr>) = FullBlockHeader E x" "FullBlockHeader E (x\<lparr>s_POWHash := b\<rparr>) = FullBlockHeader E x"
  "FullBlockHeader E (x\<lparr>s_Target := c\<rparr>) = FullBlockHeader E x"
  by (simp_all add: FullBlockHeader_def header_ts_def cong: option.case_cong if_cong)

lemma hashes_cases:
  assumes "CalculateHashes E s0 = Inr s"
  obtains hd b p where "FullBlockHeader E s0 = Inr hd" "e_HeaderBytes E hd = Some b" "e_Verthash E b = Some p"
    "s = s0\<lparr>s_Hash := Some (e_BlockHash E hd), s_POWHash := NewHash (ReverseBytes p)\<rparr>"
proof -
  obtain s1 where s1: "CalculateHash E s0 = Inr s1" "CalculatePOWHash E s1 = Inr s"
    using assms by (auto simp: CalculateHashes_def split: sum.splits)
  obtain hd where hd: "FullBlockHeader E s0 = Inr hd" "s1 = s0\<lparr>s_Hash := Some (e_BlockHash E hd)\<rparr>"
    using s1(1) by (auto simp: CalculateHash_def split: sum.splits)
  with s1(2) that show thesis by (auto simp: CalculatePOWHash_def rehash_frame split: option.splits)
qed

lemma submitted_has_hash: "submitted_share E now job payout en2 nTime nonceHex sc = Inr s \<Longrightarrow> s_Hash s \<noteq> None"
  by (auto simp: submitted_share_def CreateShare_def Let_def elim!: hashes_cases
      split: option.splits sum.splits if_splits)

text \<open>The key under which a submission is recorded, the hash of the share it stands for, and what a submission is
  credited for: the miner, the job, the key and the hash.\<close>

type_synonym credit = "u64 \<times> string \<times> string \<times> string"

definition submit_key :: "json option \<Rightarrow> (string \<times> string) option" where
  "submit_key params = (case string_params params of
     Some (user # jobID # en2 # nTime # nonceHex # rest) \<Rightarrow> Some (jobID, en2 @ '':'' @ nTime @ '':'' @ nonceHex) | _ \<Rightarrow> None)"

definition submit_hash :: "env \<Rightarrow> time \<Rightarrow> u64 \<Rightarrow> json option \<Rightarrow> StratumServer \<Rightarrow> string option" where
  "submit_hash E now i params sv = (case (miner sv i, string_params params) of
     (Some c, Some (user # jobID # en2 # nTime # nonceHex # rest)) \<Rightarrow>
        (case map_of (m_ActiveJobs c) jobID of
           Some job \<Rightarrow> (case submitted_share E now job (m_WorkerName c) en2 nTime nonceHex (sv_chain sv) of
                          Inr s \<Rightarrow> map_option (e_HashString E) (s_Hash s) | Inl e \<Rightarrow> None)
         | None \<Rightarrow> None)
   | _ \<Rightarrow> None)"

definition credit_of :: "env \<Rightarrow> time \<Rightarrow> u64 \<Rightarrow> json option \<Rightarrow> StratumServer \<Rightarrow> StratumServer \<Rightarrow> credit list" where
  "credit_of E now i params sv sv' =
     (if accepted sv' i = accepted sv i then []
      else case (submit_key params, submit_hash E now i params sv) of (Some (jobID, key), Some h) \<Rightarrow> [(i, jobID, key, h)] | _ \<Rightarrow> [])"

lemma submit_cases:
  assumes "handleSubmit E force now i rid params sv = Some (sv', ts)"
  obtains "\<And>k. accepted sv' k = accepted sv k"
  | c jobID key job s h where "miner sv i = Some c" "submit_key params = Some (jobID, key)" "map_of (m_ActiveJobs c) jobID = Some job"
      "key \<notin> set (j_Submitted job)" "judge_share E force now i rid jobID job s (mark_submitted i jobID key sv) = (sv', ts)"
      "s_Hash s = Some h" "submit_hash E now i params sv = Some (e_HashString E h)"
proof (cases "\<forall>k. accepted sv' k = accepted sv k")
  case False
  from assms False obtain c user jobID en2 nTime nonceHex rest job s where a: "miner sv i = Some c"
    "string_params params = Some (user # jobID # en2 # nTime # nonceHex # rest)" "map_of (m_ActiveJobs c) jobID = Some job"
    "en2 @ '':'' @ nTime @ '':'' @ nonceHex \<notin> set (j_Submitted job)"
    "submitted_share E now job (m_WorkerName c) en2 nTime nonceHex (sv_chain sv) = Inr s"
    "judge_share E force now i rid jobID job s (mark_submitted i jobID (en2 @ '':'' @ nTime @ '':'' @ nonceHex) sv) = (sv', ts)"
    unfolding handleSubmit_def Let_def by (auto split: option.splits list.splits if_splits sum.splits create_error.splits)
  obtain h where "s_Hash s = Some h" using submitted_has_hash[OF a(5)] by blast
  then show thesis using that(2)[OF a(1) _ a(3,4,6)] a(2,5) by (simp add: submit_key_def submit_hash_def a(1,3))
qed (use that(1) in blast)

subsection \<open>Runs of the server\<close>

text \<open>The states the server reaches, with the credits it gave. Connections get new numbers (an atomic counter in the
  code), the work manager changes in any way between steps, and the 64-bit job counter does not overflow. A run starts
  when no share is credited yet and the jobs have numbers of the counter, as before the first connection.\<close>

definition idle :: "StratumServer \<Rightarrow> bool" where
  "idle sv \<longleftrightarrow> (\<forall>i c. miner sv i = Some c \<longrightarrow> m_AcceptedShares c = 0 \<and> gm_wf (m_ActiveJobs c)
     \<and> (\<forall>jobID job. map_of (m_ActiveJobs c) jobID = Some job \<longrightarrow> job_number jobID 0 (unat (sv_jobCounter sv))))"

inductive stratum_run :: "env \<Rightarrow> StratumServer \<Rightarrow> credit list \<Rightarrow> bool" for E where
  start: "idle sv \<Longrightarrow> stratum_run E sv []"
| connect: "stratum_run E sv cr \<Longrightarrow> miner sv i = None \<Longrightarrow> stratum_run E (register_miner (NewMiner i rnd host now) sv) cr"
| active: "stratum_run E sv cr \<Longrightarrow> stratum_run E (upd_miner i (\<lambda>c. c\<lparr>m_LastActivity := now\<rparr>) sv) cr"
| subscribe: "stratum_run E sv cr \<Longrightarrow> stratum_run E (handleSubscribe i rid sv) cr"
| authorize: "stratum_run E sv cr \<Longrightarrow> stratum_run E (fst (handleAuthorize E pf now i rid params sv)) cr"
| leave: "stratum_run E sv cr \<Longrightarrow> stratum_run E (dropClient now i sv) cr"
| tick: "stratum_run E sv cr \<Longrightarrow> stratum_run E (fst (snd (vardiff_tick E now i mx sv))) cr"
| job: "stratum_run E sv cr \<Longrightarrow> sv_jobCounter sv + 1 \<noteq> 0 \<Longrightarrow> stratum_run E (fst (sendMiningJob E now ok ord i t clean sv)) cr"
| broadcast: "stratum_run E sv cr \<Longrightarrow> sv_jobCounter sv + 1 \<noteq> 0 \<Longrightarrow> jobBroadcaster E t sv = Some (sv', ts) \<Longrightarrow> stratum_run E sv' cr"
| manager: "stratum_run E sv cr \<Longrightarrow> stratum_run E (sv\<lparr>sv_wm := wm\<rparr>) cr"
| submit: "stratum_run E sv cr \<Longrightarrow> handleSubmit E force now i rid params sv = Some (sv', ts)
    \<Longrightarrow> stratum_run E sv' (credit_of E now i params sv sv' @ cr)"

lemma request_run:
  assumes "stratum_run E sv cr" "handle_request E pf force now i method rid params sv = Some (sv', ts)"
  shows "\<exists>cr'. stratum_run E sv' (cr' @ cr)"
proof -
  note a = stratum_run.active[OF assms(1), of i now]
  show ?thesis using assms(2) stratum_run.subscribe[OF a] stratum_run.authorize[OF a, of pf now i rid params] stratum_run.submit[OF a] a
    unfolding handle_request_def Let_def by (auto split: if_splits intro: exI[of _ "[]"]) (metis append_Nil fst_conv)+
qed

text \<open>The credits of a miner for jobs it still holds.\<close>

definition live_credits :: "u64 \<Rightarrow> Miner \<Rightarrow> credit list \<Rightarrow> credit list" where
  "live_credits i c cr = filter (\<lambda>(k, jobID, key, h). k = i \<and> jobID \<in> dom (map_of (m_ActiveJobs c))) cr"

abbreviation credit_key :: "credit \<Rightarrow> u64 \<times> string \<times> string" where "credit_key \<equiv> \<lambda>(i, jobID, key, h). (i, jobID, key)"

abbreviation credit_hash :: "credit \<Rightarrow> string" where "credit_hash \<equiv> \<lambda>(i, jobID, key, h). h"

definition credits_ok :: "StratumServer \<Rightarrow> credit list \<Rightarrow> bool" where
  "credits_ok sv cr \<longleftrightarrow> distinct (map credit_key cr)
     \<and> (\<forall>i jobID key h. (i, jobID, key, h) \<in> set cr \<longrightarrow> miner sv i \<noteq> None \<and> job_number jobID 0 (unat (sv_jobCounter sv))
          \<and> (\<forall>c job. miner sv i = Some c \<longrightarrow> map_of (m_ActiveJobs c) jobID = Some job \<longrightarrow> {key, h} \<subseteq> set (j_Submitted job)))
     \<and> (\<forall>i c. miner sv i = Some c \<longrightarrow> gm_wf (m_ActiveJobs c)
          \<and> (\<forall>jobID job. map_of (m_ActiveJobs c) jobID = Some job \<longrightarrow> job_number jobID 0 (unat (sv_jobCounter sv)))
          \<and> distinct (map credit_hash (live_credits i c cr)))"

definition counts_ok :: "StratumServer \<Rightarrow> credit list \<Rightarrow> bool" where
  "counts_ok sv cr \<longleftrightarrow> (\<forall>i n. accepted sv i = Some n \<longrightarrow> n = of_nat (length (filter (\<lambda>x. fst x = i) cr)))"

lemma hex_digit_inj: "a < 16 \<Longrightarrow> b < 16 \<Longrightarrow> hex_digit a = hex_digit b \<Longrightarrow> a = b"
  by (auto simp: hex_digit_def nth_eq_iff_index_eq)

lemma dec_digits_nonempty: "dec_digits n \<noteq> []"
  by (subst dec_digits.simps) simp

lemma dec_digits_inj: "dec_digits a = dec_digits b \<Longrightarrow> a = b"
proof (induction a arbitrary: b rule: dec_digits.induct)
  case (1 a)
  note eq = 1(2)[unfolded dec_digits.simps[of a] dec_digits.simps[of b]]
  show ?case
  proof (cases "a < 10")
    case True
    then show ?thesis using eq dec_digits_nonempty[of "b div 10"] hex_digit_inj[of a b] by (auto split: if_splits)
  next
    case False
    then have b: "\<not> b < 10" "dec_digits (a div 10) = dec_digits (b div 10)" "a mod 10 = b mod 10"
      using eq dec_digits_nonempty hex_digit_inj[of "a mod 10" "b mod 10"] by (auto split: if_splits)
    then show ?thesis using 1(1)[OF False b(2)] by (metis div_mult_mod_eq)
  qed
qed

lemma live_credits_shrink:
  assumes "distinct (map credit_hash (live_credits i c cr))"
    "\<And>jobID key h. (i, jobID, key, h) \<in> set cr \<Longrightarrow> map_of (m_ActiveJobs c') jobID \<noteq> None \<Longrightarrow> map_of (m_ActiveJobs c) jobID \<noteq> None"
  shows "distinct (map credit_hash (live_credits i c' cr))"
proof -
  let ?P = "\<lambda>c x. case x of (k, jobID, key, h) \<Rightarrow> k = i \<and> jobID \<in> dom (map_of (m_ActiveJobs c))"
  have "live_credits i c' cr = filter (?P c') (live_credits i c cr)"
    unfolding live_credits_def filter_filter using assms(2) by (intro filter_cong) auto
  then show ?thesis using distinct_map_filter[OF assms(1)] by simp
qed

lemma credits_okD:
  assumes "credits_ok sv cr"
  shows "distinct (map credit_key cr)"
    "(i, jobID, key, h) \<in> set cr \<Longrightarrow> miner sv i \<noteq> None" "(i, jobID, key, h) \<in> set cr \<Longrightarrow> job_number jobID 0 (unat (sv_jobCounter sv))"
    "(i, jobID, key, h) \<in> set cr \<Longrightarrow> miner sv i = Some c \<Longrightarrow> map_of (m_ActiveJobs c) jobID = Some job \<Longrightarrow> {key, h} \<subseteq> set (j_Submitted job)"
    "miner sv i = Some c \<Longrightarrow> gm_wf (m_ActiveJobs c)"
    "miner sv i = Some c \<Longrightarrow> map_of (m_ActiveJobs c) jobID = Some job \<Longrightarrow> job_number jobID 0 (unat (sv_jobCounter sv))"
    "miner sv i = Some c \<Longrightarrow> distinct (map credit_hash (live_credits i c cr))"
  using assms unfolding credits_ok_def by blast+

lemma credits_kept:
  assumes ok: "credits_ok sv cr" and "served sv sv'" shows "credits_ok sv' cr"
  unfolding credits_ok_def
proof (intro conjI allI impI)
  let ?n = "unat (sv_jobCounter sv)" and ?n' = "unat (sv_jobCounter sv')"
  have n: "?n \<le> ?n'" using assms(2) by (simp add: served_def word_le_nat_alt)
  have rel: "rel_option (jobs_kept ?n ?n') (miner sv i) (miner sv' i)" for i using assms(2) by (simp add: served_def)
  show "distinct (map credit_key cr)" by (rule credits_okD(1)[OF ok])
  { fix i c' assume c': "miner sv' i = Some c'"
    then obtain c where c: "miner sv i = Some c" "jobs_kept ?n ?n' c c'" using rel[of i] by (auto simp: option.rel_sel)
    note wf = credits_okD(5)[OF ok c(1)]
    show "gm_wf (m_ActiveJobs c')" using c(2) wf by (simp add: jobs_kept_def)
    have kept: "job_number jobID ?n ?n' \<or> (\<exists>job. map_of (m_ActiveJobs c) jobID = Some job \<and> set (j_Submitted job) \<subseteq> set (j_Submitted job'))"
      if "map_of (m_ActiveJobs c') jobID = Some job'" for jobID job'
      using c(2) wf that unfolding jobs_kept_def by blast
    have cred: "\<exists>job. map_of (m_ActiveJobs c) jobID = Some job \<and> set (j_Submitted job) \<subseteq> set (j_Submitted job')"
      if k: "(i, jobID, key, h) \<in> set cr" and j: "map_of (m_ActiveJobs c') jobID = Some job'" for jobID key h job'
    proof -
      have "\<not> job_number jobID ?n ?n'" using credits_okD(3)[OF ok k] dec_digits_inj by (force simp: job_number_def)
      then show ?thesis using kept[OF j] by blast
    qed
    show "distinct (map credit_hash (live_credits i c' cr))"
      by (rule live_credits_shrink[OF credits_okD(7)[OF ok c(1)]]) (metis cred not_Some_eq)
    fix jobID job' assume j: "map_of (m_ActiveJobs c') jobID = Some job'"
    show "job_number jobID 0 ?n'"
      using kept[OF j] credits_okD(6)[OF ok c(1)] job_number_mono[of jobID] n by (meson le_refl le0)
    fix key h assume k: "(i, jobID, key, h) \<in> set cr"
    show "{key, h} \<subseteq> set (j_Submitted job')" using cred[OF k j] credits_okD(4)[OF ok k c(1)] by blast }
  fix i jobID key h assume k: "(i, jobID, key, h) \<in> set cr"
  show "miner sv' i \<noteq> None" using rel[of i] credits_okD(2)[OF ok k] by (auto simp: option.rel_sel)
  show "job_number jobID 0 ?n'" using job_number_mono[OF credits_okD(3)[OF ok k] le_refl n] .
qed

lemma credits_add:
  assumes ok: "credits_ok sv cr" and "miner sv i = Some c" "map_of (m_ActiveJobs c) jobID = Some job" "{key, h} \<subseteq> set (j_Submitted job)"
    "\<And>h2. (i, jobID, key, h2) \<notin> set cr" "\<And>x. x \<in> set (live_credits i c cr) \<Longrightarrow> credit_hash x \<noteq> h"
  shows "credits_ok sv ((i, jobID, key, h) # cr)"
  unfolding credits_ok_def
proof (intro conjI allI impI)
  show "distinct (map credit_key ((i, jobID, key, h) # cr))" using credits_okD(1)[OF ok] assms(5) by auto
  { fix i' c' assume c': "miner sv i' = Some c'"
    show "gm_wf (m_ActiveJobs c')" by (rule credits_okD(5)[OF ok c'])
    show "\<And>jobID job. map_of (m_ActiveJobs c') jobID = Some job \<Longrightarrow> job_number jobID 0 (unat (sv_jobCounter sv))"
      by (rule credits_okD(6)[OF ok c'])
    show "distinct (map credit_hash (live_credits i' c' ((i, jobID, key, h) # cr)))"
    proof (cases "i' = i")
      case True
      then have "c' = c" using assms(2) c' by simp
      then have "live_credits i' c' ((i, jobID, key, h) # cr) = (i, jobID, key, h) # live_credits i c cr"
        using True assms(3) by (simp add: live_credits_def domI)
      then show ?thesis using credits_okD(7)[OF ok assms(2)] assms(6) by force
    next
      case False
      then have "live_credits i' c' ((i, jobID, key, h) # cr) = live_credits i' c' cr" by (simp add: live_credits_def)
      then show ?thesis using credits_okD(7)[OF ok c'] by simp
    qed }
  { fix i' j' k' h' assume x: "(i', j', k', h') \<in> set ((i, jobID, key, h) # cr)"
    show "miner sv i' \<noteq> None" "job_number j' 0 (unat (sv_jobCounter sv))"
      using x credits_okD(2,3)[OF ok] credits_okD(6)[OF ok assms(2,3)] assms(2) by (auto dest: credits_okD(2)[OF ok])
    fix c' job' assume "miner sv i' = Some c'" "map_of (m_ActiveJobs c') j' = Some job'"
    then show "{k', h'} \<subseteq> set (j_Submitted job')"
      using x credits_okD(4)[OF ok, of i' j' k' h' c' job'] assms(2-4) by (auto simp del: map_of_eq_Some_iff Some_eq_map_of_iff) }
qed

lemma credits_connect:
  assumes "credits_ok sv cr" "miner sv i = None" shows "credits_ok (register_miner (NewMiner i rnd host now) sv) cr"
proof -
  have "(i, jobID, key, h) \<notin> set cr" for jobID key h using assms unfolding credits_ok_def by blast
  then have "live_credits i c cr = []" for c unfolding live_credits_def by (auto simp: filter_empty_conv)
  then show ?thesis
    using assms by (auto simp: credits_ok_def register_miner_def NewMiner_def simp del: map_of_eq_Some_iff Some_eq_map_of_iff)
qed

lemma counts_connect:
  assumes "credits_ok sv cr" "counts_ok sv cr" "miner sv i = None" shows "counts_ok (register_miner (NewMiner i rnd host now) sv) cr"
proof -
  have "(i, jobID, key, h) \<notin> set cr" for jobID key h using assms(1,3) unfolding credits_ok_def by blast
  then have "filter (\<lambda>x. fst x = i) cr = []" by (auto simp: filter_empty_conv)
  then show ?thesis using assms(2) by (auto simp: counts_ok_def accepted_def register_miner_def NewMiner_def)
qed

text \<open>A credited submission was not a repeated one, and its hash is recorded with its job.\<close>

lemma judge_credits:
  assumes "judge_share E force now i rid jobID job s sv = (sv', ts)" "accepted sv' \<noteq> accepted sv" "s_Hash s = Some h"
    "miner sv i = Some c"
  shows "served (mark_submitted i jobID (e_HashString E h) sv) sv'"
    and "map_of (m_ActiveJobs c) j = Some job' \<Longrightarrow> e_HashString E h \<notin> set (j_Submitted job')"
proof -
  let ?m = "mark_submitted i jobID (e_HashString E h) sv"
  have n: "\<not> list_ex (\<lambda>j. e_HashString E h \<in> set (j_Submitted j)) (map snd (m_ActiveJobs c))"
    using assms by (auto simp: judge_share_def Let_def fun_eq_iff split: if_splits)
  then show "map_of (m_ActiveJobs c) j = Some job' \<Longrightarrow> e_HashString E h \<notin> set (j_Submitted job')"
    using map_of_SomeD[of "m_ActiveJobs c" j job'] by (auto simp: list_ex_iff)
  have sv': "sv' = fst (judge_share E force now i rid jobID job s sv)" using assms(1) by simp
  show "served ?m sv'"
    unfolding sv' judge_share_def Let_def case_prod_beta using n assms(3,4)
    by (simp split: sum.split option.split) (intro impI conjI allI served_send served_credit served_upd_keep served_refl; simp)
qed

lemma marked_active:
  assumes "miner sv i = Some c" "map_of (m_ActiveJobs c) jobID = Some job"
  obtains c1 where "miner (mark_submitted i jobID key sv) i = Some c1" "dom (map_of (m_ActiveJobs c1)) = dom (map_of (m_ActiveJobs c))"
    "map_of (m_ActiveJobs c1) jobID = Some (job\<lparr>j_Submitted := j_Submitted job @ [key]\<rparr>)"
proof -
  let ?c = "c\<lparr>m_ActiveJobs := gm_set jobID (job\<lparr>j_Submitted := j_Submitted job @ [key]\<rparr>) (m_ActiveJobs c)\<rparr>"
  have "miner (mark_submitted i jobID key sv) i = Some ?c" using assms by (simp add: mark_submitted_def)
  then show thesis using that[of ?c] assms(2) by (simp add: domI insert_absorb)
qed

lemma credits_submit:
  assumes ok: "credits_ok sv cr" "counts_ok sv cr" and h: "handleSubmit E force now i rid params sv = Some (sv', ts)"
  shows "credits_ok sv' (credit_of E now i params sv sv' @ cr) \<and> counts_ok sv' (credit_of E now i params sv sv' @ cr)"
proof (cases "accepted sv' = accepted sv")
  case True
  then show ?thesis using credits_kept[OF ok(1) served_handleSubmit[OF h]] ok(2) by (simp add: credit_of_def counts_ok_def)
next
  case False
  show ?thesis using h
  proof (cases rule: submit_cases)
    case 1
    then show ?thesis using False by blast
  next
    case (2 c jobID key job s hs)
    let ?m = "mark_submitted i jobID key sv" and ?h = "e_HashString E hs"
    let ?m1 = "mark_submitted i jobID ?h ?m"
    have am: "accepted ?m = accepted sv" by (simp add: fun_eq_iff)
    have acc: "accepted sv' = (accepted sv)(i := map_option (\<lambda>n. n + 1) (accepted sv i))"
      using judge_accepted(1)[OF 2(5)] False unfolding am by blast
    have ne: "accepted sv' \<noteq> accepted ?m" using False am by simp
    have cr: "credit_of E now i params sv sv' = [(i, jobID, key, ?h)]"
      using 2(1,2,7) by (simp add: credit_of_def acc) (simp add: accepted_def)
    have new: "(i, jobID, key, h2) \<notin> set cr" for h2 using credits_okD(4)[OF ok(1) _ 2(1,3)] 2(4) by blast
    obtain c1 where c1: "miner ?m i = Some c1" "map_of (m_ActiveJobs c1) jobID = Some (job\<lparr>j_Submitted := j_Submitted job @ [key]\<rparr>)"
      using marked_active[OF 2(1,3)] by metis
    obtain c2 where c2: "miner ?m1 i = Some c2" "dom (map_of (m_ActiveJobs c2)) = dom (map_of (m_ActiveJobs c1))"
      "map_of (m_ActiveJobs c2) jobID = Some (job\<lparr>j_Submitted := j_Submitted job @ [key, ?h]\<rparr>)"
      using marked_active[OF c1, of ?h] by auto
    note jc = judge_credits[OF 2(5) ne 2(6) c1(1)]
    have okm: "credits_ok ?m cr" "credits_ok ?m1 cr"
      by (rule credits_kept[OF ok(1)], intro served_mark served_refl)+
    have fresh: "credit_hash x \<noteq> ?h" if x: "x \<in> set (live_credits i c2 cr)" for x
    proof -
      obtain j k h2 job' where j: "x = (i, j, k, h2)" "x \<in> set cr" "map_of (m_ActiveJobs c1) j = Some job'"
        using x c2(2) by (auto simp: live_credits_def)
      then have "h2 \<in> set (j_Submitted job')" using credits_okD(4)[OF okm(1), of i j k h2 c1 job'] c1(1) by simp
      then show ?thesis using jc(2)[OF j(3)] j(1) by auto
    qed
    have "credits_ok ?m1 ((i, jobID, key, ?h) # cr)"
      using credits_add[OF okm(2) c2(1,3) _ new fresh] by simp
    then have "credits_ok sv' ((i, jobID, key, ?h) # cr)" by (rule credits_kept[OF _ jc(1)])
    moreover have "counts_ok sv' ((i, jobID, key, ?h) # cr)" using ok(2) by (auto simp: counts_ok_def acc)
    ultimately show ?thesis by (simp add: cr)
  qed
qed

text \<open>The contract of a step that credits nobody, and what it keeps of the credits.\<close>

locale quiet_step =
  fixes guard :: "StratumServer \<Rightarrow> bool" and step :: "StratumServer \<Rightarrow> StratumServer"
  assumes step_served: "guard sv \<Longrightarrow> served sv (step sv)"
    and step_accepted: "guard sv \<Longrightarrow> accepted (step sv) k = accepted sv k"
begin

lemma keeps_credits:
  "guard sv \<Longrightarrow> credits_ok sv cr \<and> counts_ok sv cr \<Longrightarrow> credits_ok (step sv) cr \<and> counts_ok (step sv) cr"
  using credits_kept[OF _ step_served] step_accepted by (auto simp: counts_ok_def)

end

interpretation activity: quiet_step "\<lambda>sv. True" "upd_miner i (\<lambda>c. c\<lparr>m_LastActivity := now\<rparr>)" for i now
  by unfold_locales (simp_all add: served_upd_keep)

interpretation subscription: quiet_step "\<lambda>sv. True" "handleSubscribe i rid" for i rid
  by unfold_locales (simp_all add: served_handleSubscribe)

interpretation authorisation: quiet_step "\<lambda>sv. True" "\<lambda>sv. fst (handleAuthorize E pf now i rid params sv)" for E pf now i rid params
  by unfold_locales (simp_all add: served_handleAuthorize)

interpretation departure: quiet_step "\<lambda>sv. True" "dropClient now i" for now i
  by unfold_locales (simp_all add: served_dropClient)

interpretation retarget: quiet_step "\<lambda>sv. True" "\<lambda>sv. fst (snd (vardiff_tick E now i mx sv))" for E now i mx
  by unfold_locales (simp_all add: served_vardiff_tick)

interpretation sent_job: quiet_step "\<lambda>sv. sv_jobCounter sv + 1 \<noteq> 0" "\<lambda>sv. fst (sendMiningJob E now ok ord i t clean sv)" for E now ok ord i t clean
  by unfold_locales (simp_all add: served_sendMiningJob)

interpretation new_template: quiet_step "\<lambda>sv. sv_jobCounter sv + 1 \<noteq> 0 \<and> jobBroadcaster E t sv \<noteq> None"
    "\<lambda>sv. fst (the (jobBroadcaster E t sv))" for E t
  using served_jobBroadcaster accepted_ops(4) by unfold_locales fastforce+

interpretation other_work: quiet_step "\<lambda>sv. True" "\<lambda>sv. sv\<lparr>sv_wm := wm\<rparr>" for wm
  by unfold_locales (simp_all add: served_same accepted_def)

lemmas quiet_steps = activity.keeps_credits subscription.keeps_credits authorisation.keeps_credits departure.keeps_credits
  retarget.keeps_credits other_work.keeps_credits

lemma run_credits: assumes "stratum_run E sv cr" shows "credits_ok sv cr \<and> counts_ok sv cr"
  using assms
proof induction
  case (start sv)
  then show ?case by (auto simp: idle_def credits_ok_def counts_ok_def accepted_def live_credits_def simp del: map_of_eq_Some_iff Some_eq_map_of_iff)
next
  case (connect sv cr i rnd host now)
  then show ?case by (simp add: credits_connect counts_connect)
next
  case (job sv cr now ok ord i t clean)
  then show ?case by (intro sent_job.keeps_credits)
next
  case (broadcast sv cr t sv' ts)
  then show ?case using new_template.keeps_credits[of sv E t cr] by simp
next
  case (submit sv cr force now i rid params sv' ts)
  then show ?case using credits_submit by blast
qed (simp_all only: quiet_steps)

text \<open>C28: In every run of the server no submission is credited twice. The credited triples of miner, job and
  (extranonce, time, nonce) are distinct; as long as a miner holds the job of a credit, no other credit of that miner for a
  job it holds has the same share hash, so the same proof of work spelt differently or sent under another job is not
  credited again (once halving has dropped the job, its record is gone with it); and a miner's count of accepted shares
  is the number of its credits. The jobs may be replaced, halved in any way and sent again, and the miner may change its
  difficulty, in any order in between.\<close>

theorem no_double_credit:
  assumes "stratum_run E sv cr"
  shows "distinct (map (\<lambda>(i, jobID, key, h). (i, jobID, key)) cr)
    \<and> (\<forall>i c. miner sv i = Some c \<longrightarrow> m_AcceptedShares c = of_nat (length (filter (\<lambda>x. fst x = i) cr))
         \<and> distinct (map (\<lambda>(i, jobID, key, h). h) (filter (\<lambda>(k, jobID, key, h). k = i \<and> jobID \<in> dom (map_of (m_ActiveJobs c))) cr)))"
  using run_credits[OF assms] by (auto simp: credits_ok_def counts_ok_def accepted_def live_credits_def simp del: map_of_eq_Some_iff Some_eq_map_of_iff)

subsection \<open>What is credited\<close>

definition repeated_hash :: "env \<Rightarrow> Miner \<Rightarrow> Share \<Rightarrow> bool" where
  "repeated_hash E c s = (case s_Hash s of
     Some h \<Rightarrow> list_ex (\<lambda>j. e_HashString E h \<in> set (j_Submitted j)) (map snd (m_ActiveJobs c)) | None \<Rightarrow> False)"

lemma repeated_fold: "(case s_Hash s of Some h \<Rightarrow> list_ex (\<lambda>j. e_HashString E h \<in> set (j_Submitted j))
    (case miner sv i of Some c \<Rightarrow> map snd (m_ActiveJobs c) | None \<Rightarrow> []) | None \<Rightarrow> False)
   = (case miner sv i of Some c \<Rightarrow> repeated_hash E c s | None \<Rightarrow> False)"
  by (simp add: repeated_hash_def split: option.split)

lemma is_stale_frame [simp]:
  "is_stale_job E job (mark_submitted i jobID key sv) = is_stale_job E job sv" "sv_wm (mark_submitted i jobID key sv) = sv_wm sv"
  by (simp_all add: is_stale_job_def mark_submitted_def)

lemma judge_spec:
  assumes "judge_share E force now i rid jobID job s sv = (sv', ts)" "miner sv i = Some c"
  shows "accepted sv' i \<noteq> accepted sv i \<longleftrightarrow> \<not> repeated_hash E c s \<and> (\<exists>s1 p. CalculateHashes E (s\<lparr>s_Target := Some (committed_target E (sv_chain sv) job)\<rparr>) = Inr s1
      \<and> s_POWHash s1 = Some p \<and> big_SetBytes p \<le> DiffToTarget (job_diff E job) \<and> \<not> is_stale_job E job sv)"
    and "AddShare x \<in> set ts \<Longrightarrow> accepted sv' i \<noteq> accepted sv i \<and> fst (IsValid E x)
      \<and> CalculateHashes E (s\<lparr>s_Target := Some (committed_target E (sv_chain sv) job)\<rparr>) = Inr x"
proof -
  have ne: "map_option (\<lambda>n. n + 1) (accepted sv i) \<noteq> accepted sv i" using assms(2) by (simp add: accepted_def)
  show "accepted sv' i \<noteq> accepted sv i \<longleftrightarrow> \<not> repeated_hash E c s \<and> (\<exists>s1 p. CalculateHashes E (s\<lparr>s_Target := Some (committed_target E (sv_chain sv) job)\<rparr>) = Inr s1
      \<and> s_POWHash s1 = Some p \<and> big_SetBytes p \<le> DiffToTarget (job_diff E job) \<and> \<not> is_stale_job E job sv)"
    using assms ne unfolding judge_share_def Let_def repeated_fold case_prod_beta
    by (auto simp: credit_accepted split: if_splits sum.splits option.splits)
  show "AddShare x \<in> set ts \<Longrightarrow> accepted sv' i \<noteq> accepted sv i \<and> fst (IsValid E x)
      \<and> CalculateHashes E (s\<lparr>s_Target := Some (committed_target E (sv_chain sv) job)\<rparr>) = Inr x"
    using assms ne unfolding judge_share_def Let_def repeated_fold case_prod_beta
    by (auto simp: credit_accepted split: if_splits sum.splits option.splits) (auto simp: credit_share_def Let_def split: if_splits)
qed

text \<open>C29: A submission to an active job is credited exactly when its key is new, its time is within the range, a share can be
  built from it whose hash none of the miner's jobs has seen, the proof of work meets the difficulty of the job, and the job builds
  on the block of the newest template. A share the server hands to the share chain was credited, is valid, and carries the target the
  job committed to.\<close>

theorem submit_credit:
  assumes "handleSubmit E force now i rid params sv = Some (sv', ts)" "miner sv i = Some c"
    and "string_params params = Some (user # jobID # en2 # nTime # nonceHex # rest)" "map_of (m_ActiveJobs c) jobID = Some job"
    and "key = en2 @ '':'' @ nTime @ '':'' @ nonceHex" "miner (mark_submitted i jobID key sv) i = Some c1"
  shows "(accepted sv' i \<noteq> accepted sv i \<longleftrightarrow> key \<notin> set (j_Submitted job) \<and> ntime_ok now (j_BlockTemplate job) nTime
      \<and> (\<exists>s s1 p. submitted_share E now job (m_WorkerName c) en2 nTime nonceHex (sv_chain sv) = Inr s \<and> \<not> repeated_hash E c1 s
          \<and> CalculateHashes E (s\<lparr>s_Target := Some (committed_target E (sv_chain sv) job)\<rparr>) = Inr s1
          \<and> s_POWHash s1 = Some p \<and> big_SetBytes p \<le> DiffToTarget (job_diff E job) \<and> \<not> is_stale_job E job sv))
    \<and> (\<forall>x. AddShare x \<in> set ts \<longrightarrow> accepted sv' i \<noteq> accepted sv i \<and> fst (IsValid E x) \<and> s_Target x = Some (committed_target E (sv_chain sv) job))"
proof -
  let ?m = "mark_submitted i jobID key sv"
  have h: "(if key \<in> set (j_Submitted job) then Some (reject i rid 22 ''Duplicate share'' sv, [])
      else if \<not> ntime_ok now (j_BlockTemplate job) nTime then Some (reject i rid 20 ''ntime out of range'' ?m, [])
      else (case submitted_share E now job (m_WorkerName c) en2 nTime nonceHex (sv_chain sv) of
              Inl CreatePanic \<Rightarrow> None | Inl e \<Rightarrow> Some (send i (ReplyError rid 26 ''Internal error'') ?m, [])
            | Inr s \<Rightarrow> Some (judge_share E force now i rid jobID job s ?m))) = Some (sv', ts)"
    using assms(1-4) unfolding handleSubmit_def Let_def assms(5) by simp
  have tgt: "s_Target x = tg" if "CalculateHashes E (s\<lparr>s_Target := tg\<rparr>) = Inr x" for x s tg
    by (subst CalculateHashes_frame(1)[OF that]) simp
  note j = judge_spec[OF _ assms(6), of E force now rid jobID job _ sv' ts]
  show ?thesis
  proof (intro conjI allI impI)
    show "accepted sv' i \<noteq> accepted sv i \<longleftrightarrow> key \<notin> set (j_Submitted job) \<and> ntime_ok now (j_BlockTemplate job) nTime
      \<and> (\<exists>s s1 p. submitted_share E now job (m_WorkerName c) en2 nTime nonceHex (sv_chain sv) = Inr s \<and> \<not> repeated_hash E c1 s
          \<and> CalculateHashes E (s\<lparr>s_Target := Some (committed_target E (sv_chain sv) job)\<rparr>) = Inr s1
          \<and> s_POWHash s1 = Some p \<and> big_SetBytes p \<le> DiffToTarget (job_diff E job) \<and> \<not> is_stale_job E job sv)"
      using h j(1) by (auto split: if_splits sum.splits create_error.splits)
    fix x assume x: "AddShare x \<in> set ts"
    then obtain s where "judge_share E force now i rid jobID job s ?m = (sv', ts)"
      using h by (auto split: if_splits sum.splits create_error.splits)
    note d = j(2)[OF this x]
    show "accepted sv' i \<noteq> accepted sv i" "fst (IsValid E x)" "s_Target x = Some (committed_target E (sv_chain sv) job)"
      using d by (auto intro: tgt)
  qed
qed


subsection \<open>Difficulties\<close>

lemma min_diff_pos: "0 < min_diff E"
proof -
  have "0 < f64 (1 / 100)" by code_simp
  then show ?thesis by (simp add: min_diff_def)
qed

lemma pool_diff_ge: "1 / 2 \<le> GetPoolShareDifficulty E sc"
  using expected_difficulty_ge[of E sc "sc_TipHash sc"] by (simp add: GetPoolShareDifficulty_def GetExpectedShareDifficulty_def)

text \<open>The first difficulty a miner is given never exceeds ten or the difficulty of the pool, whatever hint the miner
  sends and whatever the cache and the share chain say, and is at least the configured minimum unless the pool's difficulty
  is lower.\<close>

theorem initial_difficulty_bounds:
  "initialDifficultyForClient E now c worker hint sv \<le> min 10 (GetPoolShareDifficulty E (sv_chain sv))
   \<and> min (min_diff E) (min 10 (GetPoolShareDifficulty E (sv_chain sv))) \<le> initialDifficultyForClient E now c worker hint sv
   \<and> 0 < initialDifficultyForClient E now c worker hint sv"
  using pool_diff_ge[of E "sv_chain sv"] min_diff_pos[of E]
  by (auto simp: initialDifficultyForClient_def cap_diff_def Let_def min_def)

text \<open>The bound of the retarget loop after a sequence of ticks, each in its own state of the server.\<close>

fun vardiff_bound :: "env \<Rightarrow> u64 \<Rightarrow> rat \<Rightarrow> (time \<times> StratumServer) list \<Rightarrow> rat" where
  "vardiff_bound E i mx [] = mx"
| "vardiff_bound E i mx ((now, sv) # r) = vardiff_bound E i (fst (vardiff_tick E now i mx sv)) r"

lemma vardiff_tick_bound: "fst (vardiff_tick E now i mx sv) = (if is_active sv i then cap_diff (GetPoolShareDifficulty E (sv_chain sv)) mx else mx)"
  by (auto simp: vardiff_tick_def is_active_def Let_def case_prod_beta split: option.split)

lemma vardiff_bound_le: "vardiff_bound E i mx ticks \<le> mx"
  by (induction E i mx ticks rule: vardiff_bound.induct) (auto simp: vardiff_tick_bound cap_diff_def split: if_splits)

lemma vardiff_sends:
  assumes "vardiff_tick E now i mx sv = (mx', sv', ts)"
  shows "sv_sent sv' = sv_sent sv \<or> (\<exists>d. sv_sent sv' = sv_sent sv @ [(i, SetDifficulty d)] \<and> d \<le> mx' \<and> min (min_diff E) mx' \<le> d)"
proof -
  have u: "sv_sent (upd_miner k f s) = sv_sent s" "sv_sent (rememberClientDiff n c w d s) = sv_sent s" for k f s n c w d
    by (simp_all add: upd_miner_def rememberClientDiff_def Let_def split: option.split)
  have sd: "sv_sent (sendDifficulty now i d s) = sv_sent s \<or> sv_sent (sendDifficulty now i d s) = sv_sent s @ [(i, SetDifficulty d)]" for d s
    by (auto simp: sendDifficulty_def send_def Let_def u split: option.split)
  show ?thesis
  proof (cases "sv' = sv")
    case False
    then obtain c where c: "miner sv i = Some c" "\<not> (m_closed c \<or> \<not> m_Authorized c)"
      using assms by (auto simp: vardiff_tick_def split: option.splits if_splits)
    obtain datums sp rm where g: "GetDatumsInLast now (retargetSecs E) (m_LocalRateMonitor c) = (datums, sp, rm)" by (metis prod.exhaust)
    obtain new0 f where n: "sv' = upd_miner i f sv \<or> sv' = sendDifficulty now i (clamp_diff E mx' new0) (upd_miner i f sv)"
      using assms c(2) by (auto simp: vardiff_tick_def Let_def c(1) g split: if_splits)
    have "clamp_diff E mx' new0 \<le> mx'" "min (min_diff E) mx' \<le> clamp_diff E mx' new0" by (auto simp: clamp_diff_def min_def Let_def)
    then show ?thesis using n sd[of "clamp_diff E mx' new0" "upd_miner i f sv"] u by metis
  qed simp
qed

text \<open>C31: The bound of the retarget loop only falls: after a tick at which the pool's difficulty was \<open>p\<close>, no difficulty the loop
  sets exceeds \<open>p\<close>, however far the pool's difficulty has risen since.\<close>

theorem vardiff_ratchet:
  assumes "(now0, sv0) \<in> set ticks" "is_active sv0 i" "vardiff_tick E now i (vardiff_bound E i 10 ticks) sv = (mx', sv', ts)"
    and "sv_sent sv' = sv_sent sv @ [(i, SetDifficulty d)]"
  shows "d \<le> GetPoolShareDifficulty E (sv_chain sv0) \<and> d \<le> 10"
proof -
  have "vardiff_bound E i mx ticks \<le> GetPoolShareDifficulty E (sv_chain sv0)" if "(now0, sv0) \<in> set ticks" "is_active sv0 i" for mx
    using that
  proof (induction E i mx ticks rule: vardiff_bound.induct)
    case (2 E i mx t s r)
    show ?case
    proof (cases "(now0, sv0) \<in> set r")
      case True
      then show ?thesis using 2 by simp
    next
      case False
      then have "t = now0" "s = sv0" using 2(2) by auto
      then have "fst (vardiff_tick E t i mx s) \<le> GetPoolShareDifficulty E (sv_chain sv0)"
        using 2(3) pool_diff_ge[of E "sv_chain sv0"] by (auto simp: vardiff_tick_bound cap_diff_def)
      then show ?thesis using vardiff_bound_le[of E i _ r] order_trans by (metis vardiff_bound.simps(2))
    qed
  qed simp
  moreover have "mx' \<le> vardiff_bound E i 10 ticks" using vardiff_tick_bound[of E now i "vardiff_bound E i 10 ticks" sv] assms(3)
    by (auto simp: cap_diff_def split: if_splits)
  moreover have "d \<le> mx'" using vardiff_sends[OF assms(3)] assms(4) by auto
  ultimately show ?thesis using assms(1,2) vardiff_bound_le[of E i 10 ticks] by (meson order_trans)
qed

lemma job_difficulty_bounds: "0 < job_difficulty E cur sc" "job_difficulty E cur sc \<le> GetPoolShareDifficulty E sc"
  using pool_diff_ge[of E sc] min_diff_pos[of E] by (auto simp: job_difficulty_def Let_def)

text \<open>C30: A job asks the miner for no more than the share chain asks of its shares: a proof of work good enough for the chain is
  always credited. A share with the target of its job that meets it is not rejected for its difficulty where the job was built.\<close>

theorem job_within_pool:
  assumes "job = miner_job E n t master c sc cbs"
    and "s_Target s = Some (committed_target E sc' job)" "0 < share_pow s" "share_pow s \<le> committed_target E sc' job"
    and "j_PoolShareDiff job \<le> 2 ^ 100"
  shows "share_pow s \<le> DiffToTarget (job_diff E job) \<and> \<not> difficulty_rejects E sc s (j_TipHash job)"
proof -
  let ?d = "GetExpectedShareDifficulty E sc (GetTipHash sc)"
  have pd: "?d = GetPoolShareDifficulty E sc" by (simp add: GetPoolShareDifficulty_def GetExpectedShareDifficulty_def GetTipHash_def)
  have f: "committed_target E sc' job = DiffToTarget ?d" "j_PoolShareDiff job = ?d" "j_TipHash job = GetTipHash sc"
    "job_diff E job = job_difficulty E (m_CurrentDifficulty c) sc"
    using job_difficulty_bounds[of E "m_CurrentDifficulty c" sc] by (simp_all add: assms(1) miner_job_def committed_target_def job_diff_def)
  have "DiffToTarget ?d \<le> DiffToTarget (job_diff E job)"
    using DiffToTarget_antimono[OF job_difficulty_bounds] by (simp add: f pd)
  then show ?thesis using assms(4) honest_difficulty[of s E sc "GetTipHash sc"] assms(2,3,5) f by simp
qed

subsection \<open>Examples\<close>

definition solo_env :: env where
  "solo_env = lone_env\<lparr>e_DeserializeNoWitness := \<lambda>b. Some lone_coinbase, e_Serialize := \<lambda>t. Some [9]\<rparr>"

definition solo_job :: Job where
  "solo_job = \<lparr>j_ShareTarget = Some (DiffToTarget (1 / 2)), j_PoolShareDiff = 1 / 2, j_ID = ''1'', j_BlockTemplate = demo_tmpl 1250000000,
     j_ExtraNonce1 = '''', j_Difficulty = 1 / 2, j_Coinb1 = ''00'', j_Coinb2 = ''00'', j_WitnessCommitment = [], j_WTXIDMerkleRoot = None,
     j_TXIDMerkleLink = [], j_CoinbaseMerkleLink = [], j_TipHash = None, j_Submitted = []\<rparr>"

definition solo_miner :: Miner where
  "solo_miner = (NewMiner 1 [1, 2, 3, 4] '''' 0)\<lparr>m_WorkerName := demo_addr, m_Authorized := True, m_ActiveJobs := [(''1'', solo_job)]\<rparr>"

definition solo_server :: StratumServer where
  "solo_server = \<lparr>sv_wm = NewWorkManager solo_env demo_authed lone_chain NoBlocksFile True, sv_miners = [(1, solo_miner)], sv_clients = [1],
     sv_lastJob = None, sv_latestPrev = None, sv_diffCache = [], sv_jobCounter = 1, sv_lastVerifiedHeight = 0, sv_sent = []\<rparr>"

abbreviation solo_params :: "json option" where
  "solo_params \<equiv> Some (JArr [JStr demo_addr, JStr ''1'', JStr '''', JStr ''6b49d200'', JStr ''00000007''])"

lemma solo_created: "\<exists>s. submitted_share solo_env (seconds 1800000000) solo_job demo_addr '''' ''6b49d200'' ''00000007'' lone_chain = Inr s"
proof -
  have b: "prebuilt_coinbase solo_env solo_job '''' = [9]"
    by (simp add: prebuilt_coinbase_def solo_job_def RebuildCoinbaseFromStratumParts_def solo_env_def Let_def hex_value_def split: list.split)
  have p: "payout_pkh solo_env demo_addr = Inr (0x47, replicate 20 3)"
    using demo_addr_plain(2) lone_frames(1) by (simp add: payout_pkh_def solo_env_def Let_def)
  have t: "check_job_time solo_env (seconds 1800000000) (Some (demo_tmpl 1250000000)) (Some lone_chain) 1800000000 = None"
    by (simp add: check_job_time_def demo_tmpl_def Unix_def MaxShareTimeFutureSecs_def lone_chain_def GetTipHash_def)
  have "\<exists>s. CalculateHashes solo_env (new_share solo_env (demo_tmpl 1250000000) lone_chain 1800000000 7 (0x47, replicate 20 3)
      (be_Uint32 [0x1b, 0, 0xff, 0xff]) [9] None [] []) = Inr s"
    by (simp add: CalculateHashes_def CalculateHash_def CalculatePOWHash_def FullBlockHeader_def new_share_def solo_env_def lone_env_def demo_env_def
        demo_tmpl_def)
  then have "\<exists>s. CreateShare solo_env (seconds 1800000000) (Some (demo_tmpl 1250000000)) '''' '''' ''6b49d200'' ''00000007''
     demo_addr (Some lone_chain) [] None [] [] [9] = Inr s"
    using p t by (auto simp: CreateShare_def lone_hex tmpl_fields simp del: hex_DecodeString.simps)
  then show ?thesis using b by (auto simp: submitted_share_def solo_job_def)
qed

text \<open>The target does not enter the hashes: hashing a share again with another target changes nothing.\<close>

lemma rehash:
  assumes "CalculateHashes E s0 = Inr s" shows "CalculateHashes E (s\<lparr>s_Target := t\<rparr>) = Inr (s\<lparr>s_Target := t\<rparr>)"
  using assms by (rule hashes_cases) (simp add: CalculateHashes_def CalculateHash_def CalculatePOWHash_def rehash_frame)

abbreviation solo_key :: string where "solo_key \<equiv> '''' @ '':'' @ ''6b49d200'' @ '':'' @ ''00000007''"

abbreviation solo_marked :: Miner where
  "solo_marked \<equiv> solo_miner\<lparr>m_ActiveJobs := [(''1'', solo_job\<lparr>j_Submitted := [solo_key]\<rparr>)]\<rparr>"

lemma solo_fields:
  "miner solo_server 1 = Some solo_miner" "sv_chain solo_server = lone_chain" "map_of (m_ActiveJobs solo_miner) ''1'' = Some solo_job"
  "string_params solo_params = Some [demo_addr, ''1'', '''', ''6b49d200'', ''00000007'']" "m_WorkerName solo_miner = demo_addr"
  "sv_latestPrev solo_server = None" "j_Submitted solo_job = []" "j_ShareTarget solo_job = Some (DiffToTarget (1 / 2))" "j_Difficulty solo_job = 1 / 2"
  by (simp_all add: solo_server_def solo_miner_def solo_job_def NewWorkManager_def LoadBlocks_def string_params_def dec_list_def dec_string_def)

lemma solo_mark: "miner (mark_submitted 1 ''1'' solo_key solo_server) 1 = Some solo_marked"
  by (simp add: mark_submitted_def solo_fields) (simp add: solo_miner_def gm_set_def solo_job_def)

lemma solo_time: "ntime_ok (seconds 1800000000) (j_BlockTemplate solo_job) ''6b49d200''"
  by (simp add: ntime_ok_def solo_job_def demo_tmpl_def parse_hex32_def hex_value_def MaxShareTimeFuture_def Unix_def)

lemma solo_share:
  obtains s where "submitted_share solo_env (seconds 1800000000) solo_job demo_addr '''' ''6b49d200'' ''00000007'' lone_chain = Inr s"
    "CalculateHashes solo_env (s\<lparr>s_Target := t\<rparr>) = Inr (s\<lparr>s_Target := t\<rparr>)" "s_POWHash s = Some (replicate 32 0)"
    "\<not> repeated_hash solo_env solo_marked s"
proof -
  obtain s where s: "submitted_share solo_env (seconds 1800000000) solo_job demo_addr '''' ''6b49d200'' ''00000007'' lone_chain = Inr s"
    using solo_created by blast
  obtain s0 where s0: "CalculateHashes solo_env s0 = Inr s"
    using s by (auto simp: submitted_share_def solo_job_def CreateShare_def split: option.splits sum.splits if_splits)
  from s0 obtain hd b p where hd: "e_Verthash solo_env b = Some p"
    "s = s0\<lparr>s_Hash := Some (e_BlockHash solo_env hd), s_POWHash := NewHash (ReverseBytes p)\<rparr>" by (rule hashes_cases)
  have "p = replicate 32 0" using hd(1) by (simp add: solo_env_def lone_env_def demo_env_def)
  moreover have "NewHash (ReverseBytes (replicate 32 0)) = Some (replicate 32 0)" by code_simp
  ultimately have pw: "s_POWHash s = Some (replicate 32 0)" by (simp add: hd(2))
  have len: "length (e_BlockHash solo_env hd) = 32" by (simp add: solo_env_def lone_env_def demo_env_def be32_def)
  have "length (e_HashString solo_env x) = 2 * length x" for x
    by (simp add: solo_env_def lone_env_def demo_env_def hex_EncodeToString_def length_concat comp_def sum_list_triv)
  then have "length (e_HashString solo_env (e_BlockHash solo_env hd)) \<noteq> length solo_key" using len by simp
  then have "e_HashString solo_env (e_BlockHash solo_env hd) \<noteq> solo_key" by metis
  then have "\<not> repeated_hash solo_env solo_marked s" by (simp add: repeated_hash_def hd(2))
  then show thesis using that[OF s rehash[OF s0] pw] by blast
qed

text \<open>An accepted submission.\<close>

lemma solo_handled: "\<exists>sv' ts. handleSubmit solo_env False (seconds 1800000000) 1 JNull solo_params solo_server = Some (sv', ts)"
  using solo_created solo_time by (auto simp: handleSubmit_def solo_fields)

lemma solo_target: "0 \<le> DiffToTarget (1 / 2)"
  "committed_target solo_env lone_chain solo_job = DiffToTarget (1 / 2)" "job_diff solo_env solo_job = 1 / 2"
  "\<not> is_stale_job solo_env solo_job solo_server" "big_SetBytes (replicate 32 0) = 0"
proof -
  have "(0 :: rat) \<le> of_int (DiffToTarget (1 / 2))" using DiffToTarget_close(1,3)[of "1 / 2"] by (simp add: maxTarget_def)
  then show "0 \<le> DiffToTarget (1 / 2)" by simp
  show "big_SetBytes (replicate 32 0) = 0" by code_simp
qed (simp_all add: committed_target_def job_diff_def is_stale_job_def solo_fields)

theorem submit_credit_witness:
  "\<exists>sv' ts. handleSubmit solo_env False (seconds 1800000000) 1 JNull solo_params solo_server = Some (sv', ts)
     \<and> accepted sv' 1 \<noteq> accepted solo_server 1"
proof -
  obtain s where s: "submitted_share solo_env (seconds 1800000000) solo_job demo_addr '''' ''6b49d200'' ''00000007'' lone_chain = Inr s"
    "CalculateHashes solo_env (s\<lparr>s_Target := Some (DiffToTarget (1 / 2))\<rparr>) = Inr (s\<lparr>s_Target := Some (DiffToTarget (1 / 2))\<rparr>)"
    "s_POWHash s = Some (replicate 32 0)" "\<not> repeated_hash solo_env solo_marked s" by (rule solo_share)
  obtain sv' ts where h: "handleSubmit solo_env False (seconds 1800000000) 1 JNull solo_params solo_server = Some (sv', ts)"
    using solo_handled by blast
  have "accepted sv' 1 \<noteq> accepted solo_server 1"
    using submit_credit[OF h solo_fields(1,4,3) refl solo_mark, THEN conjunct1] s solo_time solo_target
    by (simp add: solo_fields)
  then show ?thesis using h by blast
qed

text \<open>The same submission through the parts of the handler.\<close>

lemma solo_credited:
  "\<exists>sv' ts. handleSubmit solo_env False (seconds 1800000000) 1 JNull solo_params solo_server = Some (sv', ts)
     \<and> accepted sv' 1 \<noteq> accepted solo_server 1"
proof -
  obtain s where s: "submitted_share solo_env (seconds 1800000000) solo_job demo_addr '''' ''6b49d200'' ''00000007'' lone_chain = Inr s"
    "CalculateHashes solo_env (s\<lparr>s_Target := Some (DiffToTarget (1 / 2))\<rparr>) = Inr (s\<lparr>s_Target := Some (DiffToTarget (1 / 2))\<rparr>)"
    "s_POWHash s = Some (replicate 32 0)" "\<not> repeated_hash solo_env solo_marked s" by (rule solo_share)
  obtain sv' ts where j: "judge_share solo_env False (seconds 1800000000) 1 JNull ''1'' solo_job s (mark_submitted 1 ''1'' solo_key solo_server) = (sv', ts)"
    by (metis prod.exhaust)
  have h: "handleSubmit solo_env False (seconds 1800000000) 1 JNull solo_params solo_server = Some (sv', ts)"
    using s(1) solo_time j by (simp add: handleSubmit_def solo_fields)
  have "accepted sv' 1 \<noteq> accepted (mark_submitted 1 ''1'' solo_key solo_server) 1"
    using judge_spec(1)[OF j solo_mark] s solo_target by (simp add: solo_fields)
  then show ?thesis using h by simp
qed

definition empty_server :: StratumServer where
  "empty_server = solo_server\<lparr>sv_miners := [], sv_clients := []\<rparr>"

lemma solo_idle: "idle solo_server"
proof -
  have "job_number ''1'' 0 (unat (sv_jobCounter solo_server))"
    unfolding job_number_def by (rule exI[of _ 1]) (simp add: solo_server_def dec_digits.simps[of "Suc 0"] hex_digit_def)
  then show ?thesis by (auto simp: idle_def solo_server_def solo_miner_def NewMiner_def)
qed

text \<open>A run with a credited submission: the miner's count is one, for the one credit given.\<close>

theorem no_double_credit_witness:
  "\<exists>sv cr c. stratum_run solo_env sv cr \<and> length cr = 1 \<and> miner sv 1 = Some c \<and> m_AcceptedShares c = 1"
proof -
  obtain sv' ts where h: "handleSubmit solo_env False (seconds 1800000000) 1 JNull solo_params solo_server = Some (sv', ts)"
    "accepted sv' 1 \<noteq> accepted solo_server 1" using solo_credited by blast
  let ?cr = "credit_of solo_env (seconds 1800000000) 1 solo_params solo_server sv' @ []"
  have r: "stratum_run solo_env sv' ?cr" by (rule stratum_run.submit[OF stratum_run.start[OF solo_idle] h(1)])
  obtain s where "submitted_share solo_env (seconds 1800000000) solo_job demo_addr '''' ''6b49d200'' ''00000007'' lone_chain = Inr s"
    using solo_created by blast
  then have "length ?cr = 1 \<and> fst (hd ?cr) = 1"
    using h(2) submitted_has_hash by (fastforce simp: credit_of_def submit_key_def submit_hash_def solo_fields)
  then obtain x where x: "?cr = [x]" "fst x = 1" by (cases ?cr) auto
  have "accepted sv' 1 \<noteq> None" using served_handleSubmit[OF h(1)] solo_fields(1)
    by (auto simp: served_def accepted_def option.rel_sel)
  then obtain c where c: "miner sv' 1 = Some c" by (auto simp: accepted_def)
  have "m_AcceptedShares c = 1" using no_double_credit[OF r] c x by auto
  then show ?thesis using r c x(1) by (intro exI[of _ sv'] exI[of _ ?cr] exI[of _ c]) simp
qed

lemma lone_pool: "GetPoolShareDifficulty E lone_chain = 1 / 2" "GetExpectedShareDifficulty E lone_chain None = 1 / 2"
  by (simp_all add: GetPoolShareDifficulty_def GetExpectedShareDifficulty_def getExpectedShareDifficultyLocked_def lone_walk
      TargetLookbehind_def MinPoolShareDiff_def Let_def lone_chain_def[THEN arg_cong, of sc_TipHash])

definition fast_server :: StratumServer where
  "fast_server = solo_server\<lparr>sv_miners := [(1, solo_miner\<lparr>m_CurrentDifficulty := 4\<rparr>)]\<rparr>"

lemma fast_fields: "miner fast_server 1 = Some (solo_miner\<lparr>m_CurrentDifficulty := 4\<rparr>)" "sv_chain fast_server = lone_chain" "is_active fast_server 1"
  "\<not> m_closed solo_miner" "m_Authorized solo_miner" "sv_sent fast_server = []"
  using solo_fields(2) by (simp_all add: fast_server_def is_active_def) (simp_all add: solo_miner_def NewMiner_def solo_server_def)

theorem vardiff_ratchet_witness:
  "\<exists>mx' sv' ts d. vardiff_tick solo_env (seconds 60) 1 (vardiff_bound solo_env 1 10 [(seconds 30, fast_server)]) fast_server = (mx', sv', ts)
     \<and> sv_sent sv' = [(1, SetDifficulty d)] \<and> d \<le> 1 / 2"
proof -
  have b: "vardiff_bound solo_env 1 10 [(seconds 30, fast_server)] = 1 / 2"
    by (simp add: vardiff_tick_bound fast_fields lone_pool cap_diff_def)
  have m: "m_LocalRateMonitor solo_miner = NewRateMonitor (minutes 10)" by (simp add: solo_miner_def NewMiner_def)
  have g: "GetDatumsInLast now dt (NewRateMonitor lb) = ([], seconds 1, NewRateMonitor lb)" for now dt lb
    by (simp add: GetDatumsInLast_def NewRateMonitor_def prune_def Let_def)
  have "fmul 4 (1 / 2) = 2" by code_simp
  then have r: "retarget_diff solo_env 4 [] sp = 2" for sp by (simp add: retarget_diff_def)
  have c: "clamp_diff solo_env (1 / 2) 2 = 1 / 2" by (simp add: clamp_diff_def Let_def)
  have f: "fdiv (1 / 2) 4 < f64 (85 / 100)" by code_simp
  obtain mx' sv' ts where t: "vardiff_tick solo_env (seconds 60) 1 (vardiff_bound solo_env 1 10 [(seconds 30, fast_server)]) fast_server = (mx', sv', ts)"
    by (metis prod.exhaust)
  have "sv_sent sv' = sv_sent fast_server @ [(1, SetDifficulty (1 / 2))]"
    using t[unfolded b] f by (auto simp: vardiff_tick_def fast_fields lone_pool cap_diff_def m g r c Let_def sendDifficulty_def send_def)
      (simp_all add: upd_miner_def rememberClientDiff_def fast_fields Let_def)
  moreover have "1 / 2 \<le> GetPoolShareDifficulty solo_env (sv_chain fast_server) \<and> (1 / 2 :: rat) \<le> 10"
    by (rule vardiff_ratchet[OF _ fast_fields(3) t calculation]) simp
  ultimately show ?thesis using t fast_fields(6) by (metis append_Nil order_refl)
qed

theorem job_within_pool_witness:
  "\<not> difficulty_rejects solo_env lone_chain (demo_link 0\<lparr>s_Target := Some (DiffToTarget (1 / 2))\<rparr>) None"
proof -
  let ?s = "demo_link 0\<lparr>s_Target := Some (DiffToTarget (1 / 2))\<rparr>"
  let ?j = "miner_job solo_env 1 (demo_tmpl 1250000000) solo_job solo_miner lone_chain ('''', '''')"
  have t: "GetTipHash lone_chain = None" by (simp add: lone_chain_def GetTipHash_def)
  have c: "committed_target solo_env lone_chain ?j = DiffToTarget (1 / 2)" "j_PoolShareDiff ?j = 1 / 2" "j_TipHash ?j = None"
    by (simp_all add: committed_target_def miner_job_def t lone_pool)
  have "share_pow ?s = 1" by (simp add: share_pow_def demo_link_def demo_share_def demo_pow)
  moreover have "(1 :: rat) \<le> of_int (DiffToTarget (1 / 2))"
    using DiffToTarget_close(1,3)[of "1 / 2"] by (simp add: maxTarget_def)
  then have "1 \<le> DiffToTarget (1 / 2)" by linarith
  ultimately show ?thesis
    using job_within_pool[OF refl, of ?s solo_env lone_chain 1 "demo_tmpl 1250000000" solo_job solo_miner lone_chain "('''', '''')"] c by simp
qed

text \<open>A template with a transaction whose hash cannot be read stops the program: \<open>jobBroadcaster\<close> ignores the error of
  \<open>CalculateWitnessCommitment\<close> and uses its nil result.\<close>

lemma bad_transaction_panics:
  assumes "template_wtxids E (t_Transactions t) = Inl e" shows "jobBroadcaster E t sv = None"
  using assms by (simp add: jobBroadcaster_def master_job_def CalculateWitnessCommitment_def)

end
