(* ===== verification/Peers.thy ===== *)
theory Peers
  imports LightMode ShareSync
begin

text \<open>
  The peer-to-peer node (\<open>p2p/node.go\<close>, \<open>p2p/download.go\<close>, \<open>p2p/score.go\<close>). Peer identities are their strings.
  A stream handler is a function of what the peer sent (\<open>None\<close> when the message could not be decoded) to the new state
  of the node and its reply; a dialogue with a peer takes what the peer would answer as an argument. libp2p's parsing of
  addresses and Go's \<open>net.ParseIP\<close> are the parameters \<open>netlib\<close>. The callbacks the node is given are
  arguments, and the messages it only passes on have the types \<open>'s\<close> (shares) and \<open>'b\<close> (blocks).
\<close>

subsection \<open>Scores\<close>

record peerScore =
  ps_good :: nat
  ps_bad :: nat
  ps_disconnected :: bool

definition peerScoreMinBad :: nat where "peerScoreMinBad = 5"
definition peerScoreBadRatio :: rat where "peerScoreBadRatio = f64 (2 / 10)"

definition record_score :: "string \<Rightarrow> bool \<Rightarrow> (string, peerScore) gomap \<Rightarrow> bool \<times> (string, peerScore) gomap" where
  "record_score pid bad m =
     (let ps0 = gm_get \<lparr>ps_good = 0, ps_bad = 0, ps_disconnected = False\<rparr> m pid;
          ps = (if bad then ps0\<lparr>ps_bad := ps_bad ps0 + 1\<rparr> else ps0\<lparr>ps_good := ps_good ps0 + 1\<rparr>)
      in if ps_disconnected ps \<or> ps_bad ps < peerScoreMinBad
            \<or> of_nat (ps_bad ps) \<le> fmul peerScoreBadRatio (of_nat (ps_good ps + ps_bad ps))
         then (False, gm_set pid ps m)
         else (True, gm_set pid (ps\<lparr>ps_disconnected := True\<rparr>) m))"

definition forget :: "string \<Rightarrow> (string, peerScore) gomap \<Rightarrow> (string, peerScore) gomap" where
  "forget pid m = gm_del pid m"

subsection \<open>The node\<close>

record netlib =
  l_AddrInfo :: "string \<Rightarrow> string option"
  l_ParseIP :: "string \<Rightarrow> byte list option"
  l_IPString :: "byte list \<Rightarrow> string"

record Node =
  nd_ID :: string
  nd_Peers :: "string list"
  nd_bootstrapPeers :: "string list"
  nd_persistPeers :: bool
  nd_peerFullMode :: "(string, bool) gomap"
  nd_peerVerifiedFull :: "(string, bool) gomap"
  nd_scores :: "(string, peerScore) gomap"
  nd_cacheFile :: "string list option"

text \<open>The flag of the result tells whether the peer is disconnected.\<close>

definition RecordShareOutcome :: "string \<Rightarrow> bool \<Rightarrow> Node \<Rightarrow> bool \<times> Node" where
  "RecordShareOutcome pid bad nd =
     (if pid = '''' \<or> pid \<notin> set (nd_Peers nd) then (False, nd)
      else (let (hit, m) = record_score pid bad (nd_scores nd) in (hit, nd\<lparr>nd_scores := m\<rparr>)))"

text \<open>A connection to the peer ends; the notification of \<open>NewNode\<close> follows when it was the last.\<close>

definition peer_left :: "string \<Rightarrow> string list \<Rightarrow> Node \<Rightarrow> Node" where
  "peer_left pid peers nd =
     (if pid \<in> set peers then nd\<lparr>nd_Peers := peers\<rparr> else nd\<lparr>nd_Peers := peers, nd_scores := forget pid (nd_scores nd)\<rparr>)"

subsection \<open>Listening address\<close>

definition trim_prefix :: "string \<Rightarrow> string \<Rightarrow> string" where
  "trim_prefix p s = (if prefix p s then drop (length p) s else s)"

definition trim_suffix :: "string \<Rightarrow> string \<Rightarrow> string" where
  "trim_suffix p s = (if suffix p s then take (length s - length p) s else s)"

text \<open>\<open>net.IP\<close> values in their 16-byte form.\<close>

definition To4 :: "byte list \<Rightarrow> byte list option" where
  "To4 ip = (if length ip = 16 \<and> take 12 ip = replicate 10 0 @ [0xff, 0xff] then Some (drop 12 ip) else None)"

definition IsLoopback :: "byte list \<Rightarrow> bool" where
  "IsLoopback ip = (case To4 ip of Some a \<Rightarrow> a ! 0 = 127 | None \<Rightarrow> ip = replicate 15 0 @ [1])"

definition IsPrivate :: "byte list \<Rightarrow> bool" where
  "IsPrivate ip = (case To4 ip of
     Some a \<Rightarrow> a ! 0 = 10 \<or> (a ! 0 = 172 \<and> a ! 1 AND 0xf0 = 16) \<or> (a ! 0 = 192 \<and> a ! 1 = 168)
   | None \<Rightarrow> length ip = 16 \<and> ip ! 0 AND 0xfe = 0xfc)"

definition IsLinkLocalUnicast :: "byte list \<Rightarrow> bool" where
  "IsLinkLocalUnicast ip = (case To4 ip of
     Some a \<Rightarrow> a ! 0 = 169 \<and> a ! 1 = 254 | None \<Rightarrow> length ip = 16 \<and> ip ! 0 = 0xfe \<and> ip ! 1 AND 0xc0 = 0x80)"

definition listenMultiaddr :: "netlib \<Rightarrow> string \<Rightarrow> nat \<Rightarrow> (string \<times> byte list) option" where
  "listenMultiaddr L bindAddr0 port =
     (let bindAddr1 = trim_suffix '']'' (trim_prefix ''['' (trim_space bindAddr0));
          bindAddr = (if bindAddr1 = '''' then ''0.0.0.0'' else bindAddr1)
      in case l_ParseIP L bindAddr of
           None \<Rightarrow> None
         | Some ip \<Rightarrow>
             (case To4 ip of
                Some a \<Rightarrow> Some (''/ip4/'' @ l_IPString L ip @ ''/tcp/'' @ dec_digits port, ip)
              | None \<Rightarrow> Some (''/ip6/'' @ l_IPString L ip @ ''/tcp/'' @ dec_digits port, ip)))"

subsection \<open>Known peers\<close>

definition maxCachedPeers :: nat where "maxCachedPeers = 64"

fun replace_peer :: "string \<Rightarrow> string \<Rightarrow> string list \<Rightarrow> (bool \<times> string list) option" where
  "replace_peer sfx addr [] = None"
| "replace_peer sfx addr (e # es) =
     (if suffix sfx e then (if e = addr then Some (False, e # es) else Some (True, addr # es))
      else map_option (\<lambda>(b, r). (b, e # r)) (replace_peer sfx addr es))"

definition addBootstrapPeerLocked :: "netlib \<Rightarrow> string \<Rightarrow> Node \<Rightarrow> bool \<times> Node" where
  "addBootstrapPeerLocked L addr0 nd =
     (let addr = trim_space addr0
      in if addr = '''' then (False, nd)
         else (case l_AddrInfo L addr of
                 None \<Rightarrow> (False, nd)
               | Some pid \<Rightarrow>
                   if pid = nd_ID nd then (False, nd)
                   else (case replace_peer (''/p2p/'' @ pid) addr (nd_bootstrapPeers nd) of
                           Some (b, ps) \<Rightarrow> (b, nd\<lparr>nd_bootstrapPeers := ps\<rparr>)
                         | None \<Rightarrow>
                             (True, nd\<lparr>nd_bootstrapPeers := (if maxCachedPeers \<le> length (nd_bootstrapPeers nd) then tl (nd_bootstrapPeers nd)
                                                             else nd_bootstrapPeers nd) @ [addr]\<rparr>))))"

text \<open>\<open>cached\<close> is what \<open>peers.json\<close> decodes to.\<close>

definition loadPeerCache :: "netlib \<Rightarrow> string list option \<Rightarrow> Node \<Rightarrow> Node" where
  "loadPeerCache L cached nd = (case cached of None \<Rightarrow> nd | Some l \<Rightarrow> foldl (\<lambda>n a. snd (addBootstrapPeerLocked L a n)) nd l)"

text \<open>\<open>ok\<close> tells whether the file can be written and renamed.\<close>

definition rememberPeer :: "netlib \<Rightarrow> bool \<Rightarrow> string \<Rightarrow> Node \<Rightarrow> Node" where
  "rememberPeer L ok addr nd =
     (let (changed, nd1) = addBootstrapPeerLocked L addr nd
      in if \<not> changed \<or> \<not> nd_persistPeers nd then nd1
         else if ok then nd1\<lparr>nd_cacheFile := Some (nd_bootstrapPeers nd1)\<rparr> else nd1)"

definition mergeBootstrapPeers :: "netlib \<Rightarrow> string list \<Rightarrow> Node \<Rightarrow> string list \<times> Node" where
  "mergeBootstrapPeers L incoming nd =
     (let nd1 = (if nd_bootstrapPeers nd = [] then foldl (\<lambda>n a. snd (addBootstrapPeerLocked L a n)) nd incoming else nd)
      in (foldl (\<lambda>out a. if a \<noteq> '''' \<and> a \<notin> set out then out @ [a] else out) [] (incoming @ nd_bootstrapPeers nd1), nd1))"

text \<open>The loop of \<open>Bootstrap\<close>: connected peers are remembered, the others collected for dialling.\<close>

definition bootstrap_one :: "netlib \<Rightarrow> bool \<Rightarrow> Node \<times> (string \<times> string) list \<Rightarrow> string \<Rightarrow> Node \<times> (string \<times> string) list" where
  "bootstrap_one L ok st addr =
     (let (nd, dials) = st
      in if addr = '''' then st
         else (case l_AddrInfo L addr of
                 None \<Rightarrow> st
               | Some pid \<Rightarrow>
                   if pid = nd_ID nd then st
                   else if pid \<in> set (nd_Peers nd) then (rememberPeer L ok addr nd, dials)
                   else if pid \<in> set (map fst dials) then st
                   else (nd, dials @ [(pid, addr)])))"

definition Bootstrap :: "netlib \<Rightarrow> bool \<Rightarrow> bool \<Rightarrow> string list \<Rightarrow> Node \<Rightarrow> Node \<times> (string \<times> string) list" where
  "Bootstrap L ok dhtOk bootstrapPeers nd =
     (let (dialList, nd1) = mergeBootstrapPeers L bootstrapPeers nd
      in if \<not> dhtOk then (nd1, []) else foldl (bootstrap_one L ok) (nd1, []) dialList)"

text \<open>A dial of \<open>Bootstrap\<close> that succeeded.\<close>

definition dialled :: "netlib \<Rightarrow> bool \<Rightarrow> string \<times> string \<Rightarrow> Node \<Rightarrow> Node" where
  "dialled L ok d nd = rememberPeer L ok (snd d) (nd\<lparr>nd_Peers := nd_Peers nd @ [fst d]\<rparr>)"

subsection \<open>Downloading shares\<close>

record ShareReq =
  rq_Hashes :: "string list"
  rq_Parents :: nat
  rq_Stops :: "string list"

definition maxDownloadParents :: nat where "maxDownloadParents = 500"
definition maxStopHashes :: nat where "maxStopHashes = 100"
definition downloadRetryDelay :: time where "downloadRetryDelay = seconds 1"
definition downloadRequeryDelay :: time where "downloadRequeryDelay = seconds 45"

text \<open>\<open>rnd k n\<close> is the \<open>k\<close>-th random number below \<open>n\<close>, \<open>fetch\<close> the number of shares a peer answers with, \<open>None\<close> on an
  error. The result is the wait, the answered hashes and the request made; \<open>None\<close> is the panic of \<open>h[:12]\<close>.\<close>

definition drop_answered :: "time \<Rightarrow> (string, time) gomap \<Rightarrow> (string, time) gomap" where
  "drop_answered now answered = filter (\<lambda>(h, t). \<not> downloadRequeryDelay \<le> now - t) answered"

definition download_step ::
  "time \<Rightarrow> string list \<Rightarrow> string list \<Rightarrow> string list \<Rightarrow> (nat \<Rightarrow> nat \<Rightarrow> nat) \<Rightarrow> (string \<Rightarrow> ShareReq \<Rightarrow> nat option) \<Rightarrow> (string, time) gomap
   \<Rightarrow> (time \<times> (string, time) gomap \<times> (string \<times> ShareReq) option) option" where
  "download_step now missing stops peers rnd fetch answered0 =
     (let answered = drop_answered now answered0;
          want = filter (\<lambda>h. map_of answered h = None) missing
      in if want = [] then Some (downloadRetryDelay, answered, None)
         else if peers = [] then Some (downloadRetryDelay, answered, None)
         else (let h = want ! rnd 0 (length want); pid = peers ! rnd 1 (length peers);
                   req = \<lparr>rq_Hashes = [h], rq_Parents = rnd 2 maxDownloadParents, rq_Stops = take maxStopHashes stops\<rparr>
               in case fetch pid req of
                    None \<Rightarrow> if length h < 12 then None else Some (downloadRetryDelay, answered, Some (pid, req))
                  | Some got \<Rightarrow>
                      if got = 0 then Some (downloadRetryDelay, answered, Some (pid, req))
                      else Some (0, gm_set h now answered, Some (pid, req))))"

text \<open>A share request is answered from the chain; an unreadable or empty one is not.\<close>

definition handleShareReqStream :: "(string list \<Rightarrow> int \<Rightarrow> string list \<Rightarrow> 's) \<Rightarrow> (string list \<times> int \<times> string list) option \<Rightarrow> 's option" where
  "handleShareReqStream getShares req = (case req of
     Some (hashes, parents, stops) \<Rightarrow> if hashes = [] then None else Some (getShares hashes parents stops) | None \<Rightarrow> None)"

text \<open>The shares of a reply go to \<open>OnSyncDataFunc\<close>; \<open>None\<close> is an error.\<close>

definition fetchShares :: "'s list option \<Rightarrow> nat option \<times> 's list option" where
  "fetchShares reply = (case reply of None \<Rightarrow> (None, None) | Some l \<Rightarrow> (Some (length l), if l = [] then None else Some l))"

subsection \<open>Synchronisation\<close>

record ('s, 'b) SyncPayload =
  sp_Shares :: 's
  sp_Blocks :: 'b
  sp_FullNode :: bool
  sp_Pull :: bool

definition setPeerFullMode :: "string \<Rightarrow> bool \<Rightarrow> Node \<Rightarrow> Node" where
  "setPeerFullMode pid full nd = nd\<lparr>nd_peerFullMode := gm_set pid full (nd_peerFullMode nd)\<rparr>"

text \<open>\<open>full\<close> tells whether the node serves templates. The result holds the data for \<open>OnSyncDataFunc\<close> and the reply.\<close>

definition handleSyncStream ::
  "(bool \<Rightarrow> 's \<times> 'b) \<Rightarrow> bool \<Rightarrow> string \<Rightarrow> ('s, 'b) SyncPayload option \<Rightarrow> Node \<Rightarrow> Node \<times> ('s \<times> 'b) option \<times> ('s, 'b) SyncPayload option" where
  "handleSyncStream getSync full pid incoming nd =
     (case incoming of
        None \<Rightarrow> (nd, None, None)
      | Some p \<Rightarrow>
          (let (sh, bl) = getSync (\<not> sp_Pull p)
           in (setPeerFullMode pid (sp_FullNode p) nd, Some (sp_Shares p, sp_Blocks p),
               Some \<lparr>sp_Shares = sh, sp_Blocks = bl, sp_FullNode = full, sp_Pull = False\<rparr>)))"

text \<open>The request for a peer's best share; \<open>has\<close> is \<open>HasShareFunc\<close>.\<close>

definition requestBestShare :: "(string \<Rightarrow> bool) \<Rightarrow> string list \<Rightarrow> string \<Rightarrow> ShareReq option" where
  "requestBestShare has stops h =
     (if h = '''' \<or> has h then None else Some \<lparr>rq_Hashes = [h], rq_Parents = maxDownloadParents, rq_Stops = stops\<rparr>)"

text \<open>A version exchange: what the peer answers to our best share, \<open>None\<close> if it does not speak the protocol.\<close>

definition exchangeVersion :: "(string \<Rightarrow> bool) \<Rightarrow> string list \<Rightarrow> string option \<Rightarrow> bool \<times> ShareReq option" where
  "exchangeVersion has stops answer = (case answer of None \<Rightarrow> (False, None) | Some h \<Rightarrow> (True, requestBestShare has stops h))"

definition handleVersionStream :: "(string \<Rightarrow> bool) \<Rightarrow> string list \<Rightarrow> string \<Rightarrow> string option \<Rightarrow> string option \<times> ShareReq option" where
  "handleVersionStream has stops best incoming =
     (case incoming of None \<Rightarrow> (None, None) | Some h \<Rightarrow> (Some best, requestBestShare has stops h))"

text \<open>\<open>free\<close> tells whether \<open>syncMutex\<close> is free, \<open>answer\<close> and \<open>reply\<close> what the peer says to the version exchange and the sync
  message (\<open>None\<close> for no stream, \<open>Some None\<close> for an unreadable reply). The result: the node, the share request of the version
  exchange, the message sent, and the data for \<open>OnSyncDataFunc\<close>.\<close>

definition SyncWithPeer ::
  "(bool \<Rightarrow> 's \<times> 'b) \<Rightarrow> bool \<Rightarrow> (string \<Rightarrow> bool) \<Rightarrow> string list \<Rightarrow> bool \<Rightarrow> string option \<Rightarrow> (('s, 'b) SyncPayload \<Rightarrow> ('s, 'b) SyncPayload option) option
   \<Rightarrow> string \<Rightarrow> Node \<Rightarrow> Node \<times> ShareReq option \<times> ('s, 'b) SyncPayload option \<times> ('s \<times> 'b) option" where
  "SyncWithPeer getSync full has stops free answer reply pid nd =
     (if pid = nd_ID nd then (nd, None, None, None)
      else (let (pull, req) = exchangeVersion has stops answer
            in if \<not> pull \<and> \<not> free then (nd, req, None, None)
               else (case reply of
                       None \<Rightarrow> (nd, req, None, None)
                     | Some f \<Rightarrow>
                         (let (sh, bl) = getSync (\<not> pull);
                              out = \<lparr>sp_Shares = sh, sp_Blocks = bl, sp_FullNode = full, sp_Pull = pull\<rparr>
                          in case f out of
                               None \<Rightarrow> (nd, req, Some out, None)
                             | Some p \<Rightarrow> (setPeerFullMode pid (sp_FullNode p) nd, req, Some out, Some (sp_Shares p, sp_Blocks p))))))"

text \<open>What a tick of \<open>periodicSyncLoop\<close> starts: a bootstrap, or a sync and an exchange with every peer.\<close>

definition periodic_tick :: "Node \<Rightarrow> string list option \<times> string list" where
  "periodic_tick nd = (if nd_Peers nd = [] \<and> nd_bootstrapPeers nd \<noteq> [] then (Some (nd_bootstrapPeers nd), []) else (None, nd_Peers nd))"

definition ExchangePeers :: "netlib \<Rightarrow> bool \<Rightarrow> bool \<Rightarrow> string list option \<Rightarrow> Node \<Rightarrow> Node \<times> (string \<times> string) list" where
  "ExchangePeers L ok dhtOk addrs nd =
     (case addrs of Some l \<Rightarrow> if l = [] then (nd, []) else Bootstrap L ok dhtOk l nd | None \<Rightarrow> (nd, []))"

text \<open>A connection: its direction, whether the peer serves the DHT, its address and the peer.\<close>

record conn =
  cn_inbound :: bool
  cn_dht :: bool
  cn_addr :: string
  cn_peer :: string

fun str_Index :: "string \<Rightarrow> string \<Rightarrow> nat option" where
  "str_Index [] pat = (if pat = [] then Some 0 else None)"
| "str_Index (x # xs) pat = (if prefix pat (x # xs) then Some 0 else map_option Suc (str_Index xs pat))"

definition peerAddrs :: "conn list \<Rightarrow> string list" where
  "peerAddrs conns = concat (map (\<lambda>c.
     if cn_inbound c \<and> \<not> cn_dht c then []
     else (let a = cn_addr c
           in if prefix ''/ip4/127.'' a \<or> prefix ''/ip4/192.168.'' a \<or> prefix ''/ip4/10.'' a then []
              else (let a1 = (case str_Index a ''/tcp/'' of Some i \<Rightarrow> if 0 < i then take i a @ ''/tcp/9348'' else a | None \<Rightarrow> a)
                    in [a1 @ ''/p2p/'' @ cn_peer c]))) conns)"


subsection \<open>Templates, confirmations, solved blocks\<close>

definition isPeerAllowedTemplate :: "string \<Rightarrow> Node \<Rightarrow> bool" where
  "isPeerAllowedTemplate pid nd = (case map_of (nd_peerFullMode nd) pid of None \<Rightarrow> True | Some full \<Rightarrow> full)"

text \<open>The address range a peer votes for; \<open>addrs\<close> are the addresses of its connections.\<close>

definition mask48 :: "byte list \<Rightarrow> byte list" where "mask48 ip = take 6 ip @ replicate 10 0"

definition voter_range :: "netlib \<Rightarrow> string \<Rightarrow> string option" where
  "voter_range L addr =
     (case split_char (CHR ''/'') addr of
        p0 # kind # host # rest \<Rightarrow>
          (case l_ParseIP L host of
             None \<Rightarrow> None
           | Some ip \<Rightarrow>
               if kind = ''ip4'' then
                 (if IsLoopback ip \<or> IsPrivate ip then None
                  else map_option (\<lambda>a. ''ip4:'' @ dec_digits (unat (a ! 0)) @ ''.'' @ dec_digits (unat (a ! 1)) @ ''.'' @ dec_digits (unat (a ! 2)) @ ''.0/24'') (To4 ip))
               else if kind = ''ip6'' then
                 (if IsLoopback ip \<or> IsPrivate ip \<or> IsLinkLocalUnicast ip then None else Some (''ip6:'' @ l_IPString L (mask48 ip) @ ''/48''))
               else None)
      | _ \<Rightarrow> None)"

definition voterKeyForPeer :: "netlib \<Rightarrow> string list \<Rightarrow> string \<Rightarrow> string" where
  "voterKeyForPeer L addrs pid = (case List.map_filter (voter_range L) addrs of [] \<Rightarrow> pid | k # _ \<Rightarrow> k)"

text \<open>The answer to a header challenge is a raw header; only hashes of full length are answered.\<close>

definition handleHeaderProofStream :: "(string \<Rightarrow> string) \<Rightarrow> string option \<Rightarrow> string option" where
  "handleHeaderProofStream getHeader bh = (case bh of Some h \<Rightarrow> if length h = 64 then Some (getHeader h) else None | None \<Rightarrow> None)"

text \<open>\<open>chal\<close> is the challenge (\<open>None\<close> without \<open>GetChallengeHashFunc\<close>), \<open>answer\<close> what the peer replies to it: \<open>None\<close> when no
  stream can be opened, \<open>Some None\<close> when the reply is unreadable.\<close>

definition header_answers :: "env \<Rightarrow> btcd \<Rightarrow> string \<Rightarrow> string \<Rightarrow> bool" where
  "header_answers E K chal hexHdr = (case hex_DecodeString hexHdr of
     None \<Rightarrow> False | Some raw \<Rightarrow> length raw = 80 \<and> e_HashString E (k_DoubleHashH K raw) = chal)"

definition verifyPeerHeaderChallenge ::
  "env \<Rightarrow> btcd \<Rightarrow> string option \<Rightarrow> (string \<Rightarrow> string option option) \<Rightarrow> string \<Rightarrow> Node \<Rightarrow> bool \<times> Node" where
  "verifyPeerHeaderChallenge E K chal answer pid nd =
     (if gm_get False (nd_peerVerifiedFull nd) pid then (True, nd)
      else (case chal of
              None \<Rightarrow> (True, nd)
            | Some ch \<Rightarrow>
                if ch = '''' then (True, nd)
                else (case answer ch of
                        None \<Rightarrow> (True, nd)
                      | Some None \<Rightarrow> (False, setPeerFullMode pid False nd)
                      | Some (Some hexHdr) \<Rightarrow>
                          if length hexHdr = 160 \<and> header_answers E K ch hexHdr
                          then (True, nd\<lparr>nd_peerVerifiedFull := gm_set pid True (nd_peerVerifiedFull nd)\<rparr>)
                          else (False, setPeerFullMode pid False nd))))"

text \<open>A template message: \<open>raw\<close> is the decoded JSON with its length in bytes. On a light node (\<open>light\<close>) a template is handed
  on; otherwise the node's own is sent. The result: the node, what \<open>OnTemplateFunc\<close> gets, and the reply.\<close>

definition take_template ::
  "env \<Rightarrow> btcd \<Rightarrow> netlib \<Rightarrow> string option \<Rightarrow> (string \<Rightarrow> string option option) \<Rightarrow> string list \<Rightarrow> string \<Rightarrow> body \<Rightarrow> Node
   \<Rightarrow> Node \<times> (string \<times> string \<times> body) option" where
  "take_template E K L chal answer addrs pid raw nd =
     (let (ok, nd1) = verifyPeerHeaderChallenge E K chal answer pid nd
      in if ok then (setPeerFullMode pid True nd1, Some (pid, voterKeyForPeer L addrs pid, raw)) else (nd1, None))"

definition handleTemplateStream ::
  "env \<Rightarrow> btcd \<Rightarrow> netlib \<Rightarrow> bool \<Rightarrow> body option \<Rightarrow> string option \<Rightarrow> (string \<Rightarrow> string option option) \<Rightarrow> string list \<Rightarrow> string
   \<Rightarrow> (nat \<times> body) option \<Rightarrow> Node \<Rightarrow> Node \<times> (string \<times> string \<times> body) option \<times> body option" where
  "handleTemplateStream E K L light own chal answer addrs pid raw nd =
     (case raw of
        Some (n, j) \<Rightarrow>
          if 4 < n \<and> light then
            (if isPeerAllowedTemplate pid nd
             then (case take_template E K L chal answer addrs pid j nd of (nd1, t) \<Rightarrow> (nd1, t, None)) else (nd, None, None))
          else (nd, None, own)
      | None \<Rightarrow> (nd, None, own))"

text \<open>\<open>PullTemplateFromPeers\<close>: \<open>pulled\<close> is what each peer answers.\<close>

definition PullTemplateFromPeers ::
  "env \<Rightarrow> btcd \<Rightarrow> netlib \<Rightarrow> bool \<Rightarrow> (string \<Rightarrow> string option) \<Rightarrow> (string \<Rightarrow> string \<Rightarrow> string option option) \<Rightarrow> (string \<Rightarrow> string list)
   \<Rightarrow> (string \<Rightarrow> (nat \<times> body) option) \<Rightarrow> Node \<Rightarrow> Node \<times> (string \<times> string \<times> body) list" where
  "PullTemplateFromPeers E K L light chal answer addrs pulled nd =
     (if \<not> light then (nd, []) else foldl (\<lambda>(n, out) pid.
        if \<not> isPeerAllowedTemplate pid n then (n, out)
        else (case pulled pid of
                Some (len, j) \<Rightarrow>
                  if 4 < len then (case take_template E K L (chal pid) (answer pid) (addrs pid) pid j n of (n1, t) \<Rightarrow> (n1, out @ (case t of None \<Rightarrow> [] | Some x \<Rightarrow> [x])))
                  else (n, out)
              | None \<Rightarrow> (n, out))) (nd, []) (nd_Peers nd))"

definition handleBlockCheckStream :: "(string \<Rightarrow> int) \<Rightarrow> string option \<Rightarrow> int option" where
  "handleBlockCheckStream check bh = (case bh of Some h \<Rightarrow> if h = '''' then None else Some (check h) | None \<Rightarrow> None)"

text \<open>\<open>confs\<close> is what each peer answers.\<close>

definition QueryBlockConfirmations :: "(string \<Rightarrow> int option) \<Rightarrow> Node \<Rightarrow> int" where
  "QueryBlockConfirmations confs nd =
     foldl (\<lambda>best pid. if \<not> isPeerAllowedTemplate pid nd then best
        else (case confs pid of Some n \<Rightarrow> if best < n then n else best | None \<Rightarrow> best)) 0 (nd_Peers nd)"

definition RelaySolvedBlockHex :: "(string \<Rightarrow> string option) \<Rightarrow> Node \<Rightarrow> nat" where
  "RelaySolvedBlockHex ack nd = length (filter (\<lambda>pid. case ack pid of Some r \<Rightarrow> prefix ''OK'' r | None \<Rightarrow> False) (nd_Peers nd))"

subsection \<open>Gossip\<close>

datatype ShareVerdict = ShareAccept | ShareReject | ShareIgnore

datatype validation = ValidationAccept | ValidationReject | ValidationIgnore

definition SetShareValidator :: "('d \<Rightarrow> ShareVerdict) \<Rightarrow> 'd \<Rightarrow> validation" where
  "SetShareValidator f d = (case f d of ShareAccept \<Rightarrow> ValidationAccept | ShareIgnore \<Rightarrow> ValidationIgnore | ShareReject \<Rightarrow> ValidationReject)"

definition listenLoop :: "Node \<Rightarrow> ('d \<times> string) \<Rightarrow> ('d \<times> string) list" where
  "listenLoop nd msg = (if snd msg = nd_ID nd then [] else [msg])"


text \<open>\<open>f\<close> is \<open>OnRawBlockFunc\<close>; the flag tells whether \<open>OK\<close> is answered.\<close>

definition handleBlockRelayStream :: "(string \<Rightarrow> string \<Rightarrow> 'w \<Rightarrow> bool \<times> 'w) \<Rightarrow> string \<Rightarrow> string option \<Rightarrow> 'w \<Rightarrow> bool \<times> 'w" where
  "handleBlockRelayStream f pid hexStr w = (case hexStr of Some h \<Rightarrow> if h = '''' then (False, w) else f pid h w | None \<Rightarrow> (False, w))"

subsection \<open>When a peer is cut off\<close>

text \<open>The threshold in integers: at least five invalid shares and more than a fifth of all.\<close>

definition bads :: "bool list \<Rightarrow> nat" where "bads l = length (filter id l)"

definition crossed :: "bool list \<Rightarrow> bool" where
  "crossed l \<longleftrightarrow> 5 \<le> bads l \<and> length l < 5 * bads l"

lemma ratio_exact:
  assumes "n \<le> 2 ^ 40" shows "of_nat b \<le> fmul peerScoreBadRatio (of_nat n) \<longleftrightarrow> 5 * b \<le> n"
proof (cases "n = 0")
  case True
  then show ?thesis by (simp add: f64.zero)
next
  case False
  define x where "x = peerScoreBadRatio * of_nat n"
  have q: "1 / 5 \<le> peerScoreBadRatio" "peerScoreBadRatio \<le> 1 / 5 + 1 / 2 ^ 54" unfolding peerScoreBadRatio_def by code_simp+
  have n: "1 \<le> (of_nat n :: rat)" using False by (metis One_nat_def Suc_leI gr0I of_nat_1 of_nat_le_iff)
  have n2: "(of_nat n :: rat) \<le> 2 ^ 40" using assms by (metis of_nat_le_iff of_nat_numeral of_nat_power)
  have lo: "of_nat n / 5 \<le> x" using mult_right_mono[OF q(1), of "of_nat n"] by (simp add: x_def)
  have "x \<le> (1 / 5 + 1 / 2 ^ 54) * of_nat n" using mult_right_mono[OF q(2), of "of_nat n"] by (simp add: x_def)
  then have hi: "x \<le> of_nat n / 5 + 1 / 2 ^ 14" using n2 by (simp add: distrib_right)
  have "2 powi (- 100) \<le> x" using lo n by (simp add: power_int_minus)
  then have "- 100 \<le> ilog2 x" by (rule ilog2_ge)
  moreover have "0 < x" using lo n by simp
  ultimately have "\<bar>f64 x - x\<bar> \<le> x / 2 ^ 53" using f64_err[of x] by simp
  then have err: "f64 x \<le> x + x / 2 ^ 53" by linarith
  show ?thesis
  proof
    assume "5 * b \<le> n"
    then have "5 * (of_nat b :: rat) \<le> of_nat n" by (metis of_nat_le_iff of_nat_mult of_nat_numeral)
    then have b: "of_nat b \<le> x" using lo by simp
    have "int b \<le> 2 ^ 53" using \<open>5 * b \<le> n\<close> assms by simp
    then have "f64 (of_nat b) = of_nat b" using f64_int[of "int b"] by simp
    then show "of_nat b \<le> fmul peerScoreBadRatio (of_nat n)" using f64.fmt_mono[OF b] by (simp add: x_def)
  next
    assume r: "of_nat b \<le> fmul peerScoreBadRatio (of_nat n)"
    show "5 * b \<le> n"
    proof (rule ccontr)
      assume "\<not> 5 * b \<le> n"
      then have "n + 1 \<le> 5 * b" by simp
      then have "(of_nat (n + 1) :: rat) \<le> of_nat (5 * b)" using of_nat_le_iff by blast
      then have "of_nat n + 1 \<le> 5 * (of_nat b :: rat)" by simp
      moreover have "of_nat b \<le> x + x / 2 ^ 53" using r err by (simp add: x_def)
      moreover have "x / 2 ^ 53 \<le> 1 / 2 ^ 10" using hi n2 by simp
      ultimately show False using hi by simp
    qed
  qed
qed

text \<open>The scores after the outcomes \<open>l\<close> of a peer.\<close>

definition scores_after :: "string \<Rightarrow> bool list \<Rightarrow> (string, peerScore) gomap \<Rightarrow> (string, peerScore) gomap" where
  "scores_after pid l m = foldl (\<lambda>m b. snd (record_score pid b m)) m l"

lemma bads_snoc: "bads (l @ [b]) = bads l + (if b then 1 else 0)" "bads l \<le> length l"
  by (auto simp: bads_def)

lemma record_step:
  assumes "gm_get \<lparr>ps_good = 0, ps_bad = 0, ps_disconnected = False\<rparr> m pid = \<lparr>ps_good = length l - bads l, ps_bad = bads l, ps_disconnected = d\<rparr>"
    "length l < 2 ^ 40"
  shows "fst (record_score pid b m) \<longleftrightarrow> \<not> d \<and> crossed (l @ [b])"
    and "gm_get \<lparr>ps_good = 0, ps_bad = 0, ps_disconnected = False\<rparr> (snd (record_score pid b m)) pid
      = \<lparr>ps_good = length (l @ [b]) - bads (l @ [b]), ps_bad = bads (l @ [b]), ps_disconnected = d \<or> crossed (l @ [b])\<rparr>"
proof -
  have c: "of_nat (bads (l @ [b])) \<le> fmul peerScoreBadRatio (of_nat (Suc (length l))) \<longleftrightarrow> 5 * bads (l @ [b]) \<le> Suc (length l)"
    using assms(2) by (intro ratio_exact) simp
  define ps where "ps = \<lparr>ps_good = length (l @ [b]) - bads (l @ [b]), ps_bad = bads (l @ [b]), ps_disconnected = d\<rparr>"
  have g: "ps_good ps + ps_bad ps = Suc (length l)" using bads_snoc(2)[of "l @ [b]"] by (simp add: ps_def)
  have "record_score pid b m = (if ps_disconnected ps \<or> ps_bad ps < peerScoreMinBad
      \<or> of_nat (ps_bad ps) \<le> fmul peerScoreBadRatio (of_nat (ps_good ps + ps_bad ps)) then (False, gm_set pid ps m)
      else (True, gm_set pid (ps\<lparr>ps_disconnected := True\<rparr>) m))"
    using bads_snoc(2)[of l] unfolding record_score_def assms(1) by (cases b) (simp_all add: ps_def bads_snoc(1) Let_def Suc_diff_le add.commute)
  also have "\<dots> = (if d \<or> \<not> crossed (l @ [b]) then (False, gm_set pid ps m) else (True, gm_set pid (ps\<lparr>ps_disconnected := True\<rparr>) m))"
    using c unfolding g by (auto simp: ps_def crossed_def peerScoreMinBad_def)
  finally have r: "record_score pid b m = (if d \<or> \<not> crossed (l @ [b]) then (False, gm_set pid ps m)
      else (True, gm_set pid (ps\<lparr>ps_disconnected := True\<rparr>) m))" .
  show "fst (record_score pid b m) \<longleftrightarrow> \<not> d \<and> crossed (l @ [b])" by (simp add: r)
  show "gm_get \<lparr>ps_good = 0, ps_bad = 0, ps_disconnected = False\<rparr> (snd (record_score pid b m)) pid
      = \<lparr>ps_good = length (l @ [b]) - bads (l @ [b]), ps_bad = bads (l @ [b]), ps_disconnected = d \<or> crossed (l @ [b])\<rparr>"
    by (simp add: r ps_def)
qed


lemma scores_after_props:
  assumes "map_of m pid = None" "length l \<le> 2 ^ 40"
  shows "gm_get \<lparr>ps_good = 0, ps_bad = 0, ps_disconnected = False\<rparr> (scores_after pid l m) pid
    = \<lparr>ps_good = length l - bads l, ps_bad = bads l, ps_disconnected = (\<exists>j < length l. crossed (take (Suc j) l))\<rparr>"
  using assms(2)
proof (induction l rule: rev_induct)
  case Nil
  then show ?case using assms(1) by (simp add: scores_after_def gm_get_def bads_def)
next
  case (snoc b l)
  have "(\<exists>j < length (l @ [b]). crossed (take (Suc j) (l @ [b]))) \<longleftrightarrow> (\<exists>j < length l. crossed (take (Suc j) l)) \<or> crossed (l @ [b])"
    by (auto simp: less_Suc_eq)
  then show ?case using record_step(2)[OF snoc.IH, of b] snoc.prems by (simp add: scores_after_def)
qed

text \<open>A peer is cut off exactly by the first of its shares with which at least five of its shares and more than a fifth of them are
  invalid: never before, and only once per connection. The comparison in floating point is exact.\<close>

theorem peer_cut_off:
  assumes "map_of (nd_scores nd) pid = None" "pid \<noteq> ''''" "pid \<in> set (nd_Peers nd)" "length l < 2 ^ 40"
  shows "fst (RecordShareOutcome pid b (nd\<lparr>nd_scores := scores_after pid l (nd_scores nd)\<rparr>))
    \<longleftrightarrow> crossed (l @ [b]) \<and> (\<forall>j < length l. \<not> crossed (take (Suc j) l))"
  using record_step(1)[OF scores_after_props[OF assms(1)]] assms by (auto simp: RecordShareOutcome_def case_prod_beta)

lemma few_bad_kept: "5 * bads l \<le> length l \<or> bads l < 5 \<Longrightarrow> \<not> crossed l"
  by (auto simp: crossed_def)


subsection \<open>What is downloaded\<close>

lemma drop_answered_get:
  assumes "gm_wf answered" "map_of (drop_answered now answered) h = None" "map_of answered h = Some t"
  shows "downloadRequeryDelay \<le> now - t"
proof (rule ccontr)
  assume "\<not> downloadRequeryDelay \<le> now - t"
  moreover have "(h, t) \<in> set answered" using assms(1,3) by simp
  ultimately have "(h, t) \<in> set (drop_answered now answered)" by (simp add: drop_answered_def)
  then have "h \<in> fst ` set (drop_answered now answered)" by force
  then show False using assms(2) by (simp add: map_of_eq_None_iff)
qed

text \<open>What \<open>rand.Intn\<close> promises.\<close>

definition random_below :: "(nat \<Rightarrow> nat \<Rightarrow> nat) \<Rightarrow> bool" where
  "random_below rnd \<longleftrightarrow> (\<forall>k n. 0 < n \<longrightarrow> rnd k n < n)"

lemma random_nth: "random_below rnd \<Longrightarrow> l \<noteq> [] \<Longrightarrow> l ! rnd k (length l) \<in> set l"
  by (simp add: random_below_def)

lemma download_step_wf:
  assumes "gm_wf answered" "download_step now missing stops peers rnd fetch answered = Some (wait, answered', r)"
  shows "gm_wf answered'"
proof -
  have "gm_wf (drop_answered now answered)" using assms(1) by (simp add: drop_answered_def distinct_map_filter)
  then show ?thesis using assms(2) by (auto simp: download_step_def Let_def split: if_splits option.splits)
qed

text \<open>The contract between the download loop and the share chain: the hashes the chain reports missing are not held,
  and are long enough for the log message.\<close>

locale share_source =
  fixes ok :: "'c \<Rightarrow> bool" and missing :: "'c \<Rightarrow> string list" and stops :: "'c \<Rightarrow> string list" and has :: "'c \<Rightarrow> string \<Rightarrow> bool"
  assumes missing_unheld: "ok c \<Longrightarrow> h \<in> set (missing c) \<Longrightarrow> \<not> has c h"
    and missing_long: "ok c \<Longrightarrow> h \<in> set (missing c) \<Longrightarrow> 12 \<le> length h"
begin

lemma no_panic:
  assumes "ok c" "random_below rnd"
  shows "download_step now (missing c) (stops c) peers rnd fetch answered \<noteq> None"
proof -
  let ?want = "filter (\<lambda>h. map_of (drop_answered now answered) h = None) (missing c)"
  have "12 \<le> length (?want ! rnd 0 (length ?want))" if "?want \<noteq> []"
    using random_nth[OF assms(2) that, of 0] missing_long[OF assms(1)] by simp
  then show ?thesis by (cases "?want = []") (auto simp: download_step_def Let_def split: option.split)
qed

lemma requests:
  assumes "ok c" "random_below rnd" "gm_wf answered"
    "download_step now (missing c) (stops c) peers rnd fetch answered = Some (wait, answered', Some (pid, req))"
  shows "\<exists>h. rq_Hashes req = [h] \<and> h \<in> set (missing c) \<and> \<not> has c h \<and> pid \<in> set peers \<and> rq_Parents req < maxDownloadParents
    \<and> length (rq_Stops req) \<le> maxStopHashes \<and> (\<forall>t. map_of answered h = Some t \<longrightarrow> downloadRequeryDelay \<le> now - t)
    \<and> (wait = 0 \<longleftrightarrow> (\<exists>n > 0. fetch pid req = Some n)) \<and> (wait = 0 \<longrightarrow> map_of answered' h = Some now)"
proof -
  let ?P = "\<lambda>h. map_of (drop_answered now answered) h = None"
  let ?want = "filter ?P (missing c)"
  let ?h = "?want ! rnd 0 (length ?want)" and ?pid = "peers ! rnd 1 (length peers)"
  have ne: "?want \<noteq> []" "peers \<noteq> []" using assms(4) by (auto simp: download_step_def Let_def split: if_splits)
  have req: "pid = ?pid" "req = \<lparr>rq_Hashes = [?h], rq_Parents = rnd 2 maxDownloadParents, rq_Stops = take maxStopHashes (stops c)\<rparr>"
    using assms(4) ne by (auto simp: download_step_def Let_def split: if_splits option.splits)
  have w: "(wait = 0 \<longleftrightarrow> (\<exists>n > 0. fetch pid req = Some n)) \<and> (wait = 0 \<longrightarrow> map_of answered' ?h = Some now)"
    using assms(4) ne unfolding req by (auto simp: download_step_def Let_def downloadRetryDelay_def split: if_splits option.splits)
  have m: "?h \<in> set (missing c)" "?P ?h" using random_nth[OF assms(2) ne(1), of 0] by auto
  have "?pid \<in> set peers" by (rule random_nth[OF assms(2) ne(2)])
  moreover have "rnd 2 maxDownloadParents < maxDownloadParents" using assms(2) by (simp add: random_below_def maxDownloadParents_def)
  ultimately show ?thesis
    using m(1) missing_unheld[OF assms(1) m(1)] drop_answered_get[OF assms(3) m(2)] w unfolding req by auto
qed

end


lemma ends_at_hash: "ends_at E sc h t \<Longrightarrow> held sc h \<noteq> None \<Longrightarrow> t = '''' \<or> (\<exists>k. t = e_HashString E k)"
proof (induction rule: ends_at.induct)
  case (below h s t)
  have k: "\<exists>k. prev_key E s = e_HashString E k" using below(2) by (auto simp: prev_key_def no_parent_def split: option.splits)
  show ?case
  proof (cases "held sc (prev_key E s)")
    case None
    then have "t = prev_key E s" using ends_at_unique[OF below(3) ends_at.missing] by blast
    then show ?thesis using k by simp
  qed (use below in auto)
qed auto

definition known_chain :: "env \<Rightarrow> ShareChain \<Rightarrow> bool" where
  "known_chain E sc \<longleftrightarrow> (\<exists>r. ranked E (sc_shares sc) r) \<and> gm_wf (sc_shares sc) \<and> (\<forall>k. length (e_HashString E k) = 64)"

interpretation chain_source: share_source "known_chain E" "GetMissingParentHashes E now mx" "GetStopHashes E smx" HasShare for E now mx smx
proof
  fix sc h assume ok: "known_chain E sc" and h: "h \<in> set (GetMissingParentHashes E now mx sc)"
  obtain r where rk: "ranked E (sc_shares sc) r" using ok by (auto simp: known_chain_def)
  note s = missing_loop_spec[OF rk, of "[]" "[]" mx "Unix (now - maxShareAge)" "headsLocked E sc",
      folded GetMissingParentHashes_def, simplified tails_ok_def, simplified]
  obtain hd where hd: "hd \<in> set (headsLocked E sc)" "ends_at E sc hd h" "h \<noteq> ''''" using s h by blast
  have "held sc hd \<noteq> None" using heads_set[of sc hd E] hd(1) ok by (simp add: known_chain_def)
  then show "\<not> HasShare sc h" "12 \<le> length h"
    using ends_at_missing[OF hd(2)] ends_at_hash[OF hd(2)] hd(3) ok by (auto simp: HasShare_def known_chain_def)
qed

text \<open>C10: Every step of the download loop on the share chain returns, and a request it makes is for one missing share
  the chain does not hold, to a connected peer, with fewer than 500 ancestors and at most 100 stops. A share that was answered is not
  asked for again within 45 seconds, and the loop goes on at once exactly when the reply held shares.\<close>

theorem download_requests:
  assumes "known_chain E sc" "random_below rnd" "gm_wf answered"
  shows "\<exists>wait answered' r. download_step now (GetMissingParentHashes E now 100 sc) (GetStopHashes E 100 sc) peers rnd fetch answered
      = Some (wait, answered', r) \<and> gm_wf answered' \<and>
    (\<forall>pid req. r = Some (pid, req) \<longrightarrow> (\<exists>h. rq_Hashes req = [h] \<and> h \<in> set (GetMissingParentHashes E now 100 sc) \<and> \<not> HasShare sc h
      \<and> pid \<in> set peers \<and> rq_Parents req < maxDownloadParents \<and> length (rq_Stops req) \<le> maxStopHashes
      \<and> (\<forall>t. map_of answered h = Some t \<longrightarrow> downloadRequeryDelay \<le> now - t)
      \<and> (wait = 0 \<longleftrightarrow> (\<exists>n > 0. fetch pid req = Some n)) \<and> (wait = 0 \<longrightarrow> map_of answered' h = Some now)))"
proof -
  obtain wait answered' r where d: "download_step now (GetMissingParentHashes E now 100 sc) (GetStopHashes E 100 sc) peers rnd fetch answered
      = Some (wait, answered', r)"
    using chain_source.no_panic[OF assms(1,2), of now now 100 100 peers fetch answered] by auto
  note q = chain_source.requests[OF assms(1,2,3), of now now 100 100 peers fetch wait answered']
  show ?thesis
    by (intro exI[of _ wait] exI[of _ answered'] exI[of _ r] conjI d download_step_wf[OF assms(3) d] allI impI q) (use d in auto)
qed


subsection \<open>Known peers stay few, foreign and distinct\<close>

text \<open>What the code relies on in the address library: an address whose text ends in \<open>/p2p/\<close> and a peer's identifier (in the form in
  which the library prints identifiers) names that peer. Addresses may have other forms, such as a trailing slash.\<close>

definition ids_named :: "netlib \<Rightarrow> bool" where
  "ids_named L \<longleftrightarrow> (\<forall>a e pid q. l_AddrInfo L a = Some pid \<longrightarrow> suffix (''/p2p/'' @ pid) e \<longrightarrow> l_AddrInfo L e = Some q \<longrightarrow> q = pid)"

definition ends_in_id :: "netlib \<Rightarrow> string \<Rightarrow> bool" where
  "ends_in_id L a = (case l_AddrInfo L a of Some pid \<Rightarrow> suffix (''/p2p/'' @ pid) a | None \<Rightarrow> False)"

definition peers_ok :: "netlib \<Rightarrow> string \<Rightarrow> string list \<Rightarrow> bool" where
  "peers_ok L self l \<longleftrightarrow> length l \<le> maxCachedPeers \<and> (\<forall>a \<in> set l. a \<noteq> '''' \<and> (\<exists>pid. l_AddrInfo L a = Some pid \<and> pid \<noteq> self))
     \<and> (ids_named L \<longrightarrow> distinct (map (l_AddrInfo L) (filter (ends_in_id L) l)))"

lemma replace_peer_None: "replace_peer sfx addr l = None \<longleftrightarrow> (\<forall>e \<in> set l. \<not> suffix sfx e)"
  by (induction l) auto

lemma replace_peer_Some:
  "replace_peer sfx addr l = Some (b, l') \<Longrightarrow> \<exists>i < length l. suffix sfx (l ! i) \<and> l' = l[i := addr]"
proof (induction l arbitrary: b l')
  case (Cons e l)
  show ?case
  proof (cases "suffix sfx e")
    case True
    then show ?thesis using Cons.prems by (intro exI[of _ 0]) (auto split: if_splits)
  next
    case False
    then obtain r where r: "replace_peer sfx addr l = Some (b, r)" "l' = e # r" using Cons.prems by auto
    then obtain i where "i < length l" "suffix sfx (l ! i)" "r = l[i := addr]" using Cons.IH by blast
    then show ?thesis using r by (intro exI[of _ "Suc i"]) auto
  qed
qed simp

text \<open>Replacing an address by one of the same peer, and adding one of a new peer, keep one per peer.\<close>

lemma distinct_replace:
  assumes "distinct (map f (filter P l))" "i < length l" "P (l ! i)" "f x = f (l ! i)"
  shows "distinct (map f (filter P (l[i := x])))"
proof -
  have l: "l = take i l @ l ! i # drop (Suc i) l" "l[i := x] = take i l @ x # drop (Suc i) l"
    using assms(2) by (simp_all add: id_take_nth_drop upd_conv_take_nth_drop)
  show ?thesis using assms(1,3,4) unfolding l(2) by (subst (asm) l(1)) (auto simp: image_iff)
qed

lemma distinct_append_new:
  assumes "distinct (map f (filter P l))" "\<And>e. e \<in> set l \<Longrightarrow> P e \<Longrightarrow> f e \<noteq> f x"
  shows "distinct (map f (filter P ((if b then tl l else l) @ [x])))"
proof -
  have "distinct (map f (filter P (tl l)))" using assms(1) by (cases l) (auto split: if_splits)
  moreover have "f x \<notin> f ` set (filter P l)" using assms(2) by force
  moreover have "set (filter P (tl l)) \<subseteq> set (filter P l)" by (cases l) auto
  ultimately show ?thesis using assms(1) by (auto simp: image_iff)
qed

lemma cache_add:
  assumes "peers_ok L self l" "addr \<noteq> ''''" "l_AddrInfo L addr = Some pid" "pid \<noteq> self"
  shows "replace_peer (''/p2p/'' @ pid) addr l = Some (b, l') \<Longrightarrow> peers_ok L self l'"
    and "replace_peer (''/p2p/'' @ pid) addr l = None
      \<Longrightarrow> peers_ok L self ((if maxCachedPeers \<le> length l then tl l else l) @ [addr])"
proof -
  note ok = assms(1)[unfolded peers_ok_def]
  { assume "replace_peer (''/p2p/'' @ pid) addr l = Some (b, l')"
    then obtain i where i: "i < length l" "suffix (''/p2p/'' @ pid) (l ! i)" "l' = l[i := addr]" using replace_peer_Some by blast
    have "distinct (map (l_AddrInfo L) (filter (ends_in_id L) l'))" if n: "ids_named L"
    proof -
      obtain q where q: "l_AddrInfo L (l ! i) = Some q" using ok i(1) nth_mem by blast
      then have "q = pid" using n assms(3) i(2) unfolding ids_named_def by blast
      then show ?thesis unfolding i(3) using ok n q i(1,2) assms(3) by (intro distinct_replace) (auto simp: ends_in_id_def)
    qed
    moreover have "set l' \<subseteq> insert addr (set l)" using i(3) set_update_subset_insert by metis
    ultimately show "peers_ok L self l'" using ok assms(2-4) i(3) unfolding peers_ok_def by auto }
  { assume n: "replace_peer (''/p2p/'' @ pid) addr l = None"
    let ?k = "if maxCachedPeers \<le> length l then tl l else l"
    have k: "set ?k \<subseteq> set l" by (cases l) auto
    have len: "length ?k < maxCachedPeers" using ok by (auto simp: maxCachedPeers_def)
    have "l_AddrInfo L e \<noteq> l_AddrInfo L addr" if "e \<in> set l" "ends_in_id L e" for e
      using n that assms(3) unfolding replace_peer_None ends_in_id_def by (auto split: option.splits)
    then have "distinct (map (l_AddrInfo L) (filter (ends_in_id L) (?k @ [addr])))" if "ids_named L"
      using ok that by (intro distinct_append_new) auto
    then show "peers_ok L self (?k @ [addr])" using ok k len assms(2-4) unfolding peers_ok_def by auto }
qed

lemma add_cache_ok:
  assumes "peers_ok L (nd_ID nd) (nd_bootstrapPeers nd)"
  shows "peers_ok L (nd_ID nd) (nd_bootstrapPeers (snd (addBootstrapPeerLocked L a nd)))" "nd_ID (snd (addBootstrapPeerLocked L a nd)) = nd_ID nd"
proof -
  show "peers_ok L (nd_ID nd) (nd_bootstrapPeers (snd (addBootstrapPeerLocked L a nd)))"
  proof (cases "trim_space a = '''' \<or> l_AddrInfo L (trim_space a) = None \<or> l_AddrInfo L (trim_space a) = Some (nd_ID nd)")
    case True
    then show ?thesis using assms by (auto simp: addBootstrapPeerLocked_def Let_def)
  next
    case False
    then obtain pid where p: "trim_space a \<noteq> ''''" "l_AddrInfo L (trim_space a) = Some pid" "pid \<noteq> nd_ID nd" by auto
    show ?thesis
    proof (cases "replace_peer (''/p2p/'' @ pid) (trim_space a) (nd_bootstrapPeers nd)")
      case None
      then show ?thesis using cache_add(2)[OF assms p None] p by (simp add: addBootstrapPeerLocked_def Let_def)
    next
      case (Some r)
      then obtain b ps where r: "replace_peer (''/p2p/'' @ pid) (trim_space a) (nd_bootstrapPeers nd) = Some (b, ps)" by (cases r) auto
      then show ?thesis using cache_add(1)[OF assms p r] p by (simp add: addBootstrapPeerLocked_def Let_def)
    qed
  qed
  show "nd_ID (snd (addBootstrapPeerLocked L a nd)) = nd_ID nd"
    by (simp add: addBootstrapPeerLocked_def Let_def split: option.split)
qed

lemma add_all_cache_ok:
  "peers_ok L (nd_ID nd) (nd_bootstrapPeers nd) \<Longrightarrow>
   peers_ok L (nd_ID nd) (nd_bootstrapPeers (foldl (\<lambda>n a. snd (addBootstrapPeerLocked L a n)) nd l))
   \<and> nd_ID (foldl (\<lambda>n a. snd (addBootstrapPeerLocked L a n)) nd l) = nd_ID nd"
  by (induction l arbitrary: nd) (simp_all, metis add_cache_ok)


lemma remember_ok:
  assumes "peers_ok L (nd_ID nd) (nd_bootstrapPeers nd)"
  shows "peers_ok L (nd_ID nd) (nd_bootstrapPeers (rememberPeer L ok a nd)) \<and> nd_ID (rememberPeer L ok a nd) = nd_ID nd"
  using add_cache_ok[OF assms, of a] by (simp add: rememberPeer_def Let_def case_prod_beta)

lemma merge_ok:
  assumes "peers_ok L (nd_ID nd) (nd_bootstrapPeers nd)"
  shows "peers_ok L (nd_ID nd) (nd_bootstrapPeers (snd (mergeBootstrapPeers L inc nd))) \<and> nd_ID (snd (mergeBootstrapPeers L inc nd)) = nd_ID nd"
  using add_all_cache_ok[OF assms, of inc] assms by (simp add: mergeBootstrapPeers_def Let_def)

lemma bootstrap_one_ok:
  assumes "peers_ok L self (nd_bootstrapPeers (fst st)) \<and> nd_ID (fst st) = self"
  shows "peers_ok L self (nd_bootstrapPeers (fst (bootstrap_one L ok st a))) \<and> nd_ID (fst (bootstrap_one L ok st a)) = self"
  using assms remember_ok[of L "fst st" ok a] by (auto simp: bootstrap_one_def Let_def case_prod_beta split: option.split)

lemma Bootstrap_ok:
  assumes "peers_ok L (nd_ID nd) (nd_bootstrapPeers nd)"
  shows "peers_ok L (nd_ID nd) (nd_bootstrapPeers (fst (Bootstrap L ok dhtOk inc nd))) \<and> nd_ID (fst (Bootstrap L ok dhtOk inc nd)) = nd_ID nd"
proof -
  have "peers_ok L self (nd_bootstrapPeers (fst (foldl (bootstrap_one L ok) st l))) \<and> nd_ID (fst (foldl (bootstrap_one L ok) st l)) = self"
    if "peers_ok L self (nd_bootstrapPeers (fst st)) \<and> nd_ID (fst st) = self" for st l self
    using that by (induction l arbitrary: st) (simp_all add: bootstrap_one_ok)
  from this[of "nd_ID nd" "(snd (mergeBootstrapPeers L inc nd), [])" "fst (mergeBootstrapPeers L inc nd)"] show ?thesis
    using merge_ok[OF assms, of inc] by (simp add: Bootstrap_def Let_def case_prod_beta)
qed

text \<open>The states a node reaches.\<close>

inductive node_run :: "netlib \<Rightarrow> Node \<Rightarrow> bool" for L where
  start: "nd_bootstrapPeers nd = [] \<Longrightarrow> node_run L nd"
| cached: "node_run L nd \<Longrightarrow> node_run L (loadPeerCache L cache nd)"
| remember: "node_run L nd \<Longrightarrow> node_run L (rememberPeer L ok addr nd)"
| bootstrap: "node_run L nd \<Longrightarrow> node_run L (fst (Bootstrap L ok dhtOk addrs nd))"
| exchange: "node_run L nd \<Longrightarrow> node_run L (fst (ExchangePeers L ok dhtOk reply nd))"
| dial: "node_run L nd \<Longrightarrow> node_run L (dialled L ok d nd)"
| left: "node_run L nd \<Longrightarrow> node_run L (peer_left pid peers nd)"
| outcome: "node_run L nd \<Longrightarrow> node_run L (snd (RecordShareOutcome pid bad nd))"
| mode: "node_run L nd \<Longrightarrow> node_run L (setPeerFullMode pid full nd)"
| challenge: "node_run L nd \<Longrightarrow> node_run L (snd (verifyPeerHeaderChallenge E K chal answer pid nd))"

lemma run_peers_ok: assumes "node_run L nd" shows "peers_ok L (nd_ID nd) (nd_bootstrapPeers nd)"
  using assms
proof induction
  case (start nd)
  then show ?case by (simp add: peers_ok_def)
next
  case (cached nd cache)
  then show ?case using add_all_cache_ok[of L nd] by (simp add: loadPeerCache_def split: option.split)
next
  case (remember nd ok addr)
  then show ?case using remember_ok by simp
next
  case (bootstrap nd ok dhtOk addrs)
  then show ?case using Bootstrap_ok by simp
next
  case (exchange nd ok dhtOk reply)
  then show ?case using Bootstrap_ok[of L nd] by (simp add: ExchangePeers_def split: option.split)
next
  case (dial nd ok d)
  then show ?case using remember_ok[of L "nd\<lparr>nd_Peers := nd_Peers nd @ [fst d]\<rparr>" ok "snd d"] by (simp add: dialled_def)
next
  case (left nd pid peers)
  then show ?case by (simp add: peer_left_def)
next
  case (outcome nd pid bad)
  then show ?case by (simp add: RecordShareOutcome_def case_prod_beta)
next
  case (mode nd pid full)
  then show ?case by (simp add: setPeerFullMode_def)
next
  case (challenge nd E K chal answer pid)
  then show ?case by (simp add: verifyPeerHeaderChallenge_def setPeerFullMode_def split: option.split)
qed

text \<open>C12: Whatever peers announce and in whatever order they come and go, the node remembers at most 64 peer addresses,
  each naming a peer other than itself. With an address library in which a text that ends in \<open>/p2p/\<close> and a peer's identifier names
  that peer, at most one remembered address per peer ends in that peer's identifier; addresses in other forms (the library also reads
  a trailing slash, say) are not recognised as naming the same peer and may be remembered more than once.\<close>

theorem known_peers:
  assumes "node_run L nd"
  shows "length (nd_bootstrapPeers nd) \<le> 64 \<and> (\<forall>a \<in> set (nd_bootstrapPeers nd). \<exists>pid. l_AddrInfo L a = Some pid \<and> pid \<noteq> nd_ID nd)
    \<and> (ids_named L \<longrightarrow> distinct (map (l_AddrInfo L) (filter (ends_in_id L) (nd_bootstrapPeers nd))))"
  using run_peers_ok[OF assms] by (auto simp: peers_ok_def maxCachedPeers_def)

text \<open>An address in another form, such as one with a trailing slash, is not found by its suffix and is remembered again each time.\<close>

lemma duplicate_address:
  assumes "l_AddrInfo L addr = Some pid" "pid \<noteq> nd_ID nd" "trim_space addr = addr" "addr \<noteq> ''''" "\<not> suffix (''/p2p/'' @ pid) addr"
    "nd_bootstrapPeers nd = []"
  shows "nd_bootstrapPeers (rememberPeer L ok addr (rememberPeer L ok addr nd)) = [addr, addr]"
proof -
  have 1: "nd_bootstrapPeers (rememberPeer L ok addr nd) = [addr]" "nd_ID (rememberPeer L ok addr nd) = nd_ID nd"
    using assms by (auto simp: rememberPeer_def addBootstrapPeerLocked_def Let_def maxCachedPeers_def)
  then show ?thesis using assms by (simp add: rememberPeer_def[of _ _ _ "rememberPeer L ok addr nd"] addBootstrapPeerLocked_def Let_def maxCachedPeers_def)
qed


subsection \<open>Header challenges and templates\<close>

text \<open>C11: A peer becomes verified only by answering a challenge with a header whose hash is the challenge; a peer that
  answers wrongly is no longer allowed to send templates. Nothing is learned about other peers.\<close>

theorem header_challenge:
  assumes "verifyPeerHeaderChallenge E K chal answer pid nd = (ok, nd')"
  shows "(gm_get False (nd_peerVerifiedFull nd') pid \<longrightarrow> gm_get False (nd_peerVerifiedFull nd) pid
      \<or> (\<exists>ch hdr raw. chal = Some ch \<and> answer ch = Some (Some hdr) \<and> hex_DecodeString hdr = Some raw \<and> length raw = 80
           \<and> e_HashString E (k_DoubleHashH K raw) = ch))
    \<and> (\<not> ok \<longrightarrow> \<not> isPeerAllowedTemplate pid nd')
    \<and> (ok \<longrightarrow> nd_peerFullMode nd' = nd_peerFullMode nd)
    \<and> (\<forall>q. q \<noteq> pid \<longrightarrow> gm_get False (nd_peerVerifiedFull nd') q = gm_get False (nd_peerVerifiedFull nd) q
         \<and> isPeerAllowedTemplate q nd' = isPeerAllowedTemplate q nd)"
  using assms unfolding verifyPeerHeaderChallenge_def
  by (auto simp: header_answers_def setPeerFullMode_def isPeerAllowedTemplate_def split: if_splits option.splits)

text \<open>A peer that does not open the challenge stream passes the challenge.\<close>

lemma challenge_unanswered:
  "answer ch = None \<Longrightarrow> verifyPeerHeaderChallenge E K (Some ch) answer pid nd = (True, nd)"
  by (simp add: verifyPeerHeaderChallenge_def)

lemma template_from_allowed:
  assumes "handleTemplateStream E K L light own chal answer addrs pid raw nd = (nd', Some (p, k, j), reply)"
  shows "light \<and> p = pid \<and> k = voterKeyForPeer L addrs pid \<and> isPeerAllowedTemplate pid nd \<and> isPeerAllowedTemplate pid nd'
    \<and> fst (verifyPeerHeaderChallenge E K chal answer pid nd) \<and> reply = None"
  using assms by (auto simp: handleTemplateStream_def take_template_def setPeerFullMode_def isPeerAllowedTemplate_def case_prod_beta Let_def
      split: option.splits if_splits prod.splits)

text \<open>Two peers in the same \<open>/24\<close> network have the same vote.\<close>

lemma same_network_one_vote:
  assumes "l_ParseIP L h1 = Some a" "l_ParseIP L h2 = Some b" "To4 a = Some x" "To4 b = Some y" "take 3 x = take 3 y" "length x = 4" "length y = 4"
    "\<not> IsLoopback a" "\<not> IsPrivate a" "\<not> IsLoopback b" "\<not> IsPrivate b"
    "split_char (CHR ''/'') s1 = p # ''ip4'' # h1 # r" "split_char (CHR ''/'') s2 = p' # ''ip4'' # h2 # r'"
  shows "voterKeyForPeer L [s1] pid1 = voterKeyForPeer L [s2] pid2"
proof -
  have "x ! i = y ! i" if "i < 3" for i using arg_cong[OF assms(5), of "\<lambda>l. l ! i"] that by simp
  then show ?thesis using assms by (simp add: voterKeyForPeer_def voter_range_def List.map_filter_simps)
qed

text \<open>The confirmations of a block are the largest number any allowed peer claims: one peer is enough.\<close>

lemma confirmations_largest:
  assumes "pid \<in> set (nd_Peers nd)" "isPeerAllowedTemplate pid nd" "confs pid = Some n"
  shows "n \<le> QueryBlockConfirmations confs nd"
proof -
  let ?f = "\<lambda>best pid. if \<not> isPeerAllowedTemplate pid nd then best else (case confs pid of Some n \<Rightarrow> if best < n then n else best | None \<Rightarrow> best)"
  have m: "b \<le> foldl ?f b l" for b l by (induction l arbitrary: b) (auto intro: order_trans split: option.splits, (meson dual_order.trans less_imp_le)+)
  have "n \<le> foldl ?f b l" if "pid \<in> set l" for b l
    using that
  proof (induction l arbitrary: b)
    case (Cons q l)
    then show ?case using m[of "?f b q" l] assms(2,3) by (cases "q = pid") (auto split: if_splits)
  qed simp
  then show ?thesis using assms(1) by (simp add: QueryBlockConfirmations_def)
qed

subsection \<open>Examples\<close>

definition demo_net :: netlib where
  "demo_net = \<lparr>l_AddrInfo = (\<lambda>a. if suffix ''/p2p/A'' a then Some ''A'' else if suffix ''/p2p/B/'' a then Some ''B'' else None),
     l_ParseIP = (\<lambda>h. None), l_IPString = (\<lambda>ip. '''')\<rparr>"

definition demo_node :: Node where
  "demo_node = \<lparr>nd_ID = ''N'', nd_Peers = [''A''], nd_bootstrapPeers = [], nd_persistPeers = True, nd_peerFullMode = [],
     nd_peerVerifiedFull = [], nd_scores = [], nd_cacheFile = None\<rparr>"

theorem peer_cut_off_witness:
  "fst (RecordShareOutcome ''A'' True (demo_node\<lparr>nd_scores := scores_after ''A'' [True, True, False, True, True] []\<rparr>))"
proof -
  have t: "bads (take n l) \<le> bads l" for n l
    unfolding bads_def by (metis append_take_drop_id filter_append le_add1 length_append)
  have "bads [True, True, False, True, True] = 4" "crossed ([True, True, False, True, True] @ [True])" by (simp_all add: bads_def crossed_def)
  moreover from this have "\<not> crossed (take n [True, True, False, True, True])" for n using t[of n "[True, True, False, True, True]"] by (simp add: crossed_def)
  ultimately show ?thesis
    using peer_cut_off[of demo_node "''A''" "[True, True, False, True, True]" True] by (simp add: demo_node_def del: take_Suc_Cons)
qed

lemma demo_net_ids: "ids_named demo_net"
  by (auto simp: ids_named_def demo_net_def suffix_def split: if_splits)

text \<open>Two addresses of one peer and one with a trailing slash, in a library that reads all of them: the newer of the two is kept.\<close>

definition demo_known :: Node where
  "demo_known = rememberPeer demo_net True ''x/p2p/A'' (rememberPeer demo_net True ''/p2p/B/'' (rememberPeer demo_net True ''/p2p/A'' demo_node))"

theorem known_peers_witness:
  "nd_bootstrapPeers demo_known = [''x/p2p/A'', ''/p2p/B/''] \<and> ids_named demo_net
    \<and> distinct (map (l_AddrInfo demo_net) (filter (ends_in_id demo_net) (nd_bootstrapPeers demo_known)))"
proof -
  have r: "node_run demo_net demo_known" unfolding demo_known_def by (intro node_run.remember node_run.start) (simp add: demo_node_def)
  have "nd_bootstrapPeers demo_known = [''x/p2p/A'', ''/p2p/B/'']"
    by (simp add: demo_known_def rememberPeer_def addBootstrapPeerLocked_def demo_net_def demo_node_def Let_def trim_space_def is_space_def
        maxCachedPeers_def suffix_def)
  then show ?thesis using known_peers[OF r] demo_net_ids by blast
qed

theorem header_challenge_witness:
  "\<not> isPeerAllowedTemplate ''A'' (snd (verifyPeerHeaderChallenge demo_env demo_btcd (Some ''x'') (\<lambda>c. Some None) ''A'' demo_node))"
proof -
  have v: "verifyPeerHeaderChallenge demo_env demo_btcd (Some ''x'') (\<lambda>c. Some None) ''A'' demo_node = (False, setPeerFullMode ''A'' False demo_node)"
    by (simp add: verifyPeerHeaderChallenge_def demo_node_def gm_get_def)
  show ?thesis using header_challenge[OF v] v by simp
qed

text \<open>A chain whose one share has a parent the node does not hold: the parent is asked for and recorded as answered.\<close>

definition gap_env :: env where "gap_env = demo_env\<lparr>e_HashString := \<lambda>h. replicate 64 CHR ''0''\<rparr>"

definition gap_chain :: ShareChain where
  "gap_chain = NewShareChain\<lparr>sc_shares := [(''k'', demo_share (Some (replicate 32 1)) (replicate 32 2) 0)]\<rparr>"

lemma gap_missing: "GetMissingParentHashes gap_env 0 100 gap_chain = [replicate 64 CHR ''0'']"
proof -
  let ?s = "demo_share (Some (replicate 32 1)) (replicate 32 2) 0" and ?p = "replicate 64 CHR ''0''"
  have f: "prev_key gap_env ?s = ?p" "\<not> no_parent (share_prev ?s)" "share_ts ?s = 0"
    by (simp_all add: prev_key_def gap_env_def demo_share_def no_parent_def genesisHash_def share_ts_def numeral_eq_Suc)
  have ne: "?p \<noteq> ''k''" "?p \<noteq> ''''" by (simp_all add: numeral_eq_Suc)
  have h: "held gap_chain ''k'' = Some ?s" "held gap_chain ?p = None" "sc_shares gap_chain = [(''k'', ?s)]"
    using ne by (simp_all add: gap_chain_def)
  have hd: "headsLocked gap_env gap_chain = [''k'']"
    using ne by (simp add: headsLocked_def h f Let_def)
  have t: "tail_loop gap_env gap_chain [] ''k'' [] = (?p, [''k''])"
    using ne by (subst tail_loop.simps, simp add: h f) (subst tail_loop.simps, simp add: h f)
  have "wants_parent gap_chain (Unix (0 - maxShareAge)) ''k''"
    by (simp add: wants_parent_def h f Unix_def maxShareAge_def gap_chain_def NewShareChain_def DefaultPPLNSWindow_def gm_get_def)
  then show ?thesis using ne by (simp add: GetMissingParentHashes_def hd missingTailLocked_def t)
qed

theorem download_requests_witness:
  "\<exists>answered' req. download_step 0 (GetMissingParentHashes gap_env 0 100 gap_chain) (GetStopHashes gap_env 100 gap_chain)
       [''A''] (\<lambda>k n. 0) (\<lambda>p r. Some 3) [] = Some (0, answered', Some (''A'', req))
     \<and> rq_Hashes req = [replicate 64 CHR ''0''] \<and> map_of answered' (replicate 64 CHR ''0'') = Some 0"
proof -
  have "ranked gap_env (sc_shares gap_chain) (\<lambda>_. 0)"
    by (simp add: ranked_def gap_chain_def prev_key_def gap_env_def demo_share_def numeral_eq_Suc)
  then have k: "known_chain gap_env gap_chain" unfolding known_chain_def by (auto simp: gap_chain_def gap_env_def)
  have "\<exists>req. download_step 0 (GetMissingParentHashes gap_env 0 100 gap_chain) (GetStopHashes gap_env 100 gap_chain)
       [''A''] (\<lambda>k n. 0) (\<lambda>p r. Some 3) [] = Some (0, [(replicate 64 CHR ''0'', 0)], Some (''A'', req))"
    by (simp add: download_step_def gap_missing drop_answered_def gm_set_def Let_def)
  then obtain req where d: "download_step 0 (GetMissingParentHashes gap_env 0 100 gap_chain) (GetStopHashes gap_env 100 gap_chain)
       [''A''] (\<lambda>k n. 0) (\<lambda>p r. Some 3) [] = Some (0, [(replicate 64 CHR ''0'', 0)], Some (''A'', req))" by blast
  have "rq_Hashes req = [replicate 64 CHR ''0'']"
    using download_requests[OF k, of "\<lambda>k n. 0" "[]" 0 "[''A'']" "\<lambda>p r. Some 3"] d by (auto simp: random_below_def gap_missing)
  then show ?thesis using d by auto
qed

end
