(* ===== verification/Unworked.thy ===== *)
theory Unworked
  imports ShareStore FoundBlocks
begin

text \<open>
  What the node does with a batch of shares that carry their hashes does not depend on the proof-of-work function: the field
  \<open>e_Verthash\<close> of the environment is read by \<open>CalculatePOWHash\<close> only, and neither the admission of a share that comes with
  hashes, nor the work of the chain, nor the consensus rules, nor the payout, nor the store calls it. Each lemma says of a
  group of functions that they are the same functions with another engine; \<open>AddShares_unworked\<close> puts them together.
\<close>

named_theorems unworked

lemma unworked_fields [unworked]:
  "e_Active (E\<lparr>e_Verthash := V\<rparr>) = e_Active E"
  "e_CompactToBig (E\<lparr>e_Verthash := V\<rparr>) = e_CompactToBig E"
  "e_HashString (E\<lparr>e_Verthash := V\<rparr>) = e_HashString E"
  "e_NewHashFromStr (E\<lparr>e_Verthash := V\<rparr>) = e_NewHashFromStr E"
  "e_ConvertBits (E\<lparr>e_Verthash := V\<rparr>) = e_ConvertBits E"
  "e_Encode (E\<lparr>e_Verthash := V\<rparr>) = e_Encode E" "e_EncodeM (E\<lparr>e_Verthash := V\<rparr>) = e_EncodeM E"
  "e_DecodeGeneric (E\<lparr>e_Verthash := V\<rparr>) = e_DecodeGeneric E"
  "e_CheckEncode (E\<lparr>e_Verthash := V\<rparr>) = e_CheckEncode E"
  "e_Base58Decode (E\<lparr>e_Verthash := V\<rparr>) = e_Base58Decode E"
  "e_Deserialize (E\<lparr>e_Verthash := V\<rparr>) = e_Deserialize E"
  "e_DeserializeNoWitness (E\<lparr>e_Verthash := V\<rparr>) = e_DeserializeNoWitness E"
  "e_Serialize (E\<lparr>e_Verthash := V\<rparr>) = e_Serialize E"
  "e_SerializeNoWitness (E\<lparr>e_Verthash := V\<rparr>) = e_SerializeNoWitness E"
  "e_TxHash (E\<lparr>e_Verthash := V\<rparr>) = e_TxHash E"
  "e_WitnessHash (E\<lparr>e_Verthash := V\<rparr>) = e_WitnessHash E"
  "e_BlockHash (E\<lparr>e_Verthash := V\<rparr>) = e_BlockHash E"
  "e_HeaderBytes (E\<lparr>e_Verthash := V\<rparr>) = e_HeaderBytes E"
  "e_CoinbaseScript (E\<lparr>e_Verthash := V\<rparr>) = e_CoinbaseScript E"
  by simp_all

subsection \<open>Addresses, shares and payouts\<close>

lemma leaf_unworked [unworked]:
  "prev_key (E\<lparr>e_Verthash := V\<rparr>) = prev_key E"
  "share_address (E\<lparr>e_Verthash := V\<rparr>) = share_address E"
  "share_coinbase (E\<lparr>e_Verthash := V\<rparr>) = share_coinbase E"
  "window_cap (E\<lparr>e_Verthash := V\<rparr>) = window_cap E"
  "DecodeSegwitAddress (E\<lparr>e_Verthash := V\<rparr>) = DecodeSegwitAddress E"
  "effectiveTimeLocked (E\<lparr>e_Verthash := V\<rparr>) = effectiveTimeLocked E"
  "current_tip (E\<lparr>e_Verthash := V\<rparr>) = current_tip E"
  by (intro ext, simp only: unworked prev_key_def share_address_def share_coinbase_def window_cap_def DecodeSegwitAddress_def effectiveTimeLocked_def current_tip_def)+

lemma share_unworked [unworked]:
  "prevKeyLocked (E\<lparr>e_Verthash := V\<rparr>) = prevKeyLocked E"
  "DecodeShareAddress (E\<lparr>e_Verthash := V\<rparr>) = DecodeShareAddress E"
  "VerifyShareMetadata (E\<lparr>e_Verthash := V\<rparr>) = VerifyShareMetadata E"
  "window_open (E\<lparr>e_Verthash := V\<rparr>) = window_open E"
  "counts_for_payout (E\<lparr>e_Verthash := V\<rparr>) = counts_for_payout E"
  "AddressToScriptPubKey (E\<lparr>e_Verthash := V\<rparr>) = AddressToScriptPubKey E"
  "miner_counts (E\<lparr>e_Verthash := V\<rparr>) = miner_counts E"
  by (intro ext, simp only: unworked prevKeyLocked_def DecodeShareAddress_def VerifyShareMetadata_def window_open_def counts_for_payout_def AddressToScriptPubKey_def miner_counts_def)+

lemma valid_unworked [unworked]:
  "IsValid (E\<lparr>e_Verthash := V\<rparr>) = IsValid E" "window_step (E\<lparr>e_Verthash := V\<rparr>) = window_step E"
  "add_miner_work (E\<lparr>e_Verthash := V\<rparr>) = add_miner_work E"
  by (intro ext, simp only: unworked IsValid_def window_step_def add_miner_work_def)+

lemma walk_loop_unworked [unworked]: "walk_loop (E\<lparr>e_Verthash := V\<rparr>) = walk_loop E"
proof (intro ext)
  show "walk_loop (E\<lparr>e_Verthash := V\<rparr>) m mx n h res = walk_loop E m mx n h res" for m mx n h res
    by (induction n arbitrary: h res) (simp_all only: walk_loop.simps unworked)
qed

lemma payout_loop_unworked [unworked]: "payout_loop (E\<lparr>e_Verthash := V\<rparr>) = payout_loop E"
proof (intro ext)
  show "payout_loop (E\<lparr>e_Verthash := V\<rparr>) m win d n h w = payout_loop E m win d n h w" for m win d n h w
    by (induction n arbitrary: h w) (simp_all only: payout_loop.simps unworked)
qed

lemma complete_loop_unworked [unworked]: "complete_loop (E\<lparr>e_Verthash := V\<rparr>) = complete_loop E"
proof (intro ext)
  show "complete_loop (E\<lparr>e_Verthash := V\<rparr>) m d n h w = complete_loop E m d n h w" for m d n h w
    by (induction n arbitrary: h w) (simp_all only: complete_loop.simps unworked)
qed

lemma payout_weights_unworked [unworked]: "payout_weights (E\<lparr>e_Verthash := V\<rparr>) = payout_weights E"
proof (intro ext)
  show "payout_weights (E\<lparr>e_Verthash := V\<rparr>) ss ws tw = payout_weights E ss ws tw" for ss ws tw
    by (induction ss arbitrary: ws tw) (simp_all only: payout_weights.simps unworked)
qed

lemma check_payouts_unworked [unworked]: "check_payouts (E\<lparr>e_Verthash := V\<rparr>) = check_payouts E"
proof (intro ext)
  show "check_payouts (E\<lparr>e_Verthash := V\<rparr>) actual es = check_payouts E actual es" for actual es
    by (induction es) (simp_all only: check_payouts.simps unworked)
qed

lemma walk_unworked [unworked]:
  "getOrderedChainWalkLocked (E\<lparr>e_Verthash := V\<rparr>) = getOrderedChainWalkLocked E"
  by (intro ext, simp only: unworked getOrderedChainWalkLocked_def)+

lemma expected_unworked [unworked]:
  "getExpectedShareDifficultyLocked (E\<lparr>e_Verthash := V\<rparr>) = getExpectedShareDifficultyLocked E"
  "medianTimePastLocked (E\<lparr>e_Verthash := V\<rparr>) = medianTimePastLocked E"
  by (intro ext, simp only: unworked getExpectedShareDifficultyLocked_def medianTimePastLocked_def)+

lemma window_unworked [unworked]:
  "GetExpectedShareDifficulty (E\<lparr>e_Verthash := V\<rparr>) = GetExpectedShareDifficulty E"
  "hasCompletePPLNSWindow (E\<lparr>e_Verthash := V\<rparr>) = hasCompletePPLNSWindow E"
  "GetSharesForPayout (E\<lparr>e_Verthash := V\<rparr>) = GetSharesForPayout E"
  by (intro ext, simp only: unworked GetExpectedShareDifficulty_def hasCompletePPLNSWindow_def GetSharesForPayout_def)+

lemma payout_unworked [unworked]:
  "payout_shares (E\<lparr>e_Verthash := V\<rparr>) = payout_shares E"
  "difficulty_rejects (E\<lparr>e_Verthash := V\<rparr>) = difficulty_rejects E"
  by (intro ext, simp only: unworked payout_shares_def difficulty_rejects_def)+

lemma outputs_unworked [unworked]:
  "CalculatePPLNSOutputsAtTip (E\<lparr>e_Verthash := V\<rparr>) = CalculatePPLNSOutputsAtTip E"
  by (intro ext, simp only: unworked CalculatePPLNSOutputsAtTip_def)+

lemma coinbase_unworked [unworked]:
  "VerifyShareCoinbase (E\<lparr>e_Verthash := V\<rparr>) = VerifyShareCoinbase E"
  by (intro ext, simp only: unworked VerifyShareCoinbase_def)+

subsection \<open>Work, verification and statistics\<close>

lemma link_unworked [unworked]:
  "considerTipLocked (E\<lparr>e_Verthash := V\<rparr>) = considerTipLocked E"
  "linkLocked (E\<lparr>e_Verthash := V\<rparr>) = linkLocked E"
  "parent_work (E\<lparr>e_Verthash := V\<rparr>) = parent_work E"
  "work_roots (E\<lparr>e_Verthash := V\<rparr>) = work_roots E"
  "unlink_child (E\<lparr>e_Verthash := V\<rparr>) = unlink_child E"
  by (intro ext, simp only: unworked considerTipLocked_def linkLocked_def parent_work_def work_roots_def unlink_child_def)+

lemma links_unworked [unworked]:
  "link_held (E\<lparr>e_Verthash := V\<rparr>) = link_held E" "set_work (E\<lparr>e_Verthash := V\<rparr>) = set_work E"
  "unlinkShareLocked (E\<lparr>e_Verthash := V\<rparr>) = unlinkShareLocked E"
  "markVerifiedLocked (E\<lparr>e_Verthash := V\<rparr>) = markVerifiedLocked E"
  by (intro ext, simp only: unworked link_held_def set_work_def unlinkShareLocked_def markVerifiedLocked_def)+

lemma work_loop_unworked [unworked]: "work_loop (E\<lparr>e_Verthash := V\<rparr>) = work_loop E"
proof (intro ext)
  show "work_loop (E\<lparr>e_Verthash := V\<rparr>) n q sc = work_loop E n q sc" for n q sc
    by (induction E n q sc rule: work_loop.induct) (simp_all add: unworked split: option.split)
qed

lemma update_unworked [unworked]:
  "updateWorkLocked (E\<lparr>e_Verthash := V\<rparr>) = updateWorkLocked E"
  "GetNetworkMiners (E\<lparr>e_Verthash := V\<rparr>) = GetNetworkMiners E"
  by (intro ext, simp only: unworked updateWorkLocked_def GetNetworkMiners_def)+

lemma rework_unworked [unworked]:
  "addWorkLocked (E\<lparr>e_Verthash := V\<rparr>) = addWorkLocked E"
  "dropWorkLocked (E\<lparr>e_Verthash := V\<rparr>) = dropWorkLocked E"
  "updateStats (E\<lparr>e_Verthash := V\<rparr>) = updateStats E"
  by (intro ext, simp only: unworked addWorkLocked_def dropWorkLocked_def updateStats_def)+

lemma rules_unworked [unworked]:
  "checkConsensus (E\<lparr>e_Verthash := V\<rparr>) = checkConsensus E"
  "parent_ready (E\<lparr>e_Verthash := V\<rparr>) = parent_ready E"
  "pending_shares (E\<lparr>e_Verthash := V\<rparr>) = pending_shares E"
  by (intro ext, simp only: unworked checkConsensus_def parent_ready_def pending_shares_def)+

lemma verify_unworked [unworked]:
  "verify_one (E\<lparr>e_Verthash := V\<rparr>) = verify_one E"
  by (intro ext, simp only: unworked verify_one_def)+

lemma pending_unworked [unworked]:
  "verifyPending (E\<lparr>e_Verthash := V\<rparr>) = verifyPending E"
  by (intro ext, simp only: unworked verifyPending_def)+

subsection \<open>The store and the found blocks\<close>

lemma key_unworked [unworked]:
  "shareKey (E\<lparr>e_Verthash := V\<rparr>) = shareKey E" "hash_or_zero (E\<lparr>e_Verthash := V\<rparr>) = hash_or_zero E"
  "hash_text (E\<lparr>e_Verthash := V\<rparr>) = hash_text E"
  by (intro ext, simp only: unworked shareKey_def hash_or_zero_def hash_text_def)+

lemma write_unworked [unworked]:
  "writeLocked (E\<lparr>e_Verthash := V\<rparr>) = writeLocked E" "from_disk (E\<lparr>e_Verthash := V\<rparr>) = from_disk E"
  "to_disk (E\<lparr>e_Verthash := V\<rparr>) = to_disk E"
  by (intro ext, simp only: unworked writeLocked_def from_disk_def to_disk_def)+

lemma commit_unworked [unworked]:
  "Commit (E\<lparr>e_Verthash := V\<rparr>) = Commit E" "merge_block (E\<lparr>e_Verthash := V\<rparr>) = merge_block E"
  "saveBlocksLocked (E\<lparr>e_Verthash := V\<rparr>) = saveBlocksLocked E"
  by (intro ext, simp only: unworked Commit_def merge_block_def saveBlocksLocked_def)+

lemma merge_unworked [unworked]:
  "MergeRemoteBlocksJSON (E\<lparr>e_Verthash := V\<rparr>) = MergeRemoteBlocksJSON E"
  by (intro ext, simp only: unworked MergeRemoteBlocksJSON_def)+

subsection \<open>A batch that carries its hashes\<close>

definition hashed :: "Share \<Rightarrow> bool" where
  "hashed s \<longleftrightarrow> s_Hash s \<noteq> None \<and> s_POWHash s \<noteq> None"

lemma hashed_kept_as_is: "hashed s \<Longrightarrow> with_hash E s = s" "hashed s \<Longrightarrow> with_pow E s = s"
  by (auto simp: hashed_def with_hash_def with_pow_def)

lemma add_loop_unworked:
  assumes "\<forall>s \<in> set ps. hashed s"
  shows "add_loop (E\<lparr>e_Verthash := V\<rparr>) now sc ps = add_loop E now sc ps"
proof -
  have "add_one (E\<lparr>e_Verthash := V\<rparr>) now sc s = add_one E now sc s" if "hashed s" for sc s
    unfolding add_one_def Let_def by (simp only: hashed_kept_as_is[OF that] unworked)
  then show ?thesis using assms by (induction ps arbitrary: sc) simp_all
qed

lemma AddShares_unworked:
  assumes "\<forall>s \<in> set ps. hashed s"
  shows "AddShares (E\<lparr>e_Verthash := V\<rparr>) now info ps sc = AddShares E now info ps sc"
  by (simp only: AddShares_def AddSharesOutcomes_def add_loop_unworked[OF assms] unworked)

end
