(* ===== verification/Wiring.thy ===== *)
theory Wiring
  imports Stratum Peers Unworked
begin

text \<open>
  The program as \<open>main.go\<close> puts it together: the validator of gossiped shares, the loop that adds the shares of
  peers, the callbacks the node gets (\<open>GetSyncDataFunc\<close>, \<open>OnSyncDataFunc\<close>, \<open>GetBestShareFunc\<close>), the shares of the
  node's own miners, the periodic save, the statistics line and the guards of the local HTTP interface. The state
  holds the node, the stratum server with its work manager and share chain, and the open database, so a run of the
  program interleaves the steps of all components.
\<close>

subsection \<open>The state of the program\<close>

text \<open>\<open>ap_found\<close> is the channel \<open>FoundBlockChan\<close> of the share chain; \<open>ap_published\<close> lists the shares handed to \<open>BroadcastShare\<close>.\<close>

record 'db App =
  ap_node :: Node
  ap_server :: StratumServer
  ap_db :: "'db option"
  ap_found :: "Share list"
  ap_published :: "Share list"

abbreviation ap_chain :: "'db App \<Rightarrow> ShareChain" where "ap_chain a \<equiv> sv_chain (ap_server a)"

definition ap_store :: "'db App \<Rightarrow> 'db ShareStore" where
  "ap_store a = \<lparr>ss_chain = ap_chain a, ss_db = ap_db a\<rparr>"

definition set_wm :: "WorkManager \<Rightarrow> 'db App \<Rightarrow> 'db App" where
  "set_wm wm a = a\<lparr>ap_server := (ap_server a)\<lparr>sv_wm := wm\<rparr>\<rparr>"

definition set_store :: "'db ShareStore \<Rightarrow> 'db App \<Rightarrow> 'db App" where
  "set_store st a = (set_wm ((sv_wm (ap_server a))\<lparr>wm_ShareChain := ss_chain st\<rparr>) a)\<lparr>ap_db := ss_db st\<rparr>"

definition set_chain :: "ShareChain \<Rightarrow> 'db App \<Rightarrow> 'db App" where
  "set_chain sc a = set_store (ap_store a\<lparr>ss_chain := sc\<rparr>) a"

lemma set_simps [simp]:
  "ap_store (set_store st a) = st" "ap_store (set_chain sc a) = (ap_store a)\<lparr>ss_chain := sc\<rparr>" "ss_chain (ap_store a) = ap_chain a"
  "ap_node (set_store st a) = ap_node a" "ap_node (set_chain sc a) = ap_node a" "ap_node (set_wm wm a) = ap_node a"
  "ap_found (set_store st a) = ap_found a" "ap_found (set_chain sc a) = ap_found a" "ap_found (set_wm wm a) = ap_found a"
  "ap_chain (set_store st a) = ss_chain st" "ap_chain (set_chain sc a) = sc" "ap_chain (set_wm wm a) = wm_ShareChain wm"
  "ap_db (set_wm wm a) = ap_db a" "ap_server (set_wm wm a) = (ap_server a)\<lparr>sv_wm := wm\<rparr>"
  by (simp_all add: ap_store_def set_store_def set_chain_def set_wm_def)

lemma set_server:
  "ap_server (set_store st a) = (ap_server a)\<lparr>sv_wm := (sv_wm (ap_server a))\<lparr>wm_ShareChain := ss_chain st\<rparr>\<rparr>"
  "ap_server (set_chain sc a) = (ap_server a)\<lparr>sv_wm := (sv_wm (ap_server a))\<lparr>wm_ShareChain := sc\<rparr>\<rparr>"
  by (simp_all add: set_store_def set_chain_def set_wm_def)

lemma ap_store_cong: "ap_store (a\<lparr>ap_node := n\<rparr>) = ap_store a" "ap_store (a\<lparr>ap_found := f\<rparr>) = ap_store a"
  "ap_store (a\<lparr>ap_published := p\<rparr>) = ap_store a"
  by (simp_all add: ap_store_def)

subsection \<open>Shares of peers\<close>

text \<open>A message is \<open>None\<close> when it does not decode to a share.\<close>

definition validateGossipShare :: "env \<Rightarrow> time \<Rightarrow> Share option \<Rightarrow> ShareVerdict" where
  "validateGossipShare E now b =
     (case b of
        None \<Rightarrow> ShareReject
      | Some sh \<Rightarrow>
          if CheckShareTime sh now \<noteq> '''' then ShareIgnore
          else if \<not> CheckShareTargetFloor sh then ShareReject
          else (case CalculateHashes E sh of
                  Inl _ \<Rightarrow> ShareReject
                | Inr s \<Rightarrow> if fst (IsValid E s) then ShareAccept else ShareReject))"

text \<open>The body of the loop over \<open>IncomingShares\<close>. \<open>None\<close> is a panic (\<open>POWHash\<close> nil); the flag tells whether the peer is
  disconnected.\<close>

definition score_outcome :: "string \<Rightarrow> ShareOutcome \<Rightarrow> Node \<Rightarrow> bool \<times> Node" where
  "score_outcome from oc nd =
     (case oc of ShareAccepted \<Rightarrow> RecordShareOutcome from False nd
               | ShareInvalid \<Rightarrow> RecordShareOutcome from True nd | _ \<Rightarrow> (False, nd))"

definition reject_message :: "string \<Rightarrow> 'db App \<Rightarrow> 'db App \<times> bool \<times> task list" where
  "reject_message from a = (let (hit, nd) = RecordShareOutcome from True (ap_node a) in (a\<lparr>ap_node := nd\<rparr>, hit, []))"

definition incoming_share ::
  "env \<Rightarrow> time \<Rightarrow> MiningInfo option \<Rightarrow> Share option \<Rightarrow> string \<Rightarrow> 'db App \<Rightarrow> ('db App \<times> bool \<times> task list) option" where
  "incoming_share E now info data from a =
     (case data of
        None \<Rightarrow> Some (reject_message from a)
      | Some s0 \<Rightarrow>
          (case CalculateHashes E s0 of
             Inl _ \<Rightarrow> Some (reject_message from a)
           | Inr s \<Rightarrow>
               (case AddSharesOutcomes E now info [s] (ap_chain a) of
                  (outcomes, n, sc) \<Rightarrow>
                    (let (hit, nd) = score_outcome from (outcomes ! 0) (ap_node a);
                         a1 = (set_chain sc a)\<lparr>ap_node := nd\<rparr>
                     in case s_POWHash s of
                          None \<Rightarrow> None
                        | Some pow \<Rightarrow>
                            if 0 < n
                            then Some (if big_SetBytes pow \<le> e_CompactToBig E (mh_Bits (s_MinHeader s)) \<and> length (ap_found a1) < 100
                                       then a1\<lparr>ap_found := ap_found a1 @ [s]\<rparr> else a1, hit, NotifyNewShare (ap_server a1))
                            else Some (a1, hit, [])))))"

subsection \<open>Synchronisation callbacks\<close>

definition GetSyncData :: "env \<Rightarrow> bool \<Rightarrow> 'db App \<Rightarrow> Share list option \<times> persistedBlock list" where
  "GetSyncData E withShares a =
     ((if withShares then Some (GetSharesForSync E (ap_chain a) 10000) else None), GetPersistedBlocksJSON E (sv_wm (ap_server a)))"

definition GetBestShare :: "env \<Rightarrow> 'db App \<Rightarrow> string" where
  "GetBestShare E a =
     (case GetTipHash (ap_chain a) of
        Some tip \<Rightarrow> if HasShare (ap_chain a) (e_HashString E tip) then e_HashString E tip else ''''
      | None \<Rightarrow> '''')"

text \<open>The payload of a peer: \<open>None\<close> for a part that is empty or does not decode. The flag asks the peers for templates.\<close>

definition hydrate ::
  "env \<Rightarrow> ('db, 'x) bolt_scheme \<Rightarrow> time \<Rightarrow> MiningInfo option \<Rightarrow> Share list option \<Rightarrow> 'db App \<Rightarrow> 'db App" where
  "hydrate E B now info shares a =
     (case shares of
        Some ps \<Rightarrow>
          if ps \<noteq> [] then (let (n, sc) = AddShares E now info ps (ap_chain a); a1 = set_chain sc a
                            in if 0 < n then set_store (snd (Commit E B (ap_store a1))) a1 else a1)
          else a
      | None \<Rightarrow> a)"

definition OnSyncData ::
  "env \<Rightarrow> ('db, 'x) bolt_scheme \<Rightarrow> time \<Rightarrow> MiningInfo option \<Rightarrow> Share list option \<Rightarrow> persistedBlock list option \<Rightarrow> 'db App \<Rightarrow> 'db App \<times> bool" where
  "OnSyncData E B now info shares blocks a =
     (let a1 = hydrate E B now info shares a;
          a2 = set_wm (snd (MergeRemoteBlocksJSON E blocks (sv_wm (ap_server a1)))) a1
      in (a2, c_LightMode (e_Active E)))"

subsection \<open>Own shares, saving, and the local interface\<close>

text \<open>The goroutine \<open>handleSubmit\<close> starts for a share (task \<open>AddShare\<close>).\<close>

definition add_own_share :: "env \<Rightarrow> time \<Rightarrow> MiningInfo option \<Rightarrow> Share \<Rightarrow> 'db App \<Rightarrow> 'db App \<times> task list" where
  "add_own_share E now info s a =
     (let (n, sc) = AddShares E now info [s] (ap_chain a); a1 = set_chain sc a
      in (a1\<lparr>ap_published := ap_published a1 @ [s]\<rparr>, if 0 < n then NotifyNewShare (ap_server a1) else []))"

definition autosave :: "env \<Rightarrow> ('db, 'x) bolt_scheme \<Rightarrow> 'db App \<Rightarrow> 'db App" where
  "autosave E B a = set_store (snd (Commit E B (ap_store a))) a"

definition loopback :: "string \<Rightarrow> bool" where
  "loopback h \<longleftrightarrow> h = ''127.0.0.1'' \<or> h = ''::1''"

text \<open>\<open>/api/shutdown\<close>: the status and whether the shutdown signal is sent; \<open>/api/shares\<close>: the shares, unless forbidden.\<close>

definition api_shutdown :: "string \<Rightarrow> string \<Rightarrow> string \<Rightarrow> string \<Rightarrow> nat \<times> bool" where
  "api_shutdown shutdownToken httpMethod h hdr =
     (if httpMethod \<noteq> ''POST'' \<or> \<not> loopback h \<or> shutdownToken = '''' \<or> hdr \<noteq> shutdownToken then (403, False) else (200, True))"

definition api_shares :: "string \<Rightarrow> string \<Rightarrow> int \<Rightarrow> 'db App \<Rightarrow> Share list option" where
  "api_shares httpMethod h limit a =
     (if httpMethod \<noteq> ''GET'' \<or> \<not> loopback h then None else Some (ExportShares limit (ap_chain a)))"

definition p2p_port :: "int \<Rightarrow> int" where
  "p2p_port port = (if port \<le> 0 then 4001 else port)"

definition log_level :: "string \<Rightarrow> nat" where
  "log_level l = (if l = ''debug'' then 3 else if l = ''info'' then 2 else if l = ''warn'' then 1 else if l = ''error'' then 0 else 2)"

text \<open>The two figures of \<open>logStats\<close> that are not read off directly: the pool's hash rate and the time to a block.\<close>

definition effectivePoolHashrate :: "nat \<Rightarrow> rat \<Rightarrow> rat \<Rightarrow> rat" where
  "effectivePoolHashrate peerCount localHashrate poolHashrate =
     (if peerCount = 0 \<or> poolHashrate < localHashrate then localHashrate else poolHashrate)"

definition effectiveTimeToBlock :: "rat \<Rightarrow> rat \<Rightarrow> rat \<Rightarrow> rat" where
  "effectiveTimeToBlock effective networkHashrate timeToBlock =
     (if 0 < effective \<and> 0 < networkHashrate then fmul (fdiv networkHashrate effective) 150 else timeToBlock)"

subsection \<open>Runs of the program\<close>

lemma served_wm:
  "sv_wm (register_miner m sv) = sv_wm sv" "sv_wm (handleSubscribe i rid sv) = sv_wm sv"
  "sv_wm (fst (handleAuthorize E pf now i rid params sv)) = sv_wm sv" "sv_wm (dropClient now i sv) = sv_wm sv"
  "sv_wm (fst (snd (vardiff_tick E now i mx sv))) = sv_wm sv" "sv_wm (fst (sendMiningJob E now ok ord i t clean sv)) = sv_wm sv"
  by (simp_all add: register_miner_def handleSubscribe_def handleAuthorize_def dropClient_def vardiff_tick_def sendMiningJob_def
      sendDifficulty_def Let_def case_prod_beta split: option.split list.split sum.split)

lemma broadcast_wm: "jobBroadcaster E t sv = Some (sv', ts) \<Longrightarrow> sv_wm sv' = sv_wm sv"
  by (auto simp: jobBroadcaster_def Let_def)

lemma judge_wm: "sv_wm (fst (judge_share E force now i rid jobID job s sv)) = sv_wm sv"
  by (simp add: judge_share_def credit_share_def reject_def Let_def case_prod_beta split: option.split sum.split)

lemma submit_wm:
  assumes "handleSubmit E force now i rid params sv = Some (sv', ts)" shows "sv_wm sv' = sv_wm sv"
proof -
  have j: "sv_wm x = sv_wm sv" if "judge_share E force now i rid jobID job s (mark_submitted i jobID key sv) = (x, y)" for jobID job s key x y
    using judge_wm[of E force now i rid jobID job s "mark_submitted i jobID key sv"] that by simp
  show ?thesis using assms unfolding handleSubmit_def Let_def
    by (auto simp: reject_def split: option.splits list.splits if_splits sum.splits create_error.splits intro: j)
qed

text \<open>A batch that leaves the chain without loops.\<close>

definition fit_batch :: "env \<Rightarrow> (string \<Rightarrow> nat) \<Rightarrow> time \<Rightarrow> Share list \<Rightarrow> 'db App \<Rightarrow> bool" where
  "fit_batch E r now shs a \<longleftrightarrow> (\<forall>sh \<in> set shs. s_Hash (with_hash E sh) \<noteq> None \<longrightarrow> batch_key E sh \<noteq> '''')
     \<and> ranked E (sc_shares (fst (add_loop E now (ap_chain a) shs))) r"

text \<open>The runs of the program, one step after another: the miners' requests, shares and payloads of peers, saves and maintenance,
  other work of the manager, and peers that come and go, in any order. A run lists the submissions credited so far, the
  database it started from and the shares it has handed to the share chain.\<close>

definition handed_in :: "env \<Rightarrow> Share option \<Rightarrow> Share list" where
  "handed_in E data = (case data of Some s0 \<Rightarrow> (case CalculateHashes E s0 of Inr s \<Rightarrow> [s] | Inl _ \<Rightarrow> []) | None \<Rightarrow> [])"

definition payload :: "Share list option \<Rightarrow> Share list" where
  "payload shares = (case shares of Some ps \<Rightarrow> ps | None \<Rightarrow> [])"

inductive app_run :: "env \<Rightarrow> ('db, 'x) bolt_scheme \<Rightarrow> netlib \<Rightarrow> 'db \<Rightarrow> 'db App \<Rightarrow> credit list \<Rightarrow> Share list \<Rightarrow> bool"
  for E B L db where
  start: "app_run E B L db a [] []"
    if "sv_miners (ap_server a) = []" "nd_bootstrapPeers (ap_node a) = []" "db_ok B db"
      "load E B (Some db) False jf renamed now info empty_store = (None, ap_store a)"
| incoming: "app_run E B L db a' cr (handed_in E data @ got)"
    if "app_run E B L db a cr got" "incoming_share E now info data from a = Some (a', hit, ts)"
| synced: "app_run E B L db (fst (OnSyncData E B now info shares blocks a)) cr (payload shares @ got)"
    if "app_run E B L db a cr got"
| own: "app_run E B L db (fst (add_own_share E now info s a)) cr (s # got)" if "app_run E B L db a cr got"
| saved: "app_run E B L db (autosave E B a) cr got" if "app_run E B L db a cr got"
| maintained: "app_run E B L db (set_chain (maintenanceRound E now info (ap_chain a)) a) cr got" if "app_run E B L db a cr got"
| manager: "app_run E B L db (set_wm wm a) cr got" if "app_run E B L db a cr got" "wm_ShareChain wm = ap_chain a"
| connect: "app_run E B L db (a\<lparr>ap_server := register_miner (NewMiner i rnd host now) (ap_server a)\<rparr>) cr got"
    if "app_run E B L db a cr got" "miner (ap_server a) i = None"
| subscribe: "app_run E B L db (a\<lparr>ap_server := handleSubscribe i rid (ap_server a)\<rparr>) cr got" if "app_run E B L db a cr got"
| authorize: "app_run E B L db (a\<lparr>ap_server := fst (handleAuthorize E pf now i rid params (ap_server a))\<rparr>) cr got"
    if "app_run E B L db a cr got"
| leave: "app_run E B L db (a\<lparr>ap_server := dropClient now i (ap_server a)\<rparr>) cr got" if "app_run E B L db a cr got"
| tick: "app_run E B L db (a\<lparr>ap_server := fst (snd (vardiff_tick E now i mx (ap_server a)))\<rparr>) cr got" if "app_run E B L db a cr got"
| job: "app_run E B L db (a\<lparr>ap_server := fst (sendMiningJob E now ok ord i t clean (ap_server a))\<rparr>) cr got"
    if "app_run E B L db a cr got" "sv_jobCounter (ap_server a) + 1 \<noteq> 0"
| broadcast: "app_run E B L db (a\<lparr>ap_server := sv'\<rparr>) cr got"
    if "app_run E B L db a cr got" "sv_jobCounter (ap_server a) + 1 \<noteq> 0" "jobBroadcaster E t (ap_server a) = Some (sv', ts)"
| submit: "app_run E B L db (a\<lparr>ap_server := sv'\<rparr>) (credit_of E now i params (ap_server a) sv' @ cr) got"
    if "app_run E B L db a cr got" "handleSubmit E force now i rid params (ap_server a) = Some (sv', ts)"
| peer_joins: "app_run E B L db (a\<lparr>ap_node := dialled L ok d (ap_node a)\<rparr>) cr got" if "app_run E B L db a cr got"
| peer_leaves: "app_run E B L db (a\<lparr>ap_node := peer_left pid peers (ap_node a)\<rparr>) cr got" if "app_run E B L db a cr got"
| peers_told: "app_run E B L db (a\<lparr>ap_node := fst (ExchangePeers L ok dhtOk reply (ap_node a))\<rparr>) cr got" if "app_run E B L db a cr got"

text \<open>What a component sees of a run is a run of the component; for the store, as long as the parent links of the shares it
  got do not loop.\<close>

definition stored_run :: "env \<Rightarrow> ('db, 'x) bolt_scheme \<Rightarrow> 'db \<Rightarrow> 'db ShareStore \<Rightarrow> Share list \<Rightarrow> bool" where
  "stored_run E B db st got \<longleftrightarrow> (\<forall>r. db_ranked E B db r \<longrightarrow> (\<forall>sh \<in> set got. forward E r sh) \<longrightarrow> store_state E B r st)"

definition runs :: "env \<Rightarrow> ('db, 'x) bolt_scheme \<Rightarrow> netlib \<Rightarrow> 'db \<Rightarrow> 'db App \<Rightarrow> credit list \<Rightarrow> Share list \<Rightarrow> bool" where
  "runs E B L db a cr got \<longleftrightarrow> stratum_run E (ap_server a) cr \<and> stored_run E B db (ap_store a) got \<and> node_run L (ap_node a)"

lemma runsD: assumes "runs E B L db a cr got" shows "stratum_run E (ap_server a) cr" "stored_run E B db (ap_store a) got" "node_run L (ap_node a)"
  using assms by (simp_all add: runs_def)

lemma runs_server:
  assumes "runs E B L db a cr got" "stratum_run E sv' cr'" "sv_wm sv' = sv_wm (ap_server a)"
  shows "runs E B L db (a\<lparr>ap_server := sv'\<rparr>) cr' got"
  using assms by (simp add: runs_def ap_store_def)

lemma runs_store:
  assumes "runs E B L db a cr got" "\<And>r. store_state E B r (ap_store a) \<Longrightarrow> \<forall>sh \<in> set ps. forward E r sh \<Longrightarrow> store_state E B r st"
  shows "runs E B L db (set_store st a) cr (ps @ got)"
  using assms stratum_run.manager by (auto simp: runs_def stored_run_def set_server)

lemma runs_more: "runs E B L db a cr got \<Longrightarrow> runs E B L db a cr (ps @ got)"
  by (auto simp: runs_def stored_run_def)

lemma runs_add:
  assumes "runs E B L db a cr got"
  shows "runs E B L db (set_chain (snd (AddShares E now info shs (ap_chain a))) a) cr (shs @ got)"
  unfolding set_chain_def by (rule runs_store[OF assms]) (use store_state.added in fastforce)

lemma runs_node:
  assumes "runs E B L db a cr got" "node_run L nd" shows "runs E B L db (a\<lparr>ap_node := nd\<rparr>) cr got"
  using assms by (simp add: runs_def ap_store_cong)

lemma runs_save:
  assumes "runs E B L db a cr got" shows "runs E B L db (set_store (snd (Commit E B (ap_store a))) a) cr got"
  by (rule runs_store[OF assms, of "[]", simplified]) (rule store_state.committed)

lemma runs_wm:
  assumes "runs E B L db a cr got" "wm_ShareChain wm = ap_chain a" shows "runs E B L db (set_wm wm a) cr got"
  using assms stratum_run.manager by (auto simp: runs_def ap_store_def)

lemma incoming_cases:
  assumes "incoming_share E now info data from a = Some (a', hit, ts)"
  obtains (rejected) "a' = a\<lparr>ap_node := snd (RecordShareOutcome from True (ap_node a))\<rparr>" "\<And>s0 s. data = Some s0 \<Longrightarrow> CalculateHashes E s0 \<noteq> Inr s"
  | (added) s0 s outs n sc pow where "data = Some s0" "CalculateHashes E s0 = Inr s" "AddSharesOutcomes E now info [s] (ap_chain a) = (outs, n, sc)"
      "s_POWHash s = Some pow" "a' = (set_chain sc a)\<lparr>ap_node := snd (score_outcome from (outs ! 0) (ap_node a)),
        ap_found := if 0 < n \<and> big_SetBytes pow \<le> e_CompactToBig E (mh_Bits (s_MinHeader s)) \<and> length (ap_found a) < 100
                    then ap_found a @ [s] else ap_found a\<rparr>"
proof (cases "\<exists>s0 s. data = Some s0 \<and> CalculateHashes E s0 = Inr s")
  case False
  then have "incoming_share E now info data from a = Some (reject_message from a)"
    by (auto simp: incoming_share_def split: option.split sum.split)
  then show ?thesis using assms False by (intro rejected) (auto simp: reject_message_def case_prod_beta)
next
  case True
  then obtain s0 s where s: "data = Some s0" "CalculateHashes E s0 = Inr s" by blast
  obtain outs n sc where o: "AddSharesOutcomes E now info [s] (ap_chain a) = (outs, n, sc)" by (metis prod_cases3)
  obtain pow where p: "s_POWHash s = Some pow"
    using assms by (cases "s_POWHash s") (simp_all add: incoming_share_def s o case_prod_beta)
  have "ap_found (set_chain sc a) = ap_found a" by simp
  then have "a' = (set_chain sc a)\<lparr>ap_node := snd (score_outcome from (outs ! 0) (ap_node a)),
        ap_found := if 0 < n \<and> big_SetBytes pow \<le> e_CompactToBig E (mh_Bits (s_MinHeader s)) \<and> length (ap_found a) < 100
                    then ap_found a @ [s] else ap_found a\<rparr>"
    using assms by (auto simp: incoming_share_def s o p case_prod_beta Let_def split: if_splits)
  then show ?thesis by (rule added[OF s o p])
qed

lemma node_run_score: "node_run L nd \<Longrightarrow> node_run L (snd (score_outcome from oc nd))"
  by (cases oc) (simp_all add: score_outcome_def node_run.outcome)

lemma runs_incoming:
  assumes r: "runs E B L db a cr got" and i: "incoming_share E now info data from a = Some (a', hit, ts)"
  shows "runs E B L db a' cr (handed_in E data @ got)"
  using i
proof (cases rule: incoming_cases)
  case rejected
  then show ?thesis using runs_more[OF runs_node[OF r node_run.outcome[OF runsD(3)[OF r]]]] by simp
next
  case (added s0 s outs n sc pow)
  have sc: "sc = snd (AddShares E now info [s] (ap_chain a))" and h: "handed_in E data = [s]"
    by (simp_all add: AddShares_def handed_in_def added(1-3))
  have "runs E B L db (set_chain sc a) cr (handed_in E data @ got)" unfolding sc h by (rule runs_add[OF r])
  then have "runs E B L db ((set_chain sc a)\<lparr>ap_node := snd (score_outcome from (outs ! 0) (ap_node a))\<rparr>) cr (handed_in E data @ got)"
    using r by (intro runs_node node_run_score) (simp_all add: runs_def)
  then show ?thesis by (simp add: added(5) runs_def ap_store_def)
qed

lemma merge_chain: "wm_ShareChain (snd (MergeRemoteBlocksJSON E blocks wm)) = wm_ShareChain wm"
  by (simp add: MergeRemoteBlocksJSON_def saveBlocksLocked_def Let_def case_prod_beta split: option.split)

lemma runs_hydrate:
  assumes "runs E B L db a cr got"
  shows "runs E B L db (hydrate E B now info shares a) cr (payload shares @ got)"
proof (cases shares)
  case (Some ps)
  note ad = runs_add[OF assms(1), of now info ps]
  show ?thesis using assms runs_more[OF assms] ad runs_save[OF ad] by (simp add: hydrate_def payload_def Some case_prod_beta Let_def)
qed (simp add: hydrate_def payload_def assms)

lemma runs_sync:
  assumes "runs E B L db a cr got"
  shows "runs E B L db (fst (OnSyncData E B now info shares blocks a)) cr (payload shares @ got)"
  using runs_wm[OF runs_hydrate[OF assms]] by (simp add: OnSyncData_def Let_def merge_chain)

lemma runs_own:
  assumes "runs E B L db a cr got" shows "runs E B L db (fst (add_own_share E now info s a)) cr (s # got)"
  using runs_add[OF assms, of now info "[s]"] by (simp add: add_own_share_def Let_def case_prod_beta runs_def ap_store_def)

lemma app_runs: "app_run E B L db a cr got \<Longrightarrow> runs E B L db a cr got"
proof (induction rule: app_run.induct)
  case (start a jf renamed now info)
  then show ?case by (auto simp: runs_def stored_run_def idle_def intro: stratum_run.start node_run.start store_state.loaded)
next
  case (maintained a cr got now info)
  have "runs E B L db (set_chain (maintenanceRound E now info (ap_chain a)) a) cr ([] @ got)" unfolding set_chain_def
    by (rule runs_store[OF maintained.IH]) (use store_state.maintained in fastforce)
  then show ?case by simp
next
  case (job a cr got now ok ord i t clean)
  show ?case by (rule runs_server[OF job.IH stratum_run.job[OF runsD(1)[OF job.IH] job.hyps(2)]]) (simp add: served_wm)
next
  case (broadcast a cr got t sv' ts)
  show ?case by (rule runs_server[OF broadcast.IH stratum_run.broadcast[OF runsD(1)[OF broadcast.IH] broadcast.hyps(2,3)]])
      (rule broadcast_wm[OF broadcast.hyps(3)])
next
  case (submit a cr got force now i rid params sv' ts)
  show ?case by (rule runs_server[OF submit.IH stratum_run.submit[OF runsD(1)[OF submit.IH] submit.hyps(2)]]) (rule submit_wm[OF submit.hyps(2)])
next
  case (connect a cr got i rnd host now)
  show ?case by (rule runs_server[OF connect.IH stratum_run.connect[OF runsD(1)[OF connect.IH] connect.hyps(2)]]) (simp add: served_wm)
next
  case (subscribe a cr got i rid)
  show ?case by (rule runs_server[OF subscribe.IH stratum_run.subscribe[OF runsD(1)[OF subscribe.IH]]]) (simp add: served_wm)
next
  case (authorize a cr got pf now i rid params)
  show ?case by (rule runs_server[OF authorize.IH stratum_run.authorize[OF runsD(1)[OF authorize.IH]]]) (simp add: served_wm)
next
  case (leave a cr got now i)
  show ?case by (rule runs_server[OF leave.IH stratum_run.leave[OF runsD(1)[OF leave.IH]]]) (simp add: served_wm)
next
  case (tick a cr got now i mx)
  show ?case by (rule runs_server[OF tick.IH stratum_run.tick[OF runsD(1)[OF tick.IH]]]) (simp add: served_wm)
qed (simp_all add: autosave_def runs_incoming runs_sync runs_own runs_save runs_wm runs_node runsD(3) node_run.dial node_run.left node_run.exchange)

text \<open>C7: In every run of the program in which each step runs to its end before the next, whatever miners and peers send and in
  whatever order: no submission (miner, job, extranonce, time and nonce) is credited twice, and a miner's count is the number of
  its credits; the node remembers at most 64 peers, none of them itself; and, provided the parent links of the shares in the
  database and of the shares it got do not loop (a rank falls along them), the share chain is consistent and every difference
  between the chain and the database is marked for the next save.\<close>

theorem program_consistent:
  assumes "hash_strings E" "\<forall>k. e_HashString E k \<noteq> ''''" "bolt_ok B" "app_run E B L db a cr got"
  shows "distinct (map (\<lambda>(i, jobID, key, h). (i, jobID, key)) cr)
    \<and> (\<forall>i c. miner (ap_server a) i = Some c \<longrightarrow> m_AcceptedShares c = of_nat (length (filter (\<lambda>x. fst x = i) cr)))
    \<and> length (nd_bootstrapPeers (ap_node a)) \<le> 64 \<and> (\<forall>p \<in> set (nd_bootstrapPeers (ap_node a)). l_AddrInfo L p \<noteq> Some (nd_ID (ap_node a)))
    \<and> (\<forall>r. db_ranked E B db r \<longrightarrow> (\<forall>sh \<in> set got. forward E r sh) \<longrightarrow>
         sc_inv E (ap_chain a) \<and> (\<exists>db'. ap_db a = Some db' \<and> synced E B (ap_chain a) db'))"
proof -
  note r = runsD[OF app_runs[OF assms(4)]]
  have "sc_inv E (ap_chain a) \<and> (\<exists>db'. ap_db a = Some db' \<and> synced E B (ap_chain a) db')"
    if "db_ranked E B db r" "\<forall>sh \<in> set got. forward E r sh" for r
  proof -
    have "store_state E B r (ap_store a)" using r(2) that unfolding stored_run_def by blast
    from store_state_inv[OF assms(1-3) this] show ?thesis by (simp add: store_inv_def ap_store_def)
  qed
  moreover have "peers_ok L (nd_ID (ap_node a)) (nd_bootstrapPeers (ap_node a))" by (rule run_peers_ok[OF r(3)])
  ultimately show ?thesis using run_credits[OF r(1)]
    by (auto simp: credits_ok_def counts_ok_def accepted_def peers_ok_def maxCachedPeers_def)
qed

subsection \<open>What a peer can make a node store\<close>

text \<open>The hashes of the share are those of its header, and its proof of work meets its target.\<close>

definition worked :: "env \<Rightarrow> Share \<Rightarrow> bool" where
  "worked E s \<longleftrightarrow> (\<exists>hdr b p pow. FullBlockHeader E s = Inr hdr \<and> s_Hash s = Some (e_BlockHash E hdr) \<and> e_HeaderBytes E hdr = Some b
     \<and> e_Verthash E b = Some p \<and> s_POWHash s = Some pow \<and> NewHash (ReverseBytes p) = Some pow \<and> fst (IsValid E s))"

lemma hashed_header [simp]: "FullBlockHeader E (s\<lparr>s_Hash := h\<rparr>) = FullBlockHeader E s" "FullBlockHeader E (s\<lparr>s_POWHash := p\<rparr>) = FullBlockHeader E s"
  "FullBlockHeader E (s\<lparr>s_decodedAddr := d\<rparr>) = FullBlockHeader E s"
  by (simp_all add: FullBlockHeader_def header_ts_def split: option.split)

lemma computed_worked:
  assumes "CalculateHashes E s0 = Inr s" "fst (IsValid E s)" shows "worked E s"
proof -
  have "s_POWHash s \<noteq> None" using assms(2) by (auto simp: IsValid_def split: option.splits)
  then show ?thesis using assms
    by (auto simp: CalculateHashes_def CalculateHash_def CalculatePOWHash_def worked_def split: sum.splits option.splits)
qed

lemma checks_frame: "CheckShareTime (s\<lparr>s_Hash := h, s_POWHash := p\<rparr>) now = CheckShareTime s now"
  "CheckShareTargetFloor (s\<lparr>s_Hash := h, s_POWHash := p\<rparr>) = CheckShareTargetFloor s"
  unfolding CheckShareTime_def CheckShareTargetFloor_def share_ts_def header_ts_def by (simp_all add: target_diff_def no_target_def)

lemma hashed_kept:
  assumes "CalculateHashes E s0 = Inr s" "s_POWHash s = Some pow" shows "with_hash E s = s" "with_pow E s = s"
  using CalculateHashes_frame(2)[OF assms(1)] assms(2) by (auto simp: with_hash_def with_pow_def)

lemma one_added:
  assumes inv: "sc_inv E sc" and fit: "s_Hash (with_hash E s) \<noteq> None \<longrightarrow> batch_key E s \<noteq> ''''" "ranked E (sc_shares (fst (add_loop E now sc [s]))) r"
    and ad: "AddSharesOutcomes E now info [s] sc = (outs, n, sc')" and h: "held sc' h = Some x" "held sc h = None"
  shows "x = (with_pow E (with_hash E s))\<lparr>s_decodedAddr := fst (DecodeShareAddress E (with_pow E (with_hash E s)))\<rparr> \<and> h = batch_key E s
    \<and> admissible E now s"
proof -
  have nm: "\<forall>sh \<in> set [s]. s_Hash (with_hash E sh) \<noteq> None \<longrightarrow> batch_key E sh \<noteq> ''''" using fit(1) by simp
  note b = batch_inv[OF inv nm fit(2)] and sp = named_batch_split[OF ad]
  have "held (fst (add_loop E now sc [s])) h = Some x"
    using verifyPending_inv(2)[OF b(1,2)] h(1) unfolding sp(3) b(3) map_le_def by (metis domI)
  then have "held (fst (add_one E now sc s)) h = Some x" by (simp add: case_prod_beta)
  then show ?thesis
    by (cases rule: add_one_cases[where E = E and now = now and sc = sc and sh = s]) (use h(2) in \<open>auto split: if_splits\<close>)
qed

text \<open>C8: Every share the loop over gossiped shares stores was hashed here: its hash and its proof of work are those of its own
  header, whatever hashes the message claimed, and the proof of work meets its target.\<close>

theorem incoming_checked:
  assumes "sc_inv E (ap_chain a)" "incoming_share E now info data from a = Some (a', hit, ts)"
    and "\<And>s0 s. data = Some s0 \<Longrightarrow> CalculateHashes E s0 = Inr s \<Longrightarrow> fit_batch E r now [s] a"
    and "held (ap_chain a') h = Some x" "held (ap_chain a) h = None"
  shows "worked E x"
  using assms(2)
proof (cases rule: incoming_cases)
  case rejected
  then show ?thesis using assms(4,5) by simp
next
  case (added s0 s outs n sc pow)
  note w = hashed_kept[OF added(2,4)]
  have f: "s_Hash (with_hash E s) \<noteq> None \<longrightarrow> batch_key E s \<noteq> ''''" "ranked E (sc_shares (fst (add_loop E now (ap_chain a) [s]))) r"
    using assms(3)[OF added(1,2)] by (simp_all add: fit_batch_def)
  have "ap_chain a' = sc" by (simp add: added(5))
  then have x: "x = s\<lparr>s_decodedAddr := fst (DecodeShareAddress E s)\<rparr>" "admissible E now s"
    using one_added[OF assms(1) f added(3), of h x] assms(4,5) by (simp_all add: w)
  have "worked E s" by (rule computed_worked[OF added(2)]) (use x(2) in \<open>simp add: admissible_def w\<close>)
  then show ?thesis by (simp add: x(1) worked_def)
qed

text \<open>A share the gossip validator accepts counts for or against the peer it came from only by what the chain found: for it
  when the share is then held and verified, against it when the chain refused it; a pending or known share changes nothing.\<close>

theorem gossip_scored:
  assumes "sc_inv E (ap_chain a)" "validateGossipShare E now data = ShareAccept" "incoming_share E now info data from a = Some (a', hit, ts)"
    and "\<And>s0 s. data = Some s0 \<Longrightarrow> CalculateHashes E s0 = Inr s \<Longrightarrow> fit_batch E r now [s] a"
  shows "\<exists>s0 s. data = Some s0 \<and> CalculateHashes E s0 = Inr s \<and>
    (ap_node a' = ap_node a
     \<or> ap_node a' = snd (RecordShareOutcome from False (ap_node a)) \<and> HasShare (ap_chain a') (batch_key E s) \<and> is_verified (ap_chain a') (batch_key E s)
     \<or> ap_node a' = snd (RecordShareOutcome from True (ap_node a)) \<and> \<not> HasShare (ap_chain a') (batch_key E s))"
  using assms(3)
proof (cases rule: incoming_cases)
  case rejected
  then show ?thesis using assms(2) by (auto simp: validateGossipShare_def split: option.splits if_splits sum.splits)
next
  case (added s0 s outs n sc pow)
  note w = hashed_kept[OF added(2,4)]
  have t: "CheckShareTime s now = CheckShareTime s0 now" "CheckShareTargetFloor s = CheckShareTargetFloor s0"
    using checks_frame[where s = s0 and h = "s_Hash s" and p = "s_POWHash s"] unfolding CalculateHashes_frame(1)[OF added(2), symmetric] by simp_all
  have ad: "admissible E now s"
    using assms(2) CalculateHashes_frame(2)[OF added(2)] by (auto simp: admissible_def w t validateGossipShare_def added(1,2) split: if_splits)
  have f: "\<forall>sh \<in> set [s]. s_Hash (with_hash E sh) \<noteq> None \<longrightarrow> batch_key E sh \<noteq> ''''" "ranked E (sc_shares (fst (add_loop E now (ap_chain a) [s]))) r"
    using assms(4)[OF added(1,2)] by (simp_all add: fit_batch_def)
  have c: "ap_chain a' = sc" "ap_node a' = snd (score_outcome from (outs ! 0) (ap_node a))" by (simp_all add: added(5))
  note o = outcomes_sound[OF assms(1) f added(3)]
  have o: "case outs ! 0 of
         ShareAccepted \<Rightarrow> admissible E now s \<and> HasShare sc (batch_key E s) \<and> is_verified sc (batch_key E s)
       | SharePending \<Rightarrow> admissible E now s \<and> HasShare sc (batch_key E s) \<and> \<not> is_verified sc (batch_key E s)
       | ShareDuplicate \<Rightarrow> HasShare (ap_chain a) (batch_key E s)
       | ShareInvalid \<Rightarrow> \<not> admissible E now s \<or> \<not> HasShare sc (batch_key E s)"
    using o by (auto simp: Let_def split: ShareOutcome.splits)
  show ?thesis unfolding c using o ad added(1,2) by (cases "outs ! 0") (auto simp: score_outcome_def)
qed

text \<open>C9: The payload of a peer is not hashed: when the shares of a synchronisation message carry their hashes, what the node
  stores, verifies, counts and saves is the same for every proof-of-work function, so the claimed work is taken on trust,
  whatever the chain, the database and the rest of the message.\<close>

theorem forged_share_synced:
  assumes "\<forall>s \<in> set ps. s_Hash s \<noteq> None \<and> s_POWHash s \<noteq> None"
  shows "OnSyncData (E\<lparr>e_Verthash := V\<rparr>) B now info (Some ps) blocks a = OnSyncData E B now info (Some ps) blocks a"
proof -
  have "\<forall>s \<in> set ps. hashed s" using assms by (simp add: hashed_def)
  then show ?thesis by (simp only: OnSyncData_def hydrate_def AddShares_unworked unworked option.case)
qed

text \<open>A share is queued as a found block only in the step it arrives by gossip, and only if that step verified a share: one that
  waits for its parent is not queued when it is verified later.\<close>

lemma found_on_arrival:
  assumes "incoming_share E now info data from a = Some (a', hit, ts)"
  shows "ap_found a' = ap_found a \<or> (\<exists>s0 s outs n sc. data = Some s0 \<and> CalculateHashes E s0 = Inr s
     \<and> AddSharesOutcomes E now info [s] (ap_chain a) = (outs, n, sc) \<and> 0 < n \<and> ap_found a' = ap_found a @ [s])"
  using assms by (cases rule: incoming_cases) auto

lemma found_elsewhere: "ap_found (fst (OnSyncData E B now info shares blocks a)) = ap_found a" "ap_found (fst (add_own_share E now info s a)) = ap_found a"
  by (simp_all add: OnSyncData_def hydrate_def add_own_share_def Let_def case_prod_beta split: option.split)

lemma incoming_total:
  assumes "\<And>b p. e_Verthash E b = Some p \<Longrightarrow> length p = 32"
  shows "incoming_share E now info data from a \<noteq> None"
proof (cases "\<exists>s0 s. data = Some s0 \<and> CalculateHashes E s0 = Inr s")
  case True
  then obtain s0 s where s: "data = Some s0" "CalculateHashes E s0 = Inr s" by blast
  then have "\<exists>b p. e_Verthash E b = Some p \<and> s_POWHash s = NewHash (ReverseBytes p)"
    by (auto simp: CalculateHashes_def CalculateHash_def CalculatePOWHash_def split: sum.splits option.splits) blast
  then obtain b p where "e_Verthash E b = Some p" "s_POWHash s = NewHash (ReverseBytes p)" by blast
  then have "s_POWHash s = Some (ReverseBytes p)" using assms[of b p] by (simp add: NewHash_def ReverseBytes_def)
  then show ?thesis by (simp add: incoming_share_def s case_prod_beta Let_def)
qed (auto simp: incoming_share_def reject_message_def case_prod_beta split: option.split sum.split)

subsection \<open>Examples\<close>

definition app_with :: "(hash \<times> doc) list ShareStore \<Rightarrow> (hash \<times> doc) list App" where
  "app_with st = set_store st \<lparr>ap_node = demo_node, ap_server = empty_server, ap_db = None, ap_found = [], ap_published = []\<rparr>"

abbreviation fresh_app :: "(hash \<times> doc) list App" where "fresh_app \<equiv> app_with \<lparr>ss_chain = NewShareChain, ss_db = Some []\<rparr>"

lemma app_with_simps: "ap_chain (app_with st) = ss_chain st" "ap_store (app_with st) = st"
  "ap_node (app_with st) = demo_node" "sv_miners (ap_server (app_with st)) = []"
  by (simp_all add: app_with_def) (simp_all add: set_server empty_server_def)

text \<open>An environment where every header does its work, and one where none does: every header hashes to the largest value.\<close>

definition work_env :: env where
  "work_env = store_env\<lparr>e_Deserialize := \<lambda>b. Some \<lparr>tx_Version = 1, tx_TxIn = [], tx_TxOut = [], tx_LockTime = 0\<rparr>\<rparr>"

definition lazy_env :: env where
  "lazy_env = work_env\<lparr>e_Verthash := \<lambda>b. Some (replicate 32 255)\<rparr>"

abbreviation lazy_key :: string where "lazy_key \<equiv> e_HashString work_env (demo_hash 0)"

lemma work_env_ok: "hash_strings work_env" "\<forall>k. e_HashString work_env k \<noteq> ''''"
  by (simp_all add: hash_strings_def work_env_def store_env_def hex_roundtrip)

lemma link_valid: "fst (IsValid work_env (demo_link 0))"
  by (simp add: demo_link_def IsValid_def demo_share_def shareHasStandardPayout_def IsStandardPayout_def demo_pow
      header_ts_def V2MandatoryActivationTime_def ShareVersionV1_def ShareVersionV2_def Let_def)

lemma link_hashed: "s_Hash (demo_link 0) = Some (demo_hash 0)" "s_POWHash (demo_link 0) \<noteq> None"
  by (simp_all add: demo_link_def demo_share_def)

lemma demo_link_time: "CheckShareTime (demo_link 0) 2000000000000 = ''''"
  by (simp add: CheckShareTime_def demo_link_def demo_share_def share_ts_def header_ts_def Unix_def MaxShareTimeFuture_def maxShareAge_def)

lemma demo_link_floor: "CheckShareTargetFloor (demo_link 0)"
proof -
  have "maxTarget \<le> DiffToTarget (1 / 2)"
  proof -
    have "(of_int maxTarget :: rat) \<le> of_int (DiffToTarget (1 / 2))"
      using DiffToTarget_close(1)[of "1 / 2"] by (simp add: maxTarget_def)
    then show ?thesis by (simp only: of_int_le_iff)
  qed
  then have "TargetToDiff (Some (DiffToTarget (1 / 2))) \<le> TargetToDiff (Some maxTarget)"
    by (intro TargetToDiff_antimono) (simp_all add: maxTarget_def)
  moreover have "9999 / 20000 \<le> TargetToDiff (Some (DiffToTarget (1 / 2)))" using TargetToDiff_DiffToTarget(1)[of "1 / 2"] by simp
  moreover have "f64 (4995 / 10000) \<le> 9999 / 20000" by code_simp
  ultimately have "f64 (4995 / 10000) \<le> TargetToDiff (Some maxTarget)" by linarith
  moreover have "target_diff (demo_link 0) = TargetToDiff (Some maxTarget)"
    by (simp add: target_diff_def no_target_def demo_link_def demo_share_def maxTarget_def)
  ultimately show ?thesis by (simp only: CheckShareTargetFloor_def)
qed

lemma lazy_gossip: "validateGossipShare lazy_env (seconds 2000) (Some (demo_link 0)) = ShareReject"
proof -
  have "\<not> big_SetBytes (replicate 32 255) \<le> (65535 * 2 ^ 216 :: int)" by code_simp
  moreover have "ReverseBytes (replicate 32 255) = replicate 32 255" by (simp add: ReverseBytes_rev)
  ultimately have "\<not> fst (IsValid lazy_env s)" if "CalculateHashes lazy_env (demo_link 0) = Inr s" for s
    using that by (auto simp: CalculateHashes_def CalculateHash_def CalculatePOWHash_def NewHash_def lazy_env_def work_env_def store_env_def demo_env_def demo_link_def demo_share_def
        IsValid_def split: sum.splits option.splits)
  then show ?thesis by (simp add: validateGossipShare_def demo_link_time demo_link_floor split: sum.split)
qed

text \<open>A share without a parent, from before the consensus rules, is verified when it is the first of a chain.\<close>

lemma first_added:
  assumes n: "sc_shares sc0 = []" "sc_verified sc0 = []"
    and h: "s_Hash s = Some hh" "e_HashString E hh = k" "k \<noteq> ''''" "s_POWHash s \<noteq> None"
    and ok: "CheckShareTime s now = ''''" "CheckShareTargetFloor s" "fst (IsValid E s)"
    and early: "no_parent (share_prev s)" "share_ts s < ConsensusV2ActivationTime"
  shows "\<exists>outs sc. AddSharesOutcomes E now info [s] sc0 = (outs, 1, sc) \<and> is_verified sc k
    \<and> held sc k = Some (s\<lparr>s_decodedAddr := fst (DecodeShareAddress E s)\<rparr>)"
proof -
  let ?cp = "s\<lparr>s_decodedAddr := fst (DecodeShareAddress E s)\<rparr>"
  have w: "with_hash E s = s" "with_pow E s = s" using h by (auto simp: with_hash_def with_pow_def)
  have a: "add_one E now sc0 s = (sc0\<lparr>sc_shares := [(k, ?cp)],
      sc_received := gm_set k now (sc_received sc0), sc_changes := sc_changes sc0 + 1\<rparr>, SharePending, k)"
    by (simp add: add_one_def w h ok n Let_def gm_set_def)
  define sc2 where "sc2 = addWorkLocked E [k] (fst (add_loop E now sc0 [s]))"
  have l: "snd (add_loop E now sc0 [s]) = [(SharePending, k)]" by (simp add: a)
  have f: "sc_shares sc2 = [(k, ?cp)]" "sc_verified sc2 = []"
    by (simp_all add: sc2_def addWorkLocked_def Let_def case_prod_beta a n)
  have p: "pending_shares E sc2 = [?cp]" by (simp add: pending_shares_def f h)
  have g: "no_parent (share_prev ?cp)" using early(1) by simp
  have t: "effectiveTimeLocked E sc2 ?cp (share_prev ?cp) < ConsensusV2ActivationTime"
    using g early(2) by (simp add: effectiveTimeLocked_def share_ts_def)
  have v: "verifyPending E sc2 = (1, [], markVerifiedLocked E k sc2)"
    using t g by (simp add: verifyPending_def p verify_one_def h f parent_ready_def Let_def case_prod_beta)
  have "AddSharesOutcomes E now info [s] sc0
      = (map (final_outcome (updateStats E now info (markVerifiedLocked E k sc2)) []) [(SharePending, k)], 1, updateStats E now info (markVerifiedLocked E k sc2))"
    using h(3) by (simp add: AddSharesOutcomes_def Let_def case_prod_beta l sc2_def[symmetric] v del: add_loop.simps)
  then show ?thesis by (intro exI conjI) (assumption, simp_all add: f)
qed

lemma fresh_fields: "sc_shares NewShareChain = []" "sc_verified NewShareChain = []"
  by (simp_all add: NewShareChain_def)

lemma demo_link_early: "no_parent (share_prev (demo_link 0))" "share_ts (demo_link 0) < ConsensusV2ActivationTime"
  by (simp_all add: demo_link_def demo_share_def no_parent_def share_ts_def ConsensusV2ActivationTime_def)

lemma link_added:
  defines "r \<equiv> AddShares work_env 2000000000000 None [demo_link 0] NewShareChain"
  shows "0 < fst r" "is_verified (snd r) lazy_key" "held (snd r) lazy_key \<noteq> None"
proof -
  have "lazy_key \<noteq> ''''" using work_env_ok(2) by blast
  from first_added[OF fresh_fields link_hashed(1) refl this link_hashed(2) demo_link_time demo_link_floor link_valid demo_link_early, of None]
  show "0 < fst r" "is_verified (snd r) lazy_key" "held (snd r) lazy_key \<noteq> None" by (auto simp: r_def AddShares_def)
qed

text \<open>A share whose header does no work, which the gossip validator rejects, is held and verified after it arrives in a
  synchronisation message with a hash and a proof of work written into it.\<close>

theorem forged_share_synced_witness:
  "validateGossipShare lazy_env 2000000000000 (Some (demo_link 0)) = ShareReject
   \<and> HasShare (ap_chain (fst (OnSyncData lazy_env list_bolt 2000000000000 None (Some [demo_link 0]) None fresh_app))) lazy_key
   \<and> is_verified (ap_chain (fst (OnSyncData lazy_env list_bolt 2000000000000 None (Some [demo_link 0]) None fresh_app))) lazy_key"
proof -
  have "\<forall>s \<in> set [demo_link 0]. s_Hash s \<noteq> None \<and> s_POWHash s \<noteq> None" by (simp add: link_hashed)
  from forged_share_synced[OF this]
  have e: "OnSyncData lazy_env list_bolt 2000000000000 None (Some [demo_link 0]) None fresh_app
      = OnSyncData work_env list_bolt 2000000000000 None (Some [demo_link 0]) None fresh_app" by (simp only: lazy_env_def)
  show ?thesis unfolding e using lazy_gossip link_added
    by (simp add: OnSyncData_def hydrate_def merge_chain Let_def case_prod_beta app_with_simps Commit_shares HasShare_def)
qed

text \<open>A share mined in the demonstration environment, where every header does its work.\<close>

definition work_share :: Share where
  "work_share = demo_link 0\<lparr>s_Hash := Some (replicate 28 0 @ be32 7), s_POWHash := Some (replicate 32 0)\<rparr>"

lemma work_hashes: "CalculateHashes work_env (demo_link 0) = Inr work_share"
  by (simp add: CalculateHashes_def CalculateHash_def CalculatePOWHash_def FullBlockHeader_def work_env_def store_env_def demo_env_def demo_link_def demo_share_def
      work_share_def NewHash_def ReverseBytes_rev)

lemma work_valid: "fst (IsValid work_env work_share)"
proof -
  have "big_SetBytes (replicate 32 0) = 0" by code_simp
  then show ?thesis by (simp add: work_share_def demo_link_def IsValid_def demo_share_def shareHasStandardPayout_def IsStandardPayout_def
      header_ts_def V2MandatoryActivationTime_def ShareVersionV1_def ShareVersionV2_def Let_def)
qed

lemma work_checks: "CheckShareTime work_share 2000000000000 = ''''" "CheckShareTargetFloor work_share"
  unfolding work_share_def checks_frame by (rule demo_link_time, rule demo_link_floor)

abbreviation work_key :: string where "work_key \<equiv> e_HashString work_env (replicate 28 0 @ be32 7)"

lemma work_named: "work_key \<noteq> ''''" using work_env_ok(2) by blast

lemma work_early: "no_parent (share_prev work_share)" "share_ts work_share < ConsensusV2ActivationTime"
  "s_Hash work_share = Some (replicate 28 0 @ be32 7)" "s_POWHash work_share = Some (replicate 32 0)"
  using demo_link_early by (simp_all add: work_share_def share_ts_def)

lemma work_fit: "fit_batch work_env (\<lambda>_. 0) 2000000000000 [work_share] fresh_app"
proof -
  have "with_hash work_env work_share = work_share" "with_pow work_env work_share = work_share" "batch_key work_env work_share = work_key"
    by (simp_all add: with_hash_def with_pow_def batch_key_def work_early)
  moreover have "no_parent (share_prev s)" if "map_of (sc_shares (fst (add_one work_env 2000000000000 NewShareChain work_share))) h = Some s" for h s
    using that by (cases rule: add_one_cases[where E = work_env and now = 2000000000000 and sc = NewShareChain and sh = work_share])
      (auto simp: calculation NewShareChain_def work_early split: if_splits)
  ultimately show ?thesis using work_named
    by (auto simp: fit_batch_def app_with_simps case_prod_beta intro!: demo_one_ranked)
qed

lemma work_incoming:
  "\<exists>a' hit ts. incoming_share work_env 2000000000000 None (Some (demo_link 0)) ''A'' fresh_app = Some (a', hit, ts) \<and> HasShare (ap_chain a') work_key"
proof -
  obtain outs sc where o: "AddSharesOutcomes work_env 2000000000000 None [work_share] NewShareChain = (outs, 1, sc)" "held sc work_key \<noteq> None"
    using first_added[OF fresh_fields work_early(3) refl work_named _ work_checks work_valid work_early(1,2), of None] by (auto simp: work_early)
  then show ?thesis by (simp add: incoming_share_def work_hashes app_with_simps work_early case_prod_beta Let_def HasShare_def)
qed

theorem incoming_checked_witness:
  "\<exists>a' hit ts x. incoming_share work_env 2000000000000 None (Some (demo_link 0)) ''A'' fresh_app = Some (a', hit, ts)
     \<and> held (ap_chain a') work_key = Some x \<and> worked work_env x"
proof -
  obtain a' hit ts x where i: "incoming_share work_env 2000000000000 None (Some (demo_link 0)) ''A'' fresh_app = Some (a', hit, ts)"
    "held (ap_chain a') work_key = Some x" using work_incoming by (auto simp: HasShare_def)
  have inv: "sc_inv work_env (ap_chain fresh_app)" using new_sc_inv by (simp add: app_with_simps)
  have "worked work_env x"
    by (rule incoming_checked[OF inv i(1) _ i(2), of "\<lambda>_. 0"]) (use work_fit work_hashes in \<open>auto simp: app_with_simps NewShareChain_def\<close>)
  then show ?thesis using i by blast
qed

theorem gossip_scored_witness:
  "validateGossipShare work_env 2000000000000 (Some (demo_link 0)) = ShareAccept \<and> (\<exists>a' hit ts.
     incoming_share work_env 2000000000000 None (Some (demo_link 0)) ''A'' fresh_app = Some (a', hit, ts) \<and> HasShare (ap_chain a') work_key
     \<and> (ap_node a' = demo_node \<or> ap_node a' = snd (RecordShareOutcome ''A'' False demo_node)))"
proof -
  have v: "validateGossipShare work_env 2000000000000 (Some (demo_link 0)) = ShareAccept"
    by (simp add: validateGossipShare_def demo_link_time demo_link_floor work_hashes work_valid)
  obtain a' hit ts where i: "incoming_share work_env 2000000000000 None (Some (demo_link 0)) ''A'' fresh_app = Some (a', hit, ts)"
    "HasShare (ap_chain a') work_key" using work_incoming by blast
  have inv: "sc_inv work_env (ap_chain fresh_app)" using new_sc_inv by (simp add: app_with_simps)
  have k: "batch_key work_env work_share = work_key" by (simp add: batch_key_def with_hash_def work_early)
  have fit: "\<And>s0 s. Some (demo_link 0) = Some s0 \<Longrightarrow> CalculateHashes work_env s0 = Inr s \<Longrightarrow> fit_batch work_env (\<lambda>_. 0) 2000000000000 [s] fresh_app"
    using work_fit work_hashes by auto
  show ?thesis using gossip_scored[OF inv v i(1) fit] v i k work_hashes by (auto simp: app_with_simps)
qed

subsection \<open>A run\<close>

text \<open>The program starts on an empty database, a miner connects and subscribes, a share arrives by gossip and is verified, and the
  chain is saved.\<close>

definition first_store :: "(hash \<times> doc) list ShareStore" where
  "first_store = snd (load work_env list_bolt (Some []) False NoFile True 0 None empty_store)"

definition miner_app :: "(hash \<times> doc) list App" where
  "miner_app = (app_with first_store)\<lparr>ap_server := handleSubscribe 1 JNull (register_miner (NewMiner 1 [7] ''10.0.0.1'' 0) (ap_server (app_with first_store)))\<rparr>"

lemma first_empty: "sc_shares (ss_chain first_store) = []" "sc_verified (ss_chain first_store) = []"
  by (simp_all add: first_store_def load_def empty_store_def list_bolt_def json_Unmarshal_def load_shares fresh_fields)
    (simp add: loadTrusted_def recomputeWorkAndTipLocked_def Let_def fresh_fields)

lemma miner_run: "app_run work_env list_bolt demo_net [] miner_app [] []"
proof -
  have "app_run work_env list_bolt demo_net [] (app_with first_store) [] []"
  proof (rule app_run.start)
    show "load work_env list_bolt (Some []) False NoFile True 0 None empty_store = (None, ap_store (app_with first_store))"
      by (simp add: app_with_simps first_store_def load_def empty_store_def list_bolt_def json_Unmarshal_def)
  qed (simp_all add: app_with_simps db_ok_def list_bolt_def demo_node_def)
  from app_run.subscribe[OF app_run.connect[OF this, of 1 "[7]" "''10.0.0.1''" 0], of 1 JNull]
  show ?thesis by (simp add: app_with_simps miner_app_def)
qed

lemma miner_incoming: "\<exists>a' hit ts. incoming_share work_env 2000000000000 None (Some (demo_link 0)) ''A'' miner_app = Some (a', hit, ts)
    \<and> is_verified (ap_chain a') work_key"
proof -
  have c: "ap_chain miner_app = ss_chain first_store"
    using app_with_simps(1)[of first_store] by (simp add: miner_app_def served_wm)
  obtain outs sc where "AddSharesOutcomes work_env 2000000000000 None [work_share] (ss_chain first_store) = (outs, 1, sc)" "is_verified sc work_key"
    using first_added[OF first_empty work_early(3) refl work_named _ work_checks work_valid work_early(1,2), of None] by (auto simp: work_early)
  then show ?thesis by (simp add: incoming_share_def work_hashes c work_early case_prod_beta Let_def)
qed

theorem program_consistent_witness:
  "\<exists>a got. app_run work_env list_bolt demo_net [] a [] got \<and> got = [work_share] \<and> is_verified (ap_chain a) work_key
     \<and> (\<exists>c. miner (ap_server a) 1 = Some c) \<and> sc_inv work_env (ap_chain a)
     \<and> (\<exists>db'. ap_db a = Some db' \<and> synced work_env list_bolt (ap_chain a) db')"
proof -
  obtain a' hit ts where i: "incoming_share work_env 2000000000000 None (Some (demo_link 0)) ''A'' miner_app = Some (a', hit, ts)"
    "is_verified (ap_chain a') work_key" using miner_incoming by blast
  let ?a = "autosave work_env list_bolt a'"
  have h: "handed_in work_env (Some (demo_link 0)) = [work_share]" by (simp add: handed_in_def work_hashes)
  have run: "app_run work_env list_bolt demo_net [] ?a [] [work_share]"
    using app_run.saved[OF app_run.incoming[OF miner_run i(1)]] unfolding h by simp
  have "db_ranked work_env list_bolt [] (\<lambda>_. 0)" by (simp add: db_ranked_def list_bolt_def)
  moreover have "forward work_env (\<lambda>_. 0) work_share" using work_env_ok(2) work_early by (simp add: forward_def batch_key_def)
  ultimately have inv: "sc_inv work_env (ap_chain ?a)" "\<exists>db'. ap_db ?a = Some db' \<and> synced work_env list_bolt (ap_chain ?a) db'"
    using program_consistent[OF work_env_ok list_bolt_ok run] by (metis list.set(1,2) empty_iff insert_iff)+
  have "ap_server a' = (ap_server miner_app)\<lparr>sv_wm := sv_wm (ap_server a')\<rparr>"
    using i(1) by (cases rule: incoming_cases) (simp_all add: set_server)
  from arg_cong[OF this, of "\<lambda>v. miner v 1"] have "miner (ap_server a') 1 = miner (ap_server miner_app) 1" by simp
  moreover have "\<exists>c. miner (ap_server miner_app) 1 = Some c"
    by (simp add: miner_app_def handleSubscribe_def register_miner_def NewMiner_def)
  ultimately have "\<exists>c. miner (ap_server ?a) 1 = Some c" by (simp add: autosave_def set_server)
  moreover have "is_verified (ap_chain ?a) work_key" using i(2) by (simp add: autosave_def Commit_shares)
  ultimately show ?thesis using run inv by blast
qed

end
