(* ===== verification/VerthashGraph.thy ===== *)
theory VerthashGraph
  imports Prelude Sha256 "HOL-Library.Monad_Syntax"
begin

text \<open>
  The data file of Verthash (\<open>verthash/graph.go\<close>): a graph of \<open>numXi index\<close> nodes of 32 bytes, each the SHA-3 hash of its
  number and the hashes of its parents. \<open>XiGraph\<close> generates it by recursion and \<open>XiGraphIter\<close>, which the program uses, with
  an explicit stack; \<open>GetParents\<close> computes the parents of a node without the graph. The theorems show that both generators
  do the same on every state, and that generation never reads a node before it is written, ends with a file of exactly
  the expected size, and hashes every node with the parents \<open>GetParents\<close> names.

  A panic, and recursion that does not end, is \<open>None\<close>. The file is its list of bytes; writes to it succeed. SHA-3 is the
  parameter \<open>H\<close>. Node numbers are \<open>int\<close>; they stay within an \<open>int64\<close> for the indices of \<open>NewGraph_complete\<close>. The offset of
  a node in the file, 32 times its number, is an \<open>int64\<close> product that wraps (\<open>node_offset\<close>): it limits the index to 46.
\<close>

subsection \<open>Numbers of nodes\<close>

definition hashSize :: nat where "hashSize = 32"

abbreviation nodeSize :: nat where "nodeSize \<equiv> hashSize"

text \<open>\<open>int64(1 << uint64(i))\<close>: a negative or large count shifts everything out.\<close>

definition shl1 :: "int \<Rightarrow> int" where
  "shl1 i = (if 0 \<le> i \<and> i < 63 then 2 ^ nat i else if i = 63 then - (2 ^ 63) else 0)"

function Log2 :: "int \<Rightarrow> int" where
  "Log2 x = (if 1 < x then Log2 (x div 2) + 1 else 0)"
  by pat_completeness auto
termination by (relation "measure nat") auto

declare Log2.simps [simp del]

definition numXi :: "int \<Rightarrow> int" where
  "numXi index = shl1 index * (index + 1) * index"

definition numButterfly :: "int \<Rightarrow> int" where
  "numButterfly index = 2 * shl1 index * index"

subsection \<open>Parents\<close>

text \<open>\<open>i >> uint64(shift)\<close> on non-negative numbers.\<close>

definition flip_at :: "int \<Rightarrow> int \<Rightarrow> int" where
  "flip_at shift i = (if (i div 2 ^ nat shift) mod 2 = 0 then i + shl1 shift else i - shl1 shift)"

definition ButterflyParents :: "int \<Rightarrow> int \<Rightarrow> int \<Rightarrow> int \<times> int" where
  "ButterflyParents start node index =
     (let p = shl1 (index - 1);
          level = (node - start) div p;
          shift = (if index - 1 < level then level - (index - 1) else (index - 1) - level);
          i = (node - start) mod p;
          prev = flip_at shift i
      in (start + (level - 1) * p + prev, node - p))"

lemma inside_xi: "a \<le> node \<Longrightarrow> node < a + numXi (i - 1) \<Longrightarrow> 0 < i"
  by (cases "0 < i") (simp_all add: numXi_def shl1_def)

lemma inside_xi2: "a + numXi (i - 1) \<le> node \<Longrightarrow> node < 2 * numXi (i - 1) + a \<Longrightarrow> 0 < i"
  using inside_xi[of "a + numXi (i - 1)" node i] by simp

function GetGraph :: "int \<Rightarrow> int \<Rightarrow> int \<times> int" where
  "GetGraph node index =
     (if index = 1 \<and> node < 2 then (2, 0)
      else if index = 1 \<and> node = 2 then (1, 2)
      else if index = 1 \<and> node = 3 then (3, 2)
      else (let p = shl1 index; p1 = shl1 (index - 1);
                sources = p;
                firstButter = sources + numButterfly (index - 1);
                firstXi = firstButter + numXi (index - 1);
                secondXi = firstXi + numXi (index - 1);
                secondButter = secondXi + numButterfly (index - 1);
                sinks = secondButter + sources
            in if node < sources then (p, 0)
               else if sources \<le> node \<and> node < firstButter then
                 (if node < sources + p1 then (p, p1)
                  else (case ButterflyParents sources node index of (parent0, parent1) \<Rightarrow> (node - parent0, node - parent1)))
               else if firstButter \<le> node \<and> node < firstXi then GetGraph (node - firstButter) (index - 1)
               else if firstXi \<le> node \<and> node < secondXi then GetGraph (node - firstXi) (index - 1)
               else if secondXi \<le> node \<and> node < secondButter then
                 (if node < secondXi + p1 then (p1, 0)
                  else (case ButterflyParents secondXi node index of (parent0, parent1) \<Rightarrow> (node - parent0, node - parent1)))
               else if secondButter \<le> node \<and> node < sinks then
                 (let off = (node - secondButter) mod p1; parent1 = sinks - numXi index + off
                  in if off + secondButter = node then (p1, node - parent1) else (p, node - parent1 - p1))
               else (0, 0)))"
  by pat_completeness auto
termination
  by (relation "measure (\<lambda>(node, index). nat index)") (auto dest: inside_xi inside_xi2)

declare GetGraph.simps [simp del]

definition GetParents :: "int \<Rightarrow> int \<Rightarrow> int list" where
  "GetParents node index =
     (if node < shl1 index then []
      else (case GetGraph node index of (offset0, offset1) \<Rightarrow>
              (if offset0 \<noteq> 0 then [node - offset0] else []) @ (if offset1 \<noteq> 0 then [node - offset1] else [])))"

subsection \<open>The file\<close>

record Graph =
  g_pk :: "byte list"
  g_db :: "byte list"
  g_index :: int
  g_log2 :: int
  g_pow2 :: int
  g_size :: int

text \<open>\<open>WriteAt\<close> fills a gap after the end of the file with zeros.\<close>

definition write_at :: "nat \<Rightarrow> byte list \<Rightarrow> byte list \<Rightarrow> byte list" where
  "write_at off b f = take off (f @ replicate (off - length f) 0) @ b @ drop (off + length b) f"

text \<open>\<open>id*nodeSize\<close> in \<open>int64\<close>; a negative offset is an error of \<open>ReadAt\<close> and \<open>WriteAt\<close>.\<close>

definition node_offset :: "int \<Rightarrow> int" where
  "node_offset i = (i * int nodeSize + 2 ^ 63) mod 2 ^ 64 - 2 ^ 63"

definition GetId :: "int \<Rightarrow> Graph \<Rightarrow> byte list option" where
  "GetId i g = (if node_offset i < 0 \<or> length (g_db g) < nat (node_offset i) + nodeSize then None
                else Some (take nodeSize (drop (nat (node_offset i)) (g_db g))))"

definition WriteId :: "byte list \<Rightarrow> int \<Rightarrow> Graph \<Rightarrow> Graph option" where
  "WriteId h i g = (if node_offset i < 0 \<or> length h \<noteq> nodeSize then None
                    else Some (g\<lparr>g_db := write_at (nat (node_offset i)) h (g_db g)\<rparr>))"

definition bfsToPost :: "int \<Rightarrow> Graph \<Rightarrow> int" where
  "bfsToPost node g = node AND (NOT (g_pow2 g))"

definition GetNode :: "int \<Rightarrow> Graph \<Rightarrow> byte list option" where
  "GetNode i g = GetId (bfsToPost i g) g"

definition NewNode :: "int \<Rightarrow> byte list \<Rightarrow> Graph \<Rightarrow> Graph option" where
  "NewNode i h g = WriteId h (bfsToPost i g) g"

text \<open>\<open>binary.PutVarint\<close> of the standard library: the bytes it writes, and the buffer after it.\<close>

function PutUvarint :: "u64 \<Rightarrow> byte list" where
  "PutUvarint x = (if 0x80 \<le> x then (ucast x OR 0x80) # PutUvarint (drop_bit 7 x) else [ucast x])"
  by pat_completeness auto
termination
  by (relation "measure unat") (auto simp: word_le_nat_alt unat_div_distrib drop_bit_eq_div)

declare PutUvarint.simps [simp del]

definition PutVarint :: "int \<Rightarrow> byte list" where
  "PutVarint x = (let ux = push_bit 1 (of_int x :: u64) in PutUvarint (if x < 0 then NOT ux else ux))"

definition put :: "byte list \<Rightarrow> byte list \<Rightarrow> byte list" where
  "put v buf = v @ drop (length v) buf"

subsection \<open>Generation\<close>

text \<open>\<open>for i = 0; i < n; i++\<close> over a body that may panic.\<close>

fun for_each :: "int list \<Rightarrow> (int \<Rightarrow> 's \<Rightarrow> 's option) \<Rightarrow> 's \<Rightarrow> 's option" where
  "for_each [] f s = Some s"
| "for_each (i # is) f s = do { s' \<leftarrow> f i s; for_each is f s' }"

definition ints :: "int \<Rightarrow> int \<Rightarrow> int list" where
  "ints a b = map (\<lambda>k. a + int k) [0..<nat (b - a)]"

text \<open>One node: its hash covers the key, its number and the hashes of its parents.\<close>

definition node_hash :: "(byte list \<Rightarrow> byte list) \<Rightarrow> byte list \<Rightarrow> int \<Rightarrow> byte list list \<Rightarrow> byte list" where
  "node_hash H pk i hs = H (pk @ put (PutVarint i) (replicate hashSize 0) @ concat hs)"

definition add_node :: "(byte list \<Rightarrow> byte list) \<Rightarrow> int \<Rightarrow> int list \<Rightarrow> Graph \<Rightarrow> Graph option" where
  "add_node H i parents g = do { hs \<leftarrow> those (map (\<lambda>p. GetNode p g) parents); NewNode i (node_hash H (g_pk g) i hs) g }"

text \<open>The state of the generators: the graph and \<open>count\<close>, the number of the next node.\<close>

type_synonym gen = "Graph \<times> int"

definition next_node :: "(byte list \<Rightarrow> byte list) \<Rightarrow> int list \<Rightarrow> gen \<Rightarrow> gen option" where
  "next_node H parents s = do { g \<leftarrow> add_node H (snd s) parents (fst s); Some (g, snd s + 1) }"

definition butterfly_node :: "(byte list \<Rightarrow> byte list) \<Rightarrow> int \<Rightarrow> int \<Rightarrow> int \<Rightarrow> int \<Rightarrow> gen \<Rightarrow> gen option" where
  "butterfly_node H index start level i s =
     (let numLevel = 2 * index;
          perLevel = shl1 index;
          shift = (if numLevel div 2 < level then level - numLevel div 2 else index - level);
          prev = flip_at shift i
      in next_node H [start + (level - 1) * perLevel + prev, snd s - perLevel] s)"

definition ButterflyGraph :: "(byte list \<Rightarrow> byte list) \<Rightarrow> int \<Rightarrow> gen \<Rightarrow> gen option" where
  "ButterflyGraph H index0 s0 =
     (let index = (if index0 = 0 then 1 else index0);
          numLevel = 2 * index;
          perLevel = shl1 index;
          start = snd s0 - perLevel
      in for_each (ints 1 numLevel) (\<lambda>level. for_each (ints 0 perLevel) (butterfly_node H index start level)) s0)"

text \<open>The sources of the whole graph; the sources of a part, each with its one parent a row before; the row of sources of the
  first butterfly.\<close>

definition gen_sources :: "(byte list \<Rightarrow> byte list) \<Rightarrow> int \<Rightarrow> gen \<Rightarrow> gen option" where
  "gen_sources H index = for_each (ints 0 (shl1 index)) (\<lambda>i. next_node H [])"

definition first_row :: "(byte list \<Rightarrow> byte list) \<Rightarrow> int \<Rightarrow> int \<Rightarrow> gen \<Rightarrow> gen option" where
  "first_row H sources p1 = for_each (ints 0 p1) (\<lambda>i. next_node H [sources + i, sources + i + p1])"

definition copy_row :: "(byte list \<Rightarrow> byte list) \<Rightarrow> int \<Rightarrow> int \<Rightarrow> gen \<Rightarrow> gen option" where
  "copy_row H first p1 = for_each (ints 0 p1) (\<lambda>i s. do {
     g \<leftarrow> add_node H (first + i) [first - p1 + i] (fst s); Some (g, snd s + 1) })"

text \<open>The sinks, two at a time; the second varint goes into the buffer of the first.\<close>

definition sink_row :: "(byte list \<Rightarrow> byte list) \<Rightarrow> int \<Rightarrow> int \<Rightarrow> int \<Rightarrow> gen \<Rightarrow> gen option" where
  "sink_row H sources sinks p1 = for_each (ints 0 p1) (\<lambda>i s. do {
     let g = fst s;
     parent0 \<leftarrow> GetNode (sinks - p1 + i) g;
     parent1_0 \<leftarrow> GetNode (sources + i) g;
     parent1_1 \<leftarrow> GetNode (sources + i + p1) g;
     let buf = put (PutVarint (sinks + i)) (replicate hashSize 0);
     let buf2 = put (PutVarint (sinks + i + p1)) buf;
     g1 \<leftarrow> NewNode (sinks + i) (H (g_pk g @ buf @ parent0 @ parent1_0)) g;
     g2 \<leftarrow> NewNode (sinks + i + p1) (H (g_pk g @ buf2 @ parent0 @ parent1_1)) g1;
     Some (g2, snd s + 2) })"

partial_function (option) XiGraph :: "(byte list \<Rightarrow> byte list) \<Rightarrow> int \<Rightarrow> gen \<Rightarrow> gen option" where
  "XiGraph H index s0 = do {
     s \<leftarrow> (if snd s0 = g_pow2 (fst s0) then gen_sources H index s0 else Some s0);
     if index = 1 then ButterflyGraph H index s
     else do {
       let sources = snd s - shl1 index;
       let firstButter = sources + shl1 index;
       let firstXi = firstButter + numButterfly (index - 1);
       let secondXi = firstXi + numXi (index - 1);
       let secondButter = secondXi + numXi (index - 1);
       let sinks = secondButter + numButterfly (index - 1);
       let p1 = shl1 (index - 1);
       s1 \<leftarrow> first_row H sources p1 s;
       s2 \<leftarrow> ButterflyGraph H (index - 1) s1;
       s3 \<leftarrow> copy_row H firstXi p1 s2;
       s4 \<leftarrow> XiGraph H (index - 1) s3;
       s5 \<leftarrow> copy_row H secondXi p1 s4;
       s6 \<leftarrow> XiGraph H (index - 1) s5;
       s7 \<leftarrow> copy_row H secondButter p1 s6;
       s8 \<leftarrow> ButterflyGraph H (index - 1) s7;
       sink_row H sources sinks p1 s8 } }"

text \<open>The loop of \<open>XiGraphIter\<close>: the tops of the stacks are their last elements.\<close>

definition xi_step :: "(byte list \<Rightarrow> byte list) \<Rightarrow> int \<Rightarrow> int \<Rightarrow> gen \<Rightarrow> gen option" where
  "xi_step H index graph s = do {
     let p1 = shl1 (index - 1);
     s1 \<leftarrow> (if graph = 0 then first_row H (snd s - shl1 index) p1 s
           else if graph = 1 \<or> graph = 2 \<or> graph = 3 then copy_row H (snd s) p1 s
           else sink_row H (snd s + shl1 index - numXi index) (snd s) p1 s);
     if graph = 0 \<or> graph = 3 \<or> ((graph = 1 \<or> graph = 2) \<and> index = 2) then ButterflyGraph H (index - 1) s1 else Some s1 }"

partial_function (option) xi_loop :: "(byte list \<Rightarrow> byte list) \<Rightarrow> int list \<Rightarrow> int list \<Rightarrow> gen \<Rightarrow> gen option" where
  "xi_loop H stack graphStack s =
     (if stack = [] \<or> graphStack = [] then Some s
      else do {
        let index = last stack;
        let graph = last graphStack;
        s1 \<leftarrow> xi_step H index graph s;
        if (graph = 1 \<or> graph = 2) \<and> index \<noteq> 2
        then xi_loop H (butlast stack @ [index - 1, index - 1, index - 1, index - 1, index - 1]) (butlast graphStack @ [4, 3, 2, 1, 0]) s1
        else xi_loop H (butlast stack) (butlast graphStack) s1 })"

definition XiGraphIter :: "(byte list \<Rightarrow> byte list) \<Rightarrow> int \<Rightarrow> Graph \<Rightarrow> gen option" where
  "XiGraphIter H index g = do {
     s \<leftarrow> gen_sources H index (g, g_pow2 g);
     if index = 1 then ButterflyGraph H index s
     else xi_loop H [index, index, index, index, index] [4, 3, 2, 1, 0] s }"

text \<open>The graph \<open>NewGraph\<close> opens; the file is \<open>None\<close> when there is none yet, and it is then generated.\<close>

definition NewGraph :: "(byte list \<Rightarrow> byte list) \<Rightarrow> int \<Rightarrow> byte list option \<Rightarrow> byte list \<Rightarrow> Graph option" where
  "NewGraph H index db pk =
     (let size = numXi index; log2 = Log2 size + 1; pow2 = shl1 log2;
          g = \<lparr>g_pk = pk, g_db = [], g_index = index, g_log2 = log2, g_pow2 = pow2, g_size = size\<rparr>
      in (case db of Some f \<Rightarrow> Some (g\<lparr>g_db := f\<rparr>) | None \<Rightarrow> map_option fst (XiGraphIter H index g)))"

subsection \<open>How many nodes each part adds\<close>

lemma shl1_nat [simp]: "n < 63 \<Longrightarrow> shl1 (int n) = 2 ^ n" "shl1 1 = 2" "shl1 0 = 1"
  by (simp_all add: shl1_def)

lemma shl1_nonneg: "i < 63 \<Longrightarrow> 0 \<le> shl1 i" by (simp add: shl1_def)

lemma shl1_step: "1 \<le> i \<Longrightarrow> i < 63 \<Longrightarrow> shl1 i = 2 * shl1 (i - 1)"
  by (cases "nat i") (auto simp: shl1_def nat_diff_distrib)

lemma length_ints [simp]: "length (ints a b) = nat (b - a)" by (simp add: ints_def)

definition adds :: "int \<Rightarrow> gen \<Rightarrow> gen \<Rightarrow> bool" where
  "adds k s s' \<longleftrightarrow> snd s' = snd s + k \<and> g_pow2 (fst s') = g_pow2 (fst s) \<and> g_pk (fst s') = g_pk (fst s)"

lemma adds_trans: "adds k s s1 \<Longrightarrow> adds l s1 s2 \<Longrightarrow> adds (k + l) s s2"
  by (simp add: adds_def)

lemma for_each_adds:
  assumes "\<And>i s s'. f i s = Some s' \<Longrightarrow> adds k s s'" "for_each is f s = Some s'"
  shows "adds (k * int (length is)) s s'"
  using assms(2)
proof (induction "is" arbitrary: s)
  case (Cons i "is")
  then obtain s1 where "f i s = Some s1" "for_each is f s1 = Some s'" by (auto simp: bind_eq_Some_conv)
  from adds_trans[OF assms(1)[OF this(1)] Cons.IH[OF this(2)]] show ?case by (simp add: algebra_simps)
qed (simp add: adds_def)

lemma NewNode_frame: "NewNode i h g = Some g' \<Longrightarrow> g_pow2 g' = g_pow2 g \<and> g_pk g' = g_pk g"
  by (auto simp: NewNode_def WriteId_def split: if_splits)

lemma next_node_adds: "next_node H ps s = Some s' \<Longrightarrow> adds 1 s s'"
  by (auto simp: next_node_def add_node_def bind_eq_Some_conv adds_def dest: NewNode_frame)

lemma gen_sources_adds: "0 \<le> shl1 i \<Longrightarrow> gen_sources H i s = Some s' \<Longrightarrow> adds (shl1 i) s s'"
  unfolding gen_sources_def by (drule for_each_adds[rotated], erule next_node_adds) simp

lemma first_row_adds: "0 \<le> p \<Longrightarrow> first_row H a p s = Some s' \<Longrightarrow> adds p s s'"
  unfolding first_row_def by (drule for_each_adds[rotated], erule next_node_adds) simp

lemma copy_row_adds: "0 \<le> p \<Longrightarrow> copy_row H a p s = Some s' \<Longrightarrow> adds p s s'"
  unfolding copy_row_def
  by (drule for_each_adds[rotated, where k = 1]) (auto simp: add_node_def bind_eq_Some_conv adds_def dest: NewNode_frame)

lemma sink_row_adds: "0 \<le> p \<Longrightarrow> sink_row H a b p s = Some s' \<Longrightarrow> adds (2 * p) s s'"
  unfolding sink_row_def
  by (drule for_each_adds[rotated, where k = 2]) (auto simp: bind_eq_Some_conv adds_def Let_def dest!: NewNode_frame)

lemma Butterfly_adds:
  assumes "1 \<le> i" "i < 63" "ButterflyGraph H i s = Some s'" shows "adds ((2 * i - 1) * shl1 i) s s'"
proof -
  have node: "adds 1 s s'" if "butterfly_node H i b l j s = Some s'" for b l j s s'
    using that by (auto simp: butterfly_node_def Let_def intro: next_node_adds)
  have level: "adds (shl1 i) s s'" if "for_each (ints 0 (shl1 i)) (butterfly_node H i b l) s = Some s'" for b l s s'
    using for_each_adds[OF node that] shl1_nonneg[of i] assms(2) by simp
  have "for_each (ints 1 (2 * i)) (\<lambda>level. for_each (ints 0 (shl1 i)) (butterfly_node H i (snd s - shl1 i) level)) s = Some s'"
    using assms(1,3) by (simp add: ButterflyGraph_def Let_def split: if_splits)
  from for_each_adds[OF level this] show ?thesis using assms(1) by (simp add: mult.commute)
qed

text \<open>The equations of a graph that is not at its first node.\<close>

definition past :: "gen \<Rightarrow> bool" where
  "past s \<longleftrightarrow> g_pow2 (fst s) < snd s"

lemma past_adds: "past s \<Longrightarrow> adds k s s' \<Longrightarrow> 0 \<le> k \<Longrightarrow> past s'"
  by (simp add: past_def adds_def)

lemma XiGraph_one: "past s \<Longrightarrow> XiGraph H 1 s = ButterflyGraph H 1 s"
  by (subst XiGraph.simps) (simp add: past_def)

lemma numXi_step:
  assumes "2 \<le> i" "i < 63"
  shows "numXi i = 2 * numXi (i - 1) + 4 * i * shl1 (i - 1)" "numButterfly (i - 1) = 2 * shl1 (i - 1) * (i - 1)"
  using assms shl1_step[of i] by (simp_all add: numXi_def numButterfly_def algebra_simps)

lemma numXi_ge:
  assumes "1 \<le> i" "i < 63" shows "shl1 i \<le> numXi i"
proof -
  have "1 * 1 \<le> (i + 1) * i" using assms by (intro mult_mono) simp_all
  then have "shl1 i * 1 \<le> shl1 i * ((i + 1) * i)" using shl1_nonneg[of i] assms by (intro mult_left_mono) simp_all
  then show ?thesis by (simp add: numXi_def mult.assoc)
qed

lemma XiGraph_unfold:
  assumes "past s" "i \<noteq> 1"
  shows "XiGraph H i s = (let sources = snd s - shl1 i; firstXi = sources + shl1 i + numButterfly (i - 1); secondXi = firstXi + numXi (i - 1);
       secondButter = secondXi + numXi (i - 1); p1 = shl1 (i - 1)
     in do {
       s1 \<leftarrow> first_row H sources p1 s; s2 \<leftarrow> ButterflyGraph H (i - 1) s1; s3 \<leftarrow> copy_row H firstXi p1 s2; s4 \<leftarrow> XiGraph H (i - 1) s3;
       s5 \<leftarrow> copy_row H secondXi p1 s4; s6 \<leftarrow> XiGraph H (i - 1) s5; s7 \<leftarrow> copy_row H secondButter p1 s6; s8 \<leftarrow> ButterflyGraph H (i - 1) s7;
       sink_row H sources (secondButter + numButterfly (i - 1)) p1 s8 })"
  using assms by (subst XiGraph.simps) (simp add: past_def Let_def)

lemma XiGraph_adds:
  assumes "XiGraph H (int m) s = Some s'" "past s" "1 \<le> m" "m < 63"
  shows "adds (numXi (int m) - shl1 (int m)) s s'"
  using assms(3,1,2,4)
proof (induction m arbitrary: s s' rule: nat_induct_at_least)
  case base
  then have "ButterflyGraph H 1 s = Some s'" by (simp add: XiGraph_one)
  from Butterfly_adds[OF _ _ this] show ?case by (simp add: numXi_def)
next
  case (Suc m)
  let ?p = "shl1 (int m)" and ?k = "numXi (int m) - shl1 (int m)"
  have p: "0 < ?p" "int (Suc m) - 1 = int m" "int (Suc m) \<noteq> 1" using Suc by (simp_all add: shl1_def)
  obtain s1 s2 s3 s4 s5 s6 s7 s8 a b c d e where x:
    "first_row H a ?p s = Some s1" "ButterflyGraph H (int m) s1 = Some s2" "copy_row H b ?p s2 = Some s3"
    "XiGraph H (int m) s3 = Some s4" "copy_row H c ?p s4 = Some s5" "XiGraph H (int m) s5 = Some s6"
    "copy_row H d ?p s6 = Some s7" "ButterflyGraph H (int m) s7 = Some s8" "sink_row H a e ?p s8 = Some s'"
    using Suc.prems(1)[unfolded XiGraph_unfold[OF Suc.prems(2) p(3)] p(2) Let_def] unfolding bind_eq_Some_conv by blast
  have nn: "0 \<le> ?p" "0 \<le> (2 * int m - 1) * ?p" "0 \<le> ?k" using p(1) Suc numXi_ge[of "int m"] by simp_all
  have 1: "adds ?p s s1" "adds ((2 * int m - 1) * ?p) s1 s2" "adds ?p s2 s3"
    using first_row_adds[OF _ x(1)] Butterfly_adds[OF _ _ x(2)] copy_row_adds[OF _ x(3)] p(1) Suc by simp_all
  have "past s3" using 1 nn Suc.prems(2) by (meson past_adds)
  with Suc.IH[OF x(4)] Suc.prems have 2: "adds ?k s3 s4" by simp
  have 3: "adds ?p s4 s5" using copy_row_adds[OF _ x(5)] nn by simp
  have "past s5" using \<open>past s3\<close> 2 3 nn by (meson past_adds)
  with Suc.IH[OF x(6)] Suc.prems have 4: "adds ?k s5 s6" by simp
  have 5: "adds ?p s6 s7" "adds ((2 * int m - 1) * ?p) s7 s8" "adds (2 * ?p) s8 s'"
    using copy_row_adds[OF _ x(7)] Butterfly_adds[OF _ _ x(8)] sink_row_adds[OF _ x(9)] p(1) Suc by simp_all
  have "adds (?p + (2 * int m - 1) * ?p + ?p + ?k + ?p + ?k + ?p + (2 * int m - 1) * ?p + 2 * ?p) s s'"
    using 1 2 3 4 5 by (simp add: adds_def)
  moreover have "numXi (int (Suc m)) - shl1 (int (Suc m)) = ?p + (2 * int m - 1) * ?p + ?p + ?k + ?p + ?k + ?p + (2 * int m - 1) * ?p + 2 * ?p"
    using numXi_step(1)[of "int (Suc m)"] shl1_step[of "int (Suc m)"] Suc by (simp add: algebra_simps)
  ultimately show ?case by simp
qed

subsection \<open>The stack does what the recursion does\<close>

lemma butterfly_part:
  assumes "1 \<le> m" "m < 63" "adds (shl1 (int m)) s s1" "ButterflyGraph H (int m) s1 = Some s2"
  shows "adds (numButterfly (int m)) s s2"
proof -
  have "adds (shl1 (int m) + (2 * int m - 1) * shl1 (int m)) s s2"
    using assms Butterfly_adds[OF _ _ assms(4)] by (intro adds_trans[OF assms(3)]) simp_all
  then show ?thesis by (simp add: numButterfly_def algebra_simps)
qed

lemma xi_part:
  assumes "1 \<le> m" "m < 63" "past s" "copy_row H a (shl1 (int m)) s = Some s1" "XiGraph H (int m) s1 = Some s2"
  shows "adds (numXi (int m)) s s2" "past s1"
proof -
  have p: "0 \<le> shl1 (int m)" using assms(2) by (simp add: shl1_nonneg)
  have 1: "adds (shl1 (int m)) s s1" by (rule copy_row_adds[OF p assms(4)])
  show "past s1" by (rule past_adds[OF assms(3) 1 p])
  from adds_trans[OF 1 XiGraph_adds[OF assms(5) this assms(1,2)]] show "adds (numXi (int m)) s s2" by simp
qed

text \<open>In a graph past its first node, each row starts at the number of the next node.\<close>

lemma XiGraph_by_count:
  assumes "past s" "1 \<le> m" "m < 62"
  defines "i \<equiv> int (Suc m)" and "p1 \<equiv> shl1 (int m)"
  shows "XiGraph H i s = do {
       s1 \<leftarrow> first_row H (snd s - shl1 i) p1 s; s2 \<leftarrow> ButterflyGraph H (int m) s1; s3 \<leftarrow> copy_row H (snd s2) p1 s2; s4 \<leftarrow> XiGraph H (int m) s3;
       s5 \<leftarrow> copy_row H (snd s4) p1 s4; s6 \<leftarrow> XiGraph H (int m) s5; s7 \<leftarrow> copy_row H (snd s6) p1 s6; s8 \<leftarrow> ButterflyGraph H (int m) s7;
       sink_row H (snd s8 + shl1 i - numXi i) (snd s8) p1 s8 }"
proof -
  have i: "i \<noteq> 1" "i - 1 = int m" using assms(2) by (simp_all add: i_def)
  have m: "1 \<le> m" "m < 63" using assms(2,3) by simp_all
  have p: "0 \<le> p1" "0 \<le> numXi (int m)" "0 \<le> numButterfly (int m)"
    using m numXi_ge[of "int m"] shl1_nonneg[of "int m"] by (simp_all add: p1_def numButterfly_def numXi_def)
  have c2: "adds (numButterfly (int m)) s s2" if "first_row H a p1 s = Some s1" "ButterflyGraph H (int m) s1 = Some s2" for a s1 s2
    using butterfly_part[OF m first_row_adds[OF p(1) that(1), unfolded p1_def] that(2)] .
  have c3: "adds (numXi (int m)) t t2 \<and> past t2" if "past t" "copy_row H a p1 t = Some t1" "XiGraph H (int m) t1 = Some t2" for a t t1 t2
    using xi_part(1)[OF m that[unfolded p1_def]] past_adds[OF that(1) _ p(2)] by blast
  have c8: "adds (numButterfly (int m)) t t2" if "copy_row H a p1 t = Some t1" "ButterflyGraph H (int m) t1 = Some t2" for a t t1 t2
    using butterfly_part[OF m copy_row_adds[OF p(1) that(1), unfolded p1_def] that(2)] .
  have tot: "numXi i = 2 * numXi (int m) + 2 * numButterfly (int m) + 2 * shl1 i"
    using numXi_step[of i] shl1_step[of i] m assms(3) by (simp add: i_def numButterfly_def algebra_simps)
  show ?thesis unfolding XiGraph_unfold[OF assms(1) i(1)] i(2) Let_def p1_def[symmetric]
  proof (intro Option.bind_cong refl)
    fix s1 s2 assume a: "first_row H (snd s - shl1 i) p1 s = Some s1" "ButterflyGraph H (int m) s1 = Some s2"
    note 2 = c2[OF a]
    then show e2: "copy_row H (snd s - shl1 i + shl1 i + numButterfly (int m)) p1 s2 = copy_row H (snd s2) p1 s2" by (simp add: adds_def)
    have "past s2" by (rule past_adds[OF assms(1) 2 p(3)])
    fix s3 s4 assume b: "copy_row H (snd s2) p1 s2 = Some s3" "XiGraph H (int m) s3 = Some s4"
    note 4 = c3[OF \<open>past s2\<close> b]
    then show e4: "copy_row H (snd s - shl1 i + shl1 i + numButterfly (int m) + numXi (int m)) p1 s4 = copy_row H (snd s4) p1 s4"
      using 2 by (simp add: adds_def)
    fix s5 s6 assume c: "copy_row H (snd s4) p1 s4 = Some s5" "XiGraph H (int m) s5 = Some s6"
    note 6 = c3[OF conjunct2[OF 4] c]
    then show e6: "copy_row H (snd s - shl1 i + shl1 i + numButterfly (int m) + numXi (int m) + numXi (int m)) p1 s6 = copy_row H (snd s6) p1 s6"
      using 2 4 by (simp add: adds_def)
    fix s7 s8 assume d: "copy_row H (snd s6) p1 s6 = Some s7" "ButterflyGraph H (int m) s7 = Some s8"
    have "snd s8 = snd s + 2 * numButterfly (int m) + 2 * numXi (int m)" using 2 4 6 c8[OF d] by (simp add: adds_def)
    then show "sink_row H (snd s - shl1 i) (snd s - shl1 i + shl1 i + numButterfly (int m) + numXi (int m) + numXi (int m) + numButterfly (int m)) p1 s8
        = sink_row H (snd s8 + shl1 i - numXi i) (snd s8) p1 s8" using tot by (simp add: algebra_simps)
  qed
qed

lemma xi_loop_empty: "xi_loop H [] [] s = Some s"
  by (subst xi_loop.simps) simp

lemma xi_loop_step:
  "xi_loop H (st @ [n]) (gs @ [gr]) s = do { s1 \<leftarrow> xi_step H n gr s;
     if (gr = 1 \<or> gr = 2) \<and> n \<noteq> 2 then xi_loop H (st @ [n - 1, n - 1, n - 1, n - 1, n - 1]) (gs @ [4, 3, 2, 1, 0]) s1 else xi_loop H st gs s1 }"
  by (subst xi_loop.simps) (simp add: Let_def cong: if_cong)

text \<open>Popping a whole level off the stacks runs the recursive generator, if popping the entry of a part does.\<close>

definition runs_part :: "(byte list \<Rightarrow> byte list) \<Rightarrow> nat \<Rightarrow> bool" where
  "runs_part H m \<longleftrightarrow> (\<forall>s st gs gr. past s \<longrightarrow> gr = 1 \<or> gr = 2 \<longrightarrow> xi_loop H (st @ [int (Suc m)]) (gs @ [gr]) s
     = do { s1 \<leftarrow> copy_row H (snd s) (shl1 (int m)) s; s2 \<leftarrow> XiGraph H (int m) s1; xi_loop H st gs s2 })"

lemma xi_loop_ends:
  fixes m :: nat
  defines "i \<equiv> int (Suc m)" and "p1 \<equiv> shl1 (int m)"
  shows "xi_loop H (st @ [i]) (gs @ [0]) s = do { s1 \<leftarrow> first_row H (snd s - shl1 i) p1 s; s2 \<leftarrow> ButterflyGraph H (int m) s1; xi_loop H st gs s2 }"
    "xi_loop H (st @ [i]) (gs @ [3]) s = do { s1 \<leftarrow> copy_row H (snd s) p1 s; s2 \<leftarrow> ButterflyGraph H (int m) s1; xi_loop H st gs s2 }"
    "xi_loop H (st @ [i]) (gs @ [4]) s = do { s1 \<leftarrow> sink_row H (snd s + shl1 i - numXi i) (snd s) p1 s; xi_loop H st gs s1 }"
  unfolding xi_loop_step xi_step_def by (simp_all add: i_def p1_def Let_def)

lemma xi_loop_level:
  assumes "1 \<le> m" "m < 62" "past s" and part: "runs_part H m"
  defines "i \<equiv> int (Suc m)"
  shows "xi_loop H (st @ [i, i, i, i, i]) (gs @ [4, 3, 2, 1, 0]) s = do { s' \<leftarrow> XiGraph H i s; xi_loop H st gs s' }"
proof -
  let ?p = "shl1 (int m)"
  have m: "1 \<le> m" "m < 63" using assms(1,2) by simp_all
  have p: "0 \<le> ?p" "0 \<le> numXi (int m)" "0 \<le> numButterfly (int m)"
    using m shl1_nonneg[of "int m"] by (simp_all add: numButterfly_def numXi_def)
  have pop: "xi_loop H (st @ [i]) (gs @ [gr]) s = do { s1 \<leftarrow> copy_row H (snd s) ?p s; s2 \<leftarrow> XiGraph H (int m) s1; xi_loop H st gs s2 }"
    if "past s" "gr = 1 \<or> gr = 2" for s st gs gr using part that unfolding runs_part_def i_def by blast
  have e4: "xi_loop H (st @ [i]) (gs @ [4]) s = do { s1 \<leftarrow> sink_row H (snd s + shl1 i - numXi i) (snd s) ?p s; xi_loop H st gs s1 }" for s
    unfolding i_def by (rule xi_loop_ends(3))
  have e3: "xi_loop H ((st @ [i]) @ [i]) ((gs @ [4]) @ [3]) s = do { s1 \<leftarrow> copy_row H (snd s) ?p s; s2 \<leftarrow> ButterflyGraph H (int m) s1; xi_loop H (st @ [i]) (gs @ [4]) s2 }" for s
    unfolding i_def by (rule xi_loop_ends(2))
  have "xi_loop H ((st @ [i, i, i, i]) @ [i]) ((gs @ [4, 3, 2, 1]) @ [0]) s
      = do { s1 \<leftarrow> first_row H (snd s - shl1 i) ?p s; s2 \<leftarrow> ButterflyGraph H (int m) s1; xi_loop H (st @ [i, i, i, i]) (gs @ [4, 3, 2, 1]) s2 }"
    unfolding i_def by (rule xi_loop_ends(1))
  also have "\<dots> = do { s1 \<leftarrow> first_row H (snd s - shl1 i) ?p s; s2 \<leftarrow> ButterflyGraph H (int m) s1; s3 \<leftarrow> copy_row H (snd s2) ?p s2; s4 \<leftarrow> XiGraph H (int m) s3;
       s5 \<leftarrow> copy_row H (snd s4) ?p s4; s6 \<leftarrow> XiGraph H (int m) s5; xi_loop H (st @ [i, i]) (gs @ [4, 3]) s6 }"
  proof (intro Option.bind_cong refl)
    fix s1 s2 assume "first_row H (snd s - shl1 i) ?p s = Some s1" "ButterflyGraph H (int m) s1 = Some s2"
    from butterfly_part[OF m first_row_adds[OF p(1) this(1)] this(2)] have "past s2" by (rule past_adds[OF assms(3) _ p(3)])
    have inner: "xi_loop H (st @ [i, i, i]) (gs @ [4, 3, 2]) t2 = do { s5 \<leftarrow> copy_row H (snd t2) ?p t2; s6 \<leftarrow> XiGraph H (int m) s5; xi_loop H (st @ [i, i]) (gs @ [4, 3]) s6 }"
      if "past t2" for t2 using pop[OF that, of 2 "st @ [i, i]" "gs @ [4, 3]"] by simp
    have "xi_loop H (st @ [i, i, i, i]) (gs @ [4, 3, 2, 1]) s2
        = do { s3 \<leftarrow> copy_row H (snd s2) ?p s2; s4 \<leftarrow> XiGraph H (int m) s3; xi_loop H (st @ [i, i, i]) (gs @ [4, 3, 2]) s4 }"
      using pop[OF \<open>past s2\<close>, of 1 "st @ [i, i, i]" "gs @ [4, 3, 2]"] by simp
    also have "\<dots> = do { s3 \<leftarrow> copy_row H (snd s2) ?p s2; s4 \<leftarrow> XiGraph H (int m) s3;
        s5 \<leftarrow> copy_row H (snd s4) ?p s4; s6 \<leftarrow> XiGraph H (int m) s5; xi_loop H (st @ [i, i]) (gs @ [4, 3]) s6 }"
      by (intro Option.bind_cong refl inner) (metis past_adds[OF \<open>past s2\<close> _ p(2)] xi_part(1)[OF m \<open>past s2\<close>])
    finally show "xi_loop H (st @ [i, i, i, i]) (gs @ [4, 3, 2, 1]) s2 = do { s3 \<leftarrow> copy_row H (snd s2) ?p s2; s4 \<leftarrow> XiGraph H (int m) s3;
        s5 \<leftarrow> copy_row H (snd s4) ?p s4; s6 \<leftarrow> XiGraph H (int m) s5; xi_loop H (st @ [i, i]) (gs @ [4, 3]) s6 }" .
  qed
  also have "\<dots> = do { s' \<leftarrow> XiGraph H i s; xi_loop H st gs s' }"
    unfolding i_def XiGraph_by_count[OF assms(3,1,2)] using e3 e4 by (simp add: i_def)
  finally show ?thesis by simp
qed

lemma parts_run: assumes "1 \<le> m" "m < 62" shows "runs_part H m"
  using assms
proof (induction m rule: nat_induct_at_least)
  case base
  show ?case unfolding runs_part_def
  proof (intro allI impI)
    fix s st gs and gr :: int assume a: "past s" "gr = 1 \<or> gr = 2"
    have "xi_loop H (st @ [2]) (gs @ [gr]) s = do { s1 \<leftarrow> copy_row H (snd s) 2 s; s2 \<leftarrow> ButterflyGraph H 1 s1; xi_loop H st gs s2 }"
      unfolding xi_loop_step xi_step_def using a(2) by (elim disjE) (simp_all add: Let_def)
    also have "\<dots> = do { s1 \<leftarrow> copy_row H (snd s) 2 s; s2 \<leftarrow> XiGraph H 1 s1; xi_loop H st gs s2 }"
    proof (intro Option.bind_cong refl XiGraph_one[symmetric])
      fix s1 assume "copy_row H (snd s) 2 s = Some s1"
      from past_adds[OF a(1) copy_row_adds[OF _ this]] show "past s1" by simp
    qed
    finally show "xi_loop H (st @ [int (Suc 1)]) (gs @ [gr]) s
        = do { s1 \<leftarrow> copy_row H (snd s) (shl1 (int 1)) s; s2 \<leftarrow> XiGraph H (int 1) s1; xi_loop H st gs s2 }" by simp
  qed
next
  case (Suc m)
  then have part: "runs_part H m" by simp
  show ?case unfolding runs_part_def
  proof (intro allI impI)
    fix s st gs and gr :: int assume a: "past s" "gr = 1 \<or> gr = 2"
    have p: "0 \<le> shl1 (int (Suc m))" using Suc.prems by (simp add: shl1_def)
    have n: "int (Suc (Suc m)) \<noteq> 2" "int (Suc (Suc m)) - 1 = int (Suc m)" using Suc.hyps by simp_all
    have "xi_loop H (st @ [int (Suc (Suc m))]) (gs @ [gr]) s = do { s1 \<leftarrow> copy_row H (snd s) (shl1 (int (Suc m))) s;
        xi_loop H (st @ [int (Suc m), int (Suc m), int (Suc m), int (Suc m), int (Suc m)]) (gs @ [4, 3, 2, 1, 0]) s1 }"
      unfolding xi_loop_step xi_step_def n(2) using a(2) n(1) by (elim disjE) (simp_all add: Let_def)
    also have "\<dots> = do { s1 \<leftarrow> copy_row H (snd s) (shl1 (int (Suc m))) s; s2 \<leftarrow> XiGraph H (int (Suc m)) s1; xi_loop H st gs s2 }"
    proof (intro Option.bind_cong refl xi_loop_level part)
      fix s1 assume "copy_row H (snd s) (shl1 (int (Suc m))) s = Some s1"
      from past_adds[OF a(1) copy_row_adds[OF p this] p] show "past s1" .
    qed (use Suc in simp_all)
    finally show "xi_loop H (st @ [int (Suc (Suc m))]) (gs @ [gr]) s = \<dots>" .
  qed
qed

lemma sources_past:
  assumes "n < 62" "gen_sources H (int n) (g, g_pow2 g) = Some s" shows "past s"
  using gen_sources_adds[OF _ assms(2)] assms(1) by (simp add: adds_def past_def)

lemma XiGraph_sources:
  assumes "n < 62" shows "XiGraph H (int n) (g, g_pow2 g) = do { s \<leftarrow> gen_sources H (int n) (g, g_pow2 g); XiGraph H (int n) s }"
proof (cases "gen_sources H (int n) (g, g_pow2 g)")
  case (Some s)
  then have "snd s \<noteq> g_pow2 (fst s)" using sources_past[OF assms Some] by (auto simp: past_def)
  then have "XiGraph H (int n) s = XiGraph H (int n) (g, g_pow2 g)"
    by (subst (1 2) XiGraph.simps) (simp add: Some)
  then show ?thesis by (simp add: Some)
qed (subst XiGraph.simps, simp)

lemma XiGraphIter_sources:
  assumes "1 \<le> n" "n < 62" shows "XiGraphIter H (int n) g = do { s \<leftarrow> gen_sources H (int n) (g, g_pow2 g); XiGraph H (int n) s }"
  unfolding XiGraphIter_def
proof (intro Option.bind_cong refl)
  fix s assume "gen_sources H (int n) (g, g_pow2 g) = Some s"
  note past = sources_past[OF assms(2) this]
  show "(if int n = 1 then ButterflyGraph H (int n) s else xi_loop H [int n, int n, int n, int n, int n] [4, 3, 2, 1, 0] s) = XiGraph H (int n) s"
  proof (cases "n = 1")
    case False
    then obtain m where m: "n = Suc m" "1 \<le> m" using assms(1) by (cases n) auto
    show ?thesis using xi_loop_level[OF m(2) _ past parts_run[OF m(2)], of H "[]" "[]"] assms(2) m by (simp add: xi_loop_empty)
  qed (use XiGraph_one[OF past] in simp)
qed

text \<open>C15: The generator with the explicit stack, which the program runs, and the recursive one do the same from every state of the
  file, panics included, for every index whose numbers fit into 64 bits.\<close>

theorem XiGraphIter_is_XiGraph:
  assumes "1 \<le> n" "n < 62" shows "XiGraphIter H (int n) g = XiGraph H (int n) (g, g_pow2 g)"
  by (simp only: XiGraphIter_sources[OF assms] XiGraph_sources[OF assms(2)])

definition empty_graph :: Graph where
  "empty_graph = \<lparr>g_pk = [1, 2], g_db = [], g_index = 17, g_log2 = 26, g_pow2 = 2 ^ 26, g_size = 40108032\<rparr>"

theorem XiGraphIter_is_XiGraph_witness:
  "XiGraphIter (\<lambda>b. replicate 32 (hd b)) 17 empty_graph = XiGraph (\<lambda>b. replicate 32 (hd b)) 17 (empty_graph, 2 ^ 26)"
  using XiGraphIter_is_XiGraph[of 17 "\<lambda>b. replicate 32 (hd b)" empty_graph] by (simp add: empty_graph_def)

subsection \<open>Nodes of the file\<close>

definition node_at :: "byte list \<Rightarrow> int \<Rightarrow> byte list" where
  "node_at f k = take nodeSize (drop (nat k * nodeSize) f)"

definition written :: "byte list \<Rightarrow> int \<Rightarrow> bool" where
  "written f k \<longleftrightarrow> 0 \<le> k \<and> (nat k + 1) * nodeSize \<le> length f"

abbreviation set_node :: "byte list \<Rightarrow> int \<Rightarrow> byte list \<Rightarrow> byte list" where
  "set_node f c h \<equiv> write_at (nat c * nodeSize) h f"

lemma length_gap: "length (take off (f @ replicate (off - length f) x)) = off"
  by (simp add: min_def)

lemma length_write_at [simp]: "length (write_at off b f) = max (length f) (off + length b)"
  unfolding write_at_def length_append length_gap by (simp add: max_def)

lemma node_set_same: "length h = nodeSize \<Longrightarrow> node_at (set_node f c h) c = h"
  using length_gap[of "nat c * nodeSize" f 0] by (simp add: node_at_def write_at_def)

lemma node_set_other:
  assumes "length h = nodeSize" "0 \<le> c" "written f k" "k \<noteq> c" shows "node_at (set_node f c h) k = node_at f k"
proof -
  have w: "0 \<le> k" "(nat k + 1) * nodeSize \<le> length f" using assms(3) by (simp_all add: written_def)
  consider "nat k + 1 \<le> nat c" | "nat c + 1 \<le> nat k" using assms(2,4) w(1) by linarith
  then show ?thesis
  proof cases
    case 1
    have b: "nat k * nodeSize + nodeSize \<le> nat c * nodeSize" using mult_le_mono1[OF 1, of nodeSize] by simp
    define A where "A = take (nat c * nodeSize) (f @ replicate (nat c * nodeSize - length f) 0)"
    have A: "length A = nat c * nodeSize" unfolding A_def by (rule length_gap)
    have "set_node f c h = A @ h @ drop (nat c * nodeSize + length h) f" by (simp only: write_at_def A_def)
    then have "node_at (set_node f c h) k = take nodeSize (drop (nat k * nodeSize) A)"
      using b A by (simp add: node_at_def)
    also have "\<dots> = take nodeSize (drop (nat k * nodeSize) (f @ replicate (nat c * nodeSize - length f) 0))"
    proof -
      have "min nodeSize (nat c * nodeSize - nat k * nodeSize) = nodeSize" using b by linarith
      then show ?thesis unfolding A_def drop_take take_take by (simp only:)
    qed
    also have "\<dots> = node_at f k" using w(2) by (simp add: node_at_def)
    finally show ?thesis .
  next
    case 2
    have b: "nat c * nodeSize + nodeSize \<le> nat k * nodeSize" using mult_le_mono1[OF 2, of nodeSize] by simp
    have "nat c * nodeSize + nodeSize \<le> length f" using b w(2) by simp
    moreover have "nat c * nodeSize - nat k * nodeSize = 0" "drop (nat k * nodeSize) (take (nat c * nodeSize) f) = []" using b 2 by simp_all
    ultimately show ?thesis using b assms(1) by (simp add: node_at_def write_at_def)
  qed
qed

lemma written_set: "0 \<le> c \<Longrightarrow> length h = nodeSize \<Longrightarrow> written (set_node f c h) k \<longleftrightarrow> written f k \<or> 0 \<le> k \<and> k \<le> c"
  by (auto simp: written_def le_max_iff_disj hashSize_def)

text \<open>A set of nodes is labelled when each was hashed with its parents, which are in the set.\<close>

definition labelled :: "(byte list \<Rightarrow> byte list) \<Rightarrow> byte list \<Rightarrow> int \<Rightarrow> (int \<Rightarrow> int list) \<Rightarrow> int set \<Rightarrow> byte list \<Rightarrow> bool" where
  "labelled H pk pow2 par S f \<longleftrightarrow> (\<forall>k \<in> S. written f k \<and> k < pow2 \<and> set (par k) \<subseteq> S
     \<and> node_at f k = node_hash H pk (pow2 + k) (map (node_at f) (par k)))"

lemma labelled_insert:
  assumes l: "labelled H pk pow2 par S f" and c: "c \<notin> S" "0 \<le> c" "c < pow2" "set (par c) \<subseteq> S"
    and h: "h = node_hash H pk (pow2 + c) (map (node_at f) (par c))" "length h = nodeSize"
  shows "labelled H pk pow2 par (insert c S) (set_node f c h)"
  unfolding labelled_def
proof
  fix k assume k: "k \<in> insert c S"
  have same: "map (node_at (set_node f c h)) (par k) = map (node_at f) (par k)" if "set (par k) \<subseteq> S" for k
  proof (rule map_cong[OF refl])
    fix x assume "x \<in> set (par k)"
    then have "written f x" "x \<noteq> c" using that c(1) l by (auto simp: labelled_def)
    then show "node_at (set_node f c h) x = node_at f x" by (rule node_set_other[OF h(2) c(2)])
  qed
  show "written (set_node f c h) k \<and> k < pow2 \<and> set (par k) \<subseteq> insert c S
      \<and> node_at (set_node f c h) k = node_hash H pk (pow2 + k) (map (node_at (set_node f c h)) (par k))"
  proof (cases "k = c")
    case True
    show ?thesis unfolding True same[OF c(4)] node_set_same[OF h(2)] using c h by (auto simp: written_set)
  next
    case False
    then have s: "k \<in> S" "set (par k) \<subseteq> S" using k l by (auto simp: labelled_def)
    then have w: "written f k" "k < pow2" "node_at f k = node_hash H pk (pow2 + k) (map (node_at f) (par k))" using l by (auto simp: labelled_def)
    show ?thesis unfolding same[OF s(2)] node_set_other[OF h(2) c(2) w(1) False] using w s(2) c(2) h(2) by (auto simp: written_set)
  qed
qed

lemma clear_bit: assumes "0 \<le> k" "k < 2 ^ L" shows "(2 ^ L + k) AND NOT (2 ^ L) = (k :: int)"
proof -
  have "bit (2 ^ L + k) L" using assms by (simp add: bit_iff_odd div_add_self1)
  then have "unset_bit L (2 ^ L + k) = k" by (simp add: unset_bit_eq)
  moreover have "unset_bit L (2 ^ L + k) = (2 ^ L + k) AND NOT (2 ^ L)" by (simp add: unset_bit_eq_and_not push_bit_of_1)
  ultimately show ?thesis by simp
qed

lemma node_offset_at:
  assumes "0 \<le> k" "k < 2 ^ L" "L \<le> 58" shows "node_offset k = k * int nodeSize" "nat (node_offset k) = nat k * nodeSize"
proof -
  have "(2 :: int) ^ L \<le> 2 ^ 58" using assms(3) by (intro power_increasing) simp_all
  then have "k * 32 < 2 ^ 63" using assms(2) by simp
  then show "node_offset k = k * int nodeSize" using assms(1) by (simp add: node_offset_def hashSize_def mod_pos_pos_trivial)
  then show "nat (node_offset k) = nat k * nodeSize" using assms(1) by (simp add: nat_mult_distrib)
qed

lemma GetNode_at:
  assumes "g_pow2 g = 2 ^ L" "L \<le> 58" "written (g_db g) k" "k < 2 ^ L" shows "GetNode (2 ^ L + k) g = Some (node_at (g_db g) k)"
  using assms clear_bit[of k L] node_offset_at[of k L]
  by (auto simp: GetNode_def bfsToPost_def GetId_def written_def node_at_def mult_less_0_iff)

lemma NewNode_at:
  assumes "g_pow2 g = 2 ^ L" "L \<le> 58" "0 \<le> k" "k < 2 ^ L" "length h = nodeSize"
  shows "NewNode (2 ^ L + k) h g = Some (g\<lparr>g_db := set_node (g_db g) k h\<rparr>)"
  using assms clear_bit[of k L] node_offset_at[of k L] by (simp add: NewNode_def bfsToPost_def WriteId_def mult_less_0_iff)

text \<open>The offset of node \<open>2\<^sup>5\<^sup>8\<close>, which the graph of index 47 has, is negative: it can be neither read nor written.\<close>

lemma offset_overflows: "GetId (2 ^ 58) g = None" "WriteId h (2 ^ 58) g = None" "2 ^ 58 < numXi 47"
  by (simp_all add: GetId_def WriteId_def node_offset_def hashSize_def numXi_def shl1_def)

subsection \<open>Generation labels every node\<close>

definition labels :: "(byte list \<Rightarrow> byte list) \<Rightarrow> byte list \<Rightarrow> nat \<Rightarrow> (int \<Rightarrow> int list) \<Rightarrow> int set \<Rightarrow> Graph \<Rightarrow> bool" where
  "labels H pk L par S g \<longleftrightarrow> g_pk g = pk \<and> g_pow2 g = 2 ^ L \<and> L \<le> 58 \<and> labelled H pk (2 ^ L) par S (g_db g)"

text \<open>The first \<open>c\<close> nodes are labelled and the file ends with them.\<close>

definition upto_node :: "(byte list \<Rightarrow> byte list) \<Rightarrow> byte list \<Rightarrow> nat \<Rightarrow> (int \<Rightarrow> int list) \<Rightarrow> int \<Rightarrow> gen \<Rightarrow> bool" where
  "upto_node H pk L par c s \<longleftrightarrow> labels H pk L par {0..<c} (fst s) \<and> snd s = 2 ^ L + c \<and> length (g_db (fst s)) = nat c * nodeSize \<and> 0 \<le> c"

lemma upto_past: "upto_node H pk L par c s \<Longrightarrow> 0 < c \<Longrightarrow> past s"
  by (simp add: upto_node_def labels_def past_def)

lemma for_each_inv:
  assumes "\<And>k s. k < nat (b - a) \<Longrightarrow> P k s \<Longrightarrow> \<exists>s'. f (a + int k) s = Some s' \<and> P (Suc k) s'" "P 0 s"
  shows "\<exists>s'. for_each (ints a b) f s = Some s' \<and> P (nat (b - a)) s'"
proof -
  have "\<exists>s'. for_each (map (\<lambda>k. a + int k) [j..<n]) f s = Some s' \<and> P n s'" if "j \<le> n" "n \<le> nat (b - a)" "P j s" for j n s
    using that
  proof (induction "n - j" arbitrary: j s)
    case (Suc d)
    then have j: "j < n" "[j..<n] = j # [Suc j..<n]" by (simp_all add: upt_rec)
    then obtain s1 where "f (a + int j) s = Some s1" "P (Suc j) s1" using assms(1)[of j s] Suc.prems by auto
    then show ?case using Suc(1)[of "Suc j" s1] Suc(2) Suc.prems j by simp
  qed simp
  then show ?thesis using assms(2) by (simp add: ints_def)
qed

lemma read_parents:
  assumes "labels H pk L par S g" "set ps \<subseteq> S"
  shows "those (map (\<lambda>p. GetNode p g) (map (\<lambda>p. 2 ^ L + p) ps)) = Some (map (node_at (g_db g)) ps)"
  using assms(2)
proof (induction ps)
  case (Cons p ps)
  then have "GetNode (2 ^ L + p) g = Some (node_at (g_db g) p)"
    using assms(1) by (intro GetNode_at) (auto simp: labels_def labelled_def)
  then show ?case using Cons by simp
qed simp

lemma add_node_labels:
  assumes "labels H pk L par S g" "c \<notin> S" "0 \<le> c" "c < 2 ^ L" "set (par c) \<subseteq> S" "\<And>b. length (H b) = nodeSize"
  shows "\<exists>h. length h = nodeSize \<and> add_node H (2 ^ L + c) (map (\<lambda>p. 2 ^ L + p) (par c)) g = Some (g\<lparr>g_db := set_node (g_db g) c h\<rparr>)
    \<and> labels H pk L par (insert c S) (g\<lparr>g_db := set_node (g_db g) c h\<rparr>)"
proof -
  let ?h = "node_hash H pk (2 ^ L + c) (map (node_at (g_db g)) (par c))"
  have h: "length ?h = nodeSize" by (simp add: node_hash_def assms(6))
  have "add_node H (2 ^ L + c) (map (\<lambda>p. 2 ^ L + p) (par c)) g = Some (g\<lparr>g_db := set_node (g_db g) c ?h\<rparr>)"
    using read_parents[OF assms(1,5)] NewNode_at[OF _ _ assms(3,4) h, of g] assms(1) by (simp add: add_node_def labels_def)
  moreover have "labels H pk L par (insert c S) (g\<lparr>g_db := set_node (g_db g) c ?h\<rparr>)"
    using labelled_insert[of H pk "2 ^ L" par S "g_db g" c ?h] assms(1-5) h by (simp add: labels_def)
  ultimately show ?thesis using h by blast
qed

lemma add_upto:
  assumes s: "upto_node H pk L par c s" and c: "c < 2 ^ L" "set (par c) \<subseteq> {0..<c}" and H: "\<And>b. length (H b) = nodeSize"
  shows "\<exists>g. add_node H (2 ^ L + c) (map (\<lambda>p. 2 ^ L + p) (par c)) (fst s) = Some g \<and> upto_node H pk L par (c + 1) (g, snd s + 1)"
proof -
  have "0 \<le> c" and l: "labels H pk L par {0..<c} (fst s)" using s by (simp_all add: upto_node_def)
  obtain h where h: "length h = nodeSize" "add_node H (2 ^ L + c) (map (\<lambda>p. 2 ^ L + p) (par c)) (fst s) = Some ((fst s)\<lparr>g_db := set_node (g_db (fst s)) c h\<rparr>)"
    "labels H pk L par (insert c {0..<c}) ((fst s)\<lparr>g_db := set_node (g_db (fst s)) c h\<rparr>)"
    using add_node_labels[OF l _ \<open>0 \<le> c\<close> c H] by auto
  have "insert c {0..<c} = {0..<c + 1}" using \<open>0 \<le> c\<close> by auto
  moreover have "nat (c + 1) = nat c + 1" using \<open>0 \<le> c\<close> by simp
  ultimately show ?thesis using h s \<open>0 \<le> c\<close> by (intro exI[of _ "(fst s)\<lparr>g_db := set_node (g_db (fst s)) c h\<rparr>"]) (simp add: upto_node_def)
qed

lemma next_upto:
  assumes "upto_node H pk L par c s" "c < 2 ^ L" "set (par c) \<subseteq> {0..<c}" "\<And>b. length (H b) = nodeSize" "map (\<lambda>p. 2 ^ L + p) (par c) = ps"
  shows "\<exists>s'. next_node H ps s = Some s' \<and> upto_node H pk L par (c + 1) s'"
  using add_upto[OF assms(1-4)] assms(1,5) by (auto simp: next_node_def upto_node_def)

lemma row_upto:
  assumes "upto_node H pk L par c s" "0 \<le> p" "\<And>j s. 0 \<le> j \<Longrightarrow> j < p \<Longrightarrow> upto_node H pk L par (c + j) s \<Longrightarrow> \<exists>s'. f j s = Some s' \<and> upto_node H pk L par (c + j + 1) s'"
  shows "\<exists>s'. for_each (ints 0 p) f s = Some s' \<and> upto_node H pk L par (c + p) s'"
proof -
  have "\<exists>s'. for_each (ints 0 p) f s = Some s' \<and> upto_node H pk L par (c + int (nat (p - 0))) s'"
  proof (rule for_each_inv)
    fix k s assume k: "k < nat (p - 0)" "upto_node H pk L par (c + int k) s"
    then show "\<exists>s'. f (0 + int k) s = Some s' \<and> upto_node H pk L par (c + int (Suc k)) s'" using assms(3)[of "int k" s] by (simp add: algebra_simps)
  qed (use assms(1) in simp)
  then show ?thesis using assms(2) by simp
qed

lemma flip_bounds:
  assumes "0 \<le> i" "i < 2 ^ d" "0 \<le> t" "t < int d" "d < 63" shows "0 \<le> flip_at t i \<and> flip_at t i < 2 ^ d"
proof -
  define e where "e = nat t"
  have e: "e < d" "shl1 t = 2 ^ e" "nat t = e" using assms by (auto simp: e_def shl1_def)
  have d: "(2 :: int) ^ d = 2 ^ (d - e) * 2 ^ e" using e(1) by (simp flip: power_add)
  have i: "i = i div 2 ^ e * 2 ^ e + i mod 2 ^ e" "0 \<le> i mod 2 ^ e" "i mod 2 ^ e < 2 ^ e" by (simp_all only: div_mult_mod_eq) simp_all
  have "i div 2 ^ e < 2 ^ (d - e)"
  proof (rule ccontr)
    assume "\<not> i div 2 ^ e < 2 ^ (d - e)"
    then have "2 ^ (d - e) * 2 ^ e \<le> i div 2 ^ e * 2 ^ e" by (intro mult_right_mono) simp_all
    then show False using i assms(2) d by linarith
  qed
  then have q: "0 \<le> i div 2 ^ e" "i div 2 ^ e < 2 ^ (d - e)" using assms(1) by (simp_all add: pos_imp_zdiv_nonneg_iff)
  show ?thesis
  proof (cases "i div 2 ^ e mod 2 = 0")
    case True
    have "even ((2 :: int) ^ (d - e))" using e(1) by simp
    then have "i div 2 ^ e + 1 \<noteq> 2 ^ (d - e)" using True by (metis even_add even_iff_mod_2_eq_zero odd_one)
    then have "i div 2 ^ e + 2 \<le> 2 ^ (d - e)" using q(2) by simp
    then have "(i div 2 ^ e + 2) * 2 ^ e \<le> 2 ^ d" unfolding d by (intro mult_right_mono) simp_all
    then have "i div 2 ^ e * 2 ^ e + 2 * 2 ^ e \<le> 2 ^ d" by (simp only: distrib_right)
    then have "i + 2 ^ e < 2 ^ d" using i by linarith
    then show ?thesis using True assms(1) by (simp add: flip_at_def e)
  next
    case False
    then have "1 \<le> i div 2 ^ e" using q(1) by (cases "i div 2 ^ e = 0") simp_all
    then have "1 * 2 ^ e \<le> i div 2 ^ e * 2 ^ e" by (intro mult_right_mono) simp_all
    then have "2 ^ e \<le> i" using i by linarith
    then show ?thesis using False assms(2) by (simp add: flip_at_def e) (smt (verit) zero_less_power)
  qed
qed

lemma Butterfly_upto:
  assumes d: "1 \<le> d" "d < 62" and s: "upto_node H pk L par (b + 2 ^ d) s" and b: "0 \<le> b" "b + 2 * int d * 2 ^ d \<le> 2 ^ L"
    and H: "\<And>x. length (H x) = nodeSize"
    and par: "\<And>l j. 1 \<le> l \<Longrightarrow> l < 2 * int d \<Longrightarrow> 0 \<le> j \<Longrightarrow> j < 2 ^ d \<Longrightarrow> par (b + l * 2 ^ d + j)
        = [b + (l - 1) * 2 ^ d + flip_at (if int d < l then l - int d else int d - l) j, b + l * 2 ^ d + j - 2 ^ d]"
  shows "\<exists>s'. ButterflyGraph H (int d) s = Some s' \<and> upto_node H pk L par (b + 2 * int d * 2 ^ d) s'"
proof -
  let ?h = "2 ^ d :: int"
  have sh: "shl1 (int d) = ?h" using d by simp
  have start: "snd s - ?h = 2 ^ L + b" using s by (simp add: upto_node_def)
  have e: "ButterflyGraph H (int d) s = for_each (ints 1 (2 * int d)) (\<lambda>l. for_each (ints 0 ?h) (butterfly_node H (int d) (2 ^ L + b) l)) s"
    using d start by (simp add: ButterflyGraph_def Let_def)
  have node: "\<exists>s'. butterfly_node H (int d) (2 ^ L + b) l j s = Some s' \<and> upto_node H pk L par (b + l * ?h + j + 1) s'"
    if l: "1 \<le> l" "l < 2 * int d" and j: "0 \<le> j" "j < ?h" and s: "upto_node H pk L par (b + l * ?h + j) s" for l j s
  proof -
    let ?t = "if int d < l then l - int d else int d - l"
    have f: "0 \<le> flip_at ?t j" "flip_at ?t j < ?h" using flip_bounds[OF j, of ?t] l d by simp_all
    have l1: "0 \<le> (l - 1) * ?h" "l * ?h = (l - 1) * ?h + ?h" using l by (simp_all add: algebra_simps)
    have "(l + 1) * ?h \<le> 2 * int d * ?h" using l by (intro mult_right_mono) simp_all
    then have c: "b + l * ?h + j < 2 ^ L" using j b by (simp add: algebra_simps)
    note p = par[OF l j]
    have "set (par (b + l * ?h + j)) \<subseteq> {0..<b + l * ?h + j}" unfolding p using f l1 b(1) j by auto
    moreover have "map (\<lambda>p. 2 ^ L + p) (par (b + l * ?h + j)) = [2 ^ L + b + (l - 1) * ?h + flip_at ?t j, snd s - ?h]"
      unfolding p using s by (simp add: upto_node_def)
    ultimately have "\<exists>s'. next_node H [2 ^ L + b + (l - 1) * ?h + flip_at ?t j, snd s - ?h] s = Some s' \<and> upto_node H pk L par (b + l * ?h + j + 1) s'"
      by (intro next_upto[OF s c _ H])
    moreover have "butterfly_node H (int d) (2 ^ L + b) l j s = next_node H [2 ^ L + b + (l - 1) * ?h + flip_at ?t j, snd s - ?h] s"
      by (simp add: butterfly_node_def Let_def sh)
    ultimately show ?thesis by simp
  qed
  have "\<exists>s'. for_each (ints 1 (2 * int d)) (\<lambda>l. for_each (ints 0 ?h) (butterfly_node H (int d) (2 ^ L + b) l)) s = Some s'
      \<and> upto_node H pk L par (b + (1 + int (nat (2 * int d - 1))) * ?h) s'"
  proof (rule for_each_inv)
    fix k t assume k: "k < nat (2 * int d - 1)" "upto_node H pk L par (b + (1 + int k) * ?h) t"
    have "\<exists>t'. for_each (ints 0 ?h) (butterfly_node H (int d) (2 ^ L + b) (1 + int k)) t = Some t' \<and> upto_node H pk L par (b + (1 + int k) * ?h + ?h) t'"
      using k by (intro row_upto node) auto
    then show "\<exists>t'. for_each (ints 0 ?h) (butterfly_node H (int d) (2 ^ L + b) (1 + int k)) t = Some t' \<and> upto_node H pk L par (b + (1 + int (Suc k)) * ?h) t'"
      by (simp add: algebra_simps)
  qed (use s in simp)
  then show ?thesis unfolding e using d by simp
qed

lemma PutUvarint_mono: "x \<le> y \<Longrightarrow> length (PutUvarint x) \<le> length (PutUvarint y)"
proof (induction x arbitrary: y rule: PutUvarint.induct)
  case (1 x)
  show ?case
  proof (cases "0x80 \<le> x")
    case True
    then have y: "0x80 \<le> y" using 1(2) by (rule order_trans)
    have "drop_bit 7 x \<le> drop_bit 7 y" using 1(2) by (simp add: word_le_nat_alt unat_div_distrib drop_bit_eq_div div_le_mono)
    then show ?thesis using 1(1)[OF True] True y by (subst (1 2) PutUvarint.simps) simp
  qed (subst (1 2) PutUvarint.simps, simp)
qed

lemma PutVarint_mono:
  assumes "0 \<le> a" "a \<le> b" "b < 2 ^ 63" shows "length (PutVarint a) \<le> length (PutVarint b)"
proof -
  have u: "uint (push_bit 1 (of_int x :: u64)) = 2 * x" if "0 \<le> x" "x < 2 ^ 63" for x
  proof -
    have "push_bit 1 (of_int x :: u64) = of_int (2 * x)" by (simp add: push_bit_eq_mult mult.commute)
    moreover have "uint (of_int (2 * x) :: u64) = 2 * x mod 2 ^ 64" by (subst uint_word_of_int) simp
    moreover have "2 * x mod 2 ^ 64 = 2 * x" using that by simp
    ultimately show ?thesis by (simp only:)
  qed
  have "push_bit 1 (of_int a :: u64) \<le> push_bit 1 (of_int b)" using u[of a] u[of b] assms by (simp add: word_le_def)
  then show ?thesis using assms by (simp add: PutVarint_def Let_def PutUvarint_mono)
qed

lemma put_over: "length v \<le> length w \<Longrightarrow> put w (put v (replicate n 0)) = put w (replicate n 0)"
  by (simp add: put_def)

text \<open>The two sinks of one round.\<close>

lemma sink_pair:
  assumes l: "labels H pk L par S g" and H: "\<And>x. length (H x) = nodeSize"
    and c: "c0 \<notin> S" "c1 \<notin> S" "c0 < c1" "0 \<le> c0" "c1 < 2 ^ L" "L \<le> 62"
    and p: "par c0 = [a, a0]" "par c1 = [a, a1]" "{a, a0, a1} \<subseteq> S"
  defines "buf \<equiv> put (PutVarint (2 ^ L + c0)) (replicate hashSize 0)"
  shows "\<exists>n n0 n1 h0 h1. GetNode (2 ^ L + a) g = Some n \<and> GetNode (2 ^ L + a0) g = Some n0 \<and> GetNode (2 ^ L + a1) g = Some n1
    \<and> h0 = H (pk @ buf @ n @ n0) \<and> h1 = H (pk @ put (PutVarint (2 ^ L + c1)) buf @ n @ n1)
    \<and> NewNode (2 ^ L + c0) h0 g = Some (g\<lparr>g_db := set_node (g_db g) c0 h0\<rparr>)
    \<and> NewNode (2 ^ L + c1) h1 (g\<lparr>g_db := set_node (g_db g) c0 h0\<rparr>) = Some (g\<lparr>g_db := set_node (set_node (g_db g) c0 h0) c1 h1\<rparr>)
    \<and> labels H pk L par (insert c1 (insert c0 S)) (g\<lparr>g_db := set_node (set_node (g_db g) c0 h0) c1 h1\<rparr>)"
proof -
  let ?f = "g_db g"
  define h0 where "h0 = H (pk @ buf @ node_at ?f a @ node_at ?f a0)"
  define h1 where "h1 = H (pk @ put (PutVarint (2 ^ L + c1)) buf @ node_at ?f a @ node_at ?f a1)"
  let ?f1 = "set_node ?f c0 h0"
  have lb: "labelled H pk (2 ^ L) par S ?f" and g: "g_pk g = pk" "g_pow2 g = 2 ^ L" "L \<le> 58" using l by (simp_all add: labels_def)
  have rd: "written ?f x" "x < 2 ^ L" "x \<noteq> c0" if "x \<in> {a, a0, a1}" for x using that p(3) lb c(1) by (auto simp: labelled_def)
  have len: "length h0 = nodeSize" "length h1 = nodeSize" by (simp_all add: h0_def h1_def H)
  have "(2 :: int) ^ L \<le> 2 ^ 62" using c(6) by (intro power_increasing) simp_all
  then have "length (PutVarint (2 ^ L + c0)) \<le> length (PutVarint (2 ^ L + c1))" using c by (intro PutVarint_mono) simp_all
  then have buf: "put (PutVarint (2 ^ L + c1)) buf = put (PutVarint (2 ^ L + c1)) (replicate hashSize 0)" unfolding buf_def by (rule put_over)
  have l0: "labelled H pk (2 ^ L) par (insert c0 S) ?f1"
    using p c by (intro labelled_insert[OF lb] len) (auto simp: h0_def node_hash_def buf_def)
  have "map (node_at ?f1) (par c1) = [node_at ?f a, node_at ?f a1]"
    using node_set_other[OF len(1) c(4) rd(1,3)] by (simp add: p)
  then have "labelled H pk (2 ^ L) par (insert c1 (insert c0 S)) (set_node ?f1 c1 h1)"
    using p c by (intro labelled_insert[OF l0] len) (auto simp: h1_def node_hash_def buf)
  moreover have "NewNode (2 ^ L + c0) h0 g = Some (g\<lparr>g_db := ?f1\<rparr>)"
    "NewNode (2 ^ L + c1) h1 (g\<lparr>g_db := ?f1\<rparr>) = Some (g\<lparr>g_db := set_node ?f1 c1 h1\<rparr>)"
    using NewNode_at[of g L c0 h0] NewNode_at[of "g\<lparr>g_db := ?f1\<rparr>" L c1 h1] g c len by simp_all
  ultimately show ?thesis using GetNode_at[OF g(2,3) rd(1,2)] g h0_def h1_def by (auto simp: labels_def)
qed

lemma sinks_upto:
  assumes s: "upto_node H pk L par c s" and H: "\<And>x. length (H x) = nodeSize" and L: "L \<le> 62"
    and b: "0 \<le> b" "0 < h" "b + 2 * h \<le> c" "h \<le> c" "c + 2 * h \<le> 2 ^ L"
    and par: "\<And>j. 0 \<le> j \<Longrightarrow> j < h \<Longrightarrow> par (c + j) = [c - h + j, b + j] \<and> par (c + h + j) = [c - h + j, b + j + h]"
  shows "\<exists>s'. sink_row H (2 ^ L + b) (snd s) h s = Some s' \<and> upto_node H pk L par (c + 2 * h) s'"
proof -
  define S where "S k = {0..<c + int k} \<union> {c + h..<c + h + int k}" for k :: nat
  define P where "P k s \<longleftrightarrow> labels H pk L par (S k) (fst s) \<and> snd s = 2 ^ L + c + 2 * int k
      \<and> length (g_db (fst s)) = nat (if k = 0 then c else c + h + int k) * nodeSize" for k :: nat and s :: gen
  have sinks: "snd s = 2 ^ L + c" using s by (simp add: upto_node_def)
  have "\<exists>s'. sink_row H (2 ^ L + b) (2 ^ L + c) h s = Some s' \<and> P (nat (h - 0)) s'" unfolding sink_row_def
  proof (rule for_each_inv)
    fix k :: nat and t :: gen assume k: "k < nat (h - 0)" "P k t"
    let ?j = "int k" and ?g = "fst t"
    have j: "0 \<le> ?j" "?j < h" using k(1) by auto
    have l: "labels H pk L par (S k) ?g" and t: "snd t = 2 ^ L + c + 2 * int k" using k(2) by (simp_all add: P_def)
    have par: "par (c + ?j) = [c - h + ?j, b + ?j]" "par (c + h + ?j) = [c - h + ?j, b + ?j + h]" using par[OF j] by blast+
    have S: "insert (c + h + ?j) (insert (c + ?j) (S k)) = S (Suc k)" using b by (auto simp: S_def)
    have c0: "c + ?j \<notin> S k" "c + h + ?j \<notin> S k" "{c - h + ?j, b + ?j, b + ?j + h} \<subseteq> S k" using j b by (auto simp: S_def)
    obtain n n0 n1 h0 h1 where x: "GetNode (2 ^ L + (c - h + ?j)) ?g = Some n" "GetNode (2 ^ L + (b + ?j)) ?g = Some n0"
      "GetNode (2 ^ L + (b + ?j + h)) ?g = Some n1" "h0 = H (pk @ put (PutVarint (2 ^ L + (c + ?j))) (replicate hashSize 0) @ n @ n0)"
      "h1 = H (pk @ put (PutVarint (2 ^ L + (c + h + ?j))) (put (PutVarint (2 ^ L + (c + ?j))) (replicate hashSize 0)) @ n @ n1)"
      "NewNode (2 ^ L + (c + ?j)) h0 ?g = Some (?g\<lparr>g_db := set_node (g_db ?g) (c + ?j) h0\<rparr>)"
      "NewNode (2 ^ L + (c + h + ?j)) h1 (?g\<lparr>g_db := set_node (g_db ?g) (c + ?j) h0\<rparr>) = Some (?g\<lparr>g_db := set_node (set_node (g_db ?g) (c + ?j) h0) (c + h + ?j) h1\<rparr>)"
      "labels H pk L par (S (Suc k)) (?g\<lparr>g_db := set_node (set_node (g_db ?g) (c + ?j) h0) (c + h + ?j) h1\<rparr>)"
      using sink_pair[OF l H c0(1,2) _ _ _ L par c0(3)] j b unfolding S by auto
    have pk: "g_pk ?g = pk" using l by (simp add: labels_def)
    have e: "2 ^ L + c - h + ?j = 2 ^ L + (c - h + ?j)" "2 ^ L + b + ?j = 2 ^ L + (b + ?j)" "2 ^ L + (b + ?j) + h = 2 ^ L + (b + ?j + h)"
      "2 ^ L + c + ?j = 2 ^ L + (c + ?j)" "2 ^ L + (c + ?j) + h = 2 ^ L + (c + h + ?j)" by simp_all
    let ?t = "(?g\<lparr>g_db := set_node (set_node (g_db ?g) (c + ?j) h0) (c + h + ?j) h1\<rparr>, snd t + 2)"
    have "nat (c + ?j) * nodeSize + nodeSize \<le> nat (c + h + (?j + 1)) * nodeSize" "nat (c + h + ?j) * nodeSize + nodeSize = nat (c + h + (?j + 1)) * nodeSize"
      "nat (if k = 0 then c else c + h + ?j) * nodeSize \<le> nat (c + h + (?j + 1)) * nodeSize"
      using b j by (simp_all add: nat_add_distrib nat_mult_distrib algebra_simps)
    then have "P (Suc k) ?t" using x(8) t k(2) H by (simp add: P_def x(4,5) max_def algebra_simps)
    then show "\<exists>t'. (let g = fst t in GetNode (2 ^ L + c - h + (0 + ?j)) g \<bind> (\<lambda>parent0. GetNode (2 ^ L + b + (0 + ?j)) g \<bind>
         (\<lambda>parent1_0. GetNode (2 ^ L + b + (0 + ?j) + h) g \<bind> (\<lambda>parent1_1.
            let buf = put (PutVarint (2 ^ L + c + (0 + ?j))) (replicate hashSize 0); buf2 = put (PutVarint (2 ^ L + c + (0 + ?j) + h)) buf
            in NewNode (2 ^ L + c + (0 + ?j)) (H (g_pk g @ buf @ parent0 @ parent1_0)) g \<bind>
               (\<lambda>g1. NewNode (2 ^ L + c + (0 + ?j) + h) (H (g_pk g @ buf2 @ parent0 @ parent1_1)) g1 \<bind> (\<lambda>g2. Some (g2, snd t + 2))))))) = Some t' \<and> P (Suc k) t'"
      by (intro exI[of _ ?t] conjI) (simp only: add_0 e Let_def pk x(1-3) Option.bind.simps x(4)[symmetric] x(5)[symmetric] x(6,7))
  qed (use s in \<open>simp add: P_def S_def upto_node_def\<close>)
  moreover have "S (nat h) = {0..<c + 2 * h}" using b by (auto simp: S_def)
  ultimately show ?thesis using b by (auto simp: sinks P_def upto_node_def algebra_simps)
qed

lemma copy_upto:
  assumes s: "upto_node H pk L par c s" and H: "\<And>x. length (H x) = nodeSize" and b: "0 < h" "h \<le> c" "c + h \<le> 2 ^ L"
    and par: "\<And>j. 0 \<le> j \<Longrightarrow> j < h \<Longrightarrow> par (c + j) = [c + j - h]"
  shows "\<exists>s'. copy_row H (snd s) h s = Some s' \<and> upto_node H pk L par (c + h) s'"
proof -
  have c: "snd s = 2 ^ L + c" using s by (simp add: upto_node_def)
  show ?thesis unfolding copy_row_def c
  proof (rule row_upto[OF s])
    fix j t assume j: "0 \<le> j" "j < h" and t: "upto_node H pk L par (c + j) t"
    have e: "map (\<lambda>p. 2 ^ L + p) (par (c + j)) = [2 ^ L + c - h + j]" "2 ^ L + (c + j) = 2 ^ L + c + j" using par[OF j] by simp_all
    show "\<exists>t'. add_node H (2 ^ L + c + j) [2 ^ L + c - h + j] (fst t) \<bind> (\<lambda>g. Some (g, snd t + 1)) = Some t' \<and> upto_node H pk L par (c + j + 1) t'"
      using add_upto[OF t _ _ H] par[OF j] j b unfolding e by auto
  qed (use b in simp)
qed

lemma first_upto:
  assumes s: "upto_node H pk L par c s" and H: "\<And>x. length (H x) = nodeSize" and b: "0 \<le> b" "0 < h" "b + 2 * h \<le> c" "c + h \<le> 2 ^ L"
    and par: "\<And>j. 0 \<le> j \<Longrightarrow> j < h \<Longrightarrow> par (c + j) = [b + j, b + j + h]"
  shows "\<exists>s'. first_row H (2 ^ L + b) h s = Some s' \<and> upto_node H pk L par (c + h) s'"
  unfolding first_row_def
proof (rule row_upto[OF s])
  fix j t assume j: "0 \<le> j" "j < h" and t: "upto_node H pk L par (c + j) t"
  show "\<exists>t'. next_node H [2 ^ L + b + j, 2 ^ L + b + j + h] t = Some t' \<and> upto_node H pk L par (c + j + 1) t'"
    using par[OF j] j b by (intro next_upto[OF t _ _ H]) auto
qed (use b in simp)

text \<open>The parts of the graph of index \<open>m + 1\<close> as \<open>GetGraph\<close> finds them.\<close>

lemma GetGraph_regions:
  fixes m :: nat and k :: int
  assumes "1 \<le> m" "m < 61"
  defines "i \<equiv> int (Suc m)" and "h \<equiv> 2 ^ m" and "N \<equiv> numButterfly (int m)" and "X \<equiv> numXi (int m)"
  defines "B \<equiv> 2 * h + N + 2 * X"
  shows "0 \<le> k \<Longrightarrow> k < 2 * h \<Longrightarrow> GetGraph k i = (2 * h, 0)"
    "2 * h \<le> k \<Longrightarrow> k < 3 * h \<Longrightarrow> GetGraph k i = (2 * h, h)"
    "3 * h \<le> k \<Longrightarrow> k < 2 * h + N \<Longrightarrow> GetGraph k i = (k - fst (ButterflyParents (2 * h) k i), k - snd (ButterflyParents (2 * h) k i))"
    "2 * h + N \<le> k \<Longrightarrow> k < 2 * h + N + X \<Longrightarrow> GetGraph k i = GetGraph (k - (2 * h + N)) (int m)"
    "2 * h + N + X \<le> k \<Longrightarrow> k < B \<Longrightarrow> GetGraph k i = GetGraph (k - (2 * h + N + X)) (int m)"
    "B \<le> k \<Longrightarrow> k < B + h \<Longrightarrow> GetGraph k i = (h, 0)"
    "B + h \<le> k \<Longrightarrow> k < B + N \<Longrightarrow> GetGraph k i = (k - fst (ButterflyParents B k i), k - snd (ButterflyParents B k i))"
    "B + N \<le> k \<Longrightarrow> k < B + N + h \<Longrightarrow> GetGraph k i = (h, B + N)"
    "B + N + h \<le> k \<Longrightarrow> k < B + N + 2 * h \<Longrightarrow> GetGraph k i = (2 * h, B + N)"
proof -
  have s: "shl1 i = 2 * h" "i - 1 = int m" "shl1 (int m) = h" "i \<noteq> 1" using assms(1,2) by (simp_all add: i_def h_def shl1_def nat_add_distrib)
  have h: "0 < h" by (simp add: h_def)
  have N: "2 * h \<le> N" using assms(1,2) h by (simp add: N_def numButterfly_def h_def)
  have X: "0 \<le> X" using assms(2) by (simp add: X_def numXi_def)
  have tot: "numXi i = B + N + 2 * h"
    using numXi_step[of i] s assms(1,2) by (simp add: B_def N_def X_def i_def numButterfly_def h_def algebra_simps)
  note u = GetGraph.simps[of k i, unfolded Let_def s(1-3) N_def[symmetric] X_def[symmetric] case_prod_beta]
  show "0 \<le> k \<Longrightarrow> k < 2 * h \<Longrightarrow> GetGraph k i = (2 * h, 0)" by (subst u) (simp add: s(4))
  show "2 * h \<le> k \<Longrightarrow> k < 3 * h \<Longrightarrow> GetGraph k i = (2 * h, h)" using N h by (subst u) (simp add: s(4))
  show "3 * h \<le> k \<Longrightarrow> k < 2 * h + N \<Longrightarrow> GetGraph k i = (k - fst (ButterflyParents (2 * h) k i), k - snd (ButterflyParents (2 * h) k i))"
    using h by (subst u) (simp add: s(4))
  show "2 * h + N \<le> k \<Longrightarrow> k < 2 * h + N + X \<Longrightarrow> GetGraph k i = GetGraph (k - (2 * h + N)) (int m)"
    using N h by (subst u) (simp add: s(4))
  show "2 * h + N + X \<le> k \<Longrightarrow> k < B \<Longrightarrow> GetGraph k i = GetGraph (k - (2 * h + N + X)) (int m)"
    using N h X by (subst u) (simp add: s(4) B_def)
  have e: "2 * h + N + X + X = B" by (simp add: B_def)
  have B: "2 * h + N + X \<le> B" "2 * h + N \<le> B" using X by (simp_all add: B_def)
  note u = u[unfolded e tot]
  show "B \<le> k \<Longrightarrow> k < B + h \<Longrightarrow> GetGraph k i = (h, 0)" using N h B by (subst u) (simp add: s(4))
  show "B + h \<le> k \<Longrightarrow> k < B + N \<Longrightarrow> GetGraph k i = (k - fst (ButterflyParents B k i), k - snd (ButterflyParents B k i))"
    using N h B by (subst u) (simp add: s(4))
  show "GetGraph k i = (h, B + N)" if "B + N \<le> k" "k < B + N + h"
  proof -
    have "(k - (B + N)) mod h = k - (B + N)" using that by (intro mod_pos_pos_trivial) simp_all
    then show ?thesis using that N h B by (subst u) (simp add: s(4))
  qed
  show "GetGraph k i = (2 * h, B + N)" if "B + N + h \<le> k" "k < B + N + 2 * h"
  proof -
    have "(k - (B + N)) mod h = (k - (B + N) - h) mod h" by (simp add: minus_mod_self2)
    also have "\<dots> = k - (B + N) - h" using that by (intro mod_pos_pos_trivial) simp_all
    finally show ?thesis using that N h B by (subst u) (simp add: s(4))
  qed
qed

lemma ButterflyParents_at:
  assumes "m < 61" "0 \<le> j" "j < 2 ^ m"
  shows "ButterflyParents c (c + l * 2 ^ m + j) (int (Suc m))
    = (c + (l - 1) * 2 ^ m + flip_at (if int m < l then l - int m else int m - l) j, c + l * 2 ^ m + j - 2 ^ m)"
proof -
  have "shl1 (int (Suc m) - 1) = 2 ^ m" using assms(1) by simp
  moreover have "(l * 2 ^ m + j) div 2 ^ m = l" "(l * 2 ^ m + j) mod 2 ^ m = j" using assms(2,3) by simp_all
  ultimately show ?thesis by (simp add: ButterflyParents_def Let_def add.assoc)
qed

text \<open>The parents two offsets name; an offset of zero names none.\<close>

definition via_offsets :: "int \<Rightarrow> int \<times> int \<Rightarrow> int list" where
  "via_offsets k off = (if fst off \<noteq> 0 then [k - fst off] else []) @ (if snd off \<noteq> 0 then [k - snd off] else [])"

lemma GetParents_offsets: "\<not> k < shl1 i \<Longrightarrow> GetParents k i = via_offsets k (GetGraph k i)"
  by (simp add: GetParents_def via_offsets_def case_prod_beta)

lemma via_butterfly:
  fixes b c l j :: int
  assumes "m < 61" "0 \<le> j" "j < 2 ^ m" "1 \<le> l" "l < 2 * int m"
  defines "k \<equiv> c + l * 2 ^ m + j" and "t \<equiv> if int m < l then l - int m else int m - l"
  shows "via_offsets (b + k) (k - fst (ButterflyParents c k (int (Suc m))), k - snd (ButterflyParents c k (int (Suc m))))
    = [b + c + (l - 1) * 2 ^ m + flip_at t j, b + c + l * 2 ^ m + j - 2 ^ m]"
proof -
  have "flip_at t j < 2 ^ m" using flip_bounds[of j m t] assms by auto
  then show ?thesis using assms(2) unfolding k_def ButterflyParents_at[OF assms(1-3)] t_def[symmetric]
    by (simp add: via_offsets_def algebra_simps)
qed

lemma GetGraph_source: "1 \<le> m \<Longrightarrow> m < 62 \<Longrightarrow> k < 2 ^ m \<Longrightarrow> GetGraph k (int m) = (2 ^ m, 0)"
  by (subst GetGraph.simps) (auto simp: Let_def)

lemma XiGraph_one_upto:
  assumes H: "\<And>x. length (H x) = nodeSize" and s: "upto_node H pk L par (b + 2) s" and b: "0 \<le> b" "b + 4 \<le> 2 ^ L"
    and par: "\<And>k. 2 \<le> k \<Longrightarrow> k < 4 \<Longrightarrow> par (b + k) = via_offsets (b + k) (GetGraph k 1)"
  shows "\<exists>s'. XiGraph H 1 s = Some s' \<and> upto_node H pk L par (b + 4) s'"
proof -
  have g: "GetGraph 2 1 = (1, 2)" "GetGraph 3 1 = (3, 2)" by (simp_all add: GetGraph.simps)
  have p: "par (b + 2) = [b + 1, b]" "par (b + 3) = [b, b + 1]" using par[of 2] par[of 3] by (simp_all add: g via_offsets_def)
  have "\<exists>s'. ButterflyGraph H (int 1) s = Some s' \<and> upto_node H pk L par (b + 2 * int 1 * 2 ^ 1) s'"
  proof (rule Butterfly_upto[OF _ _ _ b(1) _ H])
    fix l j :: int assume a: "1 \<le> l" "l < 2 * int 1" "0 \<le> j" "j < 2 ^ 1"
    then have "l = 1" "j = 0 \<or> j = 1" by auto
    then show "par (b + l * 2 ^ 1 + j) = [b + (l - 1) * 2 ^ 1 + flip_at (if int 1 < l then l - int 1 else int 1 - l) j, b + l * 2 ^ 1 + j - 2 ^ 1]"
      using p by (auto simp: flip_at_def add.assoc)
  qed (use s b in simp_all)
  moreover have "past s" using s b by (intro upto_past[OF s]) simp
  ultimately show ?thesis by (simp add: XiGraph_one)
qed

text \<open>The parts of a level, from any node \<open>c\<close> of the graph that starts at \<open>b\<close>. The parents are right up to the node \<open>e\<close>.\<close>

lemma part_butterfly:
  fixes b c e :: int and m :: nat
  assumes m: "1 \<le> m" "m < 61" and H: "\<And>x. length (H x) = nodeSize" and b: "0 \<le> b" "b + e \<le> 2 ^ L"
  defines "i \<equiv> int (Suc m)" and "h \<equiv> 2 ^ m" and "N \<equiv> numButterfly (int m)"
  assumes par: "\<And>k. 2 * h \<le> k \<Longrightarrow> k < e \<Longrightarrow> par (b + k) = via_offsets (b + k) (GetGraph k i)"
    and s: "upto_node H pk L par (b + c + h) s" and c: "2 * h \<le> c" "c + N \<le> e"
    and g: "\<And>k. c + h \<le> k \<Longrightarrow> k < c + N \<Longrightarrow> GetGraph k i = (k - fst (ButterflyParents c k i), k - snd (ButterflyParents c k i))"
  shows "\<exists>s'. ButterflyGraph H (int m) s = Some s' \<and> upto_node H pk L par (b + c + N) s'"
proof -
  have h: "0 < h" by (simp add: h_def)
  have N: "N = 2 * int m * h" using m by (simp add: N_def h_def numButterfly_def)
  have "par (b + c + l * h + j) = [b + c + (l - 1) * h + flip_at (if int m < l then l - int m else int m - l) j, b + c + l * h + j - h]"
    if l: "1 \<le> l" "l < 2 * int m" "0 \<le> j" "j < h" for l j
  proof -
    have "h \<le> l * h" "l * h + h \<le> N"
      using l h mult_right_mono[of 1 l h] mult_right_mono[of "l + 1" "2 * int m" h] by (simp_all add: N distrib_right)
    then have k: "c + h \<le> c + l * h + j" "c + l * h + j < c + N" using l(3,4) by linarith+
    then have "par (b + (c + l * h + j)) = via_offsets (b + (c + l * h + j)) (GetGraph (c + l * h + j) i)" using c h by (intro par) simp_all
    then show ?thesis unfolding g[OF k] using via_butterfly[of m j l b c] l m(2) by (simp add: h_def i_def add.assoc)
  qed
  moreover have "0 \<le> b + c" "b + c + N \<le> 2 ^ L" "m < 62" using b c h m by simp_all
  ultimately show ?thesis using Butterfly_upto[OF m(1), of H pk L par "b + c" s, folded h_def, folded N] s H by blast
qed

lemma part_copy:
  fixes b c e h :: int
  assumes H: "\<And>x. length (H x) = nodeSize" and b: "0 \<le> b" "b + e \<le> 2 ^ L" and h: "0 < h"
    and par: "\<And>k. 2 * h \<le> k \<Longrightarrow> k < e \<Longrightarrow> par (b + k) = via_offsets (b + k) (GetGraph k i)"
    and s: "upto_node H pk L par (b + c) s" and c: "2 * h \<le> c" "c + h \<le> e" and g: "\<And>j. 0 \<le> j \<Longrightarrow> j < h \<Longrightarrow> GetGraph (c + j) i = (h, 0)"
  shows "\<exists>s'. copy_row H (snd s) h s = Some s' \<and> upto_node H pk L par (b + c + h) s'"
proof -
  have "par (b + c + j) = [b + c + j - h]" if "0 \<le> j" "j < h" for j
    using par[of "c + j"] that c h g[OF that] by (simp add: via_offsets_def add.assoc)
  then show ?thesis using copy_upto[OF s H h(1)] b c h by simp
qed

definition xi_labels :: "(byte list \<Rightarrow> byte list) \<Rightarrow> byte list \<Rightarrow> nat \<Rightarrow> nat \<Rightarrow> bool" where
  "xi_labels H pk L m \<longleftrightarrow> (\<forall>par b s. upto_node H pk L par (b + 2 ^ m) s \<longrightarrow> 0 \<le> b \<longrightarrow> b + numXi (int m) \<le> 2 ^ L
     \<longrightarrow> (\<forall>k. 2 ^ m \<le> k \<and> k < numXi (int m) \<longrightarrow> par (b + k) = via_offsets (b + k) (GetGraph k (int m)))
     \<longrightarrow> (\<exists>s'. XiGraph H (int m) s = Some s' \<and> upto_node H pk L par (b + numXi (int m)) s'))"

lemma part_xi:
  fixes b c e :: int and m :: nat
  assumes xi: "xi_labels H pk L m" and b: "0 \<le> b" "b + e \<le> 2 ^ L"
  defines "h \<equiv> 2 ^ m" and "X \<equiv> numXi (int m)"
  assumes par: "\<And>k. 2 * h \<le> k \<Longrightarrow> k < e \<Longrightarrow> par (b + k) = via_offsets (b + k) (GetGraph k i)"
    and s: "upto_node H pk L par (b + c + h) s" and c: "2 * h \<le> c" "c + X \<le> e" and g: "\<And>k. c \<le> k \<Longrightarrow> k < c + X \<Longrightarrow> GetGraph k i = GetGraph (k - c) (int m)"
  shows "\<exists>s'. XiGraph H (int m) s = Some s' \<and> upto_node H pk L par (b + c + X) s'"
proof -
  have h: "0 < h" by (simp add: h_def)
  have "par (b + c + k) = via_offsets (b + c + k) (GetGraph k (int m))" if "h \<le> k" "k < X" for k
    using par[of "c + k"] that c h g[of "c + k"] by (simp add: add.assoc)
  moreover have "0 \<le> b + c" "b + c + X \<le> 2 ^ L" using b c h by simp_all
  ultimately show ?thesis using xi[unfolded xi_labels_def, rule_format, of par "b + c" s, folded h_def X_def] s by blast
qed

lemma level_labels:
  assumes H: "\<And>x. length (H x) = nodeSize" and L: "L \<le> 62" and m: "1 \<le> m" "m < 61" and xi: "xi_labels H pk L m" shows "xi_labels H pk L (Suc m)"
  unfolding xi_labels_def
proof (intro allI impI)
  fix par b s
  define i h N X where d: "i = int (Suc m)" "h = (2 :: int) ^ m" "N = numButterfly (int m)" "X = numXi (int m)"
  define B where "B = 2 * h + N + 2 * X"
  note R = GetGraph_regions[OF m, folded d, folded B_def]
  have h: "0 < h" "shl1 (int m) = h" "shl1 i = 2 * h" using m by (simp_all add: d shl1_def nat_add_distrib)
  have N: "2 * h \<le> N" using m by (simp add: d numButterfly_def)
  have X: "h \<le> X" using numXi_ge[of "int m"] m h by (simp add: d)
  define e where "e = B + N + 2 * h"
  have tot: "numXi i = e" using numXi_step[of i] h m by (simp add: e_def B_def d numButterfly_def algebra_simps)
  have p2: "(2 :: int) ^ Suc m = 2 * h" by (simp add: d)
  assume a: "upto_node H pk L par (b + 2 ^ Suc m) s" and b: "0 \<le> b" "b + numXi (int (Suc m)) \<le> 2 ^ L"
    and p: "\<forall>k. 2 ^ Suc m \<le> k \<and> k < numXi (int (Suc m)) \<longrightarrow> par (b + k) = via_offsets (b + k) (GetGraph k (int (Suc m)))"
  have s0: "upto_node H pk L par (b + 2 * h) s" and b: "0 \<le> b" "b + e \<le> 2 ^ L"
    and par: "\<And>k. 2 * h \<le> k \<Longrightarrow> k < e \<Longrightarrow> par (b + k) = via_offsets (b + k) (GetGraph k i)"
    using a b p unfolding d(1)[symmetric] tot p2 by simp_all
  have butter: "\<exists>s'. ButterflyGraph H (int m) s = Some s' \<and> upto_node H pk L par (b + c + N) s'"
    if "upto_node H pk L par (b + c + h) s" "2 * h \<le> c" "c + N \<le> e"
      "\<And>k. c + h \<le> k \<Longrightarrow> k < c + N \<Longrightarrow> GetGraph k i = (k - fst (ButterflyParents c k i), k - snd (ButterflyParents c k i))" for c s
    using that m H b par unfolding d by (intro part_butterfly[where e = e]) simp_all
  have copy: "\<exists>s'. copy_row H (snd s) h s = Some s' \<and> upto_node H pk L par (b + c + h) s'"
    if "upto_node H pk L par (b + c) s" "2 * h \<le> c" "c + h \<le> e" "\<And>j. 0 \<le> j \<Longrightarrow> j < h \<Longrightarrow> GetGraph (c + j) i = (h, 0)" for c s
    using that H b h par by (intro part_copy[where e = e and i = i]) simp_all
  have xi: "\<exists>s'. XiGraph H (int m) s = Some s' \<and> upto_node H pk L par (b + c + X) s'"
    if "upto_node H pk L par (b + c + h) s" "2 * h \<le> c" "c + X \<le> e" "\<And>k. c \<le> k \<Longrightarrow> k < c + X \<Longrightarrow> GetGraph k i = GetGraph (k - c) (int m)" for c s
    using that xi b par unfolding d by (intro part_xi[where e = e and i = "int (Suc m)"]) simp_all
  have src: "GetGraph j (int m) = (h, 0)" if "j < h" for j using GetGraph_source[of m j] m that by (simp add: d)
  have "par (b + 2 * h + j) = [b + j, b + j + h]" if "0 \<le> j" "j < h" for j
    using par[of "2 * h + j"] R(2)[of "2 * h + j"] that h N X by (simp add: via_offsets_def e_def B_def algebra_simps)
  then obtain s1 where s1: "first_row H (snd s - 2 * h) h s = Some s1" "upto_node H pk L par (b + 2 * h + h) s1"
    using first_upto[OF s0 H b(1) h(1)] s0 b h N X by (auto simp: upto_node_def e_def B_def)
  obtain s2 where s2: "ButterflyGraph H (int m) s1 = Some s2" "upto_node H pk L par (b + (2 * h + N)) s2"
    using butter[OF s1(2)] R(3) X h(1) N by (auto simp: e_def B_def add.assoc)
  obtain s3 where s3: "copy_row H (snd s2) h s2 = Some s3" "upto_node H pk L par (b + (2 * h + N) + h) s3"
    using copy[OF s2(2)] R(4) src X h(1) N by (auto simp: e_def B_def)
  obtain s4 where s4: "XiGraph H (int m) s3 = Some s4" "upto_node H pk L par (b + (2 * h + N + X)) s4"
    using xi[OF s3(2)] R(4) X h(1) N by (auto simp: e_def B_def add.assoc)
  obtain s5 where s5: "copy_row H (snd s4) h s4 = Some s5" "upto_node H pk L par (b + (2 * h + N + X) + h) s5"
    using copy[OF s4(2)] R(5) src X h(1) N by (auto simp: e_def B_def)
  obtain s6 where s6: "XiGraph H (int m) s5 = Some s6" "upto_node H pk L par (b + B) s6"
    using xi[OF s5(2)] R(5) X h(1) N by (auto simp: e_def B_def algebra_simps)
  obtain s7 where s7: "copy_row H (snd s6) h s6 = Some s7" "upto_node H pk L par (b + B + h) s7"
    using copy[OF s6(2)] R(6) X h(1) N by (auto simp: e_def B_def)
  obtain s8 where s8: "ButterflyGraph H (int m) s7 = Some s8" "upto_node H pk L par (b + B + N) s8"
    using butter[OF s7(2)] R(7) X h(1) N by (auto simp: e_def B_def)
  have "\<exists>s'. sink_row H (2 ^ L + b) (snd s8) h s8 = Some s' \<and> upto_node H pk L par (b + B + N + 2 * h) s'"
  proof (rule sinks_upto[OF s8(2) H L b(1) h(1)])
    show "par (b + B + N + j) = [b + B + N - h + j, b + j] \<and> par (b + B + N + h + j) = [b + B + N - h + j, b + j + h]" if j: "0 \<le> j" "j < h" for j
      using par[of "B + N + j"] par[of "B + N + h + j"] R(8)[of "B + N + j"] R(9)[of "B + N + h + j"] j h N X
      by (simp add: via_offsets_def e_def B_def algebra_simps)
  qed (use b h N X in \<open>simp_all add: e_def B_def\<close>)
  moreover have c: "snd s8 + 2 * h - e = 2 ^ L + b" using s8(2) by (simp add: upto_node_def e_def)
  have "past s" using s0 b(1) h(1) by (intro upto_past[OF s0]) simp
  then have "XiGraph H i s = sink_row H (2 ^ L + b) (snd s8) h s8"
    using XiGraph_by_count[of s m H, folded d(1), unfolded h tot] m
    by (simp only: s1(1) s2(1) s3(1) s4(1) s5(1) s6(1) s7(1) s8(1) Option.bind.simps c)
  ultimately show "\<exists>s'. XiGraph H (int (Suc m)) s = Some s' \<and> upto_node H pk L par (b + numXi (int (Suc m))) s'"
    unfolding d(1)[symmetric] tot by (simp add: e_def add.assoc)
qed

lemma XiGraph_upto:
  assumes H: "\<And>x. length (H x) = nodeSize" and L: "L \<le> 62" shows "1 \<le> m \<Longrightarrow> m < 62 \<Longrightarrow> xi_labels H pk L m"
proof (induction m)
  case (Suc m)
  show ?case
  proof (cases "m = 0")
    case True
    have x: "numXi 1 = 4" by (simp add: numXi_def)
    show ?thesis unfolding xi_labels_def True
    proof (intro allI impI)
      fix par b s assume "upto_node H pk L par (b + 2 ^ Suc 0) s" "0 \<le> b" "b + numXi (int (Suc 0)) \<le> 2 ^ L"
        "\<forall>k. 2 ^ Suc 0 \<le> k \<and> k < numXi (int (Suc 0)) \<longrightarrow> par (b + k) = via_offsets (b + k) (GetGraph k (int (Suc 0)))"
      then have "\<exists>s'. XiGraph H 1 s = Some s' \<and> upto_node H pk L par (b + 4) s'" by (intro XiGraph_one_upto[OF H]) (simp_all add: x)
      then show "\<exists>s'. XiGraph H (int (Suc 0)) s = Some s' \<and> upto_node H pk L par (b + numXi (int (Suc 0))) s'" by (simp add: x)
    qed
  qed (use Suc level_labels[OF H L] in simp)
qed simp

lemma Log2_bounds: "1 \<le> x \<Longrightarrow> 0 \<le> Log2 x \<and> 2 ^ nat (Log2 x) \<le> x \<and> x < 2 ^ (nat (Log2 x) + 1)"
proof (induction x rule: Log2.induct)
  case (1 x)
  show ?case
  proof (cases "1 < x")
    case True
    then have "1 \<le> x div 2" by linarith
    with 1 True have i: "0 \<le> Log2 (x div 2)" "2 ^ nat (Log2 (x div 2)) \<le> x div 2" "x div 2 < 2 ^ (nat (Log2 (x div 2)) + 1)" by auto
    have "2 * (x div 2) \<le> x" "x < 2 * (x div 2) + 2" by linarith+
    with i True show ?thesis by (subst (1 2 3) Log2.simps) (simp add: nat_add_distrib)
  qed (use 1 in \<open>simp add: Log2.simps\<close>)
qed

lemma numXi_range:
  assumes "1 \<le> n" "n \<le> 46" shows "1 \<le> numXi (int n)" "numXi (int n) < 2 ^ 58"
proof -
  have x: "numXi (int n) = 2 ^ n * ((int n + 1) * int n)" using assms by (simp add: numXi_def)
  have "1 * 1 \<le> (int n + 1) * int n" using assms(1) by (intro mult_mono) auto
  then have "1 * 1 \<le> (2 :: int) ^ n * ((int n + 1) * int n)" by (intro mult_mono) auto
  then show "1 \<le> numXi (int n)" by (simp add: x)
  have "(int n + 1) * int n \<le> 47 * 46" using assms(2) by (intro mult_mono) auto
  moreover have "(2 :: int) ^ n \<le> 2 ^ 46" using assms(2) by (intro power_increasing) auto
  ultimately have "numXi (int n) \<le> 2 ^ 46 * (47 * 46)" unfolding x using assms(2) by (intro mult_mono) auto
  then show "numXi (int n) < 2 ^ 58" by simp
qed

lemma graph_pow2:
  assumes "1 \<le> n" "n \<le> 46"
  shows "\<exists>L \<le> 58. shl1 (Log2 (numXi (int n)) + 1) = 2 ^ L \<and> numXi (int n) < 2 ^ L"
proof -
  note r = numXi_range[OF assms] and l = Log2_bounds[OF numXi_range(1)[OF assms]]
  have "(2 :: int) ^ nat (Log2 (numXi (int n))) < 2 ^ 58" using l r by linarith
  then have "nat (Log2 (numXi (int n))) < 58" by (simp only: power_strict_increasing_iff)
  then show ?thesis using l by (intro exI[of _ "nat (Log2 (numXi (int n))) + 1"]) (auto simp: shl1_def nat_add_distrib)
qed

lemma sources_upto:
  assumes "upto_node H pk L par 0 s" "n < 63" "2 ^ n \<le> (2 :: int) ^ L" "\<And>k. k < 2 ^ n \<Longrightarrow> par k = []" "\<And>x. length (H x) = nodeSize"
  shows "\<exists>s'. gen_sources H (int n) s = Some s' \<and> upto_node H pk L par (2 ^ n) s'"
proof -
  have "\<exists>s'. for_each (ints 0 (2 ^ n)) (\<lambda>i. next_node H []) s = Some s' \<and> upto_node H pk L par (0 + 2 ^ n) s'"
  proof (rule row_upto[OF assms(1)])
    fix j t assume j: "0 \<le> j" "j < 2 ^ n" "upto_node H pk L par (0 + j) t"
    then show "\<exists>t'. next_node H [] t = Some t' \<and> upto_node H pk L par (0 + j + 1) t'"
      using less_le_trans[OF j(2) assms(3)] assms(4) by (intro next_upto[OF _ _ _ assms(5)]) auto
  qed simp
  then show ?thesis using assms(2) by (simp add: gen_sources_def)
qed

lemma generated:
  assumes H: "\<And>x. length (H x) = nodeSize" and n: "1 \<le> n" "n \<le> 46"
  shows "\<exists>L g. L \<le> 58 \<and> g_pow2 g = 2 ^ L \<and> NewGraph H (int n) None pk = Some g \<and> upto_node H pk L (\<lambda>k. GetParents k (int n)) (numXi (int n)) (g, 2 ^ L + numXi (int n))"
proof -
  obtain L where L: "L \<le> 58" "shl1 (Log2 (numXi (int n)) + 1) = 2 ^ L" "numXi (int n) < 2 ^ L" using graph_pow2[OF n] by blast
  let ?par = "\<lambda>k. GetParents k (int n)"
  let ?g = "\<lparr>g_pk = pk, g_db = [], g_index = int n, g_log2 = Log2 (numXi (int n)) + 1, g_pow2 = 2 ^ L, g_size = numXi (int n)\<rparr>"
  have p: "2 ^ n \<le> numXi (int n)" using numXi_ge[of "int n"] n by simp
  have "upto_node H pk L ?par 0 (?g, 2 ^ L)" using L(1) by (simp add: upto_node_def labels_def labelled_def)
  moreover have "n < 63" "2 ^ n \<le> (2 :: int) ^ L" using n p L(3) by linarith+
  moreover have "?par k = []" if "k < 2 ^ n" for k using that n by (simp add: GetParents_def)
  ultimately obtain s where s: "gen_sources H (int n) (?g, 2 ^ L) = Some s" "upto_node H pk L ?par (0 + 2 ^ n) s"
    using sources_upto[of H pk L ?par _ n] H by (metis add_0)
  have "?par (0 + k) = via_offsets (0 + k) (GetGraph k (int n))" if "2 ^ n \<le> k" for k
    using that n by (simp add: GetParents_offsets)
  then obtain s' where s': "XiGraph H (int n) s = Some s'" "upto_node H pk L ?par (0 + numXi (int n)) s'"
    using XiGraph_upto[OF H _ n(1), of L, unfolded xi_labels_def, rule_format, OF _ _ s(2)] L(1,3) n by auto
  have "XiGraphIter H (int n) ?g = Some s'" using XiGraphIter_sources[of n H ?g] n s(1) s'(1) by simp
  then have "NewGraph H (int n) None pk = Some (fst s')" by (simp add: NewGraph_def Let_def L(2))
  then show ?thesis using s'(2) L(1) by (intro exI[of _ L] exI[of _ "fst s'"]) (auto simp: upto_node_def labels_def)
qed

text \<open>C14: A graph is generated without a panic for every index up to 46 (from 47 on the file offset \<open>id*nodeSize\<close> overflows its
  \<open>int64\<close>): no node is read before it is written, the file ends up with
  exactly \<open>numXi\<close> nodes of 32 bytes, and every node is the hash of the key, of its number and of the nodes \<open>GetParents\<close> names,
  all of which are nodes of the graph.\<close>

theorem NewGraph_complete:
  assumes "\<And>b. length (H b) = nodeSize" "1 \<le> n" "n \<le> 46"
  shows "\<exists>g. NewGraph H (int n) None pk = Some g \<and> length (g_db g) = nat (numXi (int n)) * nodeSize \<and>
    (\<forall>k \<in> {0..<numXi (int n)}. set (GetParents k (int n)) \<subseteq> {0..<numXi (int n)}
       \<and> node_at (g_db g) k = node_hash H pk (g_pow2 g + k) (map (node_at (g_db g)) (GetParents k (int n))))"
proof -
  obtain L g where "g_pow2 g = 2 ^ L" "NewGraph H (int n) None pk = Some g"
    "upto_node H pk L (\<lambda>k. GetParents k (int n)) (numXi (int n)) (g, 2 ^ L + numXi (int n))"
    using generated[of H n pk] assms by blast
  then show ?thesis by (intro exI[of _ g]) (auto simp: upto_node_def labels_def labelled_def)
qed

theorem NewGraph_complete_witness:
  "\<exists>g. NewGraph (\<lambda>b. replicate 32 (hd (b @ [0]))) 17 None [7] = Some g \<and> length (g_db g) = 1283457024"
  using NewGraph_complete[of "\<lambda>b. replicate 32 (hd (b @ [0]))" 17 "[7]"] by (auto simp: hashSize_def numXi_def shl1_def)

end
