(* ===== verification/Verthash.thy ===== *)
theory Verthash
  imports VerthashGraph Types
begin

text \<open>
  The proof-of-work hash (\<open>verthash/verthash.go\<close>, \<open>verthash/hasher_impl.go\<close>): opening the data file, checking it and generating it
  again, \<open>SumVerthash\<close> with its 4096 reads of the file, and the \<open>Verthasher\<close> the program uses, whose answers are the field
  \<open>e_Verthash\<close> of the environment in the other theories. Not here: the hasher of random answers kept for tests.

  A file is its bytes. Errors and panics are values of \<open>vh_error\<close>. SHA-3 comes from a library and is a parameter; SHA-256 of the
  standard library is \<open>sha256_spec\<close>. The theorems show that, with a data file of 32 bytes to 4 GiB, no read leaves the file and the
  result is that of a reference definition, whether the file is mapped, loaded or read from disk.
\<close>

subsection \<open>Words and copies\<close>

datatype vh_error = Out_of_range | Read_failed | Nil_hasher | Bad_length nat | Open_failed | Stat_failed | Not_found | Wrong_hash

text \<open>\<open>binary.LittleEndian.Uint32(b[i*4:(i+1)*4])\<close> and \<open>PutUint32\<close>.\<close>

definition le_word :: "byte list \<Rightarrow> nat \<Rightarrow> u32" where
  "le_word b i = ucast (b ! (i * 4)) OR push_bit 8 (ucast (b ! (i * 4 + 1))) OR push_bit 16 (ucast (b ! (i * 4 + 2))) OR push_bit 24 (ucast (b ! (i * 4 + 3)))"

definition put_le32 :: "u32 \<Rightarrow> byte list" where
  "put_le32 w = [ucast w, ucast (drop_bit 8 w), ucast (drop_bit 16 w), ucast (drop_bit 24 w)]"

text \<open>\<open>copy(dst[off:], src)\<close>.\<close>

definition copy_at :: "nat \<Rightarrow> 'a list \<Rightarrow> 'a list \<Rightarrow> 'a list" where
  "copy_at off src dst = take off dst @ take (length dst - off) src @ drop (off + length src) dst"

subsection \<open>The hash\<close>

record Verthash =
  datFileContent :: "byte list option"
  datFile :: "byte list option"
  datFileSize :: int
  isMmap :: bool

definition fnv1a :: "u32 \<Rightarrow> u32 \<Rightarrow> u32" where
  "fnv1a a b = (a XOR b) * 0x1000193"

definition p0_step :: "(byte list \<Rightarrow> byte list) \<Rightarrow> byte list \<times> byte list \<Rightarrow> nat \<Rightarrow> byte list \<times> byte list" where
  "p0_step sum512 st i = (let inputCopy = (hd (fst st) + 1) # tl (fst st) in (inputCopy, copy_at (i * 64) (sum512 inputCopy) (snd st)))"

definition seek_step :: "u32 list \<times> u32 list \<Rightarrow> nat \<Rightarrow> u32 list \<times> u32 list" where
  "seek_step st x = (copy_at (x * 512 div 4) (snd st) (fst st), map (\<lambda>w. push_bit 1 w OR (1 AND drop_bit 31 w)) (snd st))"

definition verthash_mdiv :: "int \<Rightarrow> u32" where
  "verthash_mdiv sz = (of_int sz - 32) div 16 + 1"

definition read_data :: "Verthash \<Rightarrow> u32 \<Rightarrow> vh_error + byte list" where
  "read_data v offset =
     (case datFileContent v of
        Some c \<Rightarrow> (let end' = offset + 32
                  in if offset \<le> end' \<and> unat end' \<le> length c then Inr (take 32 (drop (unat offset) c)) else Inl Out_of_range)
      | None \<Rightarrow> (case datFile v of
                  Some f \<Rightarrow> if unat offset + 32 \<le> length f then Inr (take 32 (drop (unat offset) f)) else Inl Read_failed
                | None \<Rightarrow> Inl Read_failed))"

definition mix_step :: "byte list \<Rightarrow> u32 list \<times> u32 \<Rightarrow> nat \<Rightarrow> u32 list \<times> u32" where
  "mix_step data st i2 = (let value = le_word data i2 in ((fst st)[i2 := fnv1a (fst st ! i2) value], fnv1a (snd st) value))"

fun seek_loop :: "Verthash \<Rightarrow> u32 \<Rightarrow> u32 list \<Rightarrow> u32 list \<times> u32 \<Rightarrow> vh_error + (u32 list \<times> u32)" where
  "seek_loop v mdiv [] st = Inr st"
| "seek_loop v mdiv (seek # ss) st =
     (case read_data v ((fnv1a seek (snd st) mod mdiv) * 16) of
        Inl e \<Rightarrow> Inl e
      | Inr data \<Rightarrow> seek_loop v mdiv ss (foldl (mix_step data) st [0..<8]))"

definition SumVerthash :: "(byte list \<Rightarrow> byte list) \<Rightarrow> (byte list \<Rightarrow> byte list) \<Rightarrow> Verthash \<Rightarrow> byte list \<Rightarrow> vh_error + byte list" where
  "SumVerthash sum256 sum512 v input =
     (if input = [] then Inl Out_of_range
      else (let p1 = copy_at 0 (sum256 input) (replicate 32 0);
                p0 = snd (foldl (p0_step sum512) (input, replicate 512 0) [0..<8]);
                p0Index = map (le_word p0) [0..<length p0 div 4];
                seekIndexes = fst (foldl seek_step (replicate 4096 0, p0Index) [0..<32]);
                p1Arr = map (le_word p1) [0..<8]
            in (case seek_loop v (verthash_mdiv (datFileSize v)) seekIndexes (p1Arr, 0x811c9dc5) of
                  Inl e \<Rightarrow> Inl e
                | Inr (arr, acc) \<Rightarrow> Inr (foldl (\<lambda>p i. copy_at (i * 4) (put_le32 (arr ! i)) p) p1 [0..<8]))))"

subsection \<open>Opening and closing\<close>

text \<open>\<open>file\<close> is \<open>None\<close> when the file cannot be opened; \<open>mapped\<close> tells whether mapping succeeds, \<open>reread\<close> is what \<open>os.ReadFile\<close> gives.\<close>

definition NewVerthash :: "byte list option \<Rightarrow> bool \<Rightarrow> bool \<Rightarrow> byte list option \<Rightarrow> vh_error + Verthash" where
  "NewVerthash file keepInRam mapped reread =
     (case file of
        None \<Rightarrow> Inl Open_failed
      | Some f \<Rightarrow>
          (let v = \<lparr>datFileContent = None, datFile = Some f, datFileSize = int (length f), isMmap = False\<rparr>
           in if keepInRam \<and> 0 < datFileSize v
              then (if mapped then Inr (v\<lparr>datFileContent := Some f, isMmap := True\<rparr>)
                    else (case reread of None \<Rightarrow> Inl Open_failed | Some c \<Rightarrow> Inr (v\<lparr>datFileContent := Some c\<rparr>)))
              else Inr v))"

definition CloseVerthash :: "Verthash \<Rightarrow> Verthash" where
  "CloseVerthash v = v\<lparr>datFileContent := None, datFile := None\<rparr>"

text \<open>The \<open>Verthasher\<close>: an instance, or none.\<close>

definition Hash :: "(byte list \<Rightarrow> byte list) \<Rightarrow> (byte list \<Rightarrow> byte list) \<Rightarrow> Verthash option \<Rightarrow> byte list \<Rightarrow> vh_error + byte list" where
  "Hash sum256 sum512 hasherInstance headerData =
     (case hasherInstance of
        None \<Rightarrow> Inl Nil_hasher
      | Some v \<Rightarrow> if length headerData \<noteq> 80 then Inl (Bad_length (length headerData))
                  else (case SumVerthash sum256 sum512 v headerData of Inl e \<Rightarrow> Inl e | Inr h \<Rightarrow> Inr (copy_at 0 h (replicate 32 0))))"

definition CloseHasher :: "Verthash option \<Rightarrow> Verthash option" where
  "CloseHasher hasherInstance = map_option CloseVerthash hasherInstance"

text \<open>What \<open>os.Stat\<close> says of a path, and then \<open>os.Open\<close>; \<open>loads\<close> tells whether \<open>os.ReadFile\<close> succeeds. \<open>New\<close> tries the configured path and then the default one, \<open>None\<close> without a home directory.
  \<open>Fatalf\<close> ends the program; here it is the error \<open>Not_found\<close>.\<close>

datatype stat = Present "byte list" | Unopenable | Absent | Inaccessible

definition find_datafile :: "(string \<Rightarrow> stat) \<Rightarrow> string option \<Rightarrow> string \<Rightarrow> vh_error + string" where
  "find_datafile stat_of defaultUserPath configured =
     (let default = (case defaultUserPath of
                       None \<Rightarrow> Inl Not_found
                     | Some p \<Rightarrow> (case stat_of p of Present f \<Rightarrow> Inr p | Unopenable \<Rightarrow> Inr p | _ \<Rightarrow> Inl Not_found))
      in if configured = [] then default
         else (case stat_of configured of Present f \<Rightarrow> Inr configured | Unopenable \<Rightarrow> Inr configured | Inaccessible \<Rightarrow> Inl Stat_failed | Absent \<Rightarrow> default))"

definition New :: "(string \<Rightarrow> stat) \<Rightarrow> bool \<Rightarrow> bool \<Rightarrow> string option \<Rightarrow> string \<Rightarrow> vh_error + Verthash option" where
  "New stat_of mapped loads defaultUserPath configured =
     (case find_datafile stat_of defaultUserPath configured of
        Inl e \<Rightarrow> Inl e
      | Inr p \<Rightarrow> (let f = (case stat_of p of Present f \<Rightarrow> Some f | _ \<Rightarrow> None)
                  in (case NewVerthash f True mapped (if loads then f else None) of Inl e \<Rightarrow> Inl e | Inr v \<Rightarrow> Inr (Some v))))"

subsection \<open>The data file\<close>

text \<open>The state is the file, \<open>None\<close> when it is absent; a file that is there can be read. \<open>None\<close> as a result is a panic of the generator.\<close>

definition datafile_seed :: "byte list" where
  "datafile_seed = map (\<lambda>c. of_nat (of_char c)) ''Verthash Proof-of-Space Datafile''"

definition MakeVerthashDatafile :: "(byte list \<Rightarrow> byte list) \<Rightarrow> byte list option \<Rightarrow> byte list option option" where
  "MakeVerthashDatafile sum256 file = map_option (\<lambda>g. Some (g_db g)) (NewGraph sum256 17 file (sum256 datafile_seed))"

definition MakeVerthashDatafileIfNotExists :: "(byte list \<Rightarrow> byte list) \<Rightarrow> byte list option \<Rightarrow> byte list option option" where
  "MakeVerthashDatafileIfNotExists sum256 file = (if file = None then MakeVerthashDatafile sum256 file else Some file)"

definition expectedHash :: "byte list" where
  "expectedHash = (case hex_DecodeString ''a55531e843cd56b010114aaf6325b0d529ecf88f8ad47639b6ededafd721aa48'' of Some b \<Rightarrow> b | None \<Rightarrow> [])"

definition VerifyVerthashDatafile :: "byte list option \<Rightarrow> vh_error + unit" where
  "VerifyVerthashDatafile file =
     (case file of None \<Rightarrow> Inl Open_failed | Some b \<Rightarrow> if sha256_spec b \<noteq> expectedHash then Inl Wrong_hash else Inr ())"

text \<open>\<open>removable\<close> tells whether \<open>os.Remove\<close> succeeds; its error is ignored.\<close>

definition EnsureVerthashDatafile :: "(byte list \<Rightarrow> byte list) \<Rightarrow> bool \<Rightarrow> byte list option \<Rightarrow> (byte list option \<times> (vh_error + unit)) option" where
  "EnsureVerthashDatafile sum256 removable file = do {
     file1 \<leftarrow> MakeVerthashDatafileIfNotExists sum256 file;
     (case VerifyVerthashDatafile file1 of
        Inr u \<Rightarrow> Some (file1, Inr ())
      | Inl e \<Rightarrow> do {
          file2 \<leftarrow> MakeVerthashDatafile sum256 (if removable then None else file1);
          Some (file2, VerifyVerthashDatafile file2) }) }"

subsection \<open>Reference definition\<close>

fun le_words :: "byte list \<Rightarrow> u32 list" where
  "le_words (a # b # c # d # r) = (ucast a OR push_bit 8 (ucast b) OR push_bit 16 (ucast c) OR push_bit 24 (ucast d)) # le_words r"
| "le_words _ = []"

text \<open>One read: the words at the place the accumulator chooses go into the hash and into the accumulator.\<close>

definition ref_read :: "byte list \<Rightarrow> u32 list \<times> u32 \<Rightarrow> u32 \<Rightarrow> u32 list \<times> u32" where
  "ref_read f st seek =
     (let place = unat (fnv1a seek (snd st)) mod ((length f - 32) div 16 + 1) * 16;
          ws = le_words (take 32 (drop place f))
      in (map2 fnv1a (fst st) ws, foldl fnv1a (snd st) ws))"

definition ref_seeks :: "(byte list \<Rightarrow> byte list) \<Rightarrow> byte list \<Rightarrow> u32 list" where
  "ref_seeks sum512 input =
     (let ws = le_words (concat (map (\<lambda>i. sum512 ((hd input + of_nat (Suc i)) # tl input)) [0..<8]))
      in concat (map (\<lambda>x. map (word_rotl x) ws) [0..<32]))"

definition verthash_ref :: "(byte list \<Rightarrow> byte list) \<Rightarrow> (byte list \<Rightarrow> byte list) \<Rightarrow> byte list \<Rightarrow> byte list \<Rightarrow> byte list" where
  "verthash_ref sum256 sum512 f input =
     concat (map put_le32 (fst (foldl (ref_read f) (le_words (sum256 input), 0x811c9dc5) (ref_seeks sum512 input))))"

lemma le_words_nth:
  assumes "length b = 4 * n" shows "le_words b = map (le_word b) [0..<n]"
  using assms
proof (induction b arbitrary: n rule: le_words.induct)
  case (1 a b c d r)
  then obtain m where m: "n = Suc m" "length r = 4 * m" by (cases n) auto
  have "map (le_word (a # b # c # d # r)) [0..<n] = le_word (a # b # c # d # r) 0 # map (\<lambda>i. le_word (a # b # c # d # r) (Suc i)) [0..<m]"
    unfolding m(1) by (subst upt_conv_Cons) (simp_all add: map_Suc_upt[symmetric] del: upt_Suc)
  moreover have "le_word (a # b # c # d # r) (Suc i) = le_word r i" for i by (simp add: le_word_def numeral_eq_Suc)
  moreover have "le_words (a # b # c # d # r) = le_word (a # b # c # d # r) 0 # le_words r" by (simp add: le_word_def)
  ultimately show ?case by (simp only: 1(1)[OF m(2)])
qed auto

lemma length_copy_at [simp]: "off \<le> length dst \<Longrightarrow> off + length src \<le> length dst \<Longrightarrow> length (copy_at off src dst) = length dst"
  by (simp add: copy_at_def)

text \<open>Blocks of equal size copied one after the other.\<close>

lemma copy_block:
  assumes "length pre = i * k" "length b = k" "Suc i * k \<le> length d"
  shows "copy_at (i * k) b (pre @ drop (i * k) d) = (pre @ b) @ drop (Suc i * k) d"
  using assms by (simp add: copy_at_def add.commute)

lemma copy_blocks:
  assumes "\<And>i. i < n \<Longrightarrow> length (g i) = k" "n * k \<le> length d" "j \<le> n"
  shows "foldl (\<lambda>d i. copy_at (i * k) (g i) d) d [0..<j] = concat (map g [0..<j]) @ drop (j * k) d"
  using assms(3)
proof (induction j)
  case (Suc j)
  have l: "length (concat (map g [0..<j])) = j * k" using Suc.prems assms(1) by (induction j) simp_all
  have "Suc j * k \<le> n * k" using Suc.prems by (rule mult_le_mono1)
  then show ?case using Suc copy_block[OF l assms(1)[of j]] assms(2) by simp
qed simp

lemma p0_blocks:
  assumes "\<And>b. length (sum512 b) = 64" "input \<noteq> []" "j \<le> 8"
  shows "foldl (p0_step sum512) (input, replicate 512 0) [0..<j]
    = ((hd input + of_nat j) # tl input, concat (map (\<lambda>i. sum512 ((hd input + of_nat (Suc i)) # tl input)) [0..<j]) @ replicate (512 - j * 64) 0)"
  using assms(3)
proof (induction j)
  case (Suc j)
  let ?g = "\<lambda>i. sum512 ((hd input + of_nat (Suc i)) # tl input)"
  have l: "length (concat (map ?g [0..<j])) = j * 64" using assms(1) by (induction j) simp_all
  show ?case using Suc copy_block[OF l assms(1), of "replicate 512 0"]
    by (simp add: p0_step_def Let_def algebra_simps)
qed (use assms(2) in simp)

lemma rotate_one: "push_bit 1 w OR (1 AND drop_bit 31 w) = word_rotl 1 (w :: u32)"
proof (rule bit_word_eqI)
  fix n assume n: "n < LENGTH(32)"
  then show "bit (push_bit 1 w OR (1 AND drop_bit 31 w)) n = bit (word_rotl 1 w) n"
    unfolding bit_or_iff bit_and_iff bit_push_bit_iff bit_drop_bit_eq bit_1_iff bit_word_rotl_iff by (cases n) auto
qed

lemma rotate_more: "x < 32 \<Longrightarrow> word_rotl 1 (word_rotl x (w :: u32)) = word_rotl (Suc x) w"
proof (rule bit_word_eqI)
  fix n assume x: "x < 32" and n: "n < LENGTH(32)"
  have "((n + 31) mod 32 + (32 - x)) mod 32 = (n + (32 - Suc x mod 32)) mod 32"
  proof (cases "x = 31")
    case False
    then have "n + 31 + (32 - x) = n + (32 - Suc x) + 32" "Suc x mod 32 = Suc x" using x by simp_all
    then show ?thesis by (simp only: mod_add_left_eq mod_add_self2)
  qed (simp add: mod_simps)
  then show "bit (word_rotl 1 (word_rotl x w)) n = bit (word_rotl (Suc x) w) n" using n x by (simp add: bit_word_rotl_iff)
qed

lemma seek_step_rotl: "seek_step st x = (copy_at (x * 128) (snd st) (fst st), map (word_rotl 1) (snd st))"
proof -
  have "x * 512 div 4 = x * 128" by simp
  then show ?thesis by (simp only: seek_step_def rotate_one)
qed

lemma seek_blocks:
  assumes "length ws = 128" "j \<le> 32"
  shows "foldl seek_step (replicate 4096 0, ws) [0..<j]
    = (concat (map (\<lambda>x. map (word_rotl x) ws) [0..<j]) @ drop (j * 128) (replicate 4096 0), map (word_rotl j) ws)"
  using assms(2)
proof (induction j)
  case 0
  have "word_rotl 0 w = w" for w :: u32 by (rule bit_word_eqI) (simp add: bit_word_rotl_iff)
  then show ?case by simp
next
  case (Suc j)
  let ?p = "concat (map (\<lambda>x. map (word_rotl x) ws) [0..<j])"
  have l: "length ?p = j * 128" using assms(1) by (induction j) simp_all
  have "copy_at (j * 128) (map (word_rotl j) ws) (?p @ drop (j * 128) (replicate 4096 0)) = (?p @ map (word_rotl j) ws) @ drop (Suc j * 128) (replicate 4096 0)"
    using assms(1) Suc.prems by (intro copy_block[OF l]) simp_all
  moreover have "map (\<lambda>w. word_rotl 1 (word_rotl j w)) ws = map (word_rotl (Suc j)) ws" using Suc.prems by (intro map_cong refl rotate_more) simp
  ultimately show ?case using Suc by (simp add: seek_step_rotl o_def del: drop_replicate One_nat_def)
qed

lemma read_mix:
  assumes "length data = 32" "length arr = 8"
  shows "foldl (mix_step data) (arr, acc) [0..<8] = (map2 fnv1a arr (le_words data), foldl fnv1a acc (le_words data))"
proof -
  have u: "[0..<8] = [0, 1, 2, 3, 4, 5, 6, 7 :: nat]" by (simp add: upt_rec)
  obtain a0 a1 a2 a3 a4 a5 a6 a7 where "arr = [a0, a1, a2, a3, a4, a5, a6, a7]"
    using assms(2) by (auto simp: numeral_eq_Suc length_Suc_conv)
  then show ?thesis using le_words_nth[of data 8] assms(1) by (simp add: u mix_step_def Let_def)
qed

text \<open>For a file of 32 bytes to 4 GiB every place read is inside the file.\<close>

lemma mdiv_value:
  assumes "32 \<le> l" "l < 2 ^ 32" shows "unat (verthash_mdiv (int l)) = (l - 32) div 16 + 1"
proof -
  have l: "unat (of_nat l - 32 :: u32) = l - 32" using assms by (simp add: unat_sub word_le_nat_alt unat_of_nat take_bit_nat_eq_self)
  have "(l - 32) div 16 + 1 < 2 ^ 32" using assms by linarith
  then show ?thesis using l by (simp add: verthash_mdiv_def unat_word_ariths unat_div_distrib)
qed

lemma place_inside:
  assumes "32 \<le> l" "l < 2 ^ 32"
  shows "unat ((x mod verthash_mdiv (int l)) * 16) = unat x mod ((l - 32) div 16 + 1) * 16" "unat x mod ((l - 32) div 16 + 1) * 16 + 32 \<le> l"
proof -
  let ?m = "(l - 32) div 16 + 1"
  have "unat x mod ?m \<le> (l - 32) div 16" using mod_less_divisor[of ?m "unat x"] by linarith
  then show i: "unat x mod ?m * 16 + 32 \<le> l" using assms(1) by linarith
  have "unat (x mod verthash_mdiv (int l)) = unat x mod ?m" by (simp add: unat_mod_distrib mdiv_value[OF assms])
  then show "unat ((x mod verthash_mdiv (int l)) * 16) = unat x mod ?m * 16" using i assms(2) by (simp add: unat_word_ariths)
qed

subsection \<open>The hash is the reference\<close>

text \<open>The ways a hasher holds the file \<open>f\<close>: in memory, mapped or loaded, or on disk.\<close>

definition holds_file :: "byte list \<Rightarrow> Verthash \<Rightarrow> bool" where
  "holds_file f v \<longleftrightarrow> datFileSize v = int (length f) \<and> (case datFileContent v of Some c \<Rightarrow> c = f | None \<Rightarrow> datFile v = Some f)"

lemma read_inside:
  assumes "holds_file f v" "unat offset + 32 \<le> length f" "length f < 2 ^ 32"
  shows "read_data v offset = Inr (take 32 (drop (unat offset) f))"
proof -
  have "unat (offset + 32) = unat offset + 32" using assms(2,3) by (simp add: unat_word_ariths)
  then show ?thesis using assms by (auto simp: holds_file_def read_data_def Let_def word_le_nat_alt split: option.splits)
qed

lemma length_le_words: "length b = 32 \<Longrightarrow> length (le_words b) = 8"
  using le_words_nth[of b 8] by simp

lemma seek_loop_ref:
  assumes "holds_file f v" "32 \<le> length f" "length f < 2 ^ 32" "length (fst st) = 8"
  shows "seek_loop v (verthash_mdiv (datFileSize v)) ss st = Inr (foldl (ref_read f) st ss) \<and> length (fst (foldl (ref_read f) st ss)) = 8"
  using assms(4)
proof (induction ss arbitrary: st)
  case (Cons s ss)
  let ?o = "fnv1a s (snd st) mod verthash_mdiv (int (length f)) * 16"
  note p = place_inside[OF assms(2,3), of "fnv1a s (snd st)"]
  have d: "length (take 32 (drop (unat ?o) f)) = 32" using p by simp
  have r: "read_data v ?o = Inr (take 32 (drop (unat ?o) f))" using p by (intro read_inside[OF assms(1) _ assms(3)]) simp
  have m: "foldl (mix_step (take 32 (drop (unat ?o) f))) st [0..<8] = ref_read f st s"
    using read_mix[OF d Cons.prems, of "snd st"] by (simp add: ref_read_def Let_def p(1))
  have "length (fst (ref_read f st s)) = 8" using Cons.prems length_le_words[OF d] by (simp add: ref_read_def Let_def p(1))
  then show ?case using Cons.IH[of "ref_read f st s"] r m assms(1) by (simp add: holds_file_def)
qed simp

lemma Sum_by_seeks:
  assumes h: "\<And>b. length (sum256 b) = 32" "\<And>b. length (sum512 b) = 64" and "input \<noteq> []"
  shows "SumVerthash sum256 sum512 v input =
    (case seek_loop v (verthash_mdiv (datFileSize v)) (ref_seeks sum512 input) (le_words (sum256 input), 0x811c9dc5) of
       Inl e \<Rightarrow> Inl e
     | Inr (arr, acc) \<Rightarrow> Inr (foldl (\<lambda>p i. copy_at (i * 4) (put_le32 (arr ! i)) p) (sum256 input) [0..<8]))"
    "length (ref_seeks sum512 input) = 4096"
proof -
  let ?p0 = "concat (map (\<lambda>i. sum512 ((hd input + of_nat (Suc i)) # tl input)) [0..<8])"
  have p0: "snd (foldl (p0_step sum512) (input, replicate 512 0) [0..<8]) = ?p0" by (simp add: p0_blocks[OF h(2) \<open>input \<noteq> []\<close>] del: upt_Suc)
  have "length ?p0 = 512" by (simp add: length_concat o_def sum_list_triv h(2))
  then have w: "map (le_word ?p0) [0..<length ?p0 div 4] = le_words ?p0" "length (le_words ?p0) = 128" using le_words_nth[of ?p0 128] by simp_all
  have seeks: "fst (foldl seek_step (replicate 4096 0, le_words ?p0) [0..<32]) = ref_seeks sum512 input"
    using seek_blocks[OF w(2), of 32] by (simp add: ref_seeks_def Let_def)
  have p1: "copy_at 0 (sum256 input) (replicate 32 0) = sum256 input" using h(1) by (simp add: copy_at_def)
  have "map (le_word (sum256 input)) [0..<8] = le_words (sum256 input)" using le_words_nth[of "sum256 input" 8] h(1) by simp
  then show "SumVerthash sum256 sum512 v input =
    (case seek_loop v (verthash_mdiv (datFileSize v)) (ref_seeks sum512 input) (le_words (sum256 input), 0x811c9dc5) of
       Inl e \<Rightarrow> Inl e
     | Inr (arr, acc) \<Rightarrow> Inr (foldl (\<lambda>p i. copy_at (i * 4) (put_le32 (arr ! i)) p) (sum256 input) [0..<8]))"
    using \<open>input \<noteq> []\<close> by (simp only: SumVerthash_def Let_def p1 p0 w(1) seeks if_False)
  show "length (ref_seeks sum512 input) = 4096" unfolding ref_seeks_def Let_def using w(2) by (simp only: length_concat map_map o_def length_map sum_list_triv length_upt) simp
qed

lemma Sum_is_ref:
  assumes f: "holds_file f v" "32 \<le> length f" "length f < 2 ^ 32" and h: "\<And>b. length (sum256 b) = 32" "\<And>b. length (sum512 b) = 64"
    and "input \<noteq> []"
  shows "SumVerthash sum256 sum512 v input = Inr (verthash_ref sum256 sum512 f input) \<and> length (verthash_ref sum256 sum512 f input) = 32"
proof -
  let ?st = "(le_words (sum256 input), 0x811c9dc5) :: u32 list \<times> u32"
  let ?out = "foldl (ref_read f) ?st (ref_seeks sum512 input)"
  have loop: "seek_loop v (verthash_mdiv (datFileSize v)) (ref_seeks sum512 input) ?st = Inr ?out" "length (fst ?out) = 8"
    using seek_loop_ref[OF f, of ?st] length_le_words[OF h(1)] by simp_all
  have "foldl (\<lambda>p i. copy_at (i * 4) (put_le32 (fst ?out ! i)) p) (sum256 input) [0..<8] = concat (map (\<lambda>i. put_le32 (fst ?out ! i)) [0..<8])"
    using copy_blocks[of 8 "\<lambda>i. put_le32 (fst ?out ! i)" 4 "sum256 input" 8] h(1) by (simp add: put_le32_def)
  also have "map (\<lambda>i. put_le32 (fst ?out ! i)) [0..<8] = map put_le32 (fst ?out)"
    using map_nth[of "fst ?out"] by (subst (2) map_nth[symmetric]) (simp add: loop(2) o_def)
  finally have "SumVerthash sum256 sum512 v input = Inr (concat (map put_le32 (fst ?out)))"
    by (simp only: Sum_by_seeks(1)[OF h \<open>input \<noteq> []\<close>] loop(1) sum.case case_prod_beta)
  moreover have "length (concat (map put_le32 (fst ?out))) = 32" using loop(2) by (simp add: length_concat put_le32_def o_def sum_list_triv)
  ultimately show ?thesis by (simp add: verthash_ref_def)
qed

text \<open>When every read fails the same way, so does the hash.\<close>

lemma Sum_fails:
  assumes "\<And>b. length (sum256 b) = 32" "\<And>b. length (sum512 b) = 64" "input \<noteq> []" "\<And>x. read_data v x = Inl e"
  shows "SumVerthash sum256 sum512 v input = Inl e"
proof (cases "ref_seeks sum512 input")
  case (Cons s ss)
  then show ?thesis by (simp add: Sum_by_seeks(1)[OF assms(1-3)] assms(4))
next
  case Nil
  have "length (ref_seeks sum512 input) = 4096" by (rule Sum_by_seeks(2)[OF assms(1-3)])
  with Nil show ?thesis by simp
qed

text \<open>C16: With a data file of 32 bytes to 4 GiB, mapped, loaded or on disk, \<open>SumVerthash\<close> gives the 32 bytes of the reference definition on
  every input: the 4096 indexes are the 128 words of the eight SHA3-512 digests under the 32 rotations, and no read leaves the file.\<close>

theorem SumVerthash_reference:
  assumes "holds_file f v" "32 \<le> length f" "length f < 2 ^ 32" "\<And>b. length (sum256 b) = 32" "\<And>b. length (sum512 b) = 64" "input \<noteq> []"
  shows "SumVerthash sum256 sum512 v input = Inr (verthash_ref sum256 sum512 f input) \<and> length (verthash_ref sum256 sum512 f input) = 32"
  using Sum_is_ref[OF assms] .

definition demo_file :: "byte list" where "demo_file = concat (map (\<lambda>k. replicate 16 (of_nat k)) [0..<6])"

definition demo_sum :: "nat \<Rightarrow> byte list \<Rightarrow> byte list" where "demo_sum n b = take n (b @ replicate n 0)"

lemma length_demo: "length (demo_sum n b) = n" "length demo_file = 96"
  by (simp_all add: demo_sum_def demo_file_def length_concat o_def sum_list_triv)

theorem SumVerthash_reference_witness:
  "SumVerthash (demo_sum 32) (demo_sum 64) \<lparr>datFileContent = None, datFile = Some demo_file, datFileSize = 96, isMmap = False\<rparr> [1, 2, 3]
     = Inr (verthash_ref (demo_sum 32) (demo_sum 64) demo_file [1, 2, 3])"
  using SumVerthash_reference[of demo_file "\<lparr>datFileContent = None, datFile = Some demo_file, datFileSize = 96, isMmap = False\<rparr>" "demo_sum 32" "demo_sum 64" "[1, 2, 3]"]
  by (simp add: holds_file_def length_demo)

subsection \<open>The hasher\<close>

lemma Hash_length: "Hash sum256 sum512 hv b = Inr h \<Longrightarrow> length h = 32"
  by (auto simp: Hash_def copy_at_def split: option.splits if_splits sum.splits)

lemma Hash_bad: "length b \<noteq> 80 \<Longrightarrow> Hash sum256 sum512 (Some v) b = Inl (Bad_length (length b))"
  by (simp add: Hash_def)

lemma Hash_good:
  assumes "holds_file f v" "32 \<le> length f" "length f < 2 ^ 32" "\<And>b. length (sum256 b) = 32" "\<And>b. length (sum512 b) = 64" "length b = 80"
  shows "Hash sum256 sum512 (Some v) b = Inr (verthash_ref sum256 sum512 f b)"
proof -
  have "b \<noteq> []" using assms(6) by auto
  from Sum_is_ref[OF assms(1-5) this] assms(6) show ?thesis by (simp add: Hash_def copy_at_def)
qed

lemma Hash_fails:
  assumes "\<And>b. length (sum256 b) = 32" "\<And>b. length (sum512 b) = 64" "length b = 80" "\<And>x. read_data v x = Inl e"
  shows "Hash sum256 sum512 (Some v) b = Inl e"
proof -
  have "b \<noteq> []" using assms(3) by auto
  from Sum_fails[OF assms(1,2) this assms(4)] assms(3) show ?thesis by (simp add: Hash_def)
qed

lemma NewVerthash_holds:
  assumes "NewVerthash (Some f) k mapped reread = Inr v" "reread = None \<or> reread = Some f" shows "holds_file f v \<and> datFile v = Some f"
  using assms by (auto simp: NewVerthash_def holds_file_def Let_def split: if_splits option.splits)

lemma New_cases:
  assumes "New stat_of mapped loads dflt configured = Inr hv"
  obtains p f v where "stat_of p = Present f" "hv = Some v" "holds_file f v" "datFileContent v = (if f = [] then None else Some f)"
    "p = configured \<and> configured \<noteq> [] \<or> dflt = Some p \<and> (configured = [] \<or> stat_of configured = Absent)"
proof -
  obtain p where p: "find_datafile stat_of dflt configured = Inr p" using assms by (auto simp: New_def split: sum.splits)
  then have where_p: "p = configured \<and> configured \<noteq> [] \<or> dflt = Some p \<and> (configured = [] \<or> stat_of configured = Absent)"
    by (auto simp: find_datafile_def Let_def split: if_splits option.splits stat.splits)
  obtain f v where f: "stat_of p = Present f" and v: "NewVerthash (Some f) True mapped (if loads then Some f else None) = Inr v" "hv = Some v"
    using assms p by (cases "stat_of p") (auto simp: New_def Let_def NewVerthash_def split: sum.splits if_splits)
  have "datFileContent v = (if f = [] then None else Some f)" using v(1) by (auto simp: NewVerthash_def Let_def split: if_splits option.splits)
  then show ?thesis using that[OF f v(2) _ _ where_p] NewVerthash_holds[OF v(1)] by simp
qed

text \<open>The file \<open>New\<close> opens: the configured one unless it is not there, else the default one.\<close>

definition datafile_path :: "(string \<Rightarrow> stat) \<Rightarrow> string option \<Rightarrow> string \<Rightarrow> string option" where
  "datafile_path stat_of dflt configured = (if configured \<noteq> [] \<and> stat_of configured \<noteq> Absent then Some configured else dflt)"

lemma New_at:
  assumes "New stat_of mapped loads dflt configured = Inr hv"
  obtains p f v where "datafile_path stat_of dflt configured = Some p" "stat_of p = Present f" "hv = Some v" "holds_file f v"
    "datFileContent v = (if f = [] then None else Some f)"
proof -
  obtain p f v where v: "stat_of p = Present f" "hv = Some v" "holds_file f v" "datFileContent v = (if f = [] then None else Some f)"
    "p = configured \<and> configured \<noteq> [] \<or> dflt = Some p \<and> (configured = [] \<or> stat_of configured = Absent)"
    using New_cases[OF assms] by metis
  have "datafile_path stat_of dflt configured = Some p" using v(1,5) by (auto simp: datafile_path_def)
  then show thesis using that v(1-4) by blast
qed

text \<open>The hasher \<open>New\<close> returns works on the file at the configured path or, when there is none, on the one at the default path: with a
  file of 32 bytes to 4 GiB it hashes every header of 80 bytes by the reference definition and refuses every other length with an error,
  and once closed it answers every header with an error.\<close>

theorem hasher_contract:
  assumes "New stat_of mapped loads dflt configured = Inr hv" "\<And>p f. stat_of p = Present f \<Longrightarrow> 32 \<le> length f \<and> length f < 2 ^ 32"
    "\<And>b. length (sum256 b) = 32" "\<And>b. length (sum512 b) = 64"
  shows "\<exists>p f. stat_of p = Present f \<and> (p = configured \<or> dflt = Some p \<and> (configured = [] \<or> stat_of configured = Absent))
    \<and> Hash sum256 sum512 hv b = (if length b = 80 then Inr (verthash_ref sum256 sum512 f b) else Inl (Bad_length (length b)))
    \<and> (length b = 80 \<longrightarrow> Hash sum256 sum512 (CloseHasher hv) b = Inl Read_failed)"
proof -
  obtain p f v where v: "stat_of p = Present f" "hv = Some v" "holds_file f v"
    "p = configured \<and> configured \<noteq> [] \<or> dflt = Some p \<and> (configured = [] \<or> stat_of configured = Absent)"
    using New_cases[OF assms(1)] by metis
  have closed: "Hash sum256 sum512 (CloseHasher hv) b = Inl Read_failed" if "length b = 80"
    using Hash_fails[OF assms(3,4) that, of "CloseVerthash v"] by (simp add: v(2) CloseHasher_def CloseVerthash_def read_data_def)
  have "Hash sum256 sum512 hv b = (if length b = 80 then Inr (verthash_ref sum256 sum512 f b) else Inl (Bad_length (length b)))"
    using Hash_good[OF v(3) _ _ assms(3,4)] Hash_bad assms(2)[OF v(1)] by (simp add: v(2))
  then show ?thesis using v(1,4) closed by blast
qed

theorem hasher_contract_witness:
  "\<exists>p f. (\<lambda>q. Present demo_file) p = Present f
    \<and> Hash (demo_sum 32) (demo_sum 64) (Some \<lparr>datFileContent = Some demo_file, datFile = Some demo_file, datFileSize = 96, isMmap = True\<rparr>) (replicate 80 1)
        = Inr (verthash_ref (demo_sum 32) (demo_sum 64) f (replicate 80 1))"
proof -
  let ?v = "\<lparr>datFileContent = Some demo_file, datFile = Some demo_file, datFileSize = 96, isMmap = True\<rparr>"
  have "New (\<lambda>q. Present demo_file) True True None ''verthash.dat'' = Inr (Some ?v)"
    by (simp add: New_def find_datafile_def NewVerthash_def Let_def length_demo)
  from hasher_contract[OF this, of "demo_sum 32" "demo_sum 64" "replicate 80 1"] show ?thesis by (auto simp: length_demo)
qed

text \<open>With a data file shorter than 32 bytes that is not empty, as a broken download leaves it, \<open>New\<close> succeeds, and the first header to be
  hashed is a panic and not an error: the slice of the file is out of range.\<close>

lemma short_file_panics:
  assumes "datFileContent v = Some f" "length f < 32" "\<And>b. length (sum256 b) = 32" "\<And>b. length (sum512 b) = 64" "length b = 80"
  shows "Hash sum256 sum512 (Some v) b = Inl Out_of_range"
proof -
  have "\<not> (x \<le> x + 32 \<and> unat (x + 32) \<le> length f)" for x :: u32
  proof
    assume a: "x \<le> x + 32 \<and> unat (x + 32) \<le> length f"
    then have "unat (x + 32) = unat x + unat (32 :: u32)" by (simp only: unat_plus_simple)
    then show False using a assms(2) by simp
  qed
  then have "read_data v x = Inl Out_of_range" for x using assms(1) by (simp add: read_data_def Let_def)
  then show ?thesis using Hash_fails[OF assms(3-5)] by simp
qed

theorem truncated_datafile_panics:
  assumes "New stat_of mapped loads dflt configured = Inr hv" "\<And>p f. stat_of p = Present f \<Longrightarrow> f \<noteq> [] \<and> length f < 32"
    "\<And>b. length (sum256 b) = 32" "\<And>b. length (sum512 b) = 64" "length b = 80"
  shows "Hash sum256 sum512 hv b = Inl Out_of_range"
proof -
  obtain p f v where v: "stat_of p = Present f" "hv = Some v" "datFileContent v = (if f = [] then None else Some f)"
    using New_cases[OF assms(1)] by metis
  then show ?thesis using short_file_panics[OF _ _ assms(3-5), of v f] assms(2)[OF v(1)] by simp
qed

theorem truncated_datafile_panics_witness:
  "Hash (demo_sum 32) (demo_sum 64) (Some \<lparr>datFileContent = Some [1], datFile = Some [1], datFileSize = 1, isMmap = True\<rparr>) (replicate 80 1) = Inl Out_of_range"
  by (rule truncated_datafile_panics[of "\<lambda>q. Present [1]" True True None "''verthash.dat''"])
    (simp_all add: New_def find_datafile_def NewVerthash_def Let_def length_demo)

subsection \<open>The data file\<close>

lemma Verify_ok: "VerifyVerthashDatafile file = Inr () \<longleftrightarrow> (\<exists>b. file = Some b \<and> sha256_spec b = expectedHash)"
  by (auto simp: VerifyVerthashDatafile_def split: option.split)

text \<open>\<open>EnsureVerthashDatafile\<close> never panics, whatever is on disk. It reports success only for a file with the expected SHA-256, leaves such a
  file as it is, and otherwise ends with a generated file of 1283457024 bytes, provided the bad one could be removed.\<close>

theorem EnsureVerthashDatafile_spec:
  assumes "\<And>b. length (sum256 b) = 32"
  shows "\<exists>file' r. EnsureVerthashDatafile sum256 removable file = Some (file', r)
    \<and> (r = Inr () \<longleftrightarrow> (\<exists>b. file' = Some b \<and> sha256_spec b = expectedHash))
    \<and> (VerifyVerthashDatafile file = Inr () \<longrightarrow> file' = file \<and> r = Inr ())
    \<and> (VerifyVerthashDatafile file \<noteq> Inr () \<and> removable \<longrightarrow> (\<exists>b. file' = Some b \<and> length b = 1283457024))"
proof -
  obtain L g where "NewGraph sum256 (int 17) None (sum256 datafile_seed) = Some g"
    "upto_node sum256 (sum256 datafile_seed) L (\<lambda>k. GetParents k (int 17)) (numXi (int 17)) (g, 2 ^ L + numXi (int 17))"
    using generated[of sum256 17 "sum256 datafile_seed"] assms by (auto simp: hashSize_def)
  then have g: "MakeVerthashDatafile sum256 None = Some (Some (g_db g))" "length (g_db g) = 1283457024"
    by (simp_all add: MakeVerthashDatafile_def hashSize_def upto_node_def numXi_def shl1_def)
  have same: "MakeVerthashDatafile sum256 (Some f) = Some (Some f)" for f by (simp add: MakeVerthashDatafile_def NewGraph_def Let_def)
  show ?thesis
  proof (cases "file")
    case None
    then show ?thesis using g same
      by (cases "VerifyVerthashDatafile (Some (g_db g))")
        (auto simp: EnsureVerthashDatafile_def MakeVerthashDatafileIfNotExists_def Verify_ok[symmetric] VerifyVerthashDatafile_def split: if_splits)
  next
    case (Some f)
    then show ?thesis using g same
      by (cases "VerifyVerthashDatafile (Some f)"; cases removable)
        (auto simp: EnsureVerthashDatafile_def MakeVerthashDatafileIfNotExists_def VerifyVerthashDatafile_def split: if_splits)
  qed
qed

theorem EnsureVerthashDatafile_spec_witness:
  "\<exists>b r. EnsureVerthashDatafile (demo_sum 32) True None = Some (Some b, r) \<and> length b = 1283457024"
  using EnsureVerthashDatafile_spec[of "demo_sum 32" True None] by (auto simp: length_demo VerifyVerthashDatafile_def)

subsection \<open>The engine of the other components\<close>

text \<open>The field \<open>e_Verthash\<close> of the environment for a hasher that does not panic: its answer, or an error.\<close>

definition verthash_engine :: "(byte list \<Rightarrow> byte list) \<Rightarrow> (byte list \<Rightarrow> byte list) \<Rightarrow> Verthash option \<Rightarrow> byte list \<Rightarrow> byte list option" where
  "verthash_engine sum256 sum512 hv b = (case Hash sum256 sum512 hv b of Inr h \<Rightarrow> Some h | Inl e \<Rightarrow> None)"

lemma engine_length: "verthash_engine sum256 sum512 hv b = Some h \<Longrightarrow> length h = 32"
  by (auto simp: verthash_engine_def split: sum.splits dest: Hash_length)

lemma Hash_total:
  assumes "holds_file f v" "32 \<le> length f" "length f < 2 ^ 32" "\<And>b. length (sum256 b) = 32" "\<And>b. length (sum512 b) = 64"
  shows "Hash sum256 sum512 (Some v) b = (if length b = 80 then Inr (verthash_ref sum256 sum512 f b) else Inl (Bad_length (length b)))"
  using Hash_good[OF assms] Hash_bad[of b sum256 sum512 v] by simp

end
