(* ===== verification/Settings.thy ===== *)
theory Settings
  imports LightMode
begin

text \<open>
  The configuration (\<open>config/config.go\<close>): built-in defaults, then \<open>config.yaml\<close>, then the command line. The theorems show in which order
  they win, what the two lists of peers can be, and whom a node then trusts. The YAML decoder is a parameter, the change it makes to
  the configuration; so are the parsers of libp2p addresses. \<open>active_config\<close> is the part of the result the other theories use.
\<close>

record VardiffConfig =
  v_TargetTime :: rat
  v_RetargetTime :: rat
  v_Variance :: rat
  v_MinDiff :: rat

record FullConfig =
  f_Network :: string
  f_Peers :: "string list"
  f_RPCUser :: string
  f_RPCPass :: string
  f_Testnet :: bool
  f_RPCHost :: string
  f_RPCPort :: int
  f_PoolAddress :: string
  f_P2PPort :: int
  f_StratumPort :: int
  f_Fee :: rat
  f_PPLNSWindow :: int
  f_Vardiff :: VardiffConfig
  f_VerthashDatFile :: string
  f_LogLevel :: string
  f_SoloMode :: bool
  f_P2PSyncTimeout :: int
  f_ForceBlockFind :: bool
  f_DataDir :: string
  f_LightMode :: bool
  f_StratumBind :: string
  f_RPCCookieFile :: string
  f_ParentPID :: int
  f_ShutdownToken :: string
  f_TrustedPeers :: "string list"
  f_P2PBind :: string
  f_DisableUPnP :: bool
  f_DumpShares :: bool

text \<open>The values of the flags after \<open>flag.Parse\<close>; a flag that is not given has its default.\<close>

record Flags =
  dataDir :: string
  net :: string
  testnet :: bool
  rpcHost :: string
  rpcPort :: int
  user :: string
  pass :: string
  stratumPort :: int
  p2pPort :: int
  verthashDat :: string
  poolAddr :: string
  fee :: rat
  logLevel :: string
  lightMode :: bool
  soloMode :: bool
  showVer :: bool
  bindAddr :: string
  cookieFile :: string
  parentPID :: int
  shutdownTok :: string
  peersFlag :: string
  trustedPeersFlag :: string
  p2pBind :: string
  disableUPnP :: bool
  forceBlockFind :: bool
  dumpShares :: bool

definition no_flags :: Flags where
  "no_flags = \<lparr>dataDir = '''', net = '''', testnet = False, rpcHost = '''', rpcPort = 0, user = '''', pass = '''', stratumPort = 0, p2pPort = 0,
     verthashDat = '''', poolAddr = '''', fee = - 1, logLevel = '''', lightMode = False, soloMode = False, showVer = False, bindAddr = '''',
     cookieFile = '''', parentPID = 0, shutdownTok = '''', peersFlag = '''', trustedPeersFlag = '''', p2pBind = '''', disableUPnP = False,
     forceBlockFind = False, dumpShares = False\<rparr>"

definition default_config :: FullConfig where
  "default_config = \<lparr>f_Network = ''vertcoin'',
     f_Peers = [''/ip4/138.68.53.157/tcp/9348/p2p/12D3KooWNiQ2TSXEhFgZrsJuuk9xxNheph8b23pK4RHaPSQFNDwU'',
                ''/dns4/p2poolvtc.com/tcp/9348/p2p/12D3KooWNiQ2TSXEhFgZrsJuuk9xxNheph8b23pK4RHaPSQFNDwU''],
     f_RPCUser = '''', f_RPCPass = '''', f_Testnet = False, f_RPCHost = ''127.0.0.1'', f_RPCPort = 5888, f_PoolAddress = '''', f_P2PPort = 9348,
     f_StratumPort = 9172, f_Fee = 1, f_PPLNSWindow = 8640,
     f_Vardiff = \<lparr>v_TargetTime = 5, v_RetargetTime = 30, v_Variance = f64 (3 / 10), v_MinDiff = f64 (1 / 100)\<rparr>,
     f_VerthashDatFile = '''', f_LogLevel = ''info'', f_SoloMode = False, f_P2PSyncTimeout = 0, f_ForceBlockFind = False, f_DataDir = '''',
     f_LightMode = False, f_StratumBind = '''', f_RPCCookieFile = '''', f_ParentPID = 0, f_ShutdownToken = '''',
     f_TrustedPeers = [''12D3KooWNiQ2TSXEhFgZrsJuuk9xxNheph8b23pK4RHaPSQFNDwU'', ''12D3KooWL65LCCkfLnN2PaEjdXUm4BBHj24nzpABPhDatjNzPKwi''],
     f_P2PBind = ''0.0.0.0'', f_DisableUPnP = False, f_DumpShares = False\<rparr>"

text \<open>\<open>strings.Split\<close> with a separator of one character.\<close>

fun split_on :: "char \<Rightarrow> string \<Rightarrow> string list" where
  "split_on c [] = [[]]"
| "split_on c (x # xs) = (if x = c then [] # split_on c xs else (case split_on c xs of [] \<Rightarrow> [[x]] | y # ys \<Rightarrow> (x # y) # ys))"

text \<open>\<open>multi\<close> is \<open>multiaddr.NewMultiaddr\<close> and \<open>info\<close> tells whether \<open>peer.AddrInfoFromP2pAddr\<close> succeeds.\<close>

definition parsePeerList :: "(string \<Rightarrow> 'ma option) \<Rightarrow> ('ma \<Rightarrow> bool) \<Rightarrow> string \<Rightarrow> string list" where
  "parsePeerList multi info s =
     filter (\<lambda>p. p \<noteq> '''' \<and> (case multi p of None \<Rightarrow> False | Some ma \<Rightarrow> info ma)) (map trim_space (split_on CHR '','' s))"

definition trusted_list :: "string \<Rightarrow> string list" where
  "trusted_list s = filter (\<lambda>p. p \<noteq> '''') (map trim_space (split_on CHR '','' s))"

text \<open>The settings of the command line over those of the file, in the order of the code.\<close>

definition set_if :: "bool \<Rightarrow> ('c \<Rightarrow> 'c) \<Rightarrow> 'c \<Rightarrow> 'c" where
  "set_if b f c = (if b then f c else c)"

definition set_testnet :: "Flags \<Rightarrow> FullConfig \<Rightarrow> FullConfig" where
  "set_testnet fl c = (let c1 = c\<lparr>f_Testnet := True\<rparr> in if f_RPCPort c1 = 5888 \<and> rpcPort fl = 0 then c1\<lparr>f_RPCPort := 15888\<rparr> else c1)"

definition apply_flags :: "(string \<Rightarrow> 'ma option) \<Rightarrow> ('ma \<Rightarrow> bool) \<Rightarrow> Flags \<Rightarrow> FullConfig \<Rightarrow> FullConfig" where
  "apply_flags multi info fl c0 = foldl (\<lambda>c f. f c) c0
     [set_if (dataDir fl \<noteq> '''') (f_DataDir_update (\<lambda>_. dataDir fl)),
      set_if (net fl \<noteq> '''') (f_Network_update (\<lambda>_. net fl)),
      set_if (testnet fl) (set_testnet fl),
      set_if (rpcHost fl \<noteq> '''') (f_RPCHost_update (\<lambda>_. rpcHost fl)),
      set_if (0 < rpcPort fl) (f_RPCPort_update (\<lambda>_. rpcPort fl)),
      set_if (user fl \<noteq> '''') (f_RPCUser_update (\<lambda>_. user fl)),
      set_if (pass fl \<noteq> '''') (f_RPCPass_update (\<lambda>_. pass fl)),
      set_if (0 < stratumPort fl) (f_StratumPort_update (\<lambda>_. stratumPort fl)),
      set_if (0 < p2pPort fl) (f_P2PPort_update (\<lambda>_. p2pPort fl)),
      set_if (verthashDat fl \<noteq> '''') (f_VerthashDatFile_update (\<lambda>_. verthashDat fl)),
      set_if (poolAddr fl \<noteq> '''') (f_PoolAddress_update (\<lambda>_. poolAddr fl)),
      set_if (0 \<le> fee fl) (f_Fee_update (\<lambda>_. fee fl)),
      set_if (logLevel fl \<noteq> '''') (f_LogLevel_update (\<lambda>_. logLevel fl)),
      set_if (lightMode fl) (f_LightMode_update (\<lambda>_. True)),
      set_if (soloMode fl) (f_SoloMode_update (\<lambda>_. True)),
      set_if (p2pBind fl \<noteq> '''') (f_P2PBind_update (\<lambda>_. p2pBind fl)),
      set_if (disableUPnP fl) (f_DisableUPnP_update (\<lambda>_. True)),
      set_if (forceBlockFind fl) (f_ForceBlockFind_update (\<lambda>_. True)),
      set_if (dumpShares fl) (f_DumpShares_update (\<lambda>_. True)),
      set_if (bindAddr fl \<noteq> '''') (f_StratumBind_update (\<lambda>_. bindAddr fl)),
      set_if (cookieFile fl \<noteq> '''') (f_RPCCookieFile_update (\<lambda>_. cookieFile fl)),
      set_if (0 < parentPID fl) (f_ParentPID_update (\<lambda>_. parentPID fl)),
      set_if (shutdownTok fl \<noteq> '''') (f_ShutdownToken_update (\<lambda>_. shutdownTok fl)),
      set_if (peersFlag fl \<noteq> '''') (set_if (parsePeerList multi info (peersFlag fl) \<noteq> []) (f_Peers_update (\<lambda>_. parsePeerList multi info (peersFlag fl)))),
      set_if (trustedPeersFlag fl \<noteq> '''') (f_TrustedPeers_update (\<lambda>_. trusted_list (trustedPeersFlag fl)))]"

text \<open>\<open>entered\<close> tells whether the data directory was made and entered; \<open>yaml\<close> is \<open>None\<close> when there is no \<open>config.yaml\<close> there and
  otherwise what decoding it does to the configuration, errors included. With \<open>-version\<close> the program ends: \<open>None\<close>.\<close>

definition LoadConfig :: "(string \<Rightarrow> 'ma option) \<Rightarrow> ('ma \<Rightarrow> bool) \<Rightarrow> bool \<Rightarrow> (FullConfig \<Rightarrow> FullConfig) option \<Rightarrow> Flags \<Rightarrow> FullConfig option" where
  "LoadConfig multi info entered yaml fl =
     (if showVer fl then None
      else (let c0 = (if dataDir fl \<noteq> '''' \<and> entered then default_config\<lparr>f_DataDir := dataDir fl\<rparr> else default_config);
                c1 = (case yaml of None \<Rightarrow> c0 | Some decode \<Rightarrow> decode c0)
            in Some (apply_flags multi info fl c1)))"

definition active_config :: "FullConfig \<Rightarrow> Config" where
  "active_config c = \<lparr>c_Testnet = f_Testnet c, c_Fee = f_Fee c, c_LightMode = f_LightMode c, c_TrustedPeers = f_TrustedPeers c,
     c_TargetTime = v_TargetTime (f_Vardiff c), c_RetargetTime = v_RetargetTime (f_Vardiff c), c_MinDiff = v_MinDiff (f_Vardiff c)\<rparr>"

subsection \<open>Which setting wins\<close>

text \<open>A step that leaves a field alone, and one that sets it.\<close>

lemma set_if_keep: "(\<And>c. sel (f c) = sel c) \<Longrightarrow> sel (set_if b f c) = sel c"
  by (simp add: set_if_def)

lemma set_if_sets:
  "f_Network (set_if b (f_Network_update h1) c) = (if b then h1 (f_Network c) else f_Network c)"
    "f_Testnet (set_if b (f_Testnet_update h2) c) = (if b then h2 (f_Testnet c) else f_Testnet c)"
    "f_LightMode (set_if b (f_LightMode_update h3) c) = (if b then h3 (f_LightMode c) else f_LightMode c)"
    "f_SoloMode (set_if b (f_SoloMode_update h4) c) = (if b then h4 (f_SoloMode c) else f_SoloMode c)"
    "f_RPCPort (set_if b (f_RPCPort_update h5) c) = (if b then h5 (f_RPCPort c) else f_RPCPort c)"
    "f_Fee (set_if b (f_Fee_update h6) c) = (if b then h6 (f_Fee c) else f_Fee c)"
    "f_Vardiff (set_if b (f_Vardiff_update h7) c) = (if b then h7 (f_Vardiff c) else f_Vardiff c)"
    "f_StratumPort (set_if b (f_StratumPort_update h8) c) = (if b then h8 (f_StratumPort c) else f_StratumPort c)"
    "f_P2PPort (set_if b (f_P2PPort_update h9) c) = (if b then h9 (f_P2PPort c) else f_P2PPort c)"
    "f_Peers (set_if b (f_Peers_update h10) c) = (if b then h10 (f_Peers c) else f_Peers c)"
    "f_TrustedPeers (set_if b (f_TrustedPeers_update h11) c) = (if b then h11 (f_TrustedPeers c) else f_TrustedPeers c)"
    "f_PoolAddress (set_if b (f_PoolAddress_update h12) c) = (if b then h12 (f_PoolAddress c) else f_PoolAddress c)"
    "f_P2PBind (set_if b (f_P2PBind_update h13) c) = (if b then h13 (f_P2PBind c) else f_P2PBind c)"
  by (simp_all add: set_if_def)

lemma set_testnet_fields:
  "f_Testnet (set_if b (set_testnet fl) c) = (b \<or> f_Testnet c)"
  "f_RPCPort (set_if b (set_testnet fl) c) = (if b \<and> f_RPCPort c = 5888 \<and> rpcPort fl = 0 then 15888 else f_RPCPort c)"
  "f_Network (set_testnet fl c) = f_Network c"
  "f_LightMode (set_testnet fl c) = f_LightMode c"
  "f_SoloMode (set_testnet fl c) = f_SoloMode c"
  "f_Fee (set_testnet fl c) = f_Fee c"
  "f_Vardiff (set_testnet fl c) = f_Vardiff c"
  "f_StratumPort (set_testnet fl c) = f_StratumPort c"
  "f_P2PPort (set_testnet fl c) = f_P2PPort c"
  "f_Peers (set_testnet fl c) = f_Peers c"
  "f_TrustedPeers (set_testnet fl c) = f_TrustedPeers c"
  "f_PoolAddress (set_testnet fl c) = f_PoolAddress c"
  "f_P2PBind (set_testnet fl c) = f_P2PBind c"
  by (auto simp: set_testnet_def set_if_def Let_def)

lemmas set_if_keeps = set_if_keep[of f_Network] set_if_keep[of f_Testnet] set_if_keep[of f_LightMode] set_if_keep[of f_SoloMode] set_if_keep[of f_RPCPort] set_if_keep[of f_Fee] set_if_keep[of f_Vardiff] set_if_keep[of f_StratumPort] set_if_keep[of f_P2PPort] set_if_keep[of f_Peers] set_if_keep[of f_TrustedPeers] set_if_keep[of f_PoolAddress] set_if_keep[of f_P2PBind]

lemma peers_step: "f_Peers (set_if b (set_if b' (f_Peers_update h)) c) = (if b \<and> b' then h (f_Peers c) else f_Peers c)"
  by (simp add: set_if_def)

lemma apply_flags_fields:
  "f_Network (apply_flags multi info fl c) = (if net fl \<noteq> '''' then net fl else f_Network c)"
  "f_Testnet (apply_flags multi info fl c) = (testnet fl \<or> f_Testnet c)"
  "f_LightMode (apply_flags multi info fl c) = (lightMode fl \<or> f_LightMode c)"
  "f_RPCPort (apply_flags multi info fl c) = (if 0 < rpcPort fl then rpcPort fl else if testnet fl \<and> f_RPCPort c = 5888 \<and> rpcPort fl = 0 then 15888 else f_RPCPort c)"
  "f_Fee (apply_flags multi info fl c) = (if 0 \<le> fee fl then fee fl else f_Fee c)"
  "f_Vardiff (apply_flags multi info fl c) = f_Vardiff c"
  "f_StratumPort (apply_flags multi info fl c) = (if 0 < stratumPort fl then stratumPort fl else f_StratumPort c)"
  "f_P2PPort (apply_flags multi info fl c) = (if 0 < p2pPort fl then p2pPort fl else f_P2PPort c)"
  "f_Peers (apply_flags multi info fl c) = (if peersFlag fl \<noteq> '''' \<and> parsePeerList multi info (peersFlag fl) \<noteq> [] then parsePeerList multi info (peersFlag fl) else f_Peers c)"
  "f_TrustedPeers (apply_flags multi info fl c) = (if trustedPeersFlag fl \<noteq> '''' then trusted_list (trustedPeersFlag fl) else f_TrustedPeers c)"
  by (simp_all add: apply_flags_def set_if_keeps set_if_sets set_testnet_fields peers_step)

subsection \<open>Peers\<close>

lemma trim_space_ends: assumes "trim_space s \<noteq> []" shows "\<not> is_space (hd (trim_space s))" "\<not> is_space (last (trim_space s))"
proof -
  let ?d = "dropWhile is_space s"
  have r: "rev (trim_space s) = dropWhile is_space (rev ?d)" by (simp add: trim_space_def)
  then have "dropWhile is_space (rev ?d) \<noteq> []" using assms by (metis rev_is_Nil_conv)
  then show "\<not> is_space (last (trim_space s))" using hd_dropWhile[of is_space "rev ?d"] r by (metis hd_rev)
  obtain ys where "?d = trim_space s @ ys" using takeWhile_dropWhile_id[of is_space "rev ?d"] r by (metis rev_append rev_rev_ident)
  moreover from this have "?d \<noteq> []" using assms by auto
  ultimately show "\<not> is_space (hd (trim_space s))" using hd_dropWhile[of is_space s] assms by (metis hd_append2)
qed

lemma trim_space_idem: "trim_space (trim_space s) = trim_space s"
proof (cases "trim_space s = []")
  case False
  let ?t = "trim_space s"
  have "dropWhile is_space ?t = ?t" using trim_space_ends(1)[OF False] False by (cases ?t) auto
  moreover have "dropWhile is_space (rev ?t) = rev ?t" using trim_space_ends(2)[OF False] False by (cases "rev ?t") (auto simp: last_rev hd_rev dest: arg_cong[of _ _ rev])
  ultimately show ?thesis by (simp add: trim_space_def)
next
  case True
  have "trim_space [] = []" by (simp add: trim_space_def)
  then show ?thesis by (simp only: True)
qed

text \<open>The peer an entry of the list of trusted peers names: itself, or what follows its last \<open>/p2p/\<close>.\<close>

definition peer_named :: "string \<Rightarrow> string" where
  "peer_named e = (let tp = trim_space e in case after_last ''/p2p/'' tp of Some r \<Rightarrow> trim_space r | None \<Rightarrow> tp)"

lemma IsTrustedPeer_named: "IsTrustedPeer E p \<longleftrightarrow> p \<noteq> '''' \<and> (\<exists>e \<in> set (c_TrustedPeers (e_Active E)). peer_named e = p)"
  by (simp add: IsTrustedPeer_def peer_named_def Let_def list_ex_iff)

lemma peer_named_trim: "peer_named (trim_space e) = peer_named e"
  by (simp add: peer_named_def trim_space_idem)

lemma peer_named_blank: "trim_space e = [] \<Longrightarrow> peer_named e = []"
  by (simp add: peer_named_def Let_def)

text \<open>C19: With \<open>-trustedpeers\<close> a node trusts exactly the peers its comma-separated entries name, blanks around them and empty entries ignored,
  whatever \<open>config.yaml\<close> says; a list of empty entries trusts no one.\<close>

theorem trusted_by_flag:
  assumes "LoadConfig multi info entered yaml fl = Some c" "trustedPeersFlag fl \<noteq> ''''"
  shows "IsTrustedPeer (E\<lparr>e_Active := active_config c\<rparr>) p \<longleftrightarrow> p \<noteq> '''' \<and> (\<exists>e \<in> set (split_on CHR '','' (trustedPeersFlag fl)). peer_named e = p)"
proof -
  have "f_TrustedPeers c = trusted_list (trustedPeersFlag fl)" using assms by (auto simp: LoadConfig_def Let_def apply_flags_fields split: if_splits)
  then show ?thesis using peer_named_trim peer_named_blank by (force simp: IsTrustedPeer_named active_config_def trusted_list_def)
qed

theorem trusted_by_flag_witness:
  "\<exists>c. LoadConfig (\<lambda>s. Some s) (\<lambda>m. True) True None (no_flags\<lparr>trustedPeersFlag := ''/ip4/1.2.3.4/tcp/1/p2p/Qm ,, ''\<rparr>) = Some c
     \<and> IsTrustedPeer (demo_env\<lparr>e_Active := active_config c\<rparr>) ''Qm'' \<and> \<not> IsTrustedPeer (demo_env\<lparr>e_Active := active_config c\<rparr>) ''12D3KooW''"
proof -
  let ?fl = "no_flags\<lparr>trustedPeersFlag := ''/ip4/1.2.3.4/tcp/1/p2p/Qm ,, ''\<rparr>"
  obtain c where c: "LoadConfig (\<lambda>s. Some s) (\<lambda>m. True) True None ?fl = Some c" by (simp add: LoadConfig_def no_flags_def Let_def)
  have s: "split_on CHR '','' ''/ip4/1.2.3.4/tcp/1/p2p/Qm ,, '' = [''/ip4/1.2.3.4/tcp/1/p2p/Qm '', '''', '' '']" by simp
  have n: "peer_named ''/ip4/1.2.3.4/tcp/1/p2p/Qm '' = ''Qm''" "peer_named '''' = ''''" "peer_named '' '' = ''''" by code_simp+
  show ?thesis using c trusted_by_flag[OF c, of demo_env] by (intro exI[of _ c]) (simp add: s n)
qed

text \<open>The bootstrap peers are the valid entries of \<open>-peers\<close>, addresses that end in a peer's identifier, if there is one; otherwise those of the file
  or the built-in ones. The flag never leaves a node without peers.\<close>

theorem bootstrap_peers:
  assumes "LoadConfig multi info entered yaml fl = Some c"
  shows "(f_Peers c = parsePeerList multi info (peersFlag fl) \<and> f_Peers c \<noteq> [] \<and> (\<forall>p \<in> set (f_Peers c). \<exists>ma. multi p = Some ma \<and> info ma \<and> trim_space p = p))
    \<or> (\<exists>c0. f_Peers c0 = f_Peers default_config \<and> f_Peers c = f_Peers (case yaml of None \<Rightarrow> c0 | Some decode \<Rightarrow> decode c0)
         \<and> (peersFlag fl = '''' \<or> parsePeerList multi info (peersFlag fl) = []))"
proof -
  define c0 where "c0 = (if dataDir fl \<noteq> '''' \<and> entered then default_config\<lparr>f_DataDir := dataDir fl\<rparr> else default_config)"
  have c: "c = apply_flags multi info fl (case yaml of None \<Rightarrow> c0 | Some decode \<Rightarrow> decode c0)" and p: "f_Peers c0 = f_Peers default_config"
    using assms unfolding LoadConfig_def c0_def[symmetric] Let_def by (simp_all add: c0_def split: if_splits)
  have v: "\<exists>ma. multi p = Some ma \<and> info ma \<and> trim_space p = p" if "p \<in> set (parsePeerList multi info (peersFlag fl))" for p
    using that by (auto simp: parsePeerList_def trim_space_idem split: option.splits)
  show ?thesis
  proof (cases "peersFlag fl \<noteq> '''' \<and> parsePeerList multi info (peersFlag fl) \<noteq> []")
    case True
    then show ?thesis using v by (simp add: c apply_flags_fields)
  next
    case False
    then show ?thesis using p by (intro disjI2 exI[of _ c0]) (auto simp: c apply_flags_fields)
  qed
qed

text \<open>An explicit port wins; \<open>-testnet\<close> moves the default port of the node. A file that sets \<open>testnet\<close> does not: the program then asks a
  testnet node on the port of the main network.\<close>

lemma rpc_port_of_flags:
  assumes "LoadConfig multi info entered None fl = Some c" "0 \<le> rpcPort fl"
  shows "f_RPCPort c = (if 0 < rpcPort fl then rpcPort fl else if testnet fl then 15888 else 5888)"
  using assms by (auto simp: LoadConfig_def Let_def apply_flags_fields default_config_def split: if_splits)

lemma testnet_file_keeps_port:
  "\<exists>c. LoadConfig multi info True (Some (f_Testnet_update (\<lambda>_. True))) no_flags = Some c \<and> f_Testnet c \<and> f_RPCPort c = 5888"
  by (simp add: LoadConfig_def no_flags_def Let_def apply_flags_fields default_config_def)

theorem bootstrap_peers_witness:
  "\<exists>c. LoadConfig (\<lambda>s. if s = ''x'' then None else Some s) (\<lambda>m. m \<noteq> ''y'') True None (no_flags\<lparr>peersFlag := '' a,x,,y, b''\<rparr>) = Some c \<and> f_Peers c = [''a'', ''b'']"
proof -
  let ?fl = "no_flags\<lparr>peersFlag := '' a,x,,y, b''\<rparr>" and ?m = "\<lambda>s. if s = ''x'' then None else Some s" and ?i = "\<lambda>m. m \<noteq> ''y''"
  obtain c where c: "LoadConfig ?m ?i True None ?fl = Some c" by (simp add: LoadConfig_def no_flags_def Let_def)
  have p: "parsePeerList ?m ?i '' a,x,,y, b'' = [''a'', ''b'']" by code_simp
  show ?thesis using c bootstrap_peers[OF c] by (intro exI[of _ c]) (simp add: p)
qed

end
