(* ===== verification/Networks.thy ===== *)
theory Networks
  imports Settings Verthash
begin

text \<open>
  The active network (\<open>net/networks.go\<close>, \<open>net/vertcoin.go\<close>) and the first steps of \<open>main\<close>, from the command line to the Verthash engine of
  the active network, on which every proof of work of the program is computed. The parameters of btcd's networks are arguments. The closure
  \<open>POWHash\<close> of a network, which nothing calls, is left out. The theorem follows a start from the flags to the hash of a header.
\<close>

record ChainParams =
  cp_Name :: string
  cp_PubKeyHashAddrID :: byte
  cp_ScriptHashAddrID :: byte
  cp_Bech32HRPSegwit :: string
  cp_WitnessPubKeyHashAddrID :: byte
  cp_WitnessScriptHashAddrID :: byte
  cp_PowLimit :: int

record Network =
  n_MessagePrefix :: "byte list"
  n_Identifier :: "byte list"
  n_P2PPort :: int
  n_StandardP2PPort :: int
  n_ProtocolVersion :: int
  n_RPCPort :: int
  n_WorkerPort :: int
  n_ChainLength :: int
  n_SeedHosts :: "string list"
  n_Verthash :: "Verthash option option"

text \<open>\<open>hex.DecodeString\<close> without its error.\<close>

definition hex_bytes :: "string \<Rightarrow> byte list" where
  "hex_bytes s = (case hex_DecodeString s of Some b \<Rightarrow> b | None \<Rightarrow> [])"

definition Vertcoin :: "FullConfig \<Rightarrow> Network" where
  "Vertcoin c = \<lparr>n_MessagePrefix = hex_bytes ''e4c3b2a1f0d9e8c7'', n_Identifier = hex_bytes ''d8b3c4e5f6a7b8c9'', n_P2PPort = f_P2PPort c,
     n_StandardP2PPort = 9348, n_ProtocolVersion = 3501, n_RPCPort = f_RPCPort c, n_WorkerPort = f_StratumPort c, n_ChainLength = 5100,
     n_SeedHosts = f_Peers c, n_Verthash = None\<rparr>"

definition getVtcChainConfig :: "(u32 \<Rightarrow> int) \<Rightarrow> ChainParams \<Rightarrow> ChainParams \<Rightarrow> bool \<Rightarrow> ChainParams" where
  "getVtcChainConfig compactToBig mainNet testNet3 test =
     (if test then testNet3\<lparr>cp_PowLimit := compactToBig 0x1f01670c\<rparr>
      else mainNet\<lparr>cp_Name := ''vertcoin'', cp_PubKeyHashAddrID := 0x47, cp_ScriptHashAddrID := 0x05, cp_Bech32HRPSegwit := ''vtc'',
                   cp_WitnessPubKeyHashAddrID := 0x06, cp_WitnessScriptHashAddrID := 0x0A, cp_PowLimit := compactToBig 0x1e0ffff0\<rparr>)"

text \<open>Another name is a panic.\<close>

definition SetNetwork :: "(u32 \<Rightarrow> int) \<Rightarrow> ChainParams \<Rightarrow> ChainParams \<Rightarrow> FullConfig \<Rightarrow> string \<Rightarrow> bool \<Rightarrow> Verthash option \<Rightarrow> (Network \<times> ChainParams) option" where
  "SetNetwork compactToBig mainNet testNet3 c name test vh =
     (if name = ''vertcoin'' \<or> name = ''Vertcoin''
      then Some ((Vertcoin c)\<lparr>n_Verthash := Some vh\<rparr>, getVtcChainConfig compactToBig mainNet testNet3 test) else None)"

text \<open>The start of \<open>main\<close>: \<open>None\<close> when the program ends, at \<open>-version\<close>, without a data file, or with the panic above.\<close>

definition start_network :: "(string \<Rightarrow> 'ma option) \<Rightarrow> ('ma \<Rightarrow> bool) \<Rightarrow> bool \<Rightarrow> (FullConfig \<Rightarrow> FullConfig) option \<Rightarrow> (string \<Rightarrow> stat) \<Rightarrow> bool \<Rightarrow> bool
    \<Rightarrow> string option \<Rightarrow> (u32 \<Rightarrow> int) \<Rightarrow> ChainParams \<Rightarrow> ChainParams \<Rightarrow> Flags \<Rightarrow> (FullConfig \<times> Network \<times> ChainParams) option" where
  "start_network multi info entered yaml stat_of mapped loads dflt compactToBig mainNet testNet3 fl =
     (case LoadConfig multi info entered yaml fl of
        None \<Rightarrow> None
      | Some c \<Rightarrow>
          (case New stat_of mapped loads dflt (f_VerthashDatFile c) of
             Inl e \<Rightarrow> None
           | Inr vh \<Rightarrow> map_option (\<lambda>r. (c, r)) (SetNetwork compactToBig mainNet testNet3 c (f_Network c) (f_Testnet c) vh)))"

lemma verthash_flag: "f_VerthashDatFile (apply_flags multi info fl c) = (if verthashDat fl \<noteq> '''' then verthashDat fl else f_VerthashDatFile c)"
proof -
  have keep: "f_VerthashDatFile (set_testnet fl c) = f_VerthashDatFile c" for c by (simp add: set_testnet_def Let_def)
  have set: "f_VerthashDatFile (set_if b (f_VerthashDatFile_update h) c) = (if b then h (f_VerthashDatFile c) else f_VerthashDatFile c)" for b h c
    by (simp add: set_if_def)
  show ?thesis by (simp add: apply_flags_def set_if_keep[of f_VerthashDatFile] keep set)
qed

text \<open>C20: A program that starts has the engine of its active network on one determined file: the one that \<open>-verthash\<close> names, or without
  the flag the one the configuration file (or else the built-in default) names, unless that is empty or not there, and then the one at the
  default path. With a file of 32 bytes to 4 GiB there, the engine hashes every header of 80 bytes by the reference definition of Verthash over that
  file and answers every other length with an error; with a file of 1 to 31 bytes it starts too, and every header of 80 bytes makes it panic.\<close>

theorem startup_hash:
  assumes "start_network multi info entered yaml stat_of mapped loads dflt compactToBig mainNet testNet3 fl = Some (c, n, cp)"
    "\<And>b. length (sum256 b) = 32" "\<And>b. length (sum512 b) = 64"
  shows "\<exists>configured p f hv. n_Verthash n = Some hv
    \<and> configured = (if verthashDat fl \<noteq> '''' then verthashDat fl
         else f_VerthashDatFile (case yaml of None \<Rightarrow> default_config
           | Some decode \<Rightarrow> decode (if dataDir fl \<noteq> '''' \<and> entered then default_config\<lparr>f_DataDir := dataDir fl\<rparr> else default_config)))
    \<and> (if configured \<noteq> '''' \<and> stat_of configured \<noteq> Absent then p = configured else dflt = Some p) \<and> stat_of p = Present f
    \<and> (32 \<le> length f \<and> length f < 2 ^ 32 \<longrightarrow>
         Hash sum256 sum512 hv b = (if length b = 80 then Inr (verthash_ref sum256 sum512 f b) else Inl (Bad_length (length b))))
    \<and> (f \<noteq> [] \<and> length f < 32 \<and> length b = 80 \<longrightarrow> Hash sum256 sum512 hv b = Inl Out_of_range)"
proof -
  obtain hv where l: "LoadConfig multi info entered yaml fl = Some c" and v: "New stat_of mapped loads dflt (f_VerthashDatFile c) = Inr hv"
    and n: "SetNetwork compactToBig mainNet testNet3 c (f_Network c) (f_Testnet c) hv = Some (n, cp)"
    using assms(1) by (auto simp: start_network_def split: option.splits sum.splits)
  obtain p f w where w: "datafile_path stat_of dflt (f_VerthashDatFile c) = Some p" "stat_of p = Present f" "hv = Some w" "holds_file f w"
    "datFileContent w = (if f = [] then None else Some f)" using New_at[OF v] by metis
  have c: "f_VerthashDatFile c = (if verthashDat fl \<noteq> '''' then verthashDat fl
      else f_VerthashDatFile (case yaml of None \<Rightarrow> default_config
        | Some decode \<Rightarrow> decode (if dataDir fl \<noteq> '''' \<and> entered then default_config\<lparr>f_DataDir := dataDir fl\<rparr> else default_config)))"
    using l by (auto simp: LoadConfig_def Let_def verthash_flag split: if_splits option.splits)
  have "n_Verthash n = Some hv" using n by (auto simp: SetNetwork_def split: if_splits)
  moreover have "if f_VerthashDatFile c \<noteq> '''' \<and> stat_of (f_VerthashDatFile c) \<noteq> Absent then p = f_VerthashDatFile c else dflt = Some p"
    using w(1) by (auto simp: datafile_path_def split: if_splits)
  moreover have "Hash sum256 sum512 hv b = (if length b = 80 then Inr (verthash_ref sum256 sum512 f b) else Inl (Bad_length (length b)))"
    if "32 \<le> length f" "length f < 2 ^ 32" unfolding w(3) by (rule Hash_total[OF w(4) that assms(2,3)])
  moreover have "Hash sum256 sum512 hv b = Inl Out_of_range" if "f \<noteq> []" "length f < 32" "length b = 80"
    unfolding w(3) using short_file_panics[OF _ that(2) assms(2,3) that(3)] w(5) that(1) by simp
  ultimately show ?thesis using w(2) c by (intro exI[of _ "f_VerthashDatFile c"] exI[of _ p] exI[of _ f] exI[of _ hv]) blast
qed

definition demo_params :: ChainParams where
  "demo_params = \<lparr>cp_Name = ''mainnet'', cp_PubKeyHashAddrID = 0, cp_ScriptHashAddrID = 5, cp_Bech32HRPSegwit = ''bc'', cp_WitnessPubKeyHashAddrID = 6,
     cp_WitnessScriptHashAddrID = 10, cp_PowLimit = 1\<rparr>"

text \<open>A start with \<open>-verthash v.dat\<close> where that file, and only it, is there.\<close>

definition demo_stat :: "string \<Rightarrow> stat" where "demo_stat q = (if q = ''v.dat'' then Present demo_file else Absent)"

theorem startup_hash_witness:
  "\<exists>c n cp hv. start_network Some (\<lambda>m. True) True None demo_stat True True None (\<lambda>b. uint b) demo_params demo_params
       (no_flags\<lparr>verthashDat := ''v.dat''\<rparr>) = Some (c, n, cp) \<and> n_Verthash n = Some hv
     \<and> Hash (demo_sum 32) (demo_sum 64) hv (replicate 80 1) = Inr (verthash_ref (demo_sum 32) (demo_sum 64) demo_file (replicate 80 1))"
proof -
  let ?fl = "no_flags\<lparr>verthashDat := ''v.dat''\<rparr>"
  obtain c where c: "LoadConfig Some (\<lambda>m. True) True None ?fl = Some c" by (simp add: LoadConfig_def no_flags_def Let_def)
  then have f: "f_VerthashDatFile c = ''v.dat''" "f_Network c = ''vertcoin''"
    by (auto simp: LoadConfig_def Let_def verthash_flag apply_flags_fields no_flags_def default_config_def)
  have "\<exists>n cp. start_network Some (\<lambda>m. True) True None demo_stat True True None (\<lambda>b. uint b) demo_params demo_params ?fl = Some (c, n, cp)"
    by (simp add: start_network_def c f New_def find_datafile_def NewVerthash_def Let_def SetNetwork_def demo_stat_def)
  then obtain n cp where s: "start_network Some (\<lambda>m. True) True None demo_stat True True None (\<lambda>b. uint b) demo_params demo_params ?fl = Some (c, n, cp)" by blast
  show ?thesis using s startup_hash[OF s, of "demo_sum 32" "demo_sum 64" "replicate 80 1"] by (auto simp: length_demo demo_stat_def split: if_splits)
qed

end
