(* ===== verification/Dashboard.thy ===== *)
theory Dashboard
  imports Stratum Settings "HOL-Library.Product_Lexorder"
begin

text \<open>
  The HTTP interface (\<open>web/dashboard.go\<close>): the figures of the page and the status endpoint, computed from the share chain, the work
  manager, the stratum server and the connections of the node. A response is a record with a field for each key of the JSON object.
  The theorems show that the status names exactly what a block built now pays to an address, when the node calls itself ready, and
  what the lists of miners and payouts hold. The order in which Go visits a map is that of the list, as elsewhere.
\<close>

subsection \<open>Formatting\<close>

text \<open>\<open>fmt\<close> with \<open>%d\<close> and \<open>%.nf\<close>: the exact value rounded to \<open>n\<close> decimals, ties to even.\<close>

definition fmt_d :: "int \<Rightarrow> string" where
  "fmt_d n = (if n < 0 then ''-'' @ dec_digits (nat (- n)) else dec_digits (nat n))"

definition fmt_f :: "nat \<Rightarrow> rat \<Rightarrow> string" where
  "fmt_f p x =
     (let n = nat (rne (\<bar>x\<bar> * 10 ^ p)); frac = dec_digits (n mod 10 ^ p)
      in (if x < 0 then ''-'' else '''') @ dec_digits (n div 10 ^ p)
         @ (if p = 0 then '''' else ''.'' @ replicate (p - length frac) CHR ''0'' @ frac))"

text \<open>\<open>time.Duration\<close>: a 64-bit number of nanoseconds, with Go's truncating division.\<close>

definition wrap64 :: "int \<Rightarrow> int" where "wrap64 n = sint (of_int n :: u64)"

definition to_duration :: "rat \<Rightarrow> time" where "to_duration sec = wrap64 (seconds (trunc_rat sec))"

definition in_units :: "int \<Rightarrow> time \<Rightarrow> rat" where
  "in_units u d = (let q = sgn d * (\<bar>d\<bar> div u) in fadd (f64 (of_int q)) (fdiv (f64 (of_int (d - q * u))) (of_int u)))"

abbreviation Hours :: "time \<Rightarrow> rat" where "Hours \<equiv> in_units 3600000000000"
abbreviation Minutes :: "time \<Rightarrow> rat" where "Minutes \<equiv> in_units 60000000000"
abbreviation Seconds :: "time \<Rightarrow> rat" where "Seconds \<equiv> in_units 1000000000"

text \<open>\<open>int(x) % n\<close>, with the sign of \<open>x\<close>.\<close>

definition int_mod :: "rat \<Rightarrow> int \<Rightarrow> int" where
  "int_mod x n = (let t = trunc_rat x in sgn t * (\<bar>t\<bar> mod n))"

definition formatHashrate :: "rat \<Rightarrow> string" where
  "formatHashrate hr =
     (if 10 ^ 12 < hr then fmt_f 2 (fdiv hr (10 ^ 12)) @ '' TH/s''
      else if 10 ^ 9 < hr then fmt_f 2 (fdiv hr (10 ^ 9)) @ '' GH/s''
      else if 10 ^ 6 < hr then fmt_f 2 (fdiv hr (10 ^ 6)) @ '' MH/s''
      else if 10 ^ 3 < hr then fmt_f 2 (fdiv hr (10 ^ 3)) @ '' kH/s''
      else fmt_f 2 hr @ '' H/s'')"

definition formatUptime :: "rat \<Rightarrow> string" where
  "formatUptime sec =
     (if sec \<le> 0 then ''0 seconds''
      else let d = to_duration sec; days = trunc_rat (fdiv (Hours d) 24); hours = int_mod (Hours d) 24; mins = int_mod (Minutes d) 60
           in if 0 < days then fmt_d days @ '' days '' @ fmt_d hours @ '' hours''
              else if 0 < hours then fmt_d hours @ '' hours '' @ fmt_d mins @ '' minutes''
              else fmt_d (trunc_rat (Minutes d)) @ '' minutes'')"

definition formatDurationAgo :: "time \<Rightarrow> time \<Rightarrow> string" where
  "formatDurationAgo now t =
     (if t = zeroTime then ''Never''
      else let d = now - t
           in if 48 < Hours d then fmt_f 0 (fdiv (Hours d) 24) @ '' days ago''
              else if 1 \<le> Hours d then fmt_f 0 (Hours d) @ '' hours ago''
              else if 1 \<le> Minutes d then fmt_f 0 (Minutes d) @ '' minutes ago''
              else fmt_f 0 (Seconds d) @ '' seconds ago'')"

definition formatTimeToBlock :: "rat \<Rightarrow> string" where
  "formatTimeToBlock sec =
     (if sec \<le> 0 then ''Unknown''
      else let d = to_duration sec
           in if 86400 * 2 < sec then fmt_f 1 (fdiv (Hours d) 24) @ '' days''
              else if 3600 \<le> sec then fmt_f 1 (Hours d) @ '' hours''
              else if 60 \<le> sec then fmt_f 1 (Minutes d) @ '' minutes''
              else fmt_f 1 (Seconds d) @ '' seconds'')"

definition formatAvgTime :: "rat \<Rightarrow> string" where
  "formatAvgTime sec =
     (if sec \<le> 0 then ''Unknown''
      else if 86400 * 7 < sec then ''> 1 week''
      else let d = to_duration sec; h = trunc_rat (Hours d); m = int_mod (Minutes d) 60; s = int_mod (Seconds d) 60
           in if s = 0 \<and> 0 < sec \<and> h = 0 \<and> m = 0 then ''0h 0m '' @ fmt_f 1 sec @ ''s''
              else fmt_d h @ ''h '' @ fmt_d m @ ''m '' @ fmt_d s @ ''s'')"

subsection \<open>The miners of this node\<close>

record aggregatedMiner =
  am_address :: string
  am_totalHashrate :: rat
  am_totalAccepted :: u64
  am_totalRejected :: u64
  am_currentDiff :: rat

definition minShareDiff :: "FullConfig \<Rightarrow> rat" where
  "minShareDiff cfg = (if v_MinDiff (f_Vardiff cfg) \<le> 0 then f64 (1 / 100) else v_MinDiff (f_Vardiff cfg))"

definition worker_of :: "Miner \<Rightarrow> string" where
  "worker_of m = (if m_WorkerName m = '''' then ''Unknown'' else m_WorkerName m)"

definition add_client :: "(Miner \<Rightarrow> rat) \<Rightarrow> rat \<Rightarrow> (string, aggregatedMiner) gomap \<Rightarrow> Miner \<Rightarrow> (string, aggregatedMiner) gomap" where
  "add_client hashrate minDiff mm m =
     (let curDiff = (if m_CurrentDifficulty m \<le> 0 then minDiff else m_CurrentDifficulty m);
          am0 = gm_get \<lparr>am_address = worker_of m, am_totalHashrate = 0, am_totalAccepted = 0, am_totalRejected = 0, am_currentDiff = curDiff\<rparr> mm (worker_of m);
          am1 = am0\<lparr>am_totalHashrate := fadd (am_totalHashrate am0) (hashrate m), am_totalAccepted := am_totalAccepted am0 + m_AcceptedShares m,
                    am_totalRejected := am_totalRejected am0 + m_RejectedShares m\<rparr>
      in gm_set (worker_of m) (if am_currentDiff am1 < curDiff then am1\<lparr>am_currentDiff := curDiff\<rparr> else am1) mm)"

definition minerMap :: "(Miner \<Rightarrow> rat) \<Rightarrow> rat \<Rightarrow> Miner list \<Rightarrow> (string, aggregatedMiner) gomap" where
  "minerMap hashrate minDiff ms = foldl (add_client hashrate minDiff) [] ms"

definition defaultMinerAddr :: "FullConfig \<Rightarrow> Miner list \<Rightarrow> string" where
  "defaultMinerAddr cfg ms = (case filter (\<lambda>w. w \<noteq> '''') (map m_WorkerName ms) of w # _ \<Rightarrow> w | [] \<Rightarrow> f_PoolAddress cfg)"

subsection \<open>The page\<close>

definition networkMinersHashrate :: "(string, NetworkMinerStats) gomap \<Rightarrow> (string, aggregatedMiner) gomap \<Rightarrow> rat" where
  "networkMinersHashrate netMiners mm =
     (let t = foldl (\<lambda>t (addr, nm). case map_of mm addr of
                 Some lm \<Rightarrow> fadd t (if nm_Hashrate nm < am_totalHashrate lm then am_totalHashrate lm else nm_Hashrate nm)
               | None \<Rightarrow> fadd t (nm_Hashrate nm)) 0 netMiners
      in foldl (\<lambda>t (addr, lm). if map_of netMiners addr = None then fadd t (am_totalHashrate lm) else t) t mm)"

definition page_hashrate :: "rat \<Rightarrow> rat \<Rightarrow> rat \<Rightarrow> rat" where
  "page_hashrate pool network local =
     (let h = (if pool < network then network else pool) in if h < local then local else h)"

definition page_time_to_block :: "PoolStats \<Rightarrow> rat \<Rightarrow> rat" where
  "page_time_to_block st h = (if 0 < h \<and> 0 < ps_NetworkHashrate st then fmul (fdiv (ps_NetworkHashrate st) h) 150 else ps_TimeToBlock st)"

text \<open>\<open>math.Round\<close>: half away from zero.\<close>

definition math_Round :: "rat \<Rightarrow> int" where
  "math_Round x = (if 0 \<le> x then \<lfloor>x + 1 / 2\<rfloor> else - \<lfloor>- x + 1 / 2\<rfloor>)"

definition reward_sats :: "WorkManager \<Rightarrow> int" where
  "reward_sats wm = math_Round (fmul (GetCurrentBlockReward wm) (10 ^ 8))"

definition payout_map :: "PayoutOutput list \<Rightarrow> (string, rat) gomap" where
  "payout_map outs = foldl (\<lambda>m out. gm_set (po_Address out) (fdiv (f64 (of_int (po_Amount out))) (10 ^ 8)) m) [] outs"

record miner_row =
  mr_address :: string
  mr_hashrate :: string
  mr_rejected_percentage :: rat
  mr_share_difficulty :: rat
  mr_avg_time_to_share :: string
  mr_payout_per_block :: rat
  mr_est_24_hour_payout :: rat

text \<open>The payout of a miner: its place in the window, or an estimate from its part of the hashrate.\<close>

definition miner_payout :: "rat \<Rightarrow> rat \<Rightarrow> aggregatedMiner \<Rightarrow> (string, rat) gomap \<Rightarrow> rat \<times> (string, rat) gomap" where
  "miner_payout poolHashrate netReward am pm =
     (case map_of pm (am_address am) of
        Some p \<Rightarrow> (p, pm)
      | None \<Rightarrow>
          (let q = fdiv (am_totalHashrate am) poolHashrate;
               proportion = (if 0 < poolHashrate then (if 1 < q then 1 else q) else 0);
               p = fmul proportion netReward
           in (p, if 0 < p then gm_set (am_address am) p pm else pm)))"

definition miner_row_of :: "rat \<Rightarrow> aggregatedMiner \<Rightarrow> rat \<Rightarrow> miner_row" where
  "miner_row_of expectedBlocks am p =
     (let total = am_totalAccepted am + am_totalRejected am;
          rejPct = (if 0 < total then fmul (fdiv (f64 (of_int (uint (am_totalRejected am)))) (f64 (of_int (uint total)))) 100 else 0);
          tts = (if 0 < am_totalHashrate am then fdiv (fmul (am_currentDiff am) hashrateConstant) (am_totalHashrate am) else 0)
      in \<lparr>mr_address = am_address am, mr_hashrate = formatHashrate (am_totalHashrate am), mr_rejected_percentage = rejPct,
          mr_share_difficulty = am_currentDiff am, mr_avg_time_to_share = formatAvgTime tts, mr_payout_per_block = p,
          mr_est_24_hour_payout = fmul p expectedBlocks\<rparr>)"

fun miner_rows :: "rat \<Rightarrow> rat \<Rightarrow> rat \<Rightarrow> (string, aggregatedMiner) gomap \<Rightarrow> string list \<Rightarrow> (string, rat) gomap \<Rightarrow> miner_row list \<times> (string, rat) gomap" where
  "miner_rows h netReward blocks mm [] pm = ([], pm)"
| "miner_rows h netReward blocks mm (a # as) pm =
     (case map_of mm a of
        None \<Rightarrow> miner_rows h netReward blocks mm as pm
      | Some am \<Rightarrow> (let (p, pm1) = miner_payout h netReward am pm; (rows, pm2) = miner_rows h netReward blocks mm as pm1
                    in (miner_row_of blocks am p # rows, pm2)))"

definition payouts_list :: "(string, rat) gomap \<Rightarrow> (string \<times> rat) list" where
  "payouts_list pm = take 50 (sort_key (\<lambda>(a, x). (- x, a)) (filter (\<lambda>(a, x). a \<noteq> '''' \<and> a \<noteq> ''Unknown'' \<and> 0 < x) pm))"

text \<open>The connections of the node: the peer, whether it called us, and its address. Slicing an identifier of fewer than twelve
  characters is a panic.\<close>

record conn =
  cn_peer :: string
  cn_inbound :: bool
  cn_addr :: string

definition peer_entry :: "conn \<Rightarrow> string option" where
  "peer_entry c =
     (let parts = split_on CHR ''/'' (cn_addr c)
      in if 5 \<le> length parts then Some (parts ! 2 @ '':'' @ parts ! 4)
         else if length (cn_peer c) < 12 then None else Some (take 12 (cn_peer c)))"

fun first_conns :: "string list \<Rightarrow> conn list \<Rightarrow> conn list" where
  "first_conns seen [] = []"
| "first_conns seen (c # cs) = (if cn_peer c \<in> set seen then first_conns seen cs else c # first_conns (cn_peer c # seen) cs)"

record page =
  pg_peers_inbound :: nat
  pg_peers_outbound :: nat
  pg_peer_list :: "string list"
  pg_node_uptime :: string
  pg_network_difficulty :: rat
  pg_connected_miners :: nat
  pg_last_block_found_ago :: string
  pg_pool_fee :: rat
  pg_global_network_hashrate :: string
  pg_p2pool_network_hashrate :: string
  pg_local_node_hashrate :: string
  pg_shares_total :: int
  pg_shares_orphan :: int
  pg_shares_dead :: int
  pg_blocks_found_24h :: nat
  pg_block_reward :: rat
  pg_min_share_difficulty :: rat
  pg_time_to_block :: string
  pg_stratum_port :: int
  pg_active_miners :: "miner_row list"
  pg_payouts :: "(string \<times> rat) list"
  pg_blocks :: "(u32 \<times> string) list"

definition day :: time where "day = minutes (24 * 60)"

text \<open>\<open>conns\<close> is empty when the node has no host. \<open>GetRecentBlocks\<close> leaves the found blocks sorted; \<open>None\<close> is a panic.\<close>

definition ServeHTTP :: "env \<Rightarrow> FullConfig \<Rightarrow> time \<Rightarrow> time \<Rightarrow> conn list \<Rightarrow> StratumServer \<Rightarrow> (page \<times> WorkManager) option" where
  "ServeHTTP E cfg start now conns sv =
     (let wm = sv_wm sv; sc = wm_ShareChain wm; st = GetStats sc; ms = clients sv;
          mm = minerMap (\<lambda>m. GetHashrateForClient now (m_ID m) sv) (minShareDiff cfg) ms;
          local = GetLocalHashrate now sv;
          h = page_hashrate (ps_PoolHashrate st) (networkMinersHashrate (GetNetworkMiners E sc now (minutes 10)) mm) local;
          ttb = page_time_to_block st h;
          reward = GetCurrentBlockReward wm;
          netReward = fmul reward (fsub 1 (fdiv (f_Fee cfg) 100));
          blocks = (if 0 < ttb then fdiv 86400 ttb else 0);
          outs = CalculatePPLNSOutputs E (reward_sats wm) (defaultMinerAddr cfg ms) (Some sc);
          (rows, pm) = miner_rows h netReward blocks mm (sort (gm_keys mm)) (payout_map outs);
          (recent, wm1) = GetRecentBlocks 50 wm;
          cs = first_conns [] conns
      in case those (map peer_entry cs) of
           None \<Rightarrow> None
         | Some peers \<Rightarrow>
             Some (\<lparr>pg_peers_inbound = length (filter cn_inbound cs), pg_peers_outbound = length (filter (\<lambda>c. \<not> cn_inbound c) cs),
                    pg_peer_list = sort peers, pg_node_uptime = formatUptime (Seconds (now - start)),
                    pg_network_difficulty = ps_NetworkDifficulty st, pg_connected_miners = length mm,
                    pg_last_block_found_ago = formatDurationAgo now (GetLastBlockFoundTime wm), pg_pool_fee = f_Fee cfg,
                    pg_global_network_hashrate = formatHashrate (ps_NetworkHashrate st), pg_p2pool_network_hashrate = formatHashrate h,
                    pg_local_node_hashrate = formatHashrate local, pg_shares_total = ps_SharesTotal st, pg_shares_orphan = ps_SharesOrphan st,
                    pg_shares_dead = ps_SharesDead st, pg_blocks_found_24h = GetBlocksFoundInLast now day wm1, pg_block_reward = reward,
                    pg_min_share_difficulty = minShareDiff cfg, pg_time_to_block = formatTimeToBlock ttb, pg_stratum_port = f_StratumPort cfg,
                    pg_active_miners = rows, pg_payouts = payouts_list pm,
                    pg_blocks = map (\<lambda>b. (pb_BlockHeight b, formatDurationAgo now (pb_FoundTime b)))
                                  (filter (\<lambda>b. now - pb_FoundTime b \<le> day) (case recent of Some bs \<Rightarrow> bs | None \<Rightarrow> []))\<rparr>, wm1))"

subsection \<open>The status\<close>

definition statusNetworkDifficulty :: "env \<Rightarrow> rat \<Rightarrow> u32 \<Rightarrow> rat" where
  "statusNetworkDifficulty E statsDiff recentBits = (if 0 < statsDiff then statsDiff else BitsToNetworkDiff E recentBits)"

definition Version :: string where "Version = ''v1.1.0''"

record status =
  su_ready :: bool
  su_state :: string
  su_version :: string
  su_has_template :: bool
  su_synced :: bool
  su_peers :: nat
  su_shares_total :: int
  su_height :: int
  su_difficulty :: rat
  su_share_difficulty :: rat
  su_block_reward :: rat
  su_expected_payout :: rat
  su_expected_payout_sats :: int
  su_payouts :: "(string, rat) gomap"
  su_stratum_port :: int
  su_p2p_port :: int
  su_network :: string
  su_testnet :: bool
  su_uptime_seconds :: int

definition template_height :: "(string, BlockTemplate) gomap \<Rightarrow> int" where
  "template_height ts = foldl (\<lambda>h (k, t). if h < t_Height t then t_Height t else h) 0 ts"

definition targetAddr :: "FullConfig \<Rightarrow> Miner list \<Rightarrow> string \<Rightarrow> string" where
  "targetAddr cfg ms query =
     (if trim_space query \<noteq> '''' then trim_space query
      else case filter (\<lambda>w. w \<noteq> '''' \<and> w \<noteq> ''Unknown'') (map (\<lambda>m. trim_space (m_WorkerName m)) ms) of w # _ \<Rightarrow> w | [] \<Rightarrow> f_PoolAddress cfg)"

definition expected_payout :: "string \<Rightarrow> PayoutOutput list \<Rightarrow> rat \<times> int" where
  "expected_payout target outs =
     foldl (\<lambda>acc out. if target \<noteq> '''' \<and> po_Address out = target then (fdiv (f64 (of_int (po_Amount out))) (10 ^ 8), po_Amount out) else acc) (0, 0) outs"

definition ServeStatus :: "env \<Rightarrow> FullConfig \<Rightarrow> time \<Rightarrow> time \<Rightarrow> nat \<Rightarrow> string \<Rightarrow> StratumServer \<Rightarrow> status" where
  "ServeStatus E cfg start now peerCount query sv =
     (let wm = sv_wm sv; sc = wm_ShareChain wm; st = GetStats sc;
          hasTemplate = (wm_Templates wm \<noteq> []);
          target = targetAddr cfg (clients sv) query;
          outs = CalculatePPLNSOutputs E (reward_sats wm) target (Some sc);
          (vtc, sats) = expected_payout target outs;
          synced = IsSynced now wm;
          chainReady = (f_SoloMode cfg \<or> 0 < peerCount \<or> 0 < ps_SharesTotal st);
          ready = (synced \<and> hasTemplate \<and> chainReady);
          state = (if \<not> f_LightMode cfg \<and> (\<not> hasTemplate \<or> \<not> IsRPCHealthy wm) then ''waiting_rpc''
                   else if \<not> hasTemplate then ''waiting_template'' else if \<not> ready then ''syncing_sharechain'' else ''ready'')
      in \<lparr>su_ready = ready, su_state = state, su_version = Version, su_has_template = hasTemplate, su_synced = synced, su_peers = peerCount,
          su_shares_total = ps_SharesTotal st, su_height = template_height (wm_Templates wm),
          su_difficulty = statusNetworkDifficulty E (ps_NetworkDifficulty st) (GetRecentNetworkBits E sc),
          su_share_difficulty = GetPoolShareDifficulty E sc, su_block_reward = GetCurrentBlockReward wm, su_expected_payout = vtc,
          su_expected_payout_sats = sats, su_payouts = payout_map outs, su_stratum_port = f_StratumPort cfg, su_p2p_port = f_P2PPort cfg,
          su_network = f_Network cfg, su_testnet = f_Testnet cfg, su_uptime_seconds = trunc_rat (Seconds (now - start))\<rparr>)"

subsection \<open>The reward\<close>

text \<open>The value of the template survives its way through \<open>float64\<close> coins and back.\<close>

lemma f64_near:
  assumes "1 / 2 ^ 27 \<le> x" shows "\<bar>f64 x - x\<bar> \<le> x / 2 ^ 53"
proof -
  have x: "0 < x" by (rule less_le_trans[OF _ assms]) simp
  have "(2 :: rat) powi (- 27) = 1 / 2 ^ 27" by (simp only: power_int_minus power_int_numeral inverse_eq_divide)
  then have "2 powi (- 27) \<le> \<bar>x\<bar>" using assms x by linarith
  then have "-27 \<le> ilog2 \<bar>x\<bar>" by (rule ilog2_ge)
  then have "\<bar>f64 x - x\<bar> \<le> \<bar>x\<bar> / 2 ^ 53" using x by (intro f64_err) linarith+
  then show ?thesis using x by (simp only: abs_of_pos)
qed

lemma coins_and_back:
  assumes "0 < v" "v \<le> 2 ^ 50" shows "math_Round (fmul (fdiv (f64 (of_int v)) (10 ^ 8)) (10 ^ 8)) = v"
proof -
  let ?V = "of_int v :: rat"
  define y where "y = f64 (?V / 10 ^ 8)"
  define z where "z = f64 (y * 10 ^ 8)"
  define q where "q = ?V / 2 ^ 53"
  have V: "1 \<le> ?V" "?V \<le> 2 ^ 50" using assms of_int_le_iff[of 1 v] of_int_le_iff[of v "2 ^ 50"] by simp_all
  have "\<bar>y - ?V / 10 ^ 8\<bar> \<le> ?V / 10 ^ 8 / 2 ^ 53" unfolding y_def using V by (intro f64_near) simp
  then have "y - ?V / 10 ^ 8 \<le> ?V / 10 ^ 8 / 2 ^ 53" "- (y - ?V / 10 ^ 8) \<le> ?V / 10 ^ 8 / 2 ^ 53" by (simp_all only: abs_le_iff)
  then have y: "y * 10 ^ 8 - ?V \<le> ?V / 2 ^ 53" "?V - y * 10 ^ 8 \<le> ?V / 2 ^ 53" by (simp_all add: field_simps)
  then have y: "y * 10 ^ 8 - ?V \<le> q" "?V - y * 10 ^ 8 \<le> q" by (simp_all only: q_def)
  have q: "q \<le> ?V / 4" "(1 :: rat) / 2 ^ 27 \<le> 1 / 2" "6 * q < 1" using V by (simp_all add: q_def)
  have yb: "y * 10 ^ 8 \<le> 2 * ?V" "1 / 2 ^ 27 \<le> y * 10 ^ 8" using y q(1,2) V(1) by linarith+
  have "\<bar>z - y * 10 ^ 8\<bar> \<le> y * 10 ^ 8 / 2 ^ 53" unfolding z_def by (rule f64_near[OF yb(2)])
  also have "\<dots> \<le> 2 * q" using yb(1) unfolding q_def by (simp add: divide_right_mono)
  finally have "z - y * 10 ^ 8 \<le> 2 * q" "- (z - y * 10 ^ 8) \<le> 2 * q" by (simp_all only: abs_le_iff)
  then have "\<bar>z - ?V\<bar> < 1 / 2" using y q(3) by linarith
  then have z: "?V - 1 / 2 < z" "z < ?V + 1 / 2" by linarith+
  have "\<lfloor>z + 1 / 2\<rfloor> = v" unfolding floor_eq_iff using z by simp
  moreover have "0 \<le> z" using z V by linarith
  moreover have "f64 ?V = ?V" using assms by (intro f64_int) simp
  ultimately show ?thesis by (simp add: math_Round_def z_def y_def)
qed

lemma reward_exact:
  assumes "GetLatestTemplate wm = Some t" "0 < t_CoinbaseValue t" "t_CoinbaseValue t \<le> 2 ^ 50"
  shows "reward_sats wm = t_CoinbaseValue t"
  using coins_and_back[OF assms(2,3)] assms(1) by (simp add: reward_sats_def GetCurrentBlockReward_def)

subsection \<open>What an address expects\<close>

lemma expected_payout_paid:
  assumes "distinct (map po_Address outs)" "a \<noteq> ''''" shows "snd (expected_payout a outs) = paid outs a"
proof -
  let ?f = "\<lambda>acc out. if a \<noteq> '''' \<and> po_Address out = a then (fdiv (f64 (of_int (po_Amount out))) (10 ^ 8), po_Amount out) else acc"
  have none: "foldl ?f acc outs = acc" if "a \<notin> set (map po_Address outs)" for acc outs
    using that by (induction outs arbitrary: acc) auto
  have "snd (foldl ?f (r, 0) outs) = paid outs a" for r using assms(1)
  proof (induction outs)
    case (Cons out outs)
    have "paid outs a = 0" if "po_Address out = a" 
    proof -
      have "filter (\<lambda>x. po_Address x = a) outs = []" 
      proof -
        have "a \<notin> po_Address ` set outs" using that Cons.prems by auto
        then show ?thesis by (auto simp: filter_empty_conv)
      qed
      then show ?thesis by (simp only: paid_def) simp
    qed
    then show ?case using Cons none[of outs] assms(2) by (auto simp: paid_def)
  qed (simp add: paid_def)
  then show ?thesis by (simp add: expected_payout_def)
qed

text \<open>C17: The status names, to the satoshi, what the payout of a block built now from the latest template gives to the address asked for, although the
  reward passes through coins in floating point.\<close>

theorem status_payout_exact:
  assumes "GetLatestTemplate (sv_wm sv) = Some t" "0 < t_CoinbaseValue t" "t_CoinbaseValue t \<le> 2 ^ 50" "targetAddr cfg (clients sv) query = a" "a \<noteq> ''''"
  shows "su_expected_payout_sats (ServeStatus E cfg start now peers query sv)
    = paid (CalculatePPLNSOutputsAtTip E (t_CoinbaseValue t) a (Some (wm_ShareChain (sv_wm sv))) (GetTipHash (wm_ShareChain (sv_wm sv)))) a"
proof -
  let ?outs = "CalculatePPLNSOutputsAtTip E (t_CoinbaseValue t) a (Some (wm_ShareChain (sv_wm sv))) (GetTipHash (wm_ShareChain (sv_wm sv)))"
  have "distinct (map po_Address ?outs)" using pplns_outputs_facts[OF assms(2)] by blast
  from expected_payout_paid[OF this assms(5)] show ?thesis
    by (simp add: ServeStatus_def Let_def case_prod_beta reward_exact[OF assms(1-3)] assms(4) CalculatePPLNSOutputs_def)
qed

subsection \<open>Ready\<close>

text \<open>The state is \<open>ready\<close> exactly when the flag is set and the node answers, or none is needed. A node that was in sync and lost its
  vertcoind therefore reports \<open>ready: true\<close> together with the state \<open>waiting_rpc\<close>, until its last block is five minutes old.\<close>

theorem status_state:
  fixes E cfg start now peers query sv
  defines "s \<equiv> ServeStatus E cfg start now peers query sv"
  shows "(su_state s = ''ready'' \<longleftrightarrow> su_ready s \<and> (f_LightMode cfg \<or> IsRPCHealthy (sv_wm sv)))
    \<and> (su_ready s \<and> su_state s \<noteq> ''ready'' \<longleftrightarrow> su_ready s \<and> su_state s = ''waiting_rpc'' \<and> \<not> f_LightMode cfg \<and> \<not> IsRPCHealthy (sv_wm sv))"
  by (auto simp: s_def ServeStatus_def Let_def case_prod_beta)

subsection \<open>The rows of the page\<close>

lemma sum_gm_set:
  fixes f :: "'v \<Rightarrow> 'g :: ab_group_add"
  assumes "gm_wf m"
  shows "(\<Sum>x \<leftarrow> gm_set k v m. f (snd x)) = (\<Sum>x \<leftarrow> m. f (snd x)) + f v - (case map_of m k of Some w \<Rightarrow> f w | None \<Rightarrow> 0)"
  using assms
proof (induction m)
  case (Cons x m)
  have "map_of m (fst x) = None" using Cons.prems by (simp add: map_of_eq_None_iff)
  then show ?case using Cons by (cases x) (auto simp: gm_set_def)
qed (simp add: gm_set_def)

definition named :: "(string, aggregatedMiner) gomap \<Rightarrow> bool" where
  "named mm \<longleftrightarrow> gm_wf mm \<and> (\<forall>(a, am) \<in> set mm. am_address am = a)"

lemma add_client_facts:
  assumes "named mm"
  shows "named (add_client hr d mm m)" "set (gm_keys (add_client hr d mm m)) = insert (worker_of m) (set (gm_keys mm))"
    "(\<Sum>x \<leftarrow> add_client hr d mm m. am_totalAccepted (snd x)) = (\<Sum>x \<leftarrow> mm. am_totalAccepted (snd x)) + m_AcceptedShares m"
    "(\<Sum>x \<leftarrow> add_client hr d mm m. am_totalRejected (snd x)) = (\<Sum>x \<leftarrow> mm. am_totalRejected (snd x)) + m_RejectedShares m"
proof -
  have wf: "gm_wf mm" using assms by (simp add: named_def)
  obtain am where am: "add_client hr d mm m = gm_set (worker_of m) am mm" "am_address am = worker_of m"
    "am_totalAccepted am = m_AcceptedShares m + (case map_of mm (worker_of m) of Some w \<Rightarrow> am_totalAccepted w | None \<Rightarrow> 0)"
    "am_totalRejected am = m_RejectedShares m + (case map_of mm (worker_of m) of Some w \<Rightarrow> am_totalRejected w | None \<Rightarrow> 0)"
    using assms gm_mem_wf[OF wf] by (fastforce simp: add_client_def Let_def gm_get_def named_def split: option.splits)
  show "named (add_client hr d mm m)"
    using assms am(2) gm_mem_wf[of "gm_set (worker_of m) am mm"] gm_mem_wf[OF wf] by (auto simp: named_def am(1) split: if_splits)
  show "set (gm_keys (add_client hr d mm m)) = insert (worker_of m) (set (gm_keys mm))" by (simp only: am(1) gm_keys_set)
  show "(\<Sum>x \<leftarrow> add_client hr d mm m. am_totalAccepted (snd x)) = (\<Sum>x \<leftarrow> mm. am_totalAccepted (snd x)) + m_AcceptedShares m"
    by (simp add: am(1,3) sum_gm_set[OF wf, of am_totalAccepted] split: option.split)
  show "(\<Sum>x \<leftarrow> add_client hr d mm m. am_totalRejected (snd x)) = (\<Sum>x \<leftarrow> mm. am_totalRejected (snd x)) + m_RejectedShares m"
    by (simp add: am(1,4) sum_gm_set[OF wf, of am_totalRejected] split: option.split)
qed

lemma add_clients_facts:
  fixes hr :: "Miner \<Rightarrow> rat" and d :: rat and ms :: "Miner list"
  assumes "named mm"
  defines "mm' \<equiv> foldl (add_client hr d) mm ms"
  shows "named mm' \<and> set (gm_keys mm') = worker_of ` set ms \<union> set (gm_keys mm)
    \<and> (\<Sum>x \<leftarrow> mm'. am_totalAccepted (snd x)) = (\<Sum>x \<leftarrow> mm. am_totalAccepted (snd x)) + (\<Sum>m \<leftarrow> ms. m_AcceptedShares m)
    \<and> (\<Sum>x \<leftarrow> mm'. am_totalRejected (snd x)) = (\<Sum>x \<leftarrow> mm. am_totalRejected (snd x)) + (\<Sum>m \<leftarrow> ms. m_RejectedShares m)"
  unfolding mm'_def using assms(1)
proof (induction ms arbitrary: mm)
  case (Cons m ms)
  show ?case using Cons.IH[OF add_client_facts(1)[OF Cons.prems]] add_client_facts(2-4)[OF Cons.prems] by simp
qed simp

lemmas minerMap_facts = add_clients_facts[of "[]", folded minerMap_def]

text \<open>The rows keep the order of the addresses and add estimates only for miners outside the window.\<close>

definition extends_payouts :: "string list \<Rightarrow> (string, rat) gomap \<Rightarrow> (string, rat) gomap \<Rightarrow> bool" where
  "extends_payouts as pm pm' \<longleftrightarrow> (gm_wf pm \<longrightarrow> gm_wf pm') \<and> (\<forall>a p. map_of pm a = Some p \<longrightarrow> map_of pm' a = Some p)
     \<and> (\<forall>a p. map_of pm' a = Some p \<longrightarrow> map_of pm a = Some p \<or> a \<in> set as \<and> map_of pm a = None)"

lemma miner_payout_extends: "extends_payouts [am_address am] pm (snd (miner_payout h r am pm))"
  by (auto simp: extends_payouts_def miner_payout_def Let_def split: option.splits if_splits)

lemma extends_trans: "extends_payouts as pm pm1 \<Longrightarrow> extends_payouts bs pm1 pm2 \<Longrightarrow> extends_payouts (as @ bs) pm pm2"
  unfolding extends_payouts_def by (metis Un_iff not_None_eq set_append)

lemma miner_rows_facts:
  assumes "named mm" "set as \<subseteq> set (gm_keys mm)"
  shows "map mr_address (fst (miner_rows h r b mm as pm)) = as \<and> extends_payouts as pm (snd (miner_rows h r b mm as pm))"
  using assms(2)
proof (induction as arbitrary: pm)
  case (Cons a as)
  then obtain am where am: "map_of mm a = Some am" by (auto simp: set_gm_keys simp del: set_map)
  then have n: "am_address am = a" using assms(1) by (auto simp: named_def dest: map_of_SomeD)
  have "extends_payouts ([a] @ as) pm (snd (miner_rows h r b mm as (snd (miner_payout h r am pm))))"
    using Cons miner_payout_extends[of am pm h r] by (intro extends_trans[of "[a]" pm "snd (miner_payout h r am pm)" as]) (simp_all add: n)
  then show ?case using Cons by (simp add: am case_prod_beta miner_row_of_def Let_def n)
qed (simp add: extends_payouts_def)

lemma payout_map_facts:
  assumes "distinct (map po_Address outs)"
  shows "gm_wf (payout_map outs)" "map_of (payout_map outs) a = Some x \<longleftrightarrow> (\<exists>out \<in> set outs. po_Address out = a \<and> x = fdiv (f64 (of_int (po_Amount out))) (10 ^ 8))"
proof -
  let ?f = "\<lambda>m out. gm_set (po_Address out) (fdiv (f64 (of_int (po_Amount out))) (10 ^ 8)) m"
  have wf: "gm_wf m \<Longrightarrow> gm_wf (foldl ?f m outs)" for m by (induction outs arbitrary: m) simp_all
  then show "gm_wf (payout_map outs)" by (simp add: payout_map_def)
  have "map_of (foldl ?f m outs) a = Some x \<longleftrightarrow> (\<exists>out \<in> set outs. po_Address out = a \<and> x = fdiv (f64 (of_int (po_Amount out))) (10 ^ 8)) \<or> a \<notin> po_Address ` set outs \<and> map_of m a = Some x" for m
    using assms
  proof (induction outs arbitrary: m)
    case (Cons out outs)
    then show ?case by (cases "po_Address out = a") (auto simp: image_iff)
  qed simp
  from this[of "[]"] show "map_of (payout_map outs) a = Some x \<longleftrightarrow> (\<exists>out \<in> set outs. po_Address out = a \<and> x = fdiv (f64 (of_int (po_Amount out))) (10 ^ 8))"
    by (simp add: payout_map_def)
qed

text \<open>The eligible payouts, largest first.\<close>

lemma largest_facts:
  fixes xs :: "(string \<times> rat) list" and n :: nat
  defines "ys \<equiv> take n (sort_key (\<lambda>(a, x). (- x, a)) xs)"
  assumes "distinct (map fst xs)"
  shows "distinct (map fst ys)" "sorted_wrt (\<lambda>p q. snd q \<le> snd p) ys" "set ys \<subseteq> set xs"
proof -
  let ?k = "\<lambda>(a :: string, x :: rat). (- x, a)" and ?s = "sort_key (\<lambda>(a, x). (- x, a)) xs"
  have "distinct (map fst ?s) = distinct (map fst xs)" by (rule mset_eq_imp_distinct_iff) simp
  then have "distinct (map fst ?s)" using assms(2) by (rule iffD2)
  then show "distinct (map fst ys)" unfolding ys_def take_map[symmetric] by (rule distinct_take)
  have "sorted_wrt (\<lambda>p q. ?k p \<le> ?k q) ?s" using sorted_sort_key[of ?k xs] by (simp only: sorted_map)
  then have "sorted_wrt (\<lambda>p q. ?k p \<le> ?k q) ys" unfolding ys_def by (rule sorted_wrt_take)
  then show "sorted_wrt (\<lambda>p q. snd q \<le> snd p) ys" by (rule sorted_wrt_mono_rel[rotated]) (auto simp: less_eq_prod_def)
  show "set ys \<subseteq> set xs" using set_take_subset[of n ?s] by (simp add: ys_def)
qed

lemma payouts_list_facts:
  assumes "gm_wf pm"
  shows "length (payouts_list pm) \<le> 50" "distinct (map fst (payouts_list pm))" "sorted_wrt (\<lambda>p q. snd q \<le> snd p) (payouts_list pm)"
    "(a, x) \<in> set (payouts_list pm) \<Longrightarrow> map_of pm a = Some x \<and> 0 < x"
proof -
  define e where "e = filter (\<lambda>(a, x). a \<noteq> '''' \<and> a \<noteq> ''Unknown'' \<and> 0 < x) pm"
  have pl: "payouts_list pm = take 50 (sort_key (\<lambda>(a, x). (- x, a)) e)" by (simp only: payouts_list_def e_def)
  have d: "distinct (map fst e)" unfolding e_def using assms by (rule distinct_map_filter)
  show "length (payouts_list pm) \<le> 50" by (simp add: pl)
  show "distinct (map fst (payouts_list pm))" "sorted_wrt (\<lambda>p q. snd q \<le> snd p) (payouts_list pm)"
    unfolding pl by (rule largest_facts[OF d])+
  show "map_of pm a = Some x \<and> 0 < x" if "(a, x) \<in> set (payouts_list pm)"
  proof -
    have "(a, x) \<in> set e" using that largest_facts(3)[OF d, of 50] unfolding pl by blast
    then have "(a, x) \<in> set pm" "0 < x" unfolding e_def by simp_all
    then show ?thesis using gm_mem_wf[OF assms] by blast
  qed
qed

text \<open>An estimate comes on top of the payouts of the window, which already share out the whole reward.\<close>

lemma estimate_on_top:
  assumes "gm_wf pm" "map_of pm (am_address am) = None" "0 < fst (miner_payout h r am pm)"
  shows "(\<Sum>x \<leftarrow> snd (miner_payout h r am pm). snd x) = (\<Sum>x \<leftarrow> pm. snd x) + fst (miner_payout h r am pm)"
  using assms sum_gm_set[OF assms(1), of "\<lambda>x. x" "am_address am"] by (simp add: miner_payout_def Let_def)

text \<open>C18: The page has one row for each worker name among the connected miners, in order. It lists at most fifty payouts, one per address, the largest
  first; each is the amount of the window for the reward of the latest template, or an estimate for a miner of this node that is not in
  the window. Serving it leaves the found blocks as they are, up to their order.\<close>

theorem page_lists:
  assumes "ServeHTTP E cfg start now conns sv = Some (pg, wm')"
  defines "outs \<equiv> CalculatePPLNSOutputs E (reward_sats (sv_wm sv)) (defaultMinerAddr cfg (clients sv)) (Some (wm_ShareChain (sv_wm sv)))"
  shows "map mr_address (pg_active_miners pg) = sorted_list_of_set (worker_of ` set (clients sv))
    \<and> pg_connected_miners pg = card (worker_of ` set (clients sv))
    \<and> length (pg_payouts pg) \<le> 50 \<and> distinct (map fst (pg_payouts pg)) \<and> sorted_wrt (\<lambda>p q. snd q \<le> snd p) (pg_payouts pg)
    \<and> (\<forall>(a, x) \<in> set (pg_payouts pg). 0 < x \<and> ((\<exists>out \<in> set outs. po_Address out = a \<and> x = fdiv (f64 (of_int (po_Amount out))) (10 ^ 8))
          \<or> a \<in> worker_of ` set (clients sv) \<and> a \<notin> po_Address ` set outs))
    \<and> mset (wm_PendingBlocks wm') = mset (wm_PendingBlocks (sv_wm sv))"
proof -
  define mm where "mm = minerMap (\<lambda>m. GetHashrateForClient now (m_ID m) sv) (minShareDiff cfg) (clients sv)"
  have mm: "named mm" "set (gm_keys mm) = worker_of ` set (clients sv)" using minerMap_facts[of _ _ "clients sv"] by (simp_all add: mm_def named_def del: set_map)
  obtain h r b where rows: "pg_active_miners pg = fst (miner_rows h r b mm (sort (gm_keys mm)) (payout_map outs))"
    "pg_payouts pg = payouts_list (snd (miner_rows h r b mm (sort (gm_keys mm)) (payout_map outs)))"
    "pg_connected_miners pg = length mm" "wm' = snd (GetRecentBlocks 50 (sv_wm sv))"
    using assms(1) unfolding ServeHTTP_def Let_def outs_def mm_def case_prod_beta by (auto split: option.splits)
  have d: "distinct (map po_Address outs)" unfolding outs_def CalculatePPLNSOutputs_def
    using pplns_outputs_facts(4)[of "reward_sats (sv_wm sv)"] by (cases "0 < reward_sats (sv_wm sv)") (auto simp: CalculatePPLNSOutputsAtTip_def)
  have wf: "gm_wf mm" using mm(1) by (simp add: named_def)
  have s: "sort (gm_keys mm) = sorted_list_of_set (worker_of ` set (clients sv))" "length mm = card (worker_of ` set (clients sv))"
    unfolding mm(2)[symmetric] using wf distinct_card[OF wf]
    by (simp_all add: sorted_list_of_set_sort_remdups distinct_remdups_id del: set_map)
  define pm where "pm = snd (miner_rows h r b mm (sort (gm_keys mm)) (payout_map outs))"
  have f: "map mr_address (pg_active_miners pg) = sort (gm_keys mm)" "extends_payouts (sort (gm_keys mm)) (payout_map outs) pm"
    using miner_rows_facts[OF mm(1), of "sort (gm_keys mm)" h r b "payout_map outs"] by (simp_all add: rows(1) pm_def)
  then have pm: "gm_wf pm" using payout_map_facts(1)[OF d] by (simp add: extends_payouts_def)
  have "\<forall>(a, x) \<in> set (pg_payouts pg). 0 < x \<and> ((\<exists>out \<in> set outs. po_Address out = a \<and> x = fdiv (f64 (of_int (po_Amount out))) (10 ^ 8))
          \<or> a \<in> worker_of ` set (clients sv) \<and> a \<notin> po_Address ` set outs)"
  proof (clarify)
    fix a x assume "(a, x) \<in> set (pg_payouts pg)"
    then have x: "map_of pm a = Some x" "0 < x" using payouts_list_facts(4)[OF pm] by (simp_all add: rows(2) pm_def)
    then have "map_of (payout_map outs) a = Some x \<or> a \<in> set (gm_keys mm) \<and> map_of (payout_map outs) a = None" using f(2) by (auto simp: extends_payouts_def)
    moreover have "map_of (payout_map outs) a = None \<Longrightarrow> a \<notin> po_Address ` set outs" using payout_map_facts(2)[OF d, of a] by auto
    ultimately show "0 < x \<and> ((\<exists>out \<in> set outs. po_Address out = a \<and> x = fdiv (f64 (of_int (po_Amount out))) (10 ^ 8)) \<or> a \<in> worker_of ` set (clients sv) \<and> a \<notin> po_Address ` set outs)"
      using x(2) payout_map_facts(2)[OF d, of a x] unfolding mm(2)[symmetric] by blast
  qed
  then show ?thesis using f(1) s payouts_list_facts(1-3)[OF pm] by (simp add: rows(2-4) pm_def GetRecentBlocks_def Let_def)
qed

subsection \<open>Examples\<close>

theorem page_lists_witness:
  "\<exists>pg wm'. ServeHTTP demo_env default_config 0 0 [] (register_miner (NewMiner 1 [1, 2, 3, 4] ''h'' 0) empty_server) = Some (pg, wm')
     \<and> map mr_address (pg_active_miners pg) = [''Unknown''] \<and> pg_connected_miners pg = 1"
proof -
  let ?sv = "register_miner (NewMiner 1 [1, 2, 3, 4] ''h'' 0) empty_server"
  have "\<exists>pg wm'. ServeHTTP demo_env default_config 0 0 [] ?sv = Some (pg, wm')" by (simp add: ServeHTTP_def Let_def case_prod_beta)
  then obtain pg wm' where pg: "ServeHTTP demo_env default_config 0 0 [] ?sv = Some (pg, wm')" by blast
  have "worker_of ` set (clients ?sv) = {''Unknown''}" by (simp add: register_miner_def empty_server_def NewMiner_def worker_of_def)
  then show ?thesis using pg page_lists[OF pg] by auto
qed

text \<open>The time to a block in a small pool overflows: a duration has 64 bits of nanoseconds, so from about 292 years on the page shows a
  negative number of days.\<close>

lemma to_duration_wraps:
  assumes "9223372037 \<le> sec" "sec \<le> 18446740000" shows "to_duration sec \<le> - 4073709551616"
proof -
  define k where "k = \<lfloor>sec\<rfloor>"
  let ?n = "k * 1000000000"
  have b: "9223372037 \<le> k" "k \<le> 18446740000" using assms by (simp_all add: k_def le_floor_iff floor_le_iff)
  have "signed_take_bit 63 ?n = signed_take_bit 63 (?n - 2 ^ 64)"
    by (rule signed_take_bit_eq_iff_take_bit_eq[THEN iffD2]) (simp add: take_bit_eq_mod mod_diff_eq)
  also have "\<dots> = ?n - 2 ^ 64" using b by (intro signed_take_bit_int_eq_self) simp_all
  finally have "signed_take_bit 63 ?n = ?n - 2 ^ 64" .
  moreover have "trunc_rat sec = k" using assms by (simp add: trunc_rat_def k_def)
  moreover have "sint (of_int ?n :: u64) = signed_take_bit 63 ?n" by (subst sint_sbintrunc') simp
  ultimately have "to_duration sec = ?n - 2 ^ 64" by (simp only: to_duration_def wrap64_def)
  then show ?thesis using b by simp
qed

lemma in_units_below:
  assumes "0 < u" "d \<le> - u" shows "in_units u d \<le> - 1"
proof -
  define q where "q = sgn d * (\<bar>d\<bar> div u)"
  have d: "d < 0" using assms by simp
  have "u div u \<le> \<bar>d\<bar> div u" using assms d by (intro zdiv_mono1) simp_all
  then have q: "q \<le> - 1" using assms d by (simp add: q_def)
  have "d - q * u = - (\<bar>d\<bar> mod u)" using d by (simp add: q_def minus_mult_div_eq_mod[symmetric] algebra_simps)
  then have r: "d - q * u \<le> 0" using assms by simp
  have m: "f64 (- 1) = - 1" using f64_int[of "- 1"] by simp
  have "f64 (of_int q) \<le> - 1" using q by (intro f64.le_rep[OF m]) (metis of_int_le_iff of_int_minus of_int_1)
  moreover have "fdiv (f64 (of_int (d - q * u))) (of_int u) \<le> 0" 
    using r assms(1) of_int_le_iff[of "d - q * u" 0, where 'a = rat] by (intro f64.nonpos divide_nonpos_pos) (simp_all only: of_int_0 of_int_0_less_iff)
  ultimately show ?thesis unfolding in_units_def Let_def q_def[symmetric] by (intro f64.le_rep[OF m]) simp
qed

lemma time_to_block_negative:
  assumes "9223372037 \<le> sec" "sec \<le> 18446740000" shows "hd (formatTimeToBlock sec) = CHR ''-''"
proof -
  have "Hours (to_duration sec) \<le> - 1" using to_duration_wraps[OF assms] by (intro in_units_below) simp_all
  then have "Hours (to_duration sec) / 24 \<le> - (1 / 32)" by linarith
  moreover have "f64 (- (1 / 32)) = - (1 / 32)" using f64_pow[of "- 5"] by (simp add: f64.rnd_minus power_int_minus)
  ultimately have "fdiv (Hours (to_duration sec)) 24 \<le> - (1 / 32)" by (intro f64.le_rep)
  then have "fdiv (Hours (to_duration sec)) 24 < 0" by linarith
  then show ?thesis using assms by (simp add: formatTimeToBlock_def Let_def fmt_f_def)
qed

definition demo_pool :: StratumServer where
  "demo_pool = empty_server\<lparr>sv_wm := (sv_wm empty_server)\<lparr>wm_Templates := [(''p'', demo_tmpl 1250000001)]\<rparr>\<rparr>"

theorem status_payout_exact_witness:
  "su_expected_payout_sats (ServeStatus demo_env default_config 0 0 0 ''a'' demo_pool)
     = paid (CalculatePPLNSOutputsAtTip demo_env 1250000001 ''a'' (Some (wm_ShareChain (sv_wm demo_pool))) (GetTipHash (wm_ShareChain (sv_wm demo_pool)))) ''a''"
proof -
  have "GetLatestTemplate (sv_wm demo_pool) = Some (demo_tmpl 1250000001)" by (simp add: demo_pool_def GetLatestTemplate_def)
  from status_payout_exact[OF this, where query = "''a''" and a = "''a''" and cfg = default_config and E = demo_env and start = 0 and now = 0 and peers = 0]
  show ?thesis by (simp add: demo_tmpl_def targetAddr_def trim_space_def is_space_def)
qed

end
