(* ===== verification/Spec2Isabelle.thy ===== *)
theory Spec2Isabelle
  imports ShareVerify ShareSync ShareStore ShareCreate Manager Stratum Peers Wiring Verthash Settings Networks Dashboard
begin

text \<open>
  Verification library of p2pool-go-VTC, a decentralised mining pool for Vertcoin.

  \<^bold>\<open>The program.\<close> Miners connect over stratum. Each gets jobs whose coinbase already pays the pool's
  miners by their recent shares (PPLNS). A solution that meets the pool's difficulty becomes a share of the share
  chain, which nodes exchange; a solution that meets the network's difficulty becomes a Vertcoin block. The share
  chain (\<open>work/sharechain.go\<close>) decides what a share may pay, so every node checks the coinbase of every share against
  the window that ends at its parent. The work manager (\<open>work/manager.go\<close>) holds block templates, submits solved
  blocks, follows found blocks until they mature, and in light mode takes templates from trusted peers. The stratum
  server (\<open>stratum/\<close>) makes jobs from templates and the chain's tip, judges submissions, and hands shares and blocks on.

  \<^bold>\<open>The theories\<close>, each importing the ones it uses, and the code they model:
  \<^item> \<open>Prelude\<close>: bytes, hexadecimal, Go maps as association lists with distinct keys, lemma collections.
  \<^item> \<open>Types\<close>: the records of \<open>work/share.go\<close> and \<open>work/template.go\<close>; \<open>env\<close>, the code outside the repository.
  \<^item> \<open>Float64\<close>, \<open>Difficulty\<close>: \<open>float64\<close> and \<open>big.Float\<close> rounding; \<open>DiffToTarget\<close>, \<open>TargetToDiff\<close> (\<open>work/util.go\<close>).
  \<^item> \<open>Fips180\<close>: SHA-256 as FIPS 180-4 states it, with the constants from the roots of the primes; it uses nothing of the code.
  \<^item> \<open>Sha256\<close>: the streaming digest of \<open>util/sha256.go\<close> on 32-bit words, refined to that standard for every message; the standard
    is evaluated on its own test vector.
  \<^item> \<open>Merkle\<close>: merkle trees and links, the witness commitment (\<open>work/util.go\<close>, \<open>work/transaction.go\<close>, \<open>util/util.go\<close>).
  \<^item> \<open>Address\<close>, \<open>Coinbase\<close>: \<open>work/coinbase.go\<close>. The payout adds up to the reward, a coinbase built by one node passes the
    check of the others when the scripts it pays differ, and a coinbase that passes pays exactly the window.
  \<^item> \<open>ShareCheck\<close>, \<open>ShareCreate\<close>: \<open>work/share.go\<close>. What \<open>IsValid\<close> accepts and commits to; the share made from a solution.
  \<^item> \<open>ShareChain\<close>, \<open>ShareWork\<close>, \<open>ShareVerify\<close>, \<open>ShareSync\<close>, \<open>ShareStats\<close>: \<open>work/sharechain.go\<close>. Walks and windows; the
    incremental cumulative work equals its recomputation; the tip is the heaviest verified share where works are apart; every state
    reached over shares whose links do not loop is consistent (\<open>chain_state_inv\<close>, by rule induction over the operations); what is
    asked of and answered to peers.
  \<^item> \<open>ShareStore\<close>: \<open>work/sharestore.go\<close> over any database that keeps the laws \<open>bolt_ok\<close> of a transactional bucket.
  \<^item> \<open>Unworked\<close>: which functions do not depend on the proof-of-work function, for what a synchronisation message can do.
  \<^item> \<open>Rpc\<close>: \<open>rpc/client.go\<close>, \<open>rpc/blocks.go\<close>: requests, error classes and retries against any server.
  \<^item> \<open>FoundBlocks\<close>, \<open>Submit\<close>, \<open>Templates\<close>, \<open>LightMode\<close>, \<open>Manager\<close>: \<open>work/manager.go\<close>. Found blocks and their maturity, block
    submission with its retries, templates, light mode with its header proofs and votes, and the invariant of all of them.
  \<^item> \<open>Miner\<close>, \<open>Stratum\<close>: \<open>stratum/\<close>. Rate monitor, jobs, difficulty, submissions. No submission is credited twice in any run;
    a submission is credited exactly under the stated conditions; difficulties stay within their bounds.
  \<^item> \<open>Peers\<close>: \<open>p2p/\<close>. Scores of peers, downloads of missing shares, known peers, header challenges, templates and relays.
  \<^item> \<open>VerthashGraph\<close>, \<open>Verthash\<close>: \<open>verthash/\<close>. The data file: both generators agree and label every node from the parents
    \<open>GetParents\<close> names. The hash: a reference definition, whose reads stay inside the file.
  \<^item> \<open>Wiring\<close>: \<open>main.go\<close>. The gossip validator, the loop over incoming shares, the synchronisation callbacks; runs of the
    whole program (\<open>app_run\<close>), of which each component sees a run of its own.

  \<^item> \<open>Settings\<close>: \<open>config/config.go\<close>. Defaults, file and flags in their order; the trusted and the bootstrap peers that result.
  \<^item> \<open>Networks\<close>: \<open>net/\<close>. The active network, and a start of the program from its flags to the hash of a header.
  \<^item> \<open>Dashboard\<close>: \<open>web/dashboard.go\<close>. The figures of the page and of the status, which names what a block built now would pay.

  The root ends with the properties that need several of these at once.

  \<^bold>\<open>How code becomes definitions.\<close> A struct is a record, a handler a function from state to state, with its result or
  error as a value. A Go \<open>error\<close> is a constructor of the component's error type; a panic is \<open>None\<close> or a constructor of its
  own. An operation is one step: the methods are functions on the state they lock, and the inductive relations
  (\<open>chain_state\<close>, \<open>store_state\<close>, \<open>wm_state\<close>, \<open>stratum_run\<close>, \<open>node_run\<close>, \<open>app_run\<close>) run whole operations in any order. Most operations are one
  mutex section. \<open>AddSharesOutcomes\<close> with \<open>verifyPending\<close>, and \<open>sendMiningJob\<close> with its three reads of the share chain, are several, and
  in the program another operation can run between them; the theorems speak of runs in which none does. \<open>prune_mark_race\<close> shows
  that this matters: \<open>PruneOldShares\<close> between two sections of \<open>verifyPending\<close> leaves a share verified that is not held. A \<open>go\<close>
  statement is a task in the handler's result. The clock, random numbers, and the results of I/O are arguments. Fixed-width integers are words
  where they can wrap (\<open>u32\<close>, \<open>u64\<close>, bytes), \<open>int\<close> where the code stays far from the limits (times in nanoseconds, amounts);
  \<open>float64\<close> is the rational it denotes, with every operation rounded.

  \<^bold>\<open>Parameters.\<close> Code outside the repository is the record \<open>env\<close>: base58 and bech32, transaction encoding, hash strings, compact
  bits. Its field for the verthash of a header is instantiated by \<open>verthash_engine\<close>, and \<open>incoming_on\<close> adds the panics of the hash; SHA-3, YAML and address parsers are arguments. Facts about it are hypotheses of the theorems that need them, discharged on
  \<open>demo_env\<close> and its variants in the witnesses. The database, the HTTP server and the node are arguments too.

  \<^bold>\<open>Bounds.\<close> The chain walks carry the code's own step bound (the number of held shares plus one), which
  \<open>walk_bound_enough\<close> shows to suffice on acyclic chains; acyclicity (\<open>ranked\<close>) is an invariant as long as a rank
  falls from every share handed in to its parent (\<open>forward\<close>). Shares whose hashes were computed from their headers keep to that; the
  code does not compare a claimed hash with the header, and \<open>self_loop\<close> is a share that does not keep to it. The work queue of \<open>updateWorkLocked\<close> is fuelled by the number of shares, shown to suffice. Retries
  recurse on the attempts left. The generators of the data file are partial functions, shown to return for every index
  up to 46 (from 47 on the file offset overflows \<open>int64\<close>); the program uses 17. In \<open>stratum_run\<close> the 64-bit job counter does not overflow.

  \<^bold>\<open>Not modelled.\<close> Of the node (\<open>p2p/\<close>): the construction of the libp2p host, discovery, streams and compression; a message is
  its decoded value. Of \<open>main.go\<close>: the order of start-up, signals, timers and log lines. The encoding of JSON responses, static
  files, logging, the query of the public address and the debug proxy, which are input, output or unused by
  the modelled code. NaN and infinities do not arise in the modelled arithmetic: divisors are bounded away from zero and
  operands are finite.
\<close>

subsection \<open>Properties that span components\<close>

text \<open>The loop over incoming shares on a given hasher. The bytes hashed are those of the share's header; where the hash panics
  (a slice of the data file out of range), and where the header's merkle root would, the loop does.\<close>

definition pow_bytes :: "env \<Rightarrow> Share \<Rightarrow> byte list option" where
  "pow_bytes E s = (case FullBlockHeader E s of Inr hdr \<Rightarrow> e_HeaderBytes E hdr | Inl _ \<Rightarrow> None)"

definition incoming_on ::
  "(byte list \<Rightarrow> byte list) \<Rightarrow> (byte list \<Rightarrow> byte list) \<Rightarrow> Verthash option \<Rightarrow> env \<Rightarrow> time \<Rightarrow> MiningInfo option \<Rightarrow> Share option \<Rightarrow> string
   \<Rightarrow> 'db App \<Rightarrow> ('db App \<times> bool \<times> task list) option" where
  "incoming_on sum256 sum512 hv E now info data sender a =
     (let panics = (\<lambda>s. FullBlockHeader E s = Inl GoPanic
            \<or> (case pow_bytes E s of Some b \<Rightarrow> Hash sum256 sum512 hv b = Inl Out_of_range | None \<Rightarrow> False))
      in if (case data of Some s \<Rightarrow> panics s | None \<Rightarrow> False) then None
         else incoming_share (E\<lparr>e_Verthash := verthash_engine sum256 sum512 hv\<rparr>) now info data sender a)"

text \<open>C13: 
  The hasher the program opens at its start decides whether gossip can crash it. With a data file of 32 bytes to 4 GiB
  no share a peer gossips makes the loop over incoming shares panic: the hash never reads outside the file, and the share
  that results has a proof-of-work hash. With a file of 1 to 31 bytes, which the start accepts as well, every share whose
  header can be built and encoded in 80 bytes does.
\<close>

theorem gossip_never_panics:
  assumes "New stat_of mapped loads dflt configured = Inr hv" "datafile_path stat_of dflt configured = Some p" "stat_of p = Present f"
    "\<And>b. length (sum256 b) = 32" "\<And>b. length (sum512 b) = 64"
  shows "(32 \<le> length f \<and> length f < 2 ^ 32 \<longrightarrow> incoming_on sum256 sum512 hv E now info data sender a \<noteq> None)
    \<and> (f \<noteq> [] \<and> length f < 32 \<and> pow_bytes E s = Some b \<and> length b = 80
        \<longrightarrow> incoming_on sum256 sum512 hv E now info (Some s) sender a = None)"
proof -
  obtain v where v: "hv = Some v" "holds_file f v" "datFileContent v = (if f = [] then None else Some f)"
    using New_at[OF assms(1)] assms(2,3) by (metis option.inject stat.inject)
  have t: "incoming_share (E\<lparr>e_Verthash := verthash_engine sum256 sum512 hv\<rparr>) now info data sender a \<noteq> None"
    by (rule incoming_total) (simp add: engine_length)
  have "Hash sum256 sum512 hv x \<noteq> Inl Out_of_range" if "32 \<le> length f" "length f < 2 ^ 32" for x
    unfolding v(1) Hash_total[OF v(2) that assms(4,5)] by simp
  then have "32 \<le> length f \<and> length f < 2 ^ 32 \<longrightarrow> incoming_on sum256 sum512 hv E now info data sender a \<noteq> None"
    using t FullBlockHeader_no_panic by (auto simp: incoming_on_def split: option.split)
  moreover have "Hash sum256 sum512 hv b = Inl Out_of_range" if "f \<noteq> []" "length f < 32" "length b = 80"
    unfolding v(1) using short_file_panics[OF _ that(2) assms(4,5) that(3)] v(3) that(1) by simp
  ultimately show ?thesis by (auto simp: incoming_on_def)
qed

text \<open>The same share on a data file of 96 bytes and on one of a single byte.\<close>

definition gossip_env :: env where
  "gossip_env = lazy_env\<lparr>e_HeaderBytes := \<lambda>h. Some (replicate 80 1)\<rparr>"

lemma gossip_header: "pow_bytes gossip_env (demo_link 0) = Some (replicate 80 1)"
  by (simp add: pow_bytes_def gossip_env_def lazy_env_def work_env_def store_env_def FullBlockHeader_def demo_link_def demo_share_def demo_env_def)

theorem gossip_never_panics_witness:
  "incoming_on (demo_sum 32) (demo_sum 64) (Some \<lparr>datFileContent = Some demo_file, datFile = Some demo_file, datFileSize = 96, isMmap = True\<rparr>)
      gossip_env 0 None (Some (demo_link 0)) ''x'' fresh_app \<noteq> None
   \<and> incoming_on (demo_sum 32) (demo_sum 64) (Some \<lparr>datFileContent = Some [1], datFile = Some [1], datFileSize = 1, isMmap = True\<rparr>)
      gossip_env 0 None (Some (demo_link 0)) ''x'' fresh_app = None"
proof
  have n: "New (\<lambda>q. Present f) True True None ''v'' = Inr (Some \<lparr>datFileContent = Some f, datFile = Some f, datFileSize = int (length f), isMmap = True\<rparr>)"
    "datafile_path (\<lambda>q. Present f) None ''v'' = Some ''v''" if "f \<noteq> []" for f
    using that by (simp_all add: New_def find_datafile_def NewVerthash_def datafile_path_def Let_def)
  show "incoming_on (demo_sum 32) (demo_sum 64) (Some \<lparr>datFileContent = Some demo_file, datFile = Some demo_file, datFileSize = 96, isMmap = True\<rparr>)
      gossip_env 0 None (Some (demo_link 0)) ''x'' fresh_app \<noteq> None"
    using gossip_never_panics[OF n(1,2), of demo_file demo_file "demo_sum 32" "demo_sum 64"] length_demo by fastforce
  show "incoming_on (demo_sum 32) (demo_sum 64) (Some \<lparr>datFileContent = Some [1], datFile = Some [1], datFileSize = 1, isMmap = True\<rparr>)
      gossip_env 0 None (Some (demo_link 0)) ''x'' fresh_app = None"
    using gossip_never_panics[OF n(1,2), of "[1]" "[1]" "demo_sum 32" "demo_sum 64"] gossip_header length_demo by fastforce
qed

end
